(* ===== verification/Prelude.thy ===== *)
theory Prelude
  imports Main "HOL-Library.Word" "HOL-Library.FSet" "HOL-Library.Finite_Map"
begin

text \<open>
  Shared vocabulary of the development: the machine types of the source, Rust's
  \<open>Result\<close> with its early return, checked and saturating \<open>usize\<close> arithmetic, the
  generic lemmas on finite maps and sums, and the interface of a state machine with an
  invariant, whose reachability lemma every stateful component uses.
\<close>

unbundle bit_operations_syntax

section \<open>Machine types\<close>

text \<open>
  Values that travel on the wire or can wrap keep their width. Lengths and capacities
  (\<open>usize\<close>, 64 bits on every supported target) are \<^typ>\<open>nat\<close> with the bound of the type
  written out in the checked operations. A monotonic \<open>Instant\<close> and a \<open>Duration\<close> are
  natural numbers of nanoseconds; the reading of the clock is an argument of the
  operations that call \<open>Instant::now\<close>.
\<close>

type_synonym u8 = "8 word"
type_synonym u16 = "16 word"
type_synonym u32 = "32 word"
type_synonym u64 = "64 word"
type_synonym bytes = "u8 list"
type_synonym instant = nat
type_synonym duration = nat

abbreviation usize_max :: nat where
  "usize_max \<equiv> 18446744073709551615"

definition checked_add_usize :: "nat \<Rightarrow> nat \<Rightarrow> nat option" where
  "checked_add_usize a b = (if a + b \<le> usize_max then Some (a + b) else None)"

definition saturating_add_usize :: "nat \<Rightarrow> nat \<Rightarrow> nat" where
  "saturating_add_usize a b = min (a + b) usize_max"

definition checked_add_u64 :: "u64 \<Rightarrow> u64 \<Rightarrow> u64 option" where
  "checked_add_u64 a b = (if unat a + unat b < 2 ^ 64 then Some (a + b) else None)"

lemma checked_add_usize_Some [simp]:
  "checked_add_usize a b = Some c \<longleftrightarrow> c = a + b \<and> a + b \<le> usize_max"
  by (auto simp: checked_add_usize_def)

lemma checked_add_usize_None [simp]:
  "checked_add_usize a b = None \<longleftrightarrow> usize_max < a + b"
  by (auto simp: checked_add_usize_def)

lemma checked_add_u64_SomeD:
  "checked_add_u64 a b = Some c \<Longrightarrow> c = a + b \<and> unat c = unat a + unat b"
  by (auto simp: checked_add_u64_def unat_word_ariths split: if_splits)

lemma checked_add_u64_Some_iff:
  "checked_add_u64 a b = Some c \<longleftrightarrow> unat a + unat b < 2 ^ 64 \<and> c = a + b"
  by (auto simp: checked_add_u64_def)

lemma unat_u32_lt: "unat (w :: u32) < 4294967296"
  using unsigned_less [of w] by simp

lemma unat_u64_lt: "unat (w :: u64) < 18446744073709551616"
  using unsigned_less [of w] by simp

lemma unat_ucast_u32_u64 [simp]: "unat (ucast (w :: u32) :: u64) = unat w"
  using unat_u32_lt [of w] by (simp add: unsigned_ucast_eq take_bit_nat_eq_self)

section \<open>Bytes and bit fields\<close>

lemma unat_u8_lt: "unat (w :: u8) < 256"
  using unsigned_less [of w] by simp

lemma unat_byte_low: "unat ((b :: u8) AND 0x7f) = unat b mod 128"
proof -
  have "b AND 0x7f = take_bit 7 b" by (simp add: take_bit_eq_mask mask_eq_exp_minus_1)
  then have "unat (b AND 0x7f) = take_bit 7 (unat b)" by (simp only: unsigned_take_bit_eq)
  then show ?thesis by (simp add: take_bit_eq_mod)
qed

lemma byte_high_clear: "(b :: u8) AND 0x80 = 0 \<longleftrightarrow> unat b < 128"
proof -
  have "b AND 0x80 = 0 \<longleftrightarrow> \<not> bit b 7"
    using and_exp_eq_0_iff_not_bit [of b 7] by simp
  also have "\<dots> \<longleftrightarrow> \<not> bit (unat b) 7" by (simp add: bit_unsigned_iff)
  also have "\<dots> \<longleftrightarrow> even (unat b div 128)" by (simp add: bit_iff_odd)
  also have "\<dots> \<longleftrightarrow> unat b < 128"
  proof -
    have "unat b div 128 = 0 \<or> unat b div 128 = 1"
      using unat_u8_lt [of b] by auto
    then show ?thesis by (auto simp: div_eq_0_iff)
  qed
  finally show ?thesis .
qed

lemma unat_or_push_bit:
  fixes v b :: "'a :: len word"
  assumes "unat v < 2 ^ n" "unat b < 2 ^ m" "n + m \<le> LENGTH('a)"
  shows "unat (v OR push_bit n b) = unat v + 2 ^ n * unat b"
proof -
  have "\<not> bit v k \<or> \<not> bit (push_bit n b) k" for k
  proof (cases "k < n")
    case True
    then show ?thesis by (simp add: bit_push_bit_iff)
  next
    case False
    have "take_bit n (unat v) = unat v" using assms(1) by (simp add: take_bit_nat_eq_self)
    then have "\<not> bit (unat v) k" using False by (metis bit_take_bit_iff)
    then show ?thesis by (simp add: bit_unsigned_iff)
  qed
  then have "v OR push_bit n b = v + push_bit n b" by (simp add: disjunctive_add)
  moreover have "2 ^ n * unat b + 2 ^ n \<le> 2 ^ n * 2 ^ m"
    using assms(2) by (metis Suc_leI mult.commute mult_Suc_right mult_le_mono2 add.commute)
  then have lt: "2 ^ n * unat b + 2 ^ n \<le> 2 ^ LENGTH('a)"
    using assms(3) by (metis le_trans one_le_numeral power_add power_increasing)
  then have "2 ^ n * unat b < 2 ^ LENGTH('a)"
    by (metis add_lessD1 add_less_cancel_left le_eq_less_or_eq less_add_same_cancel1 zero_less_numeral zero_less_power)
  then have u: "unat (push_bit n b) = 2 ^ n * unat b"
    using unsigned_push_bit_eq [of n b, where 'a = nat]
    by (metis mod_less mult.commute push_bit_nat_def take_bit_nat_def)
  ultimately show ?thesis
    using lt assms(1) by (simp only: unat_word_ariths u) simp
qed

section \<open>Results and the early return\<close>

text \<open>
  \<open>Result<T, E>\<close> is \<open>'e + 'a\<close> with the error on the left. \<open>bindE\<close> is the \<open>?\<close> operator
  of a function without state. A method that takes \<open>&mut self\<close> returns the result and
  the state it leaves behind, also on the error path; \<open>tryE r s k\<close> is \<open>?\<close> there: an
  error returns at once, with the state as it is at that point.
\<close>

definition bindE :: "'e + 'a \<Rightarrow> ('a \<Rightarrow> 'e + 'b) \<Rightarrow> 'e + 'b" where
  "bindE r k = (case r of Inl e \<Rightarrow> Inl e | Inr a \<Rightarrow> k a)"

definition ensure :: "bool \<Rightarrow> 'e \<Rightarrow> 'e + unit" where
  "ensure c e = (if c then Inr () else Inl e)"

definition ok_or :: "'a option \<Rightarrow> 'e \<Rightarrow> 'e + 'a" where
  "ok_or x e = (case x of None \<Rightarrow> Inl e | Some a \<Rightarrow> Inr a)"

definition tryE :: "'e + 'a \<Rightarrow> 's \<Rightarrow> ('a \<Rightarrow> ('e + 'b) \<times> 's) \<Rightarrow> ('e + 'b) \<times> 's" where
  "tryE r s k = (case r of Inl e \<Rightarrow> (Inl e, s) | Inr a \<Rightarrow> k a)"

text \<open>\<open>bindS\<close> runs one step and goes on with its value in the state it left behind.\<close>

definition bindS :: "('e + 'a) \<times> 's \<Rightarrow> ('a \<Rightarrow> 's \<Rightarrow> ('e + 'b) \<times> 's) \<Rightarrow> ('e + 'b) \<times> 's" where
  "bindS m k = (case m of (Inl e, s) \<Rightarrow> (Inl e, s) | (Inr a, s) \<Rightarrow> k a s)"

named_theorems result_simps \<open>evaluation and inversion of results\<close>

lemma bindE_Inl [simp]: "bindE (Inl e) k = Inl e"
  by (simp add: bindE_def)

lemma bindE_Inr [simp]: "bindE (Inr a) k = k a"
  by (simp add: bindE_def)

lemma bindE_eq_Inr [result_simps]:
  "bindE r k = Inr b \<longleftrightarrow> (\<exists>a. r = Inr a \<and> k a = Inr b)"
  by (cases r) auto

lemma bindE_eq_Inl [result_simps]:
  "bindE r k = Inl e \<longleftrightarrow> r = Inl e \<or> (\<exists>a. r = Inr a \<and> k a = Inl e)"
  by (cases r) auto

lemma ensure_eq_Inr [simp]: "ensure c e = Inr u \<longleftrightarrow> c"
  by (simp add: ensure_def)

lemma ensure_eq_Inl [simp]: "ensure c e = Inl e' \<longleftrightarrow> \<not> c \<and> e' = e"
  by (auto simp: ensure_def)

lemma ensure_True [simp]: "ensure True e = Inr ()"
  by (simp add: ensure_def)

lemma ensure_False [simp]: "ensure False e = Inl e"
  by (simp add: ensure_def)

lemma ok_or_eq_Inr [simp]: "ok_or x e = Inr a \<longleftrightarrow> x = Some a"
  by (auto simp: ok_or_def split: option.splits)

lemma ok_or_eq_Inl [simp]: "ok_or x e = Inl e' \<longleftrightarrow> x = None \<and> e' = e"
  by (auto simp: ok_or_def split: option.splits)

lemma ok_or_Some [simp]: "ok_or (Some a) e = Inr a"
  by (simp add: ok_or_def)

lemma ok_or_None [simp]: "ok_or None e = Inl e"
  by (simp add: ok_or_def)

lemma tryE_Inl [simp]: "tryE (Inl e) s k = (Inl e, s)"
  by (simp add: tryE_def)

lemma tryE_Inr [simp]: "tryE (Inr a) s k = k a"
  by (simp add: tryE_def)

lemma tryE_eq_Inr [result_simps]:
  "tryE r s k = (Inr b, t) \<longleftrightarrow> (\<exists>a. r = Inr a \<and> k a = (Inr b, t))"
  by (cases r) auto

lemma tryE_eq_Inl [result_simps]:
  "tryE r s k = (Inl e, t) \<longleftrightarrow> (r = Inl e \<and> t = s) \<or> (\<exists>a. r = Inr a \<and> k a = (Inl e, t))"
  by (cases r) auto

lemma bindS_simps [simp]:
  "bindS (Inl e, s) k = (Inl e, s)"
  "bindS (Inr a, s) k = k a s"
  by (simp_all add: bindS_def)

lemma bindS_eq_Inr [result_simps]:
  "bindS m k = (Inr b, t) \<longleftrightarrow> (\<exists>a s. m = (Inr a, s) \<and> k a s = (Inr b, t))"
  by (auto simp: bindS_def split: prod.splits sum.splits)

lemma bindS_eq_Inl [result_simps]:
  "bindS m k = (Inl e, t) \<longleftrightarrow>
     m = (Inl e, t) \<or> (\<exists>a s. m = (Inr a, s) \<and> k a s = (Inl e, t))"
  by (auto simp: bindS_def split: prod.splits sum.splits)

lemma bindE_cong [fundef_cong]:
  "r = r' \<Longrightarrow> (\<And>a. r' = Inr a \<Longrightarrow> k a = k' a) \<Longrightarrow> bindE r k = bindE r' k'"
  by (cases r') auto

lemma bindS_cong:
  "m = m' \<Longrightarrow> (\<And>a s. m' = (Inr a, s) \<Longrightarrow> k a s = k' a s) \<Longrightarrow> bindS m k = bindS m' k'"
  by (auto simp: bindS_def split: prod.splits sum.splits)

lemma tryE_cong:
  "r = r' \<Longrightarrow> s = s' \<Longrightarrow> (\<And>a. r' = Inr a \<Longrightarrow> k a = k' a) \<Longrightarrow> tryE r s k = tryE r' s' k'"
  by (cases r') auto

lemma tryE_split:
  "P (tryE r s k) \<longleftrightarrow> (\<forall>e. r = Inl e \<longrightarrow> P (Inl e, s)) \<and> (\<forall>a. r = Inr a \<longrightarrow> P (k a))"
  by (cases r) auto

lemma bindE_split:
  "P (bindE r k) \<longleftrightarrow> (\<forall>e. r = Inl e \<longrightarrow> P (Inl e)) \<and> (\<forall>a. r = Inr a \<longrightarrow> P (k a))"
  by (cases r) auto

section \<open>Checking every element in order\<close>

text \<open>A \<open>for\<close> loop whose body may return an error: the first error wins.\<close>

fun for_all :: "('a \<Rightarrow> 'e + unit) \<Rightarrow> 'a list \<Rightarrow> 'e + unit" where
  "for_all f [] = Inr ()"
| "for_all f (x # xs) = bindE (f x) (\<lambda>_. for_all f xs)"

lemma for_all_eq_Inr: "for_all f xs = Inr u \<longleftrightarrow> (\<forall>x \<in> set xs. f x = Inr ())"
  by (induction xs) (auto simp: result_simps)

section \<open>Byte strings\<close>

text \<open>
  The string operations the source uses: ASCII classification of a byte,
  \<open>str::strip_prefix\<close>, \<open>starts_with\<close> and \<open>ends_with\<close> on a single character, and
  \<open>str::split\<close> on a separator, which yields one more piece than there are separators.
\<close>

abbreviation byte_of :: "char \<Rightarrow> nat" where
  "byte_of c \<equiv> of_char c"

definition is_ascii :: "string \<Rightarrow> bool" where
  "is_ascii s \<longleftrightarrow> list_all (\<lambda>c. byte_of c < 128) s"

definition is_ascii_lowercase :: "char \<Rightarrow> bool" where
  "is_ascii_lowercase c \<longleftrightarrow> 97 \<le> byte_of c \<and> byte_of c \<le> 122"

definition is_ascii_uppercase :: "char \<Rightarrow> bool" where
  "is_ascii_uppercase c \<longleftrightarrow> 65 \<le> byte_of c \<and> byte_of c \<le> 90"

definition is_ascii_digit :: "char \<Rightarrow> bool" where
  "is_ascii_digit c \<longleftrightarrow> 48 \<le> byte_of c \<and> byte_of c \<le> 57"

definition is_ascii_alphanumeric :: "char \<Rightarrow> bool" where
  "is_ascii_alphanumeric c \<longleftrightarrow> is_ascii_lowercase c \<or> is_ascii_uppercase c \<or> is_ascii_digit c"

definition strip_prefix :: "string \<Rightarrow> string \<Rightarrow> string option" where
  "strip_prefix p s = (if take (length p) s = p then Some (drop (length p) s) else None)"

definition starts_with_char :: "char \<Rightarrow> string \<Rightarrow> bool" where
  "starts_with_char c s \<longleftrightarrow> s \<noteq> [] \<and> hd s = c"

definition ends_with_char :: "char \<Rightarrow> string \<Rightarrow> bool" where
  "ends_with_char c s \<longleftrightarrow> s \<noteq> [] \<and> last s = c"

fun split_on :: "char \<Rightarrow> string \<Rightarrow> string list" where
  "split_on sep [] = [[]]"
| "split_on sep (c # cs) =
     (if c = sep then [] # split_on sep cs
      else (case split_on sep cs of
              [] \<Rightarrow> [[c]]
            | piece # pieces \<Rightarrow> (c # piece) # pieces))"

lemmas ascii_defs =
  is_ascii_def is_ascii_lowercase_def is_ascii_uppercase_def is_ascii_digit_def
  is_ascii_alphanumeric_def

lemma split_on_nonempty [simp]: "split_on sep s \<noteq> []"
  by (induction s) (auto split: list.splits)

lemma length_split_on: "length (split_on sep s) = Suc (count_list s sep)"
  by (induction s) (auto split: list.splits)

lemma strip_prefix_SomeD: "strip_prefix p s = Some t \<Longrightarrow> s = p @ t"
  by (metis append_take_drop_id option.distinct(1) option.sel strip_prefix_def)

lemma strip_prefix_append [simp]: "strip_prefix p (p @ t) = Some t"
  by (simp add: strip_prefix_def)

section \<open>Finite maps\<close>

lemma fcard_finsert_new: "x |\<notin>| A \<Longrightarrow> fcard (finsert x A) = Suc (fcard A)"
  by (simp add: fcard_finsert_disjoint)

lemma fcard_fmdom_upd:
  "fcard (fmdom (fmupd k v m)) = (if k |\<in>| fmdom m then fcard (fmdom m) else Suc (fcard (fmdom m)))"
  by (auto simp: fcard_finsert_new finsert_absorb)

lemma fcard_fmdom_drop_le: "fcard (fmdom (fmdrop k m)) \<le> fcard (fmdom m)"
  by (metis fcard_mono fminus_iff fmdom_drop fsubsetI)

lemma fmlookup_SomeD: "fmlookup m k = Some v \<Longrightarrow> k |\<in>| fmdom m"
  by (rule fmdomI)

text \<open>\<open>map.get(&k).copied().unwrap_or(d)\<close>, and the entry \<open>or_default\<close> as a read.\<close>

definition fm_get_or :: "'v \<Rightarrow> ('k, 'v) fmap \<Rightarrow> 'k \<Rightarrow> 'v" where
  "fm_get_or d m k = (case fmlookup m k of None \<Rightarrow> d | Some v \<Rightarrow> v)"

lemma fm_get_or_simps [simp]:
  "fm_get_or d fmempty k = d"
  "fm_get_or d (fmupd k v m) j = (if k = j then v else fm_get_or d m j)"
  "fm_get_or d (fmdrop k m) j = (if k = j then d else fm_get_or d m j)"
  by (simp_all add: fm_get_or_def)

lemma fm_get_or_outside: "k |\<notin>| fmdom m \<Longrightarrow> fm_get_or d m k = d"
  by (simp add: fm_get_or_def fmdom_notD)

lemma count_list_remove1: "count_list (remove1 a xs) b = (if a = b then count_list xs b - 1 else count_list xs b)"
  by (induction xs) (auto simp: count_list_0_iff Suc_diff_Suc intro: ccontr)

lemma in_remove1_iff: "a \<in> set (remove1 b xs) \<longleftrightarrow> (if a = b then 1 < count_list xs a else a \<in> set xs)"
  using count_list_0_iff [of "remove1 b xs" a] count_list_0_iff [of xs a] by (auto simp: count_list_remove1)

lemma sorted_from_last:
  fixes a b :: "'a :: linorder"
  assumes "sorted (a # xs @ ys)" "b \<le> last (a # xs)"
  shows "sorted (b # ys)"
proof -
  have "last (a # xs) \<le> y" if "y \<in> set ys" for y
    using assms(1) that last_in_set [of "a # xs"] by (auto simp: sorted_append)
  then show ?thesis using assms by (auto simp: sorted_append intro: order_trans)
qed

section \<open>State machines with an invariant\<close>

text \<open>
  The contract between a stateful component and the rest of the system: a set of start
  states, the steps its operations make, and a predicate that holds at the start and is
  kept by every step. The client lemma is that the predicate holds in every reachable
  state. Each stateful component of the development interprets this locale on its own
  operations.
\<close>

inductive reach :: "('s \<Rightarrow> bool) \<Rightarrow> ('s \<Rightarrow> 's \<Rightarrow> bool) \<Rightarrow> 's \<Rightarrow> bool"
  for start :: "'s \<Rightarrow> bool" and step :: "'s \<Rightarrow> 's \<Rightarrow> bool" where
  reach_start: "start s \<Longrightarrow> reach start step s"
| reach_step: "reach start step s \<Longrightarrow> step s t \<Longrightarrow> reach start step t"

locale invariant_machine =
  fixes start :: "'s \<Rightarrow> bool"
    and step :: "'s \<Rightarrow> 's \<Rightarrow> bool"
    and inv :: "'s \<Rightarrow> bool"
  assumes inv_start: "start s \<Longrightarrow> inv s"
    and inv_step: "inv s \<Longrightarrow> step s t \<Longrightarrow> inv t"
begin

lemma reach_inv: "reach start step s \<Longrightarrow> inv s"
  by (induction rule: reach.induct) (blast intro: inv_start inv_step)+

lemma steps_inv: "step\<^sup>*\<^sup>* s t \<Longrightarrow> inv s \<Longrightarrow> inv t"
  by (induction rule: rtranclp_induct) (blast intro: inv_step)+

end

end
