(* ===== verification/Client_State.thy ===== *)
theory Client_State
  imports Prelude
begin

text \<open>
  The client connection state machine and the classified errors of
  \<open>src/crates/common-types\<close>: \<open>state.rs\<close> (states, permitted transitions, recovery
  decisions), \<open>error.rs\<close> (the error taxonomy) and \<open>version.rs\<close> (contract versions).
\<close>

section \<open>Errors\<close>

datatype error_domain =
    Configuration | Platform | KillSwitch | Tor | Directory | Authentication | Gateway
  | Packet | Dns | Policy | Storage | ControlPlane | Protocol | Internal

datatype error_code =
    InvalidConfiguration | PlatformUnsupported | KillSwitchApplyFailed
  | KillSwitchVerificationFailed | TorBootstrapTimeout | TorUnavailable | TorStreamFailed
  | DirectoryUnavailable | DirectorySignatureInvalid | DirectoryExpired | DirectoryRollback
  | GatewayUnavailable | GatewayIdentityMismatch | ProtocolIncompatible | MessageTooLarge
  | EcProtocolViolation | TokenUnavailable | TokenRejected | SessionExpired | GatewayTimeout
  | EcBackpressure | UnsupportedTransport | PolicyDenied | DnsResolutionFailed
  | DnsLeakDetected | StorageUnavailable | StorageCorrupt | RotationDeferred
  | ProtectedPathLost | ShutdownTimeout | InvariantViolation

datatype retry_class =
  Never | Immediate | RetryBackoff | AfterDirectoryRefresh | AfterTokenRefresh | UserAction

datatype safety_impact = Protected | MustBlock | NotApplicable

datatype severity = SevWarning | SevError | SevFatal

record onion_error =
  oe_domain :: error_domain
  oe_code :: error_code
  oe_severity :: severity
  oe_retry :: retry_class
  oe_safety :: safety_impact
  oe_message :: string

definition requires_blocking :: "onion_error \<Rightarrow> bool" where
  "requires_blocking e = (oe_safety e = MustBlock)"

section \<open>Contract versions\<close>

record contract_version =
  cv_major :: u16
  cv_minor :: u16

definition cv_accepts :: "contract_version \<Rightarrow> contract_version \<Rightarrow> bool" where
  "cv_accepts v w \<longleftrightarrow> cv_major v = cv_major w \<and> cv_minor v \<le> cv_minor w"

section \<open>The connection state machine\<close>

datatype client_connection_state =
    Disconnected | Preparing | ApplyingKillSwitch | BootstrappingTor | LoadingDirectory
  | SelectingGateway | Authenticating | Connected | Rotating | Reconnecting | Degraded
  | Disconnecting | Blocked | FatalError

fun can_transition_to :: "client_connection_state \<Rightarrow> client_connection_state \<Rightarrow> bool" where
  "can_transition_to Disconnected n = (n \<in> {Preparing})"
| "can_transition_to Preparing n = (n \<in> {ApplyingKillSwitch, Disconnecting, FatalError})"
| "can_transition_to ApplyingKillSwitch n =
     (n \<in> {BootstrappingTor, Blocked, Disconnecting, FatalError})"
| "can_transition_to BootstrappingTor n =
     (n \<in> {LoadingDirectory, Connected, Reconnecting, Blocked, Disconnecting, FatalError})"
| "can_transition_to LoadingDirectory n =
     (n \<in> {SelectingGateway, Degraded, Reconnecting, Blocked, Disconnecting, FatalError})"
| "can_transition_to SelectingGateway n =
     (n \<in> {Authenticating, LoadingDirectory, Degraded, Reconnecting, Blocked, Disconnecting,
           FatalError})"
| "can_transition_to Authenticating n =
     (n \<in> {Connected, SelectingGateway, Reconnecting, Degraded, Blocked, Disconnecting,
           FatalError})"
| "can_transition_to Connected n =
     (n \<in> {Rotating, Reconnecting, Degraded, Blocked, Disconnecting, FatalError})"
| "can_transition_to Rotating n =
     (n \<in> {Connected, Degraded, Reconnecting, Blocked, Disconnecting, FatalError})"
| "can_transition_to Reconnecting n =
     (n \<in> {BootstrappingTor, LoadingDirectory, SelectingGateway, Authenticating, Connected,
           Degraded, Blocked, Disconnecting, FatalError})"
| "can_transition_to Degraded n =
     (n \<in> {LoadingDirectory, SelectingGateway, Authenticating, Connected, Rotating,
           Reconnecting, Blocked, Disconnecting, FatalError})"
| "can_transition_to Disconnecting n = (n \<in> {Disconnected, Blocked, FatalError})"
| "can_transition_to Blocked n = (n \<in> {Preparing, Disconnecting, FatalError})"
| "can_transition_to FatalError n = (n \<in> {Disconnecting})"

definition requires_kill_switch :: "client_connection_state \<Rightarrow> bool" where
  "requires_kill_switch s = (s \<notin> {Disconnected, Preparing, ApplyingKillSwitch})"

section \<open>Recovery decisions\<close>

datatype recovery_action_kind =
    RetryCurrentPhase | ReconnectWithBackoff | RefreshDirectory | RefreshToken
  | KeepOldSession | EnterBlocked | EnterFatal | WaitForUser

definition recovery_action :: "onion_error \<Rightarrow> bool \<Rightarrow> bool \<Rightarrow> recovery_action_kind" where
  "recovery_action e old_path_healthy cached_directory_valid =
     (if oe_safety e = MustBlock then EnterBlocked
      else if oe_severity e = SevFatal then EnterFatal
      else if oe_code e = RotationDeferred \<and> old_path_healthy then KeepOldSession
      else if oe_code e = DirectorySignatureInvalid \<and> cached_directory_valid
        then RetryCurrentPhase
      else (case oe_retry e of
              Never \<Rightarrow> EnterFatal
            | Immediate \<Rightarrow> RetryCurrentPhase
            | RetryBackoff \<Rightarrow> ReconnectWithBackoff
            | AfterDirectoryRefresh \<Rightarrow> RefreshDirectory
            | AfterTokenRefresh \<Rightarrow> RefreshToken
            | UserAction \<Rightarrow> WaitForUser))"

section \<open>Runs of the machine\<close>

text \<open>
  A run is the list of states a client goes through, oldest first. The kill switch is
  applied in \<^const>\<open>ApplyingKillSwitch\<close>; \<open>carries_traffic\<close> names the states in which the
  client uses the network or lets user flows through.
\<close>

definition valid_run :: "client_connection_state list \<Rightarrow> bool" where
  "valid_run run \<longleftrightarrow> run \<noteq> [] \<and> hd run = Disconnected \<and> successively can_transition_to run"

definition carries_traffic :: "client_connection_state \<Rightarrow> bool" where
  "carries_traffic s \<longleftrightarrow>
     s \<in> {BootstrappingTor, LoadingDirectory, SelectingGateway, Authenticating, Connected,
          Rotating, Reconnecting, Degraded}"

lemma traffic_entry:
  "can_transition_to s t \<Longrightarrow> carries_traffic t \<Longrightarrow> s = ApplyingKillSwitch \<or> carries_traffic s"
  by (cases s) (auto simp: carries_traffic_def)

lemma valid_run_snocD:
  assumes "valid_run (run @ [s])" "run \<noteq> []"
  shows "valid_run run" "can_transition_to (last run) s"
  using assms by (auto simp: valid_run_def successively_append_iff)

lemma traffic_run_split:
  "valid_run (run @ [s]) \<Longrightarrow> carries_traffic s \<Longrightarrow>
   \<exists>before since. run = before @ ApplyingKillSwitch # since \<and> (\<forall>t \<in> set since. carries_traffic t)"
proof (induction run arbitrary: s rule: rev_induct)
  case Nil
  then show ?case by (simp add: valid_run_def carries_traffic_def)
next
  case (snoc t run)
  from snoc.prems(1) have run: "valid_run (run @ [t])" and "can_transition_to t s"
    using valid_run_snocD [of "run @ [t]" s] by auto
  with snoc.prems(2) consider "t = ApplyingKillSwitch" | "carries_traffic t"
    using traffic_entry by blast
  then show ?case
  proof cases
    case 1
    then show ?thesis by (intro exI [of _ run] exI [of _ "[]"]) simp
  next
    case 2
    from snoc.IH [OF run 2] obtain before since
      where "run = before @ ApplyingKillSwitch # since" "\<forall>u \<in> set since. carries_traffic u"
      by blast
    with 2 show ?thesis by (intro exI [of _ before] exI [of _ "since @ [t]"]) simp
  qed
qed

section \<open>Properties\<close>

text \<open>
  C22. On every run from a disconnected client, a state that carries traffic is preceded
  by the application of the kill switch, and since that application the client has been
  in traffic-carrying states only: there is no way to the network around the kill switch.
\<close>

theorem kill_switch_before_traffic:
  assumes "valid_run (run @ [s])" and "carries_traffic s"
  shows "\<exists>before since. run = before @ ApplyingKillSwitch # since \<and>
           (\<forall>t \<in> set since. carries_traffic t)"
  using assms by (rule traffic_run_split)

theorem kill_switch_before_traffic_witness:
  "\<exists>before since.
     [Disconnected, Preparing, ApplyingKillSwitch, BootstrappingTor] =
       before @ ApplyingKillSwitch # since \<and> (\<forall>t \<in> set since. carries_traffic t)"
  by (rule kill_switch_before_traffic [of _ Connected])
    (simp_all add: valid_run_def carries_traffic_def)

text \<open>
  The recovery decision blocks traffic exactly for the errors that require
  blocking, whatever the health of the old path and of the cached directory, and an
  error with protection intact never leads to blocking.
\<close>

lemma recovery_blocks_iff:
  "recovery_action e healthy cached = EnterBlocked \<longleftrightarrow> requires_blocking e"
  by (cases "oe_retry e") (simp_all add: recovery_action_def requires_blocking_def)

text \<open>
  Every state that requires the kill switch can fail closed: it is \<^const>\<open>Blocked\<close>
  already, or the machine permits a step to \<^const>\<open>Blocked\<close>, or (from a fatal error) two
  steps; and protection is only ever given up through an orderly disconnect or from the
  blocked state.
\<close>

theorem protected_states_fail_closed:
  assumes "requires_kill_switch s"
  shows "(s = Blocked \<or> can_transition_to s Blocked \<or>
           s = FatalError \<and> can_transition_to s Disconnecting \<and>
           can_transition_to Disconnecting Blocked) \<and>
         (can_transition_to s t \<and> \<not> requires_kill_switch t \<longrightarrow> s \<in> {Disconnecting, Blocked})"
  using assms by (cases s) (auto simp: requires_kill_switch_def)

theorem protected_states_fail_closed_witness:
  "can_transition_to Rotating Blocked \<and> Disconnecting \<in> {Disconnecting, Blocked}"
  using protected_states_fail_closed [of Rotating Blocked]
    protected_states_fail_closed [of Disconnecting Disconnected]
  by (simp add: requires_kill_switch_def)

text \<open>
  A state in which \<^const>\<open>requires_kill_switch\<close> says the kill switch must be engaged is
  reachable without ever applying it: a failed or cancelled preparation enters
  \<^const>\<open>FatalError\<close> or \<^const>\<open>Disconnecting\<close> directly.
\<close>

lemma kill_switch_required_but_never_applied:
  "\<exists>run. valid_run run \<and> requires_kill_switch (last run) \<and> ApplyingKillSwitch \<notin> set run"
  by (rule exI [of _ "[Disconnected, Preparing, FatalError]"])
    (simp add: valid_run_def requires_kill_switch_def)

end
