(* ===== verification/Gateway_Messages.thy ===== *)
theory Gateway_Messages
  imports Prelude
begin

text \<open>
  The vocabulary of the gateway protocol: the message types of \<open>src/proto\<close> as the
  generated Rust structs have them, the errors of
  \<open>src/crates/gateway-protocol/src/error.rs\<close> and the limits of \<open>limits.rs\<close>.

  A protobuf enum field is an \<open>i32\<close> on the Rust side and may hold any value; no
  arithmetic is done on it, so it is an \<^typ>\<open>int\<close> here. Strings are byte strings (a Rust
  \<open>String\<close> is UTF-8 and \<open>len()\<close> counts bytes).
\<close>

section \<open>Errors\<close>

datatype protocol_error =
    Io
  | Encode
  | Decode
  | FrameTooLarge nat nat
  | EmptyFrame
  | InvalidLengthPrefix
  | NonCanonicalVarint
  | TruncatedWireValue
  | DuplicateField u32
  | UnknownMessageTag u32
  | MissingBody
  | InvalidField string
  | ProtocolViolation string
  | IncompatibleVersion
  | SilentDowngrade
  | InvalidSequence
  | InvalidSession
  | Backpressure
  | StreamLimit
  | InvalidStreamId
  | FlowControlViolation
  | IntegerOverflow
  | HandshakeTimeout
  | IdleTimeout
  | AuthenticationRejected
  | Closed
  | EntropyUnavailable

section \<open>Limits\<close>

definition ABSOLUTE_MAX_FRAME_SIZE :: nat where "ABSOLUTE_MAX_FRAME_SIZE = 64 * 1024"
definition MIN_NEGOTIABLE_FRAME_SIZE :: nat where "MIN_NEGOTIABLE_FRAME_SIZE = 1024"
definition MAX_DATA_PAYLOAD :: nat where "MAX_DATA_PAYLOAD = 32 * 1024"
definition MAX_CAPABILITY_TOKEN :: nat where "MAX_CAPABILITY_TOKEN = 4 * 1024"
definition MAX_PROOF_OF_POSSESSION :: nat where "MAX_PROOF_OF_POSSESSION = 4 * 1024"
definition MAX_CAPABILITIES :: nat where "MAX_CAPABILITIES = 32"
definition MAX_CAPABILITY_NAME :: nat where "MAX_CAPABILITY_NAME = 64"
definition MAX_HOSTNAME :: nat where "MAX_HOSTNAME = 253"
definition MAX_RESOLVE_ADDRESSES :: nat where "MAX_RESOLVE_ADDRESSES = 16"
definition MAX_CONCURRENT_STREAMS :: nat where "MAX_CONCURRENT_STREAMS = 4096"
definition MAX_STREAM_WINDOW :: u64 where "MAX_STREAM_WINDOW = 4 * 1024 * 1024"
definition MAX_CONNECTION_WINDOW :: u64 where "MAX_CONNECTION_WINDOW = 16 * 1024 * 1024"
definition MAX_TIMEOUT_MS :: u32 where "MAX_TIMEOUT_MS = 120000"
definition MAX_SESSION_TTL_SECONDS :: u32 where "MAX_SESSION_TTL_SECONDS = 86400"
definition MAX_DRAIN_TIMEOUT_MS :: u32 where "MAX_DRAIN_TIMEOUT_MS = 30000"

lemmas limit_defs =
  ABSOLUTE_MAX_FRAME_SIZE_def MIN_NEGOTIABLE_FRAME_SIZE_def MAX_DATA_PAYLOAD_def
  MAX_CAPABILITY_TOKEN_def MAX_PROOF_OF_POSSESSION_def MAX_CAPABILITIES_def
  MAX_CAPABILITY_NAME_def MAX_HOSTNAME_def MAX_RESOLVE_ADDRESSES_def
  MAX_CONCURRENT_STREAMS_def MAX_STREAM_WINDOW_def MAX_CONNECTION_WINDOW_def
  MAX_TIMEOUT_MS_def MAX_SESSION_TTL_SECONDS_def MAX_DRAIN_TIMEOUT_MS_def

record protocol_limits =
  lim_maximum_frame_size :: nat
  lim_maximum_concurrent_streams :: nat
  lim_initial_connection_window :: u32
  lim_initial_stream_window :: u32
  lim_maximum_queued_bytes :: nat
  lim_maximum_queued_bytes_per_stream :: nat
  lim_maximum_control_frames :: nat
  lim_maximum_outstanding_resolves :: nat
  lim_handshake_timeout :: duration
  lim_idle_stream_timeout :: duration

definition default_limits :: protocol_limits where
  "default_limits = \<lparr>
     lim_maximum_frame_size = ABSOLUTE_MAX_FRAME_SIZE,
     lim_maximum_concurrent_streams = 512,
     lim_initial_connection_window = 4 * 1024 * 1024,
     lim_initial_stream_window = 256 * 1024,
     lim_maximum_queued_bytes = 8 * 1024 * 1024,
     lim_maximum_queued_bytes_per_stream = 256 * 1024,
     lim_maximum_control_frames = 256,
     lim_maximum_outstanding_resolves = 128,
     lim_handshake_timeout = 30 * 1000000000,
     lim_idle_stream_timeout = 120 * 1000000000\<rparr>"

definition validate_limits :: "protocol_limits \<Rightarrow> protocol_error + unit" where
  "validate_limits l =
     bindE (ensure (MIN_NEGOTIABLE_FRAME_SIZE \<le> lim_maximum_frame_size l \<and>
                    lim_maximum_frame_size l \<le> ABSOLUTE_MAX_FRAME_SIZE)
              (InvalidField ''maximum_frame_size'')) (\<lambda>_.
     bindE (ensure (1 \<le> lim_maximum_concurrent_streams l \<and>
                    lim_maximum_concurrent_streams l \<le> MAX_CONCURRENT_STREAMS)
              (InvalidField ''maximum_concurrent_streams'')) (\<lambda>_.
     bindE (ensure (\<not> (lim_initial_connection_window l = 0 \<or>
                       MAX_CONNECTION_WINDOW < ucast (lim_initial_connection_window l)))
              (InvalidField ''initial_connection_window'')) (\<lambda>_.
     bindE (ensure (\<not> (lim_initial_stream_window l = 0 \<or>
                       MAX_STREAM_WINDOW < ucast (lim_initial_stream_window l)))
              (InvalidField ''initial_stream_window'')) (\<lambda>_.
     bindE (ensure (\<not> (lim_maximum_queued_bytes l = 0 \<or>
                       lim_maximum_queued_bytes_per_stream l = 0 \<or>
                       lim_maximum_queued_bytes l < lim_maximum_queued_bytes_per_stream l \<or>
                       lim_maximum_control_frames l = 0 \<or>
                       lim_maximum_outstanding_resolves l = 0))
              (InvalidField ''queue_limits'')) (\<lambda>_.
     ensure (\<not> (lim_handshake_timeout l = 0 \<or> lim_idle_stream_timeout l = 0))
       (InvalidField ''timeouts''))))))"

section \<open>Messages\<close>

record protocol_version =
  pv_major :: u32
  pv_minor :: u32

record protocol_version_range =
  vr_minimum :: "protocol_version option"
  vr_maximum :: "protocol_version option"

record client_hello =
  ch_supported_versions :: "protocol_version_range option"
  ch_client_capabilities :: "string list"
  ch_anonymity_mode :: int
  ch_desired_country :: string
  ch_session_nonce :: bytes
  ch_maximum_frame_size :: u32
  ch_initial_connection_receive_window :: u32
  ch_initial_stream_receive_window :: u32

record server_hello =
  sh_supported_versions :: "protocol_version_range option"
  sh_selected_version :: "protocol_version option"
  sh_enabled_capabilities :: "string list"
  sh_echoed_client_nonce :: bytes
  sh_server_nonce :: bytes
  sh_ephemeral_session_id :: bytes
  sh_maximum_frame_size :: u32
  sh_maximum_concurrent_streams :: u32
  sh_initial_connection_receive_window :: u32
  sh_initial_stream_receive_window :: u32
  sh_idle_stream_timeout_ms :: u32
  sh_session_ttl_seconds :: u32

record authenticate =
  au_anonymous_capability_token :: bytes
  au_proof_of_possession :: bytes
  au_session_nonce_binding :: bytes

record authentication_result =
  ar_accepted :: bool
  ar_error_code :: int
  ar_granted_capabilities :: "string list"
  ar_expires_at_unix_seconds :: int

datatype destination_value = Hostname string | IpAddress bytes

text \<open>\<open>Destination\<close> has one \<open>oneof\<close> field; an absent destination and a destination
  without a value are told apart by the nested option.\<close>

record open_tcp_stream =
  ot_stream_id :: u64
  ot_destination :: "destination_value option option"
  ot_destination_port :: u32
  ot_timeout_ms :: u32
  ot_policy_flags :: u32
  ot_initial_receive_window :: u32

record tcp_stream_opened =
  so_stream_id :: u64
  so_initial_receive_window :: u32

record tcp_stream_rejected =
  sr_stream_id :: u64
  sr_error_code :: int
  sr_retry_hint :: int

record data_message =
  da_stream_id :: u64
  da_payload :: bytes

record window_update =
  wu_stream_id :: u64
  wu_credit :: u32

record half_close_message =
  hc_stream_id :: u64

record close_stream_message =
  cl_stream_id :: u64
  cl_code :: int

record resolve_domain =
  rd_query_id :: u64
  rd_hostname :: string
  rd_address_family :: int
  rd_timeout_ms :: u32

record resolve_result_message =
  rr_query_id :: u64
  rr_error_code :: int
  rr_ip_addresses :: "bytes list"
  rr_minimum_ttl_seconds :: u32

record rotate_session =
  ro_rotation_nonce :: bytes
  ro_reason :: int
  ro_drain_timeout_ms :: u32

record session_rotated =
  sd_rotation_nonce :: bytes
  sd_accepted :: bool
  sd_error_code :: int
  sd_replacement_transport_required :: bool

record error_message =
  er_code :: int
  er_retry_hint :: int
  er_fatal :: bool
  er_stream_id :: u64
  er_retry_after_ms :: u32
  er_correlation_id :: bytes

record go_away =
  ga_last_accepted_stream_id :: u64
  ga_code :: int
  ga_drain_timeout_ms :: u32

datatype body =
    ClientHello client_hello
  | ServerHello server_hello
  | Authenticate authenticate
  | AuthenticationResult authentication_result
  | OpenTcpStream open_tcp_stream
  | TcpStreamOpened tcp_stream_opened
  | TcpStreamRejected tcp_stream_rejected
  | Data data_message
  | WindowUpdate window_update
  | HalfClose half_close_message
  | CloseStream close_stream_message
  | ResolveDomain resolve_domain
  | ResolveResult resolve_result_message
  | RotateSession rotate_session
  | SessionRotated session_rotated
  | Ping bytes
  | Pong bytes
  | Error error_message
  | GoAway go_away

record gateway_frame =
  gf_sequence :: u64
  gf_version :: "protocol_version option"
  gf_critical_extension_ids :: "u32 list"
  gf_session_id :: bytes
  gf_body :: "body option"

section \<open>Enumerations of the schema\<close>

text \<open>
  The highest defined value of each enum; prost's \<open>TryFrom<i32>\<close> accepts exactly the
  defined values, which are contiguous from zero in every enum used here.
\<close>

definition error_code_last :: int where "error_code_last = 12"
definition anonymity_mode_last :: int where "anonymity_mode_last = 4"
definition anonymity_mode_direct_tor :: int where "anonymity_mode_direct_tor = 4"
definition address_family_last :: int where "address_family_last = 3"
definition rotation_reason_last :: int where "rotation_reason_last = 3"
definition close_code_last :: int where "close_code_last = 7"
definition retry_hint_last :: int where "retry_hint_last = 6"

lemmas enum_defs =
  error_code_last_def anonymity_mode_last_def anonymity_mode_direct_tor_def
  address_family_last_def rotation_reason_last_def close_code_last_def retry_hint_last_def

section \<open>The external protobuf runtime\<close>

text \<open>
  Encoding and decoding of a \<^typ>\<open>gateway_frame\<close> body is generated by prost from the
  schema and is not part of the repository: it is a parameter of every definition that
  calls it.
\<close>

record prost =
  p_encode :: "gateway_frame \<Rightarrow> bytes"
  p_encoded_len :: "gateway_frame \<Rightarrow> nat"
  p_decode :: "bytes \<Rightarrow> gateway_frame option"

lemma validate_default_limits: "validate_limits default_limits = Inr ()"
  by (simp add: validate_limits_def default_limits_def limit_defs)

end
