(* ===== verification/Negotiation.thy ===== *)
theory Negotiation
  imports Gateway_Messages
begin

text \<open>
  Version and capability negotiation, \<open>src/crates/gateway-protocol/src/negotiation.rs\<close>:
  the server's selection, the client's verification of it, and the agreement of the two.
\<close>

section \<open>Versions\<close>

definition TCP_CONNECT_V1 :: string where "TCP_CONNECT_V1 = ''tcp-connect-v1''"
definition FLOW_CONTROL_V1 :: string where "FLOW_CONTROL_V1 = ''flow-control-v1''"
definition RESOLVE_DOMAIN_V1 :: string where "RESOLVE_DOMAIN_V1 = ''resolve-domain-v1''"
definition SESSION_ROTATION_V1 :: string where "SESSION_ROTATION_V1 = ''session-rotation-v1''"

lemmas capability_name_defs =
  TCP_CONNECT_V1_def FLOW_CONTROL_V1_def RESOLVE_DOMAIN_V1_def SESSION_ROTATION_V1_def

definition version :: "u32 \<Rightarrow> u32 \<Rightarrow> protocol_version" where
  "version major minor = \<lparr>pv_major = major, pv_minor = minor\<rparr>"

definition version_range :: "u32 \<Rightarrow> u32 \<Rightarrow> u32 \<Rightarrow> protocol_version_range" where
  "version_range major minimum_minor maximum_minor =
     \<lparr>vr_minimum = Some (version major minimum_minor),
      vr_maximum = Some (version major maximum_minor)\<rparr>"

definition validate_version_range ::
  "protocol_version_range \<Rightarrow> protocol_error + (u32 \<times> u32 \<times> u32)" where
  "validate_version_range r =
     bindE (ok_or (vr_minimum r) (InvalidField ''minimum_version'')) (\<lambda>minimum.
     bindE (ok_or (vr_maximum r) (InvalidField ''maximum_version'')) (\<lambda>maximum.
     bindE (ensure (\<not> (pv_major minimum = 0 \<or> pv_major minimum \<noteq> pv_major maximum \<or>
                       pv_minor maximum < pv_minor minimum))
              (InvalidField ''supported_versions'')) (\<lambda>_.
     Inr (pv_major minimum, pv_minor minimum, pv_minor maximum))))"

definition select_version ::
  "protocol_version_range \<Rightarrow> protocol_version_range \<Rightarrow> protocol_error + protocol_version" where
  "select_version client server =
     bindE (validate_version_range client) (\<lambda>(client_major, client_min, client_max).
     bindE (validate_version_range server) (\<lambda>(server_major, server_min, server_max).
     if client_major \<noteq> server_major then Inl IncompatibleVersion
     else (let minimum = max client_min server_min; maximum = min client_max server_max in
           if maximum < minimum then Inl IncompatibleVersion
           else Inr (version client_major maximum))))"

definition verify_server_selection ::
  "protocol_version_range \<Rightarrow> protocol_version_range \<Rightarrow> protocol_version \<Rightarrow> protocol_error + unit"
  where
  "verify_server_selection client server selected =
     bindE (select_version client server) (\<lambda>expected.
     ensure (expected = selected) SilentDowngrade)"

section \<open>Capabilities\<close>

definition capability_byte :: "char \<Rightarrow> bool" where
  "capability_byte c \<longleftrightarrow>
     is_ascii_lowercase c \<or> is_ascii_digit c \<or> c \<in> {CHR ''-'', CHR '':'', CHR ''.''}"

abbreviation required_prefix :: string where
  "required_prefix \<equiv> ''required:''"

definition capability_name :: "string \<Rightarrow> string" where
  "capability_name value = (case strip_prefix required_prefix value of
                              None \<Rightarrow> value | Some name \<Rightarrow> name)"

definition validate_capability :: "string \<Rightarrow> protocol_error + unit" where
  "validate_capability value =
     bindE (ensure (\<not> (value = [] \<or> MAX_CAPABILITY_NAME < length value \<or> \<not> is_ascii value \<or>
                       \<not> list_all capability_byte value))
              (InvalidField ''capability_name'')) (\<lambda>_.
     let name = capability_name value in
     ensure (\<not> (name = [] \<or> starts_with_char CHR ''-'' name \<or> ends_with_char CHR ''-'' name))
       (InvalidField ''capability_name''))"

definition validate_capabilities :: "string list \<Rightarrow> protocol_error + unit" where
  "validate_capabilities capabilities =
     bindE (ensure (length capabilities \<le> MAX_CAPABILITIES) (InvalidField ''capabilities''))
       (\<lambda>_. for_all validate_capability capabilities)"

text \<open>The loop of \<open>negotiate_capabilities\<close>: \<open>names\<close> and \<open>enabled\<close> are its two variables.\<close>

fun negotiate_loop ::
  "string fset \<Rightarrow> string fset \<Rightarrow> string list \<Rightarrow> string list \<Rightarrow> protocol_error + string list" where
  "negotiate_loop supported names enabled [] = Inr enabled"
| "negotiate_loop supported names enabled (requested_name # rest) =
     (let (required, name) = (case strip_prefix required_prefix requested_name of
                                None \<Rightarrow> (False, requested_name)
                              | Some name \<Rightarrow> (True, name)) in
      if name |\<in>| names then Inl (InvalidField ''duplicate_capability'')
      else if name |\<in>| supported
        then negotiate_loop supported (finsert name names) (enabled @ [name]) rest
      else if required then Inl IncompatibleVersion
      else negotiate_loop supported (finsert name names) enabled rest)"

definition negotiate_capabilities ::
  "string list \<Rightarrow> string fset \<Rightarrow> protocol_error + string list" where
  "negotiate_capabilities requested server_supported =
     bindE (validate_capabilities requested) (\<lambda>_.
     negotiate_loop server_supported {||} [] requested)"

definition verify_enabled_capabilities ::
  "string list \<Rightarrow> string list \<Rightarrow> protocol_error + unit" where
  "verify_enabled_capabilities requested enabled =
     bindE (validate_capabilities requested) (\<lambda>_.
     bindE (validate_capabilities enabled) (\<lambda>_.
     let requested_names = fset_of_list (map capability_name requested);
         enabled_names = fset_of_list enabled in
     bindE (ensure (\<not> (fcard enabled_names \<noteq> length enabled \<or>
                       (\<exists>name \<in> set enabled. name |\<notin>| requested_names)))
              (ProtocolViolation ''server enabled an unrequested capability'')) (\<lambda>_.
     for_all (\<lambda>requested_name.
        case strip_prefix required_prefix requested_name of
          None \<Rightarrow> Inr ()
        | Some required \<Rightarrow> ensure (required |\<in>| enabled_names) IncompatibleVersion) requested)))"

section \<open>Lemmas\<close>

text \<open>Membership of a version in a range.\<close>

definition in_range :: "protocol_version \<Rightarrow> protocol_version_range \<Rightarrow> bool" where
  "in_range v r \<longleftrightarrow>
     (\<exists>lo hi. validate_version_range r = Inr (pv_major v, lo, hi) \<and>
              lo \<le> pv_minor v \<and> pv_minor v \<le> hi)"

lemma validate_version_range_ordered:
  "validate_version_range r = Inr (m, lo, hi) \<Longrightarrow> m \<noteq> 0 \<and> lo \<le> hi"
  by (auto simp: validate_version_range_def result_simps not_less)

lemma version_sel [simp]: "pv_major (version a b) = a" "pv_minor (version a b) = b"
  by (simp_all add: version_def)

lemma version_eta [simp]: "version (pv_major v) (pv_minor v) = v"
  by (simp add: version_def)

lemma select_version_Inr:
  "select_version c s = Inr v \<longleftrightarrow>
     (\<exists>m cl ch sl sh. validate_version_range c = Inr (m, cl, ch) \<and>
        validate_version_range s = Inr (m, sl, sh) \<and>
        \<not> min ch sh < max cl sl \<and> v = version m (min ch sh))"
  by (cases "validate_version_range c"; cases "validate_version_range s")
    (auto simp: select_version_def Let_def split: if_splits prod.splits)

lemma select_version_member:
  "select_version c s = Inr v \<Longrightarrow> in_range v c \<and> in_range v s"
  by (fastforce simp: select_version_Inr in_range_def not_less)

lemma select_version_greatest:
  "select_version c s = Inr v \<Longrightarrow> in_range w c \<Longrightarrow> in_range w s \<Longrightarrow>
     pv_major w = pv_major v \<and> pv_minor w \<le> pv_minor v"
  by (auto simp: select_version_Inr in_range_def)

lemma select_version_exists:
  assumes "in_range w c" "in_range w s"
  shows "\<exists>v. select_version c s = Inr v"
proof -
  from assms obtain cl ch sl sh where
    "validate_version_range c = Inr (pv_major w, cl, ch)" "cl \<le> pv_minor w" "pv_minor w \<le> ch"
    "validate_version_range s = Inr (pv_major w, sl, sh)" "sl \<le> pv_minor w" "pv_minor w \<le> sh"
    by (auto simp: in_range_def)
  then show ?thesis
    by (intro exI [of _ "version (pv_major w) (min ch sh)"])
      (auto simp: select_version_Inr min_def max_def)
qed

text \<open>The capability loop computes the supported part of the request, in order.\<close>

lemma capability_name_cases:
  "(case strip_prefix required_prefix r of None \<Rightarrow> (False, r) | Some n \<Rightarrow> (True, n)) =
     (strip_prefix required_prefix r \<noteq> None, capability_name r)"
  by (auto simp: capability_name_def split: option.splits)

lemma negotiate_loop_Inr:
  "negotiate_loop supported names enabled rs = Inr out \<longleftrightarrow>
     distinct (map capability_name rs) \<and>
     (\<forall>r \<in> set rs. capability_name r |\<notin>| names) \<and>
     (\<forall>r \<in> set rs. strip_prefix required_prefix r \<noteq> None \<longrightarrow> capability_name r |\<in>| supported) \<and>
     out = enabled @ filter (\<lambda>n. n |\<in>| supported) (map capability_name rs)"
proof (induction rs arbitrary: names enabled)
  case Nil
  then show ?case by auto
next
  case (Cons r rs)
  show ?case
    by (auto simp: capability_name_cases Cons.IH Let_def image_iff)
qed

lemma negotiate_capabilities_Inr:
  "negotiate_capabilities requested supported = Inr out \<longleftrightarrow>
     validate_capabilities requested = Inr () \<and> distinct (map capability_name requested) \<and>
     (\<forall>r \<in> set requested. strip_prefix required_prefix r \<noteq> None \<longrightarrow>
        capability_name r |\<in>| supported) \<and>
     out = filter (\<lambda>n. n |\<in>| supported) (map capability_name requested)"
  by (auto simp: negotiate_capabilities_def negotiate_loop_Inr result_simps)

lemma fcard_fset_of_list_distinct: "distinct xs \<Longrightarrow> fcard (fset_of_list xs) = length xs"
  by (simp add: fcard.rep_eq fset_of_list.rep_eq distinct_card)

lemma verify_enabled_Inr:
  "verify_enabled_capabilities requested enabled = Inr () \<longleftrightarrow>
     validate_capabilities requested = Inr () \<and> validate_capabilities enabled = Inr () \<and>
     distinct enabled \<and> set enabled \<subseteq> capability_name ` set requested \<and>
     (\<forall>r \<in> set requested. strip_prefix required_prefix r \<noteq> None \<longrightarrow>
        capability_name r \<in> set enabled)"
proof -
  have card: "fcard (fset_of_list enabled) = length enabled \<longleftrightarrow> distinct enabled"
    by (simp add: fcard.rep_eq fset_of_list.rep_eq) (metis card_distinct distinct_card)
  show ?thesis
    by (auto simp: verify_enabled_capabilities_def result_simps for_all_eq_Inr card Let_def
        fset_of_list_elem capability_name_def split: option.splits)
qed

lemma validate_capabilities_Inr:
  "validate_capabilities cs = Inr () \<longleftrightarrow>
     length cs \<le> MAX_CAPABILITIES \<and> (\<forall>c \<in> set cs. validate_capability c = Inr ())"
  by (auto simp: validate_capabilities_def result_simps for_all_eq_Inr)

section \<open>Properties\<close>

text \<open>
  The server's version selection is the greatest common version: it lies in both
  ranges, no common version has a higher minor, it fails only when there is no common
  version, and the client's check accepts it and nothing else.
\<close>

theorem select_version_greatest_common:
  "(case select_version c s of
      Inr v \<Rightarrow> in_range v c \<and> in_range v s \<and>
              (\<forall>w. in_range w c \<and> in_range w s \<longrightarrow>
                 pv_major w = pv_major v \<and> pv_minor w \<le> pv_minor v) \<and>
              (\<forall>w. verify_server_selection c s w = Inr () \<longleftrightarrow> w = v)
    | Inl e \<Rightarrow> (\<forall>w. \<not> (in_range w c \<and> in_range w s)))"
proof (cases "select_version c s")
  case (Inl e)
  have "\<not> (in_range w c \<and> in_range w s)" for w
    using select_version_exists [of w c s] Inl by auto
  then show ?thesis by (simp add: Inl)
next
  case (Inr v)
  have "verify_server_selection c s w = Inr () \<longleftrightarrow> w = v" for w
    by (auto simp: verify_server_selection_def Inr)
  moreover have "\<forall>w. in_range w c \<and> in_range w s \<longrightarrow>
                   pv_major w = pv_major v \<and> pv_minor w \<le> pv_minor v"
    using select_version_greatest [OF Inr] by blast
  ultimately show ?thesis
    using select_version_member [OF Inr] unfolding Inr sum.case by blast
qed

theorem select_version_greatest_common_witness:
  "select_version (version_range 1 0 3) (version_range 1 2 7) = Inr (version 1 3) \<and>
   verify_server_selection (version_range 1 0 3) (version_range 1 2 7) (version 1 3) = Inr () \<and>
   verify_server_selection (version_range 1 0 3) (version_range 1 2 7) (version 1 2)
     \<noteq> Inr ()"
proof -
  have sel: "select_version (version_range 1 0 3) (version_range 1 2 7) = Inr (version 1 3)"
    by (simp add: select_version_def validate_version_range_def version_range_def Let_def
        min_def max_def)
  show ?thesis
    using select_version_greatest_common [of "version_range 1 0 3" "version_range 1 2 7"]
    unfolding sel sum.case by (simp add: version_def)
qed

text \<open>
  The capability set the server negotiates is accepted by the client's verification,
  provided the names the server supports are well-formed; it is the supported part of the
  request, in the order of the request and without duplicates, and contains every
  capability the client required.
\<close>

theorem negotiated_capabilities_verified:
  assumes neg: "negotiate_capabilities requested supported = Inr enabled"
    and wf: "\<forall>name. name |\<in>| supported \<longrightarrow> validate_capability name = Inr ()"
  shows "verify_enabled_capabilities requested enabled = Inr () \<and>
         enabled = filter (\<lambda>n. n |\<in>| supported) (map capability_name requested)"
proof -
  from neg have e: "enabled = filter (\<lambda>n. n |\<in>| supported) (map capability_name requested)"
    and v: "validate_capabilities requested = Inr ()"
    by (simp_all add: negotiate_capabilities_Inr)
  have "length enabled \<le> length requested"
    using length_filter_le [of "\<lambda>n. n |\<in>| supported" "map capability_name requested"]
    by (simp only: e length_map)
  moreover have "\<forall>c \<in> set enabled. validate_capability c = Inr ()"
    using wf by (simp add: e)
  ultimately have "validate_capabilities enabled = Inr ()"
    using v by (simp add: validate_capabilities_Inr)
  moreover have "distinct enabled" "set enabled \<subseteq> capability_name ` set requested"
    using neg by (auto simp: e negotiate_capabilities_Inr intro: distinct_filter)
  moreover have "\<forall>r \<in> set requested. strip_prefix required_prefix r \<noteq> None \<longrightarrow>
                   capability_name r \<in> set enabled"
    using neg by (simp add: e negotiate_capabilities_Inr)
  ultimately show ?thesis
    using v e by (simp only: verify_enabled_Inr simp_thms)
qed

theorem negotiated_capabilities_verified_witness:
  "verify_enabled_capabilities [''required:tcp-connect-v1'', ''resolve-domain-v1'']
     [''tcp-connect-v1''] = Inr ()"
proof -
  have "negotiate_capabilities [''required:tcp-connect-v1'', ''resolve-domain-v1'']
          {|TCP_CONNECT_V1, FLOW_CONTROL_V1|} = Inr [''tcp-connect-v1'']"
    by (simp add: negotiate_capabilities_def validate_capabilities_def validate_capability_def
        capability_name_def strip_prefix_def capability_byte_def ascii_defs limit_defs
        starts_with_char_def ends_with_char_def capability_name_defs)
  moreover have "\<forall>name. name |\<in>| {|TCP_CONNECT_V1, FLOW_CONTROL_V1|} \<longrightarrow>
                   validate_capability name = Inr ()"
    by (simp add: validate_capability_def capability_name_def strip_prefix_def
        capability_byte_def ascii_defs limit_defs starts_with_char_def ends_with_char_def
        capability_name_defs)
  ultimately show ?thesis
    using negotiated_capabilities_verified by blast
qed

end
