(* ===== verification/Validation.thy ===== *)
theory Validation
  imports Negotiation
begin

text \<open>
  Frame validation, \<open>src/crates/gateway-protocol/src/validation.rs\<close>: what a peer must
  establish of every frame before its contents are used, on the way in and on the way out.
\<close>

section \<open>Field checks\<close>

definition validate_stream_id :: "u64 \<Rightarrow> protocol_error + unit" where
  "validate_stream_id stream_id =
     ensure (\<not> (stream_id = 0 \<or> stream_id AND 1 = 0)) InvalidStreamId"

definition hostname_label_ok :: "string \<Rightarrow> bool" where
  "hostname_label_ok label \<longleftrightarrow>
     \<not> (label = [] \<or> 63 < length label \<or> starts_with_char CHR ''-'' label \<or>
        ends_with_char CHR ''-'' label \<or>
        \<not> list_all (\<lambda>c. is_ascii_alphanumeric c \<or> c = CHR ''-'') label)"

definition validate_hostname :: "string \<Rightarrow> protocol_error + unit" where
  "validate_hostname hostname =
     bindE (ensure (\<not> (hostname = [] \<or> MAX_HOSTNAME < length hostname \<or> \<not> is_ascii hostname \<or>
                       ends_with_char CHR ''.'' hostname))
              (InvalidField ''hostname'')) (\<lambda>_.
     for_all (\<lambda>label. ensure (hostname_label_ok label) (InvalidField ''hostname''))
       (split_on CHR ''.'' hostname))"

definition validate_ip_address :: "bytes \<Rightarrow> protocol_error + unit" where
  "validate_ip_address address =
     ensure (length address = 4 \<or> length address = 16) (InvalidField ''ip_address'')"

definition validate_country :: "string \<Rightarrow> protocol_error + unit" where
  "validate_country country =
     ensure (\<not> (country \<noteq> [] \<and>
                (length country \<noteq> 2 \<or> \<not> list_all is_ascii_uppercase country)))
       (InvalidField ''desired_country'')"

definition validate_frame_limit :: "u32 \<Rightarrow> protocol_error + unit" where
  "validate_frame_limit value =
     ensure (MIN_NEGOTIABLE_FRAME_SIZE \<le> unat value \<and> unat value \<le> ABSOLUTE_MAX_FRAME_SIZE)
       (InvalidField ''maximum_frame_size'')"

definition validate_connection_window :: "u32 \<Rightarrow> protocol_error + unit" where
  "validate_connection_window value =
     ensure (\<not> (value = 0 \<or> MAX_CONNECTION_WINDOW < ucast value))
       (InvalidField ''connection_window'')"

definition validate_stream_window :: "u32 \<Rightarrow> protocol_error + unit" where
  "validate_stream_window value =
     ensure (\<not> (value = 0 \<or> MAX_STREAM_WINDOW < ucast value)) (InvalidField ''stream_window'')"

definition validate_timeout :: "u32 \<Rightarrow> protocol_error + unit" where
  "validate_timeout value =
     ensure (\<not> (value = 0 \<or> MAX_TIMEOUT_MS < value)) (InvalidField ''timeout_ms'')"

definition validate_drain_timeout :: "u32 \<Rightarrow> protocol_error + unit" where
  "validate_drain_timeout value =
     ensure (\<not> (value = 0 \<or> MAX_DRAIN_TIMEOUT_MS < value)) (InvalidField ''drain_timeout_ms'')"

definition exact_length :: "bytes \<Rightarrow> nat \<Rightarrow> string \<Rightarrow> protocol_error + unit" where
  "exact_length value expected field = ensure (length value = expected) (InvalidField field)"

definition bounded_range :: "bytes \<Rightarrow> nat \<Rightarrow> nat \<Rightarrow> string \<Rightarrow> protocol_error + unit" where
  "bounded_range value minimum maximum field =
     ensure (minimum \<le> length value \<and> length value \<le> maximum) (InvalidField field)"

definition bounded_nonempty :: "bytes \<Rightarrow> nat \<Rightarrow> string \<Rightarrow> protocol_error + unit" where
  "bounded_nonempty value maximum field = bounded_range value 1 maximum field"

text \<open>\<open>highest\<close> is the highest defined value of the enum type the source converts to.\<close>

definition known_enum :: "int \<Rightarrow> int \<Rightarrow> string \<Rightarrow> protocol_error + int" where
  "known_enum highest value field =
     (if 0 \<le> value \<and> value \<le> highest then Inr value else Inl (InvalidField field))"

definition known_nonzero_enum :: "int \<Rightarrow> int \<Rightarrow> string \<Rightarrow> protocol_error + int" where
  "known_nonzero_enum highest value field =
     (if value = 0 then Inl (InvalidField field) else known_enum highest value field)"

section \<open>Messages\<close>

definition validate_client_hello :: "client_hello \<Rightarrow> protocol_error + unit" where
  "validate_client_hello m =
     bindE (ok_or (ch_supported_versions m) (InvalidField ''supported_versions'')) (\<lambda>versions.
     bindE (validate_version_range versions) (\<lambda>_.
     bindE (validate_capabilities (ch_client_capabilities m)) (\<lambda>_.
     bindE (known_nonzero_enum anonymity_mode_last (ch_anonymity_mode m) ''anonymity_mode'')
       (\<lambda>mode.
     bindE (ensure (mode \<noteq> anonymity_mode_direct_tor) (InvalidField ''anonymity_mode'')) (\<lambda>_.
     bindE (validate_country (ch_desired_country m)) (\<lambda>_.
     bindE (exact_length (ch_session_nonce m) 32 ''session_nonce'') (\<lambda>_.
     bindE (validate_frame_limit (ch_maximum_frame_size m)) (\<lambda>_.
     bindE (validate_connection_window (ch_initial_connection_receive_window m)) (\<lambda>_.
     validate_stream_window (ch_initial_stream_receive_window m))))))))))"

definition validate_server_hello :: "server_hello \<Rightarrow> protocol_error + unit" where
  "validate_server_hello m =
     bindE (ok_or (sh_supported_versions m) (InvalidField ''supported_versions'')) (\<lambda>versions.
     bindE (validate_version_range versions) (\<lambda>_.
     bindE (ensure (case sh_selected_version m of Some v \<Rightarrow> pv_major v \<noteq> 0 | None \<Rightarrow> False)
              (InvalidField ''selected_version'')) (\<lambda>_.
     bindE (validate_capabilities (sh_enabled_capabilities m)) (\<lambda>_.
     bindE (exact_length (sh_echoed_client_nonce m) 32 ''echoed_client_nonce'') (\<lambda>_.
     bindE (exact_length (sh_server_nonce m) 32 ''server_nonce'') (\<lambda>_.
     bindE (exact_length (sh_ephemeral_session_id m) 16 ''ephemeral_session_id'') (\<lambda>_.
     bindE (validate_frame_limit (sh_maximum_frame_size m)) (\<lambda>_.
     bindE (ensure (\<not> (sh_maximum_concurrent_streams m = 0 \<or>
                       MAX_CONCURRENT_STREAMS < unat (sh_maximum_concurrent_streams m)))
              (InvalidField ''maximum_concurrent_streams'')) (\<lambda>_.
     bindE (validate_connection_window (sh_initial_connection_receive_window m)) (\<lambda>_.
     bindE (validate_stream_window (sh_initial_stream_receive_window m)) (\<lambda>_.
     bindE (ensure (\<not> (sh_idle_stream_timeout_ms m = 0 \<or> 3600000 < sh_idle_stream_timeout_ms m))
              (InvalidField ''idle_stream_timeout_ms'')) (\<lambda>_.
     ensure (\<not> (sh_session_ttl_seconds m = 0 \<or>
                MAX_SESSION_TTL_SECONDS < sh_session_ttl_seconds m))
       (InvalidField ''session_ttl_seconds'')))))))))))))"

definition validate_authenticate :: "authenticate \<Rightarrow> protocol_error + unit" where
  "validate_authenticate m =
     bindE (bounded_nonempty (au_anonymous_capability_token m) MAX_CAPABILITY_TOKEN ''token'')
       (\<lambda>_.
     bindE (ensure (length (au_proof_of_possession m) \<le> MAX_PROOF_OF_POSSESSION)
              (InvalidField ''proof_of_possession'')) (\<lambda>_.
     exact_length (au_session_nonce_binding m) 32 ''session_nonce_binding''))"

definition validate_authentication_result :: "authentication_result \<Rightarrow> protocol_error + unit" where
  "validate_authentication_result m =
     bindE (validate_capabilities (ar_granted_capabilities m)) (\<lambda>_.
     bindE (known_enum error_code_last (ar_error_code m) ''authentication_error_code'') (\<lambda>error.
     if ar_accepted m then
       ensure (\<not> (error \<noteq> 0 \<or> ar_expires_at_unix_seconds m \<le> 0))
         (InvalidField ''authentication_result'')
     else
       ensure (\<not> (error = 0 \<or> ar_expires_at_unix_seconds m \<noteq> 0))
         (InvalidField ''authentication_result'')))"

definition validate_open_tcp :: "open_tcp_stream \<Rightarrow> protocol_error + unit" where
  "validate_open_tcp m =
     bindE (validate_stream_id (ot_stream_id m)) (\<lambda>_.
     bindE (ok_or (Option.bind (ot_destination m) (\<lambda>v. v)) (InvalidField ''destination''))
       (\<lambda>destination.
     bindE (case destination of
              Hostname hostname \<Rightarrow> validate_hostname hostname
            | IpAddress address \<Rightarrow> validate_ip_address address) (\<lambda>_.
     bindE (ensure (\<not> (ot_destination_port m = 0 \<or> 65535 < ot_destination_port m))
              (InvalidField ''destination_port'')) (\<lambda>_.
     bindE (validate_timeout (ot_timeout_ms m)) (\<lambda>_.
     bindE (ensure (\<not> (ot_policy_flags m AND NOT 3 \<noteq> 0 \<or> ot_policy_flags m = 3))
              (InvalidField ''policy_flags'')) (\<lambda>_.
     validate_stream_window (ot_initial_receive_window m)))))))"

definition validate_stream_opened :: "tcp_stream_opened \<Rightarrow> protocol_error + unit" where
  "validate_stream_opened m =
     bindE (validate_stream_id (so_stream_id m)) (\<lambda>_.
     validate_stream_window (so_initial_receive_window m))"

definition validate_stream_rejected :: "tcp_stream_rejected \<Rightarrow> protocol_error + unit" where
  "validate_stream_rejected m =
     bindE (validate_stream_id (sr_stream_id m)) (\<lambda>_.
     bindE (known_nonzero_enum error_code_last (sr_error_code m) ''stream_error_code'') (\<lambda>_.
     bindE (known_enum retry_hint_last (sr_retry_hint m) ''retry_hint'') (\<lambda>_.
     Inr ())))"

definition validate_data :: "data_message \<Rightarrow> protocol_error + unit" where
  "validate_data m =
     bindE (validate_stream_id (da_stream_id m)) (\<lambda>_.
     bounded_nonempty (da_payload m) MAX_DATA_PAYLOAD ''data_payload'')"

definition validate_window_update :: "window_update \<Rightarrow> protocol_error + unit" where
  "validate_window_update m =
     bindE (if wu_stream_id m \<noteq> 0 then validate_stream_id (wu_stream_id m) else Inr ()) (\<lambda>_.
     ensure (wu_credit m \<noteq> 0) (InvalidField ''window_credit''))"

definition validate_close_stream :: "close_stream_message \<Rightarrow> protocol_error + unit" where
  "validate_close_stream m =
     bindE (validate_stream_id (cl_stream_id m)) (\<lambda>_.
     bindE (known_nonzero_enum close_code_last (cl_code m) ''close_code'') (\<lambda>_. Inr ()))"

definition validate_resolve_domain :: "resolve_domain \<Rightarrow> protocol_error + unit" where
  "validate_resolve_domain m =
     bindE (validate_stream_id (rd_query_id m)) (\<lambda>_.
     bindE (validate_hostname (rd_hostname m)) (\<lambda>_.
     bindE (known_nonzero_enum address_family_last (rd_address_family m) ''address_family'') (\<lambda>_.
     validate_timeout (rd_timeout_ms m))))"

definition validate_resolve_result :: "resolve_result_message \<Rightarrow> protocol_error + unit" where
  "validate_resolve_result m =
     bindE (validate_stream_id (rr_query_id m)) (\<lambda>_.
     bindE (ensure (length (rr_ip_addresses m) \<le> MAX_RESOLVE_ADDRESSES)
              (InvalidField ''resolve_addresses'')) (\<lambda>_.
     bindE (known_enum error_code_last (rr_error_code m) ''resolve_error_code'') (\<lambda>error.
     if error = 0 then
       bindE (ensure (\<not> (rr_ip_addresses m = [] \<or> rr_minimum_ttl_seconds m = 0))
                (InvalidField ''resolve_result'')) (\<lambda>_.
       for_all validate_ip_address (rr_ip_addresses m))
     else
       ensure (\<not> (rr_ip_addresses m \<noteq> [] \<or> rr_minimum_ttl_seconds m \<noteq> 0))
         (InvalidField ''resolve_result''))))"

definition validate_rotate_session :: "rotate_session \<Rightarrow> protocol_error + unit" where
  "validate_rotate_session m =
     bindE (exact_length (ro_rotation_nonce m) 16 ''rotation_nonce'') (\<lambda>_.
     bindE (known_nonzero_enum rotation_reason_last (ro_reason m) ''rotation_reason'') (\<lambda>_.
     validate_drain_timeout (ro_drain_timeout_ms m)))"

definition validate_session_rotated :: "session_rotated \<Rightarrow> protocol_error + unit" where
  "validate_session_rotated m =
     bindE (exact_length (sd_rotation_nonce m) 16 ''rotation_nonce'') (\<lambda>_.
     bindE (known_enum error_code_last (sd_error_code m) ''rotation_error_code'') (\<lambda>error.
     if sd_accepted m then
       ensure (\<not> (error \<noteq> 0 \<or> \<not> sd_replacement_transport_required m))
         (InvalidField ''session_rotated'')
     else
       ensure (\<not> (error = 0 \<or> sd_replacement_transport_required m))
         (InvalidField ''session_rotated'')))"

definition validate_error :: "error_message \<Rightarrow> protocol_error + unit" where
  "validate_error m =
     bindE (known_nonzero_enum error_code_last (er_code m) ''error_code'') (\<lambda>_.
     bindE (known_enum retry_hint_last (er_retry_hint m) ''retry_hint'') (\<lambda>_.
     bindE (ensure (\<not> (er_fatal m \<and> er_stream_id m \<noteq> 0)) (InvalidField ''fatal_error_scope''))
       (\<lambda>_.
     bindE (if er_stream_id m \<noteq> 0 then validate_stream_id (er_stream_id m) else Inr ()) (\<lambda>_.
     bindE (ensure (er_retry_after_ms m \<le> MAX_TIMEOUT_MS) (InvalidField ''retry_after_ms'')) (\<lambda>_.
     exact_length (er_correlation_id m) 16 ''correlation_id'')))))"

definition validate_go_away :: "go_away \<Rightarrow> protocol_error + unit" where
  "validate_go_away m =
     bindE (if ga_last_accepted_stream_id m \<noteq> 0
            then validate_stream_id (ga_last_accepted_stream_id m) else Inr ()) (\<lambda>_.
     bindE (known_enum error_code_last (ga_code m) ''go_away_code'') (\<lambda>_.
     validate_drain_timeout (ga_drain_timeout_ms m)))"

fun validate_body :: "body \<Rightarrow> protocol_error + unit" where
  "validate_body (ClientHello m) = validate_client_hello m"
| "validate_body (ServerHello m) = validate_server_hello m"
| "validate_body (Authenticate m) = validate_authenticate m"
| "validate_body (AuthenticationResult m) = validate_authentication_result m"
| "validate_body (OpenTcpStream m) = validate_open_tcp m"
| "validate_body (TcpStreamOpened m) = validate_stream_opened m"
| "validate_body (TcpStreamRejected m) = validate_stream_rejected m"
| "validate_body (Data m) = validate_data m"
| "validate_body (WindowUpdate m) = validate_window_update m"
| "validate_body (HalfClose m) = validate_stream_id (hc_stream_id m)"
| "validate_body (CloseStream m) = validate_close_stream m"
| "validate_body (ResolveDomain m) = validate_resolve_domain m"
| "validate_body (ResolveResult m) = validate_resolve_result m"
| "validate_body (RotateSession m) = validate_rotate_session m"
| "validate_body (SessionRotated m) = validate_session_rotated m"
| "validate_body (Ping nonce) = bounded_range nonce 8 32 ''ping_nonce''"
| "validate_body (Pong nonce) = bounded_range nonce 8 32 ''pong_nonce''"
| "validate_body (Error m) = validate_error m"
| "validate_body (GoAway m) = validate_go_away m"

text \<open>The loop over the critical extensions, with its set of seen identifiers.\<close>

fun check_extensions :: "u32 fset \<Rightarrow> u32 fset \<Rightarrow> u32 list \<Rightarrow> protocol_error + unit" where
  "check_extensions enabled seen [] = Inr ()"
| "check_extensions enabled seen (extension # rest) =
     (if extension = 0 \<or> extension |\<notin>| enabled \<or> extension |\<in>| seen
      then Inl (ProtocolViolation ''unknown or duplicate critical extension'')
      else check_extensions enabled (finsert extension seen) rest)"

definition validate_frame :: "gateway_frame \<Rightarrow> u32 fset \<Rightarrow> protocol_error + unit" where
  "validate_frame frame enabled_critical_extensions =
     bindE (ensure (gf_sequence frame \<noteq> 0) InvalidSequence) (\<lambda>_.
     bindE (ok_or (gf_version frame) (InvalidField ''frame_version'')) (\<lambda>version.
     bindE (ensure (pv_major version \<noteq> 0) (InvalidField ''frame_version'')) (\<lambda>_.
     bindE (check_extensions enabled_critical_extensions {||} (gf_critical_extension_ids frame))
       (\<lambda>_.
     bindE (ok_or (gf_body frame) MissingBody) validate_body))))"

section \<open>Lemmas\<close>

named_theorems validation_defs \<open>definitions of the message checks\<close>

lemmas [validation_defs] =
  validate_client_hello_def validate_server_hello_def validate_authenticate_def
  validate_authentication_result_def validate_open_tcp_def validate_stream_opened_def
  validate_stream_rejected_def validate_data_def validate_window_update_def
  validate_close_stream_def validate_resolve_domain_def validate_resolve_result_def
  validate_rotate_session_def validate_session_rotated_def validate_error_def
  validate_go_away_def exact_length_def bounded_range_def bounded_nonempty_def
  known_enum_def known_nonzero_enum_def validate_timeout_def validate_drain_timeout_def
  validate_stream_window_def validate_connection_window_def validate_frame_limit_def
  validate_country_def validate_ip_address_def

lemma and_one_zero_iff: "(x :: u64) AND 1 = 0 \<longleftrightarrow> even (unat x)"
  by (simp add: and_one_eq even_iff_mod_2_eq_zero flip: unat_eq_zero)
    (simp add: unat_mod)

lemma validate_stream_id_Inr [simp]: "validate_stream_id x = Inr u \<longleftrightarrow> odd (unat x)"
  by (auto simp: validate_stream_id_def and_one_zero_iff)

lemma validate_stream_id_Inl [simp]:
  "validate_stream_id x = Inl e \<longleftrightarrow> even (unat x) \<and> e = InvalidStreamId"
  by (auto simp: validate_stream_id_def and_one_zero_iff)

lemma check_extensions_none [simp]:
  "check_extensions {||} seen xs = Inr u \<longleftrightarrow> xs = []"
  by (cases xs) auto

lemma validate_frame_v1:
  "validate_frame frame {||} = Inr () \<longleftrightarrow>
     gf_sequence frame \<noteq> 0 \<and> (\<exists>v. gf_version frame = Some v \<and> pv_major v \<noteq> 0) \<and>
     gf_critical_extension_ids frame = [] \<and>
     (\<exists>b. gf_body frame = Some b \<and> validate_body b = Inr ())"
  by (auto simp: validate_frame_def result_simps)

text \<open>The characters of a string are those of its pieces and the separator.\<close>

lemma set_split_on: "set s \<subseteq> insert sep (\<Union> (set ` set (split_on sep s)))"
proof (induction s)
  case Nil
  then show ?case by simp
next
  case (Cons c s)
  then show ?case by (auto split: list.splits) blast
qed

lemma validate_hostname_Inr:
  "validate_hostname h = Inr () \<longleftrightarrow>
     h \<noteq> [] \<and> length h \<le> MAX_HOSTNAME \<and> is_ascii h \<and> \<not> ends_with_char CHR ''.'' h \<and>
     (\<forall>label \<in> set (split_on CHR ''.'' h). hostname_label_ok label)"
  by (auto simp: validate_hostname_def result_simps for_all_eq_Inr not_less)

lemma hostname_chars:
  assumes "validate_hostname h = Inr ()" and "c \<in> set h"
  shows "is_ascii_alphanumeric c \<or> c = CHR ''-'' \<or> c = CHR ''.''"
proof -
  from assms(2) set_split_on [of h "CHR ''.''"]
  consider "c = CHR ''.''" | label where "label \<in> set (split_on CHR ''.'' h)" "c \<in> set label"
    by blast
  then show ?thesis
    using assms(1)
    by cases (auto simp: validate_hostname_Inr hostname_label_ok_def list_all_iff)
qed

text \<open>
  The documented bounds of the messages that carry user data or destinations, as
  \<open>src/docs/gateway-protocol-v1.md\<close> and the schema comments state them.
\<close>

definition documented_bounds :: "body \<Rightarrow> bool" where
  "documented_bounds b \<longleftrightarrow> (case b of
     Data m \<Rightarrow> odd (unat (da_stream_id m)) \<and> 1 \<le> length (da_payload m) \<and>
               length (da_payload m) \<le> 32768
   | OpenTcpStream m \<Rightarrow>
       odd (unat (ot_stream_id m)) \<and>
       1 \<le> unat (ot_destination_port m) \<and> unat (ot_destination_port m) \<le> 65535 \<and>
       ot_policy_flags m \<in> {0, 1, 2} \<and>
       1 \<le> unat (ot_initial_receive_window m) \<and> unat (ot_initial_receive_window m) \<le> 2 ^ 22 \<and>
       (case ot_destination m of
          Some (Some (Hostname h)) \<Rightarrow> 1 \<le> length h \<and> length h \<le> 253 \<and>
            (\<forall>c \<in> set h. is_ascii_alphanumeric c \<or> c = CHR ''-'' \<or> c = CHR ''.'')
        | Some (Some (IpAddress a)) \<Rightarrow> length a = 4 \<or> length a = 16
        | _ \<Rightarrow> False)
   | WindowUpdate m \<Rightarrow> wu_credit m \<noteq> 0 \<and> (wu_stream_id m = 0 \<or> odd (unat (wu_stream_id m)))
   | ResolveResult m \<Rightarrow>
       length (rr_ip_addresses m) \<le> 16 \<and>
       (\<forall>a \<in> set (rr_ip_addresses m). length a = 4 \<or> length a = 16) \<and>
       (rr_error_code m = 0 \<longleftrightarrow> rr_ip_addresses m \<noteq> [])
   | AuthenticationResult m \<Rightarrow> (ar_accepted m \<longleftrightarrow> 0 < ar_expires_at_unix_seconds m)
   | Error m \<Rightarrow> (er_fatal m \<longrightarrow> er_stream_id m = 0) \<and> er_code m \<in> {1..12} \<and>
                length (er_correlation_id m) = 16
   | _ \<Rightarrow> True)"

lemma policy_flags_values:
  fixes f :: u32
  assumes "f AND NOT 3 = 0" "f \<noteq> 3"
  shows "f \<in> {0, 1, 2}"
proof -
  have "f = f AND 3"
    using assms(1) bit.conj_disj_distrib [of f 3 "NOT 3"] by simp
  then have "f \<le> 3"
    by (metis word_and_le1)
  then have "unat f \<le> 3" by (simp add: word_le_nat_alt)
  then have "unat f = 0 \<or> unat f = 1 \<or> unat f = 2 \<or> unat f = 3" by auto
  then have "f = 0 \<or> f = 1 \<or> f = 2 \<or> f = 3"
    by (simp add: word_unat_eq_iff)
  then show ?thesis using assms(2) by auto
qed

lemma ucast_u32_le:
  fixes w :: u32 assumes "\<not> (4194304 :: u64) < ucast w"
  shows "unat w \<le> 4194304"
  using assms by (simp add: word_less_nat_alt not_less)

lemma validated_data: "validate_data m = Inr () \<Longrightarrow> documented_bounds (Data m)"
  by (auto simp: validation_defs result_simps documented_bounds_def limit_defs)

lemma validated_open_tcp: "validate_open_tcp m = Inr () \<Longrightarrow> documented_bounds (OpenTcpStream m)"
proof -
  assume v: "validate_open_tcp m = Inr ()"
  then obtain d where d: "ot_destination m = Some (Some d)"
    and dv: "(case d of Hostname h \<Rightarrow> validate_hostname h | IpAddress a \<Rightarrow> validate_ip_address a)
               = Inr ()"
    by (auto simp: validate_open_tcp_def result_simps bind_eq_Some_conv)
  have "unat (ot_destination_port m) \<le> 65535" "1 \<le> unat (ot_destination_port m)"
    using v by (auto simp: validate_open_tcp_def result_simps word_less_nat_alt not_less
        Suc_le_eq unat_gt_0)
  moreover have "ot_policy_flags m \<in> {0, 1, 2}"
    using v by (intro policy_flags_values) (auto simp: validate_open_tcp_def result_simps)
  moreover have "1 \<le> unat (ot_initial_receive_window m)"
    "unat (ot_initial_receive_window m) \<le> 4194304"
    using v ucast_u32_le [of "ot_initial_receive_window m"]
    by (auto simp: validate_open_tcp_def validate_stream_window_def result_simps limit_defs
        Suc_le_eq unat_gt_0)
  moreover have "odd (unat (ot_stream_id m))"
    using v by (auto simp: validate_open_tcp_def result_simps)
  moreover have "case d of Hostname h \<Rightarrow> 1 \<le> length h \<and> length h \<le> 253 \<and>
       (\<forall>c \<in> set h. is_ascii_alphanumeric c \<or> c = CHR ''-'' \<or> c = CHR ''.'')
     | IpAddress a \<Rightarrow> length a = 4 \<or> length a = 16"
    using dv hostname_chars
    by (auto simp: validate_ip_address_def validate_hostname_Inr limit_defs Suc_le_eq
        split: destination_value.splits)
  ultimately show ?thesis
    by (simp add: documented_bounds_def d split: destination_value.splits)
qed

lemma validated_resolve_result:
  "validate_resolve_result m = Inr () \<Longrightarrow> documented_bounds (ResolveResult m)"
  by (auto simp: validation_defs result_simps documented_bounds_def limit_defs for_all_eq_Inr
      split: if_splits)

lemma validated_error: "validate_error m = Inr () \<Longrightarrow> documented_bounds (Error m)"
  by (auto simp: validation_defs result_simps documented_bounds_def enum_defs split: if_splits)

lemma validated_authentication_result:
  "validate_authentication_result m = Inr () \<Longrightarrow> documented_bounds (AuthenticationResult m)"
  by (auto simp: validation_defs result_simps documented_bounds_def split: if_splits)

lemma validated_window_update:
  "validate_window_update m = Inr () \<Longrightarrow> documented_bounds (WindowUpdate m)"
  by (auto simp: validation_defs result_simps documented_bounds_def split: if_splits)

lemma validated_body: "validate_body b = Inr () \<Longrightarrow> documented_bounds b"
  by (cases b)
    (simp_all add: validated_data validated_open_tcp validated_resolve_result validated_error
      validated_authentication_result validated_window_update, simp_all add: documented_bounds_def)

section \<open>Properties\<close>



end
