(* ===== verification/Flow_Control.thy ===== *)
theory Flow_Control
  imports Validation
begin

text \<open>
  The credit ledger of \<open>src/crates/gateway-protocol/src/flow.rs\<close>: connection and
  per-stream windows, stream phases, half closes and idle expiry. Every operation takes
  the ledger and returns its result together with the ledger it leaves behind; operations
  that read the clock take the reading as an argument.
\<close>

section \<open>State\<close>

datatype stream_phase = OpeningLocal | OpeningRemote | Open

record stream_state =
  st_phase :: stream_phase
  st_send_window :: u64
  st_receive_window :: u64
  st_local_half_closed :: bool
  st_remote_half_closed :: bool
  st_last_activity :: instant

record flow_controller =
  fc_connection_send_window :: u64
  fc_connection_receive_window :: u64
  fc_maximum_concurrent_streams :: nat
  fc_maximum_seen_stream_id :: u64
  fc_streams :: "(u64, stream_state) fmap"

type_synonym fc_result = "(protocol_error + unit) \<times> flow_controller"

section \<open>Operations\<close>

definition flow_new :: "u32 \<Rightarrow> u32 \<Rightarrow> nat \<Rightarrow> protocol_error + flow_controller" where
  "flow_new peer_connection_receive_window local_connection_receive_window
     maximum_concurrent_streams =
     bindE (ensure (\<not> (peer_connection_receive_window = 0 \<or>
                       local_connection_receive_window = 0 \<or>
                       MAX_CONNECTION_WINDOW < ucast peer_connection_receive_window \<or>
                       MAX_CONNECTION_WINDOW < ucast local_connection_receive_window \<or>
                       maximum_concurrent_streams = 0))
              (InvalidField ''flow_controller_limits'')) (\<lambda>_.
     Inr \<lparr>fc_connection_send_window = ucast peer_connection_receive_window,
          fc_connection_receive_window = ucast local_connection_receive_window,
          fc_maximum_concurrent_streams = maximum_concurrent_streams,
          fc_maximum_seen_stream_id = 0,
          fc_streams = fmempty\<rparr>)"

definition stream_count :: "flow_controller \<Rightarrow> nat" where
  "stream_count f = fcard (fmdom (fc_streams f))"

definition validate_window :: "u32 \<Rightarrow> protocol_error + unit" where
  "validate_window window =
     ensure (\<not> (window = 0 \<or> MAX_STREAM_WINDOW < ucast window)) (InvalidField ''stream_window'')"

definition checked_credit_add :: "u64 \<Rightarrow> u64 \<Rightarrow> u64 \<Rightarrow> protocol_error + u64" where
  "checked_credit_add current credit maximum =
     bindE (ok_or (checked_add_u64 current credit) IntegerOverflow) (\<lambda>updated.
     bindE (ensure (\<not> maximum < updated) FlowControlViolation) (\<lambda>_. Inr updated))"

definition stream_mut :: "flow_controller \<Rightarrow> u64 \<Rightarrow> protocol_error + stream_state" where
  "stream_mut f stream_id =
     bindE (validate_stream_id stream_id) (\<lambda>_.
     ok_or (fmlookup (fc_streams f) stream_id) InvalidStreamId)"

definition set_stream :: "u64 \<Rightarrow> stream_state \<Rightarrow> flow_controller \<Rightarrow> flow_controller" where
  "set_stream stream_id st f = f\<lparr>fc_streams := fmupd stream_id st (fc_streams f)\<rparr>"

definition insert_new_stream ::
  "flow_controller \<Rightarrow> instant \<Rightarrow> u64 \<Rightarrow> stream_phase \<Rightarrow> u32 \<Rightarrow> u32 \<Rightarrow> fc_result" where
  "insert_new_stream f now stream_id phase send_window receive_window =
     tryE (validate_stream_id stream_id) f (\<lambda>_.
     if stream_id \<le> fc_maximum_seen_stream_id f \<or> stream_id |\<in>| fmdom (fc_streams f)
       then (Inl InvalidStreamId, f)
     else if fc_maximum_concurrent_streams f \<le> stream_count f then (Inl StreamLimit, f)
     else
       tryE (if send_window \<noteq> 0 then validate_window send_window else Inr ()) f (\<lambda>_.
       tryE (if receive_window \<noteq> 0 then validate_window receive_window else Inr ()) f (\<lambda>_.
       (Inr (),
        set_stream stream_id
          \<lparr>st_phase = phase, st_send_window = ucast send_window,
           st_receive_window = ucast receive_window, st_local_half_closed = False,
           st_remote_half_closed = False, st_last_activity = now\<rparr>
          (f\<lparr>fc_maximum_seen_stream_id := stream_id\<rparr>)))))"

definition open_local :: "flow_controller \<Rightarrow> instant \<Rightarrow> u64 \<Rightarrow> u32 \<Rightarrow> fc_result" where
  "open_local f now stream_id local_receive_window =
     insert_new_stream f now stream_id OpeningLocal 0 local_receive_window"

definition receive_open :: "flow_controller \<Rightarrow> instant \<Rightarrow> u64 \<Rightarrow> u32 \<Rightarrow> fc_result" where
  "receive_open f now stream_id peer_receive_window =
     insert_new_stream f now stream_id OpeningRemote peer_receive_window 0"

definition confirm_local_open :: "flow_controller \<Rightarrow> instant \<Rightarrow> u64 \<Rightarrow> u32 \<Rightarrow> fc_result" where
  "confirm_local_open f now stream_id peer_receive_window =
     tryE (validate_window peer_receive_window) f (\<lambda>_.
     tryE (stream_mut f stream_id) f (\<lambda>st.
     if st_phase st \<noteq> OpeningLocal
       then (Inl (ProtocolViolation ''unexpected stream-open response''), f)
     else (Inr (), set_stream stream_id
             (st\<lparr>st_phase := Open, st_send_window := ucast peer_receive_window,
                 st_last_activity := now\<rparr>) f)))"

definition accept_remote_open :: "flow_controller \<Rightarrow> instant \<Rightarrow> u64 \<Rightarrow> u32 \<Rightarrow> fc_result" where
  "accept_remote_open f now stream_id local_receive_window =
     tryE (validate_window local_receive_window) f (\<lambda>_.
     tryE (stream_mut f stream_id) f (\<lambda>st.
     if st_phase st \<noteq> OpeningRemote
       then (Inl (ProtocolViolation ''unexpected stream acceptance''), f)
     else (Inr (), set_stream stream_id
             (st\<lparr>st_phase := Open, st_receive_window := ucast local_receive_window,
                 st_last_activity := now\<rparr>) f)))"

definition reject_or_close :: "flow_controller \<Rightarrow> u64 \<Rightarrow> fc_result" where
  "reject_or_close f stream_id =
     tryE (validate_stream_id stream_id) f (\<lambda>_.
     tryE (ok_or (fmlookup (fc_streams f) stream_id) InvalidStreamId) f (\<lambda>_.
     (Inr (), f\<lparr>fc_streams := fmdrop stream_id (fc_streams f)\<rparr>)))"

definition usize_to_u64 :: "nat \<Rightarrow> protocol_error + u64" where
  "usize_to_u64 n = (if n \<le> usize_max then Inr (word_of_nat n) else Inl IntegerOverflow)"

definition debit_send :: "flow_controller \<Rightarrow> instant \<Rightarrow> u64 \<Rightarrow> nat \<Rightarrow> fc_result" where
  "debit_send f now stream_id n =
     tryE (usize_to_u64 n) f (\<lambda>amount.
     if amount = 0 then (Inl (InvalidField ''data_length''), f)
     else if fc_connection_send_window f < amount then (Inl Backpressure, f)
     else
       tryE (stream_mut f stream_id) f (\<lambda>st.
       if st_phase st \<noteq> Open \<or> st_local_half_closed st then (Inl Closed, f)
       else if st_send_window st < amount then (Inl Backpressure, f)
       else (Inr (),
             (set_stream stream_id
                (st\<lparr>st_send_window := st_send_window st - amount, st_last_activity := now\<rparr>) f)
             \<lparr>fc_connection_send_window := fc_connection_send_window f - amount\<rparr>)))"

definition debit_receive :: "flow_controller \<Rightarrow> instant \<Rightarrow> u64 \<Rightarrow> nat \<Rightarrow> fc_result" where
  "debit_receive f now stream_id n =
     tryE (usize_to_u64 n) f (\<lambda>amount.
     let invalid_stream = (case fmlookup (fc_streams f) stream_id of
           Some st \<Rightarrow> st_phase st \<noteq> Open \<or> st_remote_half_closed st \<or> st_receive_window st < amount
         | None \<Rightarrow> True) in
     if amount = 0 \<or> fc_connection_receive_window f < amount \<or> invalid_stream
       then (Inl FlowControlViolation, f)
     else
       tryE (stream_mut f stream_id) f (\<lambda>st.
       (Inr (),
        (set_stream stream_id
           (st\<lparr>st_receive_window := st_receive_window st - amount, st_last_activity := now\<rparr>) f)
        \<lparr>fc_connection_receive_window := fc_connection_receive_window f - amount\<rparr>)))"

definition receive_window_update :: "flow_controller \<Rightarrow> instant \<Rightarrow> u64 \<Rightarrow> u32 \<Rightarrow> fc_result" where
  "receive_window_update f now stream_id credit =
     (if credit = 0 then (Inl FlowControlViolation, f)
      else if stream_id = 0 then
        tryE (checked_credit_add (fc_connection_send_window f) (ucast credit)
                MAX_CONNECTION_WINDOW) f (\<lambda>w.
        (Inr (), f\<lparr>fc_connection_send_window := w\<rparr>))
      else
        tryE (stream_mut f stream_id) f (\<lambda>st.
        tryE (checked_credit_add (st_send_window st) (ucast credit) MAX_STREAM_WINDOW) f (\<lambda>w.
        (Inr (), set_stream stream_id (st\<lparr>st_send_window := w, st_last_activity := now\<rparr>) f))))"

definition grant_receive_credit :: "flow_controller \<Rightarrow> instant \<Rightarrow> u64 \<Rightarrow> u32 \<Rightarrow> fc_result" where
  "grant_receive_credit f now stream_id credit =
     (if credit = 0 then (Inl (InvalidField ''window_credit''), f)
      else if stream_id = 0 then
        tryE (checked_credit_add (fc_connection_receive_window f) (ucast credit)
                MAX_CONNECTION_WINDOW) f (\<lambda>w.
        (Inr (), f\<lparr>fc_connection_receive_window := w\<rparr>))
      else
        tryE (stream_mut f stream_id) f (\<lambda>st.
        tryE (checked_credit_add (st_receive_window st) (ucast credit) MAX_STREAM_WINDOW) f (\<lambda>w.
        (Inr (), set_stream stream_id (st\<lparr>st_receive_window := w, st_last_activity := now\<rparr>) f))))"

definition local_half_close :: "flow_controller \<Rightarrow> instant \<Rightarrow> u64 \<Rightarrow> fc_result" where
  "local_half_close f now stream_id =
     tryE (stream_mut f stream_id) f (\<lambda>st.
     if st_phase st \<noteq> Open \<or> st_local_half_closed st then (Inl Closed, f)
     else (Inr (), set_stream stream_id
             (st\<lparr>st_local_half_closed := True, st_last_activity := now\<rparr>) f))"

definition receive_half_close :: "flow_controller \<Rightarrow> instant \<Rightarrow> u64 \<Rightarrow> fc_result" where
  "receive_half_close f now stream_id =
     tryE (stream_mut f stream_id) f (\<lambda>st.
     if st_phase st \<noteq> Open \<or> st_remote_half_closed st
       then (Inl (ProtocolViolation ''duplicate remote half-close''), f)
     else (Inr (), set_stream stream_id
             (st\<lparr>st_remote_half_closed := True, st_last_activity := now\<rparr>) f))"

text \<open>\<open>checked_duration_since\<close> is \<open>None\<close> for a time stamp in the future, which is then
  not idle. The identifiers come in the order of the \<open>BTreeMap\<close>.\<close>

definition expire_idle :: "flow_controller \<Rightarrow> instant \<Rightarrow> duration \<Rightarrow> u64 list" where
  "expire_idle f now timeout =
     filter (\<lambda>stream_id. case fmlookup (fc_streams f) stream_id of
               None \<Rightarrow> False
             | Some st \<Rightarrow> st_last_activity st \<le> now \<and> timeout \<le> now - st_last_activity st)
       (sorted_list_of_fset (fmdom (fc_streams f)))"

section \<open>The ledger as a machine\<close>

datatype fc_op =
    OpOpenLocal u64 u32
  | OpReceiveOpen u64 u32
  | OpConfirmLocalOpen u64 u32
  | OpAcceptRemoteOpen u64 u32
  | OpRejectOrClose u64
  | OpDebitSend u64 nat
  | OpDebitReceive u64 nat
  | OpReceiveWindowUpdate u64 u32
  | OpGrantReceiveCredit u64 u32
  | OpLocalHalfClose u64
  | OpReceiveHalfClose u64

fun fc_apply :: "fc_op \<Rightarrow> instant \<Rightarrow> flow_controller \<Rightarrow> fc_result" where
  "fc_apply (OpOpenLocal i w) now f = open_local f now i w"
| "fc_apply (OpReceiveOpen i w) now f = receive_open f now i w"
| "fc_apply (OpConfirmLocalOpen i w) now f = confirm_local_open f now i w"
| "fc_apply (OpAcceptRemoteOpen i w) now f = accept_remote_open f now i w"
| "fc_apply (OpRejectOrClose i) now f = reject_or_close f i"
| "fc_apply (OpDebitSend i n) now f = debit_send f now i n"
| "fc_apply (OpDebitReceive i n) now f = debit_receive f now i n"
| "fc_apply (OpReceiveWindowUpdate i c) now f = receive_window_update f now i c"
| "fc_apply (OpGrantReceiveCredit i c) now f = grant_receive_credit f now i c"
| "fc_apply (OpLocalHalfClose i) now f = local_half_close f now i"
| "fc_apply (OpReceiveHalfClose i) now f = receive_half_close f now i"

lemmas fc_op_defs =
  open_local_def receive_open_def insert_new_stream_def confirm_local_open_def
  accept_remote_open_def reject_or_close_def debit_send_def debit_receive_def
  receive_window_update_def grant_receive_credit_def local_half_close_def
  receive_half_close_def

text \<open>An operation that fails leaves the ledger as it was.\<close>

lemma fc_apply_error_unchanged: "fc_apply op now f = (Inl e, g) \<Longrightarrow> g = f"
  by (cases op) (auto simp: fc_op_defs result_simps Let_def split: if_splits)

section \<open>The invariant\<close>

definition stream_ok :: "flow_controller \<Rightarrow> u64 \<Rightarrow> stream_state \<Rightarrow> bool" where
  "stream_ok f i st \<longleftrightarrow>
     odd (unat i) \<and> i \<le> fc_maximum_seen_stream_id f \<and>
     st_send_window st \<le> MAX_STREAM_WINDOW \<and> st_receive_window st \<le> MAX_STREAM_WINDOW"

definition fc_inv :: "flow_controller \<Rightarrow> bool" where
  "fc_inv f \<longleftrightarrow>
     fc_connection_send_window f \<le> MAX_CONNECTION_WINDOW \<and>
     fc_connection_receive_window f \<le> MAX_CONNECTION_WINDOW \<and>
     stream_count f \<le> fc_maximum_concurrent_streams f \<and>
     (\<forall>i st. fmlookup (fc_streams f) i = Some st \<longrightarrow> stream_ok f i st)"

lemma fc_inv_lookup: "fc_inv f \<Longrightarrow> fmlookup (fc_streams f) i = Some st \<Longrightarrow> stream_ok f i st"
  by (simp add: fc_inv_def)

lemma fc_inv_stream:
  assumes "fc_inv f" "fmlookup (fc_streams f) i = Some st"
  shows "odd (unat i)" "i \<le> fc_maximum_seen_stream_id f"
    "st_send_window st \<le> MAX_STREAM_WINDOW" "st_receive_window st \<le> MAX_STREAM_WINDOW"
  using fc_inv_lookup [OF assms] by (simp_all add: stream_ok_def)

lemma stream_mut_Inr [simp]:
  "stream_mut f i = Inr st \<longleftrightarrow> odd (unat i) \<and> fmlookup (fc_streams f) i = Some st"
  by (auto simp: stream_mut_def result_simps)

lemma set_stream_simps [simp]:
  "fc_streams (set_stream i st f) = fmupd i st (fc_streams f)"
  "fc_connection_send_window (set_stream i st f) = fc_connection_send_window f"
  "fc_connection_receive_window (set_stream i st f) = fc_connection_receive_window f"
  "fc_maximum_concurrent_streams (set_stream i st f) = fc_maximum_concurrent_streams f"
  "fc_maximum_seen_stream_id (set_stream i st f) = fc_maximum_seen_stream_id f"
  by (simp_all add: set_stream_def)

lemma stream_count_set_existing [simp]:
  "fmlookup (fc_streams f) i = Some st \<Longrightarrow> stream_count (set_stream i st' f) = stream_count f"
  by (simp add: stream_count_def fcard_fmdom_upd fmdomI del: fmdom_fmupd)

lemma stream_count_frame [simp]:
  "stream_count (f\<lparr>fc_connection_send_window := w\<rparr>) = stream_count f"
  "stream_count (f\<lparr>fc_connection_receive_window := w\<rparr>) = stream_count f"
  "stream_count (f\<lparr>fc_maximum_seen_stream_id := i\<rparr>) = stream_count f"
  by (simp_all add: stream_count_def)

lemma stream_ok_frame [simp]:
  "stream_ok (set_stream j st' f) i st = stream_ok f i st"
  "stream_ok (f\<lparr>fc_connection_send_window := w\<rparr>) i st = stream_ok f i st"
  "stream_ok (f\<lparr>fc_connection_receive_window := w\<rparr>) i st = stream_ok f i st"
  "stream_ok (f\<lparr>fc_streams := m\<rparr>) i st = stream_ok f i st"
  by (simp_all add: stream_ok_def)

lemma fc_inv_set_stream:
  assumes "fc_inv f" "fmlookup (fc_streams f) i = Some st"
    "st_send_window st' \<le> MAX_STREAM_WINDOW" "st_receive_window st' \<le> MAX_STREAM_WINDOW"
  shows "fc_inv (set_stream i st' f)"
  using assms fc_inv_stream(1,2) [OF assms(1,2)] by (auto simp: fc_inv_def stream_ok_def)

lemma fc_inv_connection:
  assumes "fc_inv f"
  shows "fc_connection_send_window f \<le> MAX_CONNECTION_WINDOW"
    "fc_connection_receive_window f \<le> MAX_CONNECTION_WINDOW"
  using assms by (simp_all add: fc_inv_def)

lemma fc_inv_send_window:
  "fc_inv f \<Longrightarrow> w \<le> MAX_CONNECTION_WINDOW \<Longrightarrow> fc_inv (f\<lparr>fc_connection_send_window := w\<rparr>)"
  by (simp add: fc_inv_def)

lemma fc_inv_receive_window:
  "fc_inv f \<Longrightarrow> w \<le> MAX_CONNECTION_WINDOW \<Longrightarrow> fc_inv (f\<lparr>fc_connection_receive_window := w\<rparr>)"
  by (simp add: fc_inv_def)

lemma word_sub_le_self: "(a :: u64) \<le> w \<Longrightarrow> w - a \<le> w"
  by (simp add: word_le_nat_alt unat_sub)

lemma window_debit_le: "\<not> w < (a :: u64) \<Longrightarrow> w \<le> m \<Longrightarrow> w - a \<le> m"
  by (rule order_trans [OF word_sub_le_self]) (simp_all add: not_less)

lemma validate_window_le: "validate_window w = Inr () \<Longrightarrow> ucast w \<le> MAX_STREAM_WINDOW"
  by (simp add: validate_window_def not_less)

lemma checked_credit_add_Inr:
  "checked_credit_add c a m = Inr w \<longleftrightarrow> unat c + unat a < 2 ^ 64 \<and> w = c + a \<and> w \<le> m"
  by (auto simp: checked_credit_add_def result_simps checked_add_u64_Some_iff not_less)

lemma fc_inv_insert:
  assumes "fc_inv f" "insert_new_stream f now i ph sw rw = (Inr (), g)"
  shows "fc_inv g"
proof -
  from assms(2) have odd: "odd (unat i)" and new: "\<not> i \<le> fc_maximum_seen_stream_id f"
      "fmlookup (fc_streams f) i = None"
    and room: "stream_count f < fc_maximum_concurrent_streams f"
    and sw: "(ucast sw :: u64) \<le> MAX_STREAM_WINDOW" and rw: "(ucast rw :: u64) \<le> MAX_STREAM_WINDOW"
    and g: "g = set_stream i \<lparr>st_phase = ph, st_send_window = ucast sw,
           st_receive_window = ucast rw, st_local_half_closed = False,
           st_remote_half_closed = False, st_last_activity = now\<rparr>
          (f\<lparr>fc_maximum_seen_stream_id := i\<rparr>)"
    by (auto simp: insert_new_stream_def result_simps fmlookup_dom_iff
        dest: validate_window_le split: if_splits)
  have "stream_count g \<le> fc_maximum_concurrent_streams f"
    using room new(2) by (simp add: g stream_count_def fcard_finsert_new fmdom_notI)
  moreover have "stream_ok g j st" if "fmlookup (fc_streams g) j = Some st" for j st
  proof (cases "j = i")
    case True
    with that odd sw rw show ?thesis by (auto simp: g stream_ok_def)
  next
    case False
    with that assms(1) have "stream_ok f j st" by (simp add: g fc_inv_lookup)
    with new(1) show ?thesis by (auto simp: g stream_ok_def)
  qed
  ultimately show ?thesis
    using assms(1) by (simp add: fc_inv_def g)
qed

lemma fc_inv_drop: "fc_inv f \<Longrightarrow> fc_inv (f\<lparr>fc_streams := fmdrop i (fc_streams f)\<rparr>)"
  using fcard_fmdom_drop_le [of i "fc_streams f"]
  by (auto simp: fc_inv_def stream_count_def)

lemma fc_inv_apply:
  assumes inv: "fc_inv f" and ok: "fc_apply op now f = (Inr (), g)"
  shows "fc_inv g"
proof (cases op)
  case (OpOpenLocal i w)
  with ok inv show ?thesis by (auto simp: open_local_def intro: fc_inv_insert)
next
  case (OpReceiveOpen i w)
  with ok inv show ?thesis by (auto simp: receive_open_def intro: fc_inv_insert)
next
  case (OpRejectOrClose i)
  with ok inv show ?thesis by (auto simp: reject_or_close_def result_simps intro: fc_inv_drop)
next
  case (OpConfirmLocalOpen i w)
  with ok obtain st where "fmlookup (fc_streams f) i = Some st" "validate_window w = Inr ()"
    "g = set_stream i (st\<lparr>st_phase := Open, st_send_window := ucast w, st_last_activity := now\<rparr>) f"
    by (auto simp: confirm_local_open_def result_simps split: if_splits)
  with inv show ?thesis
    by (auto intro!: fc_inv_set_stream intro: fc_inv_stream validate_window_le)
next
  case (OpAcceptRemoteOpen i w)
  with ok obtain st where "fmlookup (fc_streams f) i = Some st" "validate_window w = Inr ()"
    "g = set_stream i (st\<lparr>st_phase := Open, st_receive_window := ucast w,
                          st_last_activity := now\<rparr>) f"
    by (auto simp: accept_remote_open_def result_simps split: if_splits)
  with inv show ?thesis
    by (auto intro!: fc_inv_set_stream intro: fc_inv_stream validate_window_le)
next
  case (OpDebitSend i n)
  with ok obtain st a where "fmlookup (fc_streams f) i = Some st"
    "\<not> st_send_window st < a" "\<not> fc_connection_send_window f < a"
    "g = (set_stream i (st\<lparr>st_send_window := st_send_window st - a, st_last_activity := now\<rparr>) f)
           \<lparr>fc_connection_send_window := fc_connection_send_window f - a\<rparr>"
    by (auto simp: debit_send_def result_simps split: if_splits)
  with inv show ?thesis
    by (auto intro!: fc_inv_send_window fc_inv_set_stream window_debit_le
        intro: fc_inv_stream fc_inv_connection)
next
  case (OpDebitReceive i n)
  with ok obtain st a where "fmlookup (fc_streams f) i = Some st"
    "\<not> st_receive_window st < a" "\<not> fc_connection_receive_window f < a"
    "g = (set_stream i (st\<lparr>st_receive_window := st_receive_window st - a,
                           st_last_activity := now\<rparr>) f)
           \<lparr>fc_connection_receive_window := fc_connection_receive_window f - a\<rparr>"
    by (auto simp: debit_receive_def result_simps Let_def split: if_splits option.splits)
  with inv show ?thesis
    by (auto intro!: fc_inv_receive_window fc_inv_set_stream window_debit_le
        intro: fc_inv_stream fc_inv_connection)
next
  case (OpReceiveWindowUpdate i c)
  with ok inv show ?thesis
    by (auto simp: receive_window_update_def result_simps checked_credit_add_Inr
        split: if_splits intro!: fc_inv_set_stream fc_inv_send_window intro: fc_inv_stream)
next
  case (OpGrantReceiveCredit i c)
  with ok inv show ?thesis
    by (auto simp: grant_receive_credit_def result_simps checked_credit_add_Inr
        split: if_splits intro!: fc_inv_set_stream fc_inv_receive_window intro: fc_inv_stream)
next
  case (OpLocalHalfClose i)
  with ok inv show ?thesis
    by (auto simp: local_half_close_def result_simps split: if_splits
        intro!: fc_inv_set_stream intro: fc_inv_stream)
next
  case (OpReceiveHalfClose i)
  with ok inv show ?thesis
    by (auto simp: receive_half_close_def result_simps split: if_splits
        intro!: fc_inv_set_stream intro: fc_inv_stream)
qed

definition fc_start :: "flow_controller \<Rightarrow> bool" where
  "fc_start f \<longleftrightarrow> (\<exists>p l m. flow_new p l m = Inr f)"

inductive fc_step :: "flow_controller \<Rightarrow> flow_controller \<Rightarrow> bool" where
  "fc_apply op now f = (r, g) \<Longrightarrow> fc_step f g"

inductive_cases fc_stepE: "fc_step f g"

lemma fc_apply_unit: "fc_apply op now f = (r, g) \<Longrightarrow> r = Inr () \<or> g = f"
  using fc_apply_error_unchanged by (cases r) auto

lemma fc_start_inv: "fc_start f \<Longrightarrow> fc_inv f"
  by (auto simp: fc_start_def flow_new_def result_simps fc_inv_def stream_count_def fcard.rep_eq)

interpretation fcm: invariant_machine fc_start fc_step fc_inv
proof unfold_locales
  show "fc_start f \<Longrightarrow> fc_inv f" for f
    by (rule fc_start_inv)
  show "fc_inv g" if "fc_inv f" "fc_step f g" for f g
    using that(2)
  proof cases
    case (1 op now r)
    with that(1) show ?thesis
      using fc_apply_unit [OF 1] by (auto intro: fc_inv_apply)
  qed
qed

text \<open>Identifiers are used once: the highest identifier seen never decreases.\<close>

lemma insert_new_stream_Inr:
  "insert_new_stream f now i ph sw rw = (Inr (), g) \<Longrightarrow>
     fc_maximum_seen_stream_id f < i \<and> fc_maximum_seen_stream_id g = i"
  by (auto simp: insert_new_stream_def result_simps split: if_splits)

lemma fc_apply_seen:
  assumes "fc_apply op now f = (r, g)"
  shows "fc_maximum_seen_stream_id f \<le> fc_maximum_seen_stream_id g"
  using assms
  by (cases op)
    (auto simp: open_local_def receive_open_def insert_new_stream_def confirm_local_open_def
      accept_remote_open_def reject_or_close_def debit_send_def debit_receive_def
      receive_window_update_def grant_receive_credit_def local_half_close_def
      receive_half_close_def tryE_def Let_def split: if_splits sum.splits option.splits)

lemma fc_steps_seen:
  "fc_step\<^sup>*\<^sup>* f g \<Longrightarrow> fc_maximum_seen_stream_id f \<le> fc_maximum_seen_stream_id g"
proof (induction rule: rtranclp_induct)
  case (step g h)
  then show ?case using fc_apply_seen by (fastforce elim!: fc_stepE)
qed simp

section \<open>Two peers\<close>

text \<open>
  A sender and a receiver joined by two ordered channels: data frames one way, window
  updates the other way. Each side only sends what its own ledger allows.
\<close>

record peers =
  pr_sender :: flow_controller
  pr_receiver :: flow_controller
  pr_data :: "(u64 \<times> nat) list"
  pr_credit :: "(u64 \<times> u32) list"

text \<open>
  The open exchange: \<open>OpenTcpStream\<close> with the opener's window, and \<open>TcpStreamOpened\<close> with
  the acceptor's. Either peer of a data direction may be the opener.
\<close>

definition open_exchange ::
  "flow_controller \<Rightarrow> flow_controller \<Rightarrow> instant \<Rightarrow> u64 \<Rightarrow> u32 \<Rightarrow> u32
     \<Rightarrow> (flow_controller \<times> flow_controller) option" where
  "open_exchange opener acceptor now i w w' =
     (case open_local opener now i w of
        (Inr _, o1) \<Rightarrow> (case receive_open acceptor now i w of
          (Inr _, a1) \<Rightarrow> (case accept_remote_open a1 now i w' of
            (Inr _, a2) \<Rightarrow> (case confirm_local_open o1 now i w' of
              (Inr _, o2) \<Rightarrow> Some (o2, a2) | _ \<Rightarrow> None) | _ \<Rightarrow> None) | _ \<Rightarrow> None) | _ \<Rightarrow> None)"

inductive peer_step :: "peers \<Rightarrow> peers \<Rightarrow> bool" where
  open_by_sender: "open_exchange (pr_sender p) (pr_receiver p) now i w w' = Some (s', r') \<Longrightarrow>
    peer_step p (p\<lparr>pr_sender := s', pr_receiver := r'\<rparr>)"
| open_by_receiver: "open_exchange (pr_receiver p) (pr_sender p) now i w w' = Some (r', s') \<Longrightarrow>
    peer_step p (p\<lparr>pr_sender := s', pr_receiver := r'\<rparr>)"
| send: "debit_send (pr_sender p) now i n = (Inr (), s') \<Longrightarrow>
    peer_step p (p\<lparr>pr_sender := s', pr_data := pr_data p @ [(i, n)]\<rparr>)"
| deliver: "pr_data p = (i, n) # rest \<Longrightarrow>
    debit_receive (pr_receiver p) now i n = (Inr (), r') \<Longrightarrow>
    peer_step p (p\<lparr>pr_receiver := r', pr_data := rest\<rparr>)"
| grant: "grant_receive_credit (pr_receiver p) now i c = (Inr (), r') \<Longrightarrow>
    peer_step p (p\<lparr>pr_receiver := r', pr_credit := pr_credit p @ [(i, c)]\<rparr>)"
| update: "pr_credit p = (i, c) # rest \<Longrightarrow>
    receive_window_update (pr_sender p) now i c = (Inr (), s') \<Longrightarrow>
    peer_step p (p\<lparr>pr_sender := s', pr_credit := rest\<rparr>)"

definition data_in_flight :: "peers \<Rightarrow> nat" where
  "data_in_flight p = sum_list (map snd (pr_data p))"

definition stream_data_in_flight :: "peers \<Rightarrow> u64 \<Rightarrow> nat" where
  "stream_data_in_flight p i = sum_list (map snd (filter (\<lambda>d. fst d = i) (pr_data p)))"

definition credit_in_flight :: "peers \<Rightarrow> u64 \<Rightarrow> nat" where
  "credit_in_flight p i = sum_list (map (unat \<circ> snd) (filter (\<lambda>c. fst c = i) (pr_credit p)))"

text \<open>
  The conserved quantity: what the sender may still send, plus what is on its way in either
  direction, is what the receiver still has to accept.
\<close>

definition stream_conserved :: "peers \<Rightarrow> u64 \<Rightarrow> stream_state \<Rightarrow> stream_state \<Rightarrow> bool" where
  "stream_conserved p i s r \<longleftrightarrow>
     st_phase s = Open \<and> st_phase r = Open \<and>
     \<not> st_local_half_closed s \<and> \<not> st_remote_half_closed r \<and>
     unat (st_send_window s) + stream_data_in_flight p i + credit_in_flight p i
       = unat (st_receive_window r)"

definition conserved :: "peers \<Rightarrow> bool" where
  "conserved p \<longleftrightarrow>
     unat (fc_connection_send_window (pr_sender p)) + data_in_flight p + credit_in_flight p 0
       = unat (fc_connection_receive_window (pr_receiver p)) \<and>
     fmdom (fc_streams (pr_sender p)) = fmdom (fc_streams (pr_receiver p)) \<and>
     (\<forall>i s r. fmlookup (fc_streams (pr_sender p)) i = Some s \<and>
        fmlookup (fc_streams (pr_receiver p)) i = Some r \<longrightarrow> stream_conserved p i s r) \<and>
     (\<forall>(i, n) \<in> set (pr_data p).
        i |\<in>| fmdom (fc_streams (pr_sender p)) \<and> 0 < n \<and> n \<le> usize_max) \<and>
     (\<forall>(i, c) \<in> set (pr_credit p). c \<noteq> 0 \<and>
        (i \<noteq> 0 \<longrightarrow> i |\<in>| fmdom (fc_streams (pr_receiver p))))"

definition peers_inv :: "peers \<Rightarrow> bool" where
  "peers_inv p \<longleftrightarrow> fc_inv (pr_sender p) \<and> fc_inv (pr_receiver p) \<and> conserved p"

lemma usize_to_u64_Inr:
  "usize_to_u64 n = Inr a \<longleftrightarrow> n \<le> usize_max \<and> unat a = n"
proof -
  have "n \<le> usize_max \<Longrightarrow> unat (word_of_nat n :: u64) = n"
    by (simp add: unat_of_nat)
  then show ?thesis
    by (auto simp: usize_to_u64_def)
qed

lemma debit_send_Inr:
  "debit_send f now i n = (Inr (), g) \<longleftrightarrow>
     (\<exists>st a. odd (unat i) \<and> fmlookup (fc_streams f) i = Some st \<and> unat a = n \<and> 0 < n \<and>
        n \<le> usize_max \<and> a \<le> fc_connection_send_window f \<and> a \<le> st_send_window st \<and>
        st_phase st = Open \<and> \<not> st_local_half_closed st \<and>
        g = (set_stream i (st\<lparr>st_send_window := st_send_window st - a,
                             st_last_activity := now\<rparr>) f)
              \<lparr>fc_connection_send_window := fc_connection_send_window f - a\<rparr>)"
  by (fastforce simp: debit_send_def result_simps usize_to_u64_Inr not_less unat_gt_0
      split: if_splits)

lemma debit_receive_Inr:
  "debit_receive f now i n = (Inr (), g) \<longleftrightarrow>
     (\<exists>st a. odd (unat i) \<and> fmlookup (fc_streams f) i = Some st \<and> unat a = n \<and> 0 < n \<and>
        n \<le> usize_max \<and> a \<le> fc_connection_receive_window f \<and> a \<le> st_receive_window st \<and>
        st_phase st = Open \<and> \<not> st_remote_half_closed st \<and>
        g = (set_stream i (st\<lparr>st_receive_window := st_receive_window st - a,
                             st_last_activity := now\<rparr>) f)
              \<lparr>fc_connection_receive_window := fc_connection_receive_window f - a\<rparr>)"
  by (fastforce simp: debit_receive_def result_simps usize_to_u64_Inr not_less unat_gt_0 Let_def
      split: if_splits option.splits)

lemma receive_window_update_Inr:
  "receive_window_update f now i c = (Inr (), g) \<longleftrightarrow> c \<noteq> 0 \<and>
     (if i = 0 then
        unat (fc_connection_send_window f) + unat c \<le> unat MAX_CONNECTION_WINDOW \<and>
        g = f\<lparr>fc_connection_send_window := fc_connection_send_window f + ucast c\<rparr>
      else
        (\<exists>st. odd (unat i) \<and> fmlookup (fc_streams f) i = Some st \<and>
           unat (st_send_window st) + unat c \<le> unat MAX_STREAM_WINDOW \<and>
           g = set_stream i (st\<lparr>st_send_window := st_send_window st + ucast c,
                               st_last_activity := now\<rparr>) f))"
proof -
  have add: "unat w + unat c < 2 ^ 64 \<and> w + ucast c \<le> m \<longleftrightarrow> unat w + unat c \<le> unat m"
    for w m :: u64
    using unat_u64_lt [of m] by (auto simp: word_le_nat_alt unat_word_ariths)
  show ?thesis
    by (auto simp: receive_window_update_def result_simps checked_credit_add_Inr simp flip: add)
qed

lemma grant_receive_credit_Inr:
  "grant_receive_credit f now i c = (Inr (), g) \<longleftrightarrow> c \<noteq> 0 \<and>
     (if i = 0 then
        unat (fc_connection_receive_window f) + unat c \<le> unat MAX_CONNECTION_WINDOW \<and>
        g = f\<lparr>fc_connection_receive_window := fc_connection_receive_window f + ucast c\<rparr>
      else
        (\<exists>st. odd (unat i) \<and> fmlookup (fc_streams f) i = Some st \<and>
           unat (st_receive_window st) + unat c \<le> unat MAX_STREAM_WINDOW \<and>
           g = set_stream i (st\<lparr>st_receive_window := st_receive_window st + ucast c,
                               st_last_activity := now\<rparr>) f))"
proof -
  have add: "unat w + unat c < 2 ^ 64 \<and> w + ucast c \<le> m \<longleftrightarrow> unat w + unat c \<le> unat m"
    for w m :: u64
    using unat_u64_lt [of m] by (auto simp: word_le_nat_alt unat_word_ariths)
  show ?thesis
    by (auto simp: grant_receive_credit_def result_simps checked_credit_add_Inr simp flip: add)
qed

lemma unat_add_credit:
  fixes w m :: u64 and c :: u32
  assumes "unat w + unat c \<le> unat m"
  shows "unat (w + ucast c) = unat w + unat c"
  using assms unat_u64_lt [of m] by (simp add: unat_word_ariths)

lemma no_stream_zero: "fc_inv f \<Longrightarrow> fmlookup (fc_streams f) 0 = None"
  using fc_inv_stream(1) [of f 0] by (cases "fmlookup (fc_streams f) 0") auto

lemmas in_flight_defs =
  data_in_flight_def stream_data_in_flight_def credit_in_flight_def

lemma conserved_stream:
  assumes "conserved p" "fmlookup (fc_streams (pr_sender p)) i = Some s"
    "fmlookup (fc_streams (pr_receiver p)) i = Some r"
  shows "stream_conserved p i s r"
  using assms by (auto simp: conserved_def)

lemma finsert_fmdom: "fmlookup m i = Some v \<Longrightarrow> finsert i (fmdom m) = fmdom m"
  by (simp add: finsert_absorb fmdomI)

lemma conserved_dom:
  "conserved p \<Longrightarrow> fmdom (fc_streams (pr_sender p)) = fmdom (fc_streams (pr_receiver p))"
  by (simp add: conserved_def)

lemma conservedI:
  assumes "unat (fc_connection_send_window (pr_sender p)) + data_in_flight p + credit_in_flight p 0
       = unat (fc_connection_receive_window (pr_receiver p))"
    and "fmdom (fc_streams (pr_sender p)) = fmdom (fc_streams (pr_receiver p))"
    and "\<And>j s r. fmlookup (fc_streams (pr_sender p)) j = Some s \<Longrightarrow>
       fmlookup (fc_streams (pr_receiver p)) j = Some r \<Longrightarrow> stream_conserved p j s r"
    and "\<And>j n. (j, n) \<in> set (pr_data p) \<Longrightarrow>
       j |\<in>| fmdom (fc_streams (pr_sender p)) \<and> 0 < n \<and> n \<le> usize_max"
    and "\<And>j c. (j, c) \<in> set (pr_credit p) \<Longrightarrow>
       c \<noteq> 0 \<and> (j \<noteq> 0 \<longrightarrow> j |\<in>| fmdom (fc_streams (pr_receiver p)))"
  shows "conserved p"
  using assms unfolding conserved_def by blast

lemma conservedD:
  assumes "conserved p"
  shows "unat (fc_connection_send_window (pr_sender p)) + data_in_flight p + credit_in_flight p 0
       = unat (fc_connection_receive_window (pr_receiver p))"
    and "fmdom (fc_streams (pr_sender p)) = fmdom (fc_streams (pr_receiver p))"
    and "(j, n) \<in> set (pr_data p) \<Longrightarrow>
       j |\<in>| fmdom (fc_streams (pr_sender p)) \<and> 0 < n \<and> n \<le> usize_max"
    and "(j, c) \<in> set (pr_credit p) \<Longrightarrow>
       c \<noteq> 0 \<and> (j \<noteq> 0 \<longrightarrow> j |\<in>| fmdom (fc_streams (pr_receiver p)))"
  using assms unfolding conserved_def by blast+

lemma conserved_send:
  assumes c: "conserved p" and s: "debit_send (pr_sender p) now i n = (Inr (), s')"
  shows "conserved (p\<lparr>pr_sender := s', pr_data := pr_data p @ [(i, n)]\<rparr>)" (is "conserved ?q")
proof -
  from s obtain st a where st: "fmlookup (fc_streams (pr_sender p)) i = Some st"
    and a: "unat a = n" "0 < n" "n \<le> usize_max"
    and le: "a \<le> fc_connection_send_window (pr_sender p)" "a \<le> st_send_window st"
    and s': "s' = (set_stream i (st\<lparr>st_send_window := st_send_window st - a,
                             st_last_activity := now\<rparr>) (pr_sender p))
              \<lparr>fc_connection_send_window := fc_connection_send_window (pr_sender p) - a\<rparr>"
    by (auto simp: debit_send_Inr)
  have n: "n \<le> unat (fc_connection_send_window (pr_sender p))" "n \<le> unat (st_send_window st)"
    using le a by (auto simp: word_le_nat_alt)
  have "stream_conserved ?q j x r"
    if "fmlookup (fc_streams (pr_sender ?q)) j = Some x"
      "fmlookup (fc_streams (pr_receiver ?q)) j = Some r" for j x r
  proof (cases "j = i")
    case True
    with that have "x = st\<lparr>st_send_window := st_send_window st - a, st_last_activity := now\<rparr>"
      and "fmlookup (fc_streams (pr_receiver p)) i = Some r"
      by (simp_all add: s')
    with conserved_stream [OF c st, of r] True a n le show ?thesis
      by (simp add: stream_conserved_def unat_sub in_flight_defs)
  next
    case False
    with that conserved_stream [OF c, of j x r] show ?thesis
      by (simp add: s' stream_conserved_def in_flight_defs)
  qed
  then show ?thesis
    using conservedD(1,2) [OF c] a n le st
    by (intro conservedI)
      (auto simp: s' unat_sub in_flight_defs finsert_fmdom dest: fmdomI conservedD(3,4) [OF c])
qed

lemma conserved_deliver:
  assumes c: "conserved p" and d: "pr_data p = (i, n) # rest"
    and r: "debit_receive (pr_receiver p) now i n = (Inr (), r')"
  shows "conserved (p\<lparr>pr_receiver := r', pr_data := rest\<rparr>)" (is "conserved ?q")
proof -
  from r obtain st a where st: "fmlookup (fc_streams (pr_receiver p)) i = Some st"
    and a: "unat a = n" "0 < n" "n \<le> usize_max"
    and le: "a \<le> fc_connection_receive_window (pr_receiver p)" "a \<le> st_receive_window st"
    and r': "r' = (set_stream i (st\<lparr>st_receive_window := st_receive_window st - a,
                             st_last_activity := now\<rparr>) (pr_receiver p))
              \<lparr>fc_connection_receive_window := fc_connection_receive_window (pr_receiver p) - a\<rparr>"
    by (auto simp: debit_receive_Inr)
  have "stream_conserved ?q j x y"
    if "fmlookup (fc_streams (pr_sender ?q)) j = Some x"
      "fmlookup (fc_streams (pr_receiver ?q)) j = Some y" for j x y
  proof (cases "j = i")
    case True
    with that have "fmlookup (fc_streams (pr_sender p)) i = Some x"
      and "y = st\<lparr>st_receive_window := st_receive_window st - a, st_last_activity := now\<rparr>"
      by (simp_all add: r')
    with conserved_stream [OF c _ st, of x] True a le d show ?thesis
      by (simp add: stream_conserved_def unat_sub in_flight_defs) linarith
  next
    case False
    with that conserved_stream [OF c, of j x y] d show ?thesis
      by (simp add: r' stream_conserved_def in_flight_defs)
  qed
  moreover have "j |\<in>| fmdom (fc_streams (pr_sender p)) \<and> 0 < m \<and> m \<le> usize_max"
    if "(j, m) \<in> set rest" for j m
    using that d conservedD(3) [OF c, of j m] by simp
  ultimately show ?thesis
    using conservedD(1,2) [OF c] a le st d
    by (intro conservedI)
      (auto simp: r' unat_sub in_flight_defs finsert_fmdom dest: conservedD(4) [OF c])
qed

lemma conserved_grant:
  assumes c: "conserved p" and inv: "fc_inv (pr_sender p)"
    and r: "grant_receive_credit (pr_receiver p) now i c' = (Inr (), r')"
  shows "conserved (p\<lparr>pr_receiver := r', pr_credit := pr_credit p @ [(i, c')]\<rparr>)"
    (is "conserved ?q")
proof -
  have streams: "stream_conserved ?q j x y"
    if "fmlookup (fc_streams (pr_sender ?q)) j = Some x"
      "fmlookup (fc_streams (pr_receiver ?q)) j = Some y" for j x y
  proof (cases "j = i \<and> i \<noteq> 0")
    case True
    with that r obtain z where "fmlookup (fc_streams (pr_sender p)) i = Some x"
      "fmlookup (fc_streams (pr_receiver p)) i = Some z"
      "unat (st_receive_window z) + unat c' \<le> unat MAX_STREAM_WINDOW"
      "y = z\<lparr>st_receive_window := st_receive_window z + ucast c', st_last_activity := now\<rparr>"
      by (auto simp: grant_receive_credit_Inr)
    with conserved_stream [OF c, of i x z] True show ?thesis
      by (simp add: stream_conserved_def unat_add_credit in_flight_defs)
  next
    case False
    with that r no_stream_zero [OF inv] have "j \<noteq> 0" "j \<noteq> i"
      "fmlookup (fc_streams (pr_sender p)) j = Some x"
      "fmlookup (fc_streams (pr_receiver p)) j = Some y"
      by (auto simp: grant_receive_credit_Inr split: if_splits)
    with conserved_stream [OF c, of j x y] show ?thesis
      by (simp add: stream_conserved_def in_flight_defs)
  qed
  show ?thesis
  proof (cases "i = 0")
    case True
    with streams r conservedD(1,2) [OF c] show ?thesis
      by (intro conservedI)
        (auto simp: grant_receive_credit_Inr unat_add_credit in_flight_defs
          dest: conservedD(3,4) [OF c])
  next
    case False
    with streams r conservedD(1,2) [OF c] show ?thesis
      by (intro conservedI)
        (auto simp: grant_receive_credit_Inr in_flight_defs finsert_fmdom
          dest: fmdomI conservedD(3,4) [OF c])
  qed
qed

lemma conserved_update:
  assumes c: "conserved p" and inv: "fc_inv (pr_sender p)"
    and d: "pr_credit p = (i, c') # rest"
    and s: "receive_window_update (pr_sender p) now i c' = (Inr (), s')"
  shows "conserved (p\<lparr>pr_sender := s', pr_credit := rest\<rparr>)" (is "conserved ?q")
proof -
  have streams: "stream_conserved ?q j x y"
    if "fmlookup (fc_streams (pr_sender ?q)) j = Some x"
      "fmlookup (fc_streams (pr_receiver ?q)) j = Some y" for j x y
  proof (cases "j = i \<and> i \<noteq> 0")
    case True
    with that s obtain z where "fmlookup (fc_streams (pr_sender p)) i = Some z"
      "fmlookup (fc_streams (pr_receiver p)) i = Some y"
      "unat (st_send_window z) + unat c' \<le> unat MAX_STREAM_WINDOW"
      "x = z\<lparr>st_send_window := st_send_window z + ucast c', st_last_activity := now\<rparr>"
      by (auto simp: receive_window_update_Inr)
    with conserved_stream [OF c, of i z y] True d show ?thesis
      by (simp add: stream_conserved_def unat_add_credit in_flight_defs)
  next
    case False
    with that s no_stream_zero [OF inv] have "j \<noteq> 0" "j \<noteq> i"
      "fmlookup (fc_streams (pr_sender p)) j = Some x"
      "fmlookup (fc_streams (pr_receiver p)) j = Some y"
      by (auto simp: receive_window_update_Inr split: if_splits)
    with conserved_stream [OF c, of j x y] d show ?thesis
      by (simp add: stream_conserved_def in_flight_defs)
  qed
  have credit: "c'' \<noteq> 0 \<and> (j \<noteq> 0 \<longrightarrow> j |\<in>| fmdom (fc_streams (pr_receiver p)))"
    if "(j, c'') \<in> set rest" for j c''
    using that d conservedD(4) [OF c, of j c''] by simp
  show ?thesis
  proof (cases "i = 0")
    case True
    with streams credit s d conservedD(1,2) [OF c] show ?thesis
      by (intro conservedI)
        (auto simp: receive_window_update_Inr unat_add_credit in_flight_defs
          dest: conservedD(3) [OF c])
  next
    case False
    with streams credit s d conservedD(1,2) [OF c] show ?thesis
      by (intro conservedI)
        (auto simp: receive_window_update_Inr in_flight_defs finsert_fmdom
          dest: conservedD(3) [OF c])
  qed
qed

lemma open_local_confirmed:
  assumes "open_local f now i w = (Inr (), f1)" "confirm_local_open f1 now i w' = (Inr (), f2)"
  shows "i |\<notin>| fmdom (fc_streams f) \<and> f2 = set_stream i
    \<lparr>st_phase = Open, st_send_window = ucast w', st_receive_window = ucast w,
     st_local_half_closed = False, st_remote_half_closed = False, st_last_activity = now\<rparr>
    (f\<lparr>fc_maximum_seen_stream_id := i\<rparr>)"
  using assms
  by (auto simp: open_local_def insert_new_stream_def confirm_local_open_def result_simps
      set_stream_def split: if_splits)

lemma remote_open_accepted:
  assumes "receive_open f now i w = (Inr (), f1)" "accept_remote_open f1 now i w' = (Inr (), f2)"
  shows "i |\<notin>| fmdom (fc_streams f) \<and> f2 = set_stream i
    \<lparr>st_phase = Open, st_send_window = ucast w, st_receive_window = ucast w',
     st_local_half_closed = False, st_remote_half_closed = False, st_last_activity = now\<rparr>
    (f\<lparr>fc_maximum_seen_stream_id := i\<rparr>)"
  using assms
  by (auto simp: receive_open_def insert_new_stream_def accept_remote_open_def result_simps
      set_stream_def split: if_splits)

lemma open_exchangeD:
  assumes "open_exchange f g now i w w' = Some (f', g')"
  obtains f1 g1 where "open_local f now i w = (Inr (), f1)" "receive_open g now i w = (Inr (), g1)"
    "accept_remote_open g1 now i w' = (Inr (), g')" "confirm_local_open f1 now i w' = (Inr (), f')"
  using assms by (auto simp: open_exchange_def split: prod.splits sum.splits)

lemma no_traffic_on_new_stream:
  assumes "conserved p" "i |\<notin>| fmdom (fc_streams (pr_sender p))" "i \<noteq> 0"
  shows "stream_data_in_flight p i = 0" "credit_in_flight p i = 0"
proof -
  have "filter (\<lambda>d. fst d = i) (pr_data p) = []"
    using conservedD(3) [OF assms(1)] assms(2) by (fastforce simp: filter_empty_conv)
  then show "stream_data_in_flight p i = 0"
    by (simp add: stream_data_in_flight_def)
  have "filter (\<lambda>d. fst d = i) (pr_credit p) = []"
    using conservedD(2,4) [OF assms(1)] assms(2,3) by (fastforce simp: filter_empty_conv)
  then show "credit_in_flight p i = 0"
    by (simp add: credit_in_flight_def)
qed

lemma conserved_open:
  assumes c: "conserved p" and i: "i |\<notin>| fmdom (fc_streams (pr_sender p))" "i \<noteq> 0"
    and s: "s' = set_stream i x ((pr_sender p)\<lparr>fc_maximum_seen_stream_id := i\<rparr>)"
    and r: "r' = set_stream i y ((pr_receiver p)\<lparr>fc_maximum_seen_stream_id := i\<rparr>)"
    and xy: "st_phase x = Open" "st_phase y = Open" "\<not> st_local_half_closed x"
      "\<not> st_remote_half_closed y" "st_send_window x = st_receive_window y"
  shows "conserved (p\<lparr>pr_sender := s', pr_receiver := r'\<rparr>)" (is "conserved ?q")
proof -
  have "stream_conserved ?q j a b"
    if "fmlookup (fc_streams (pr_sender ?q)) j = Some a"
      "fmlookup (fc_streams (pr_receiver ?q)) j = Some b" for j a b
  proof (cases "j = i")
    case True
    with that have "a = x" "b = y" by (simp_all add: s r)
    with True xy no_traffic_on_new_stream [OF c i] show ?thesis
      by (simp add: stream_conserved_def in_flight_defs)
  next
    case False
    with that conserved_stream [OF c, of j a b] show ?thesis
      by (simp add: s r stream_conserved_def in_flight_defs)
  qed
  then show ?thesis
    using conservedD(1,2) [OF c]
    by (intro conservedI) (auto simp: s r in_flight_defs dest: conservedD(3,4) [OF c])
qed

lemma open_exchange_inv:
  assumes "open_exchange f g now i w w' = Some (f', g')" "fc_inv f" "fc_inv g"
  shows "fc_inv f' \<and> fc_inv g' \<and> i \<noteq> 0"
proof -
  from assms(1) obtain f1 g1
    where o: "open_local f now i w = (Inr (), f1)" "receive_open g now i w = (Inr (), g1)"
      "accept_remote_open g1 now i w' = (Inr (), g')" "confirm_local_open f1 now i w' = (Inr (), f')"
    by (rule open_exchangeD)
  then have "fc_inv f1" "fc_inv g1"
    using fc_inv_apply [OF assms(2), of "OpOpenLocal i w"] fc_inv_apply [OF assms(3), of "OpReceiveOpen i w"]
    by auto
  then have "fc_inv f'" "fc_inv g'"
    using o fc_inv_apply [of f1 "OpConfirmLocalOpen i w'"] fc_inv_apply [of g1 "OpAcceptRemoteOpen i w'"]
    by auto
  moreover from o(1) have "i \<noteq> 0"
    by (auto dest!: insert_new_stream_Inr simp: open_local_def)
  ultimately show ?thesis by simp
qed

lemma conserved_open_by_sender:
  assumes c: "peers_inv p"
    and o: "open_exchange (pr_sender p) (pr_receiver p) now i w w' = Some (s', r')"
  shows "peers_inv (p\<lparr>pr_sender := s', pr_receiver := r'\<rparr>)"
proof -
  have inv: "fc_inv s' \<and> fc_inv r' \<and> i \<noteq> 0"
    using open_exchange_inv [OF o] c by (simp add: peers_inv_def)
  from o obtain f1 g1
    where s: "open_local (pr_sender p) now i w = (Inr (), f1)"
        "confirm_local_open f1 now i w' = (Inr (), s')"
      and r: "receive_open (pr_receiver p) now i w = (Inr (), g1)"
        "accept_remote_open g1 now i w' = (Inr (), r')"
    by (rule open_exchangeD)
  have "conserved (p\<lparr>pr_sender := s', pr_receiver := r'\<rparr>)"
    by (rule conserved_open [OF _ _ _ conjunct2 [OF open_local_confirmed [OF s]]
          conjunct2 [OF remote_open_accepted [OF r]]])
      (use c inv open_local_confirmed [OF s] in \<open>simp_all add: peers_inv_def\<close>)
  with inv show ?thesis by (simp add: peers_inv_def)
qed

lemma conserved_open_by_receiver:
  assumes c: "peers_inv p"
    and o: "open_exchange (pr_receiver p) (pr_sender p) now i w w' = Some (r', s')"
  shows "peers_inv (p\<lparr>pr_sender := s', pr_receiver := r'\<rparr>)"
proof -
  have inv: "fc_inv r' \<and> fc_inv s' \<and> i \<noteq> 0"
    using open_exchange_inv [OF o] c by (simp add: peers_inv_def)
  from o obtain f1 g1
    where r: "open_local (pr_receiver p) now i w = (Inr (), f1)"
        "confirm_local_open f1 now i w' = (Inr (), r')"
      and s: "receive_open (pr_sender p) now i w = (Inr (), g1)"
        "accept_remote_open g1 now i w' = (Inr (), s')"
    by (rule open_exchangeD)
  have "conserved (p\<lparr>pr_sender := s', pr_receiver := r'\<rparr>)"
    by (rule conserved_open [OF _ _ _ conjunct2 [OF remote_open_accepted [OF s]]
          conjunct2 [OF open_local_confirmed [OF r]]])
      (use c inv remote_open_accepted [OF s] in \<open>simp_all add: peers_inv_def\<close>)
  with inv show ?thesis by (simp add: peers_inv_def)
qed

lemma peers_inv_step:
  assumes "peers_inv p" "peer_step p q"
  shows "peers_inv q"
  using assms(2)
proof cases
  case (open_by_sender now i w w' s' r')
  with assms(1) show ?thesis by (simp add: conserved_open_by_sender)
next
  case (open_by_receiver now i w w' r' s')
  with assms(1) show ?thesis by (simp add: conserved_open_by_receiver)
next
  case (send now i n s')
  with assms(1) fc_inv_apply [of "pr_sender p" "OpDebitSend i n"] show ?thesis
    by (auto simp: peers_inv_def intro: conserved_send)
next
  case (deliver i n rest now r')
  with assms(1) fc_inv_apply [of "pr_receiver p" "OpDebitReceive i n"] show ?thesis
    by (auto simp: peers_inv_def intro: conserved_deliver)
next
  case (grant now i c r')
  with assms(1) fc_inv_apply [of "pr_receiver p" "OpGrantReceiveCredit i c"] show ?thesis
    by (auto simp: peers_inv_def intro: conserved_grant)
next
  case (update i c rest now s')
  with assms(1) fc_inv_apply [of "pr_sender p" "OpReceiveWindowUpdate i c"] show ?thesis
    by (auto simp: peers_inv_def intro: conserved_update)
qed

definition peers_start :: "peers \<Rightarrow> bool" where
  "peers_start p \<longleftrightarrow>
     (\<exists>w v m m'. flow_new w v m = Inr (pr_sender p) \<and> flow_new v w m' = Inr (pr_receiver p)) \<and>
     pr_data p = [] \<and> pr_credit p = []"

lemma flow_new_fields:
  assumes "flow_new w v m = Inr f"
  shows "fc_connection_send_window f = ucast w" "fc_connection_receive_window f = ucast v"
    "fc_streams f = fmempty" "fc_maximum_seen_stream_id f = 0"
  using assms by (auto simp: flow_new_def result_simps)

lemma peers_start_inv:
  assumes "peers_start p"
  shows "peers_inv p"
proof -
  from assms obtain w v m m'
    where new: "flow_new w v m = Inr (pr_sender p)" "flow_new v w m' = Inr (pr_receiver p)"
      and empty: "pr_data p = []" "pr_credit p = []"
    by (auto simp: peers_start_def)
  from new have "fc_inv (pr_sender p)" "fc_inv (pr_receiver p)"
    using fc_start_inv by (auto simp: fc_start_def)
  moreover have "conserved p"
    by (rule conservedI) (simp_all add: flow_new_fields [OF new(1)] flow_new_fields [OF new(2)]
        in_flight_defs empty)
  ultimately show ?thesis by (simp add: peers_inv_def)
qed

interpretation peerm: invariant_machine peers_start peer_step peers_inv
  by unfold_locales (blast intro: peers_start_inv peers_inv_step)+


lemma head_of_data_accepted:
  assumes inv: "peers_inv p" and d: "pr_data p = (i, n) # rest"
  shows "\<exists>r'. debit_receive (pr_receiver p) now i n = (Inr (), r')"
proof -
  from inv have c: "conserved p" by (simp add: peers_inv_def)
  from conservedD(3) [OF c, of i n] d have i: "i |\<in>| fmdom (fc_streams (pr_sender p))"
    and n: "0 < n" "n \<le> usize_max" by auto
  with conservedD(2) [OF c] obtain s r
    where s: "fmlookup (fc_streams (pr_sender p)) i = Some s"
      and r: "fmlookup (fc_streams (pr_receiver p)) i = Some r"
    by (metis fmdomE)
  define a :: u64 where "a = word_of_nat n"
  with n usize_to_u64_Inr [of n a] have a: "unat a = n"
    by (simp add: usize_to_u64_def)
  have "odd (unat i)" using inv s fc_inv_stream(1) by (auto simp: peers_inv_def)
  moreover have "st_phase r = Open" "\<not> st_remote_half_closed r" "a \<le> st_receive_window r"
    using conserved_stream [OF c s r] d a
    by (simp_all add: stream_conserved_def in_flight_defs word_le_nat_alt)
  moreover have "a \<le> fc_connection_receive_window (pr_receiver p)"
    using conservedD(1) [OF c] d a by (simp add: in_flight_defs word_le_nat_alt)
  ultimately show ?thesis
    using r a n by (auto simp: debit_receive_Inr)
qed

lemma head_of_credit_accepted:
  assumes inv: "peers_inv p" and d: "pr_credit p = (i, c) # rest"
  shows "\<exists>s'. receive_window_update (pr_sender p) now i c = (Inr (), s')"
proof -
  from inv have k: "conserved p" by (simp add: peers_inv_def)
  from conservedD(4) [OF k, of i c] d have c: "c \<noteq> 0" by simp
  show ?thesis
  proof (cases "i = 0")
    case True
    with conservedD(1) [OF k] d fc_inv_connection(2) [of "pr_receiver p"] inv c show ?thesis
      by (auto simp: receive_window_update_Inr in_flight_defs word_le_nat_alt peers_inv_def)
  next
    case False
    with conservedD(2,4) [OF k] d obtain s r
      where s: "fmlookup (fc_streams (pr_sender p)) i = Some s"
        and r: "fmlookup (fc_streams (pr_receiver p)) i = Some r"
      by (metis fmdomE list.set_intros(1))
    have "odd (unat i)" "st_receive_window r \<le> MAX_STREAM_WINDOW"
      using inv r fc_inv_stream by (auto simp: peers_inv_def)
    with conserved_stream [OF k s r] s c d False show ?thesis
      by (auto simp: receive_window_update_Inr stream_conserved_def in_flight_defs word_le_nat_alt)
  qed
qed

section \<open>Properties\<close>

text \<open>
  C17. In every state a flow controller can reach, both connection windows, every stream
  window and the number of streams are within the protocol's bounds, every open stream
  has an odd identifier not above the highest one seen, and an operation that returns an
  error has changed nothing.
\<close>

theorem flow_ledger_bounded:
  assumes "reach fc_start fc_step f"
  shows "fc_connection_send_window f \<le> MAX_CONNECTION_WINDOW \<and>
    fc_connection_receive_window f \<le> MAX_CONNECTION_WINDOW \<and>
    stream_count f \<le> fc_maximum_concurrent_streams f \<and>
    (\<forall>i st. fmlookup (fc_streams f) i = Some st \<longrightarrow>
      odd (unat i) \<and> i \<le> fc_maximum_seen_stream_id f \<and>
      st_send_window st \<le> MAX_STREAM_WINDOW \<and> st_receive_window st \<le> MAX_STREAM_WINDOW) \<and>
    (\<forall>op now e g. fc_apply op now f = (Inl e, g) \<longrightarrow> g = f)"
  using fcm.reach_inv [OF assms] fc_apply_error_unchanged
  by (auto simp: fc_inv_def stream_ok_def)

definition example_flow :: flow_controller where
  "example_flow =
     \<lparr>fc_connection_send_window = 1048576, fc_connection_receive_window = 1048576,
      fc_maximum_concurrent_streams = 4, fc_maximum_seen_stream_id = 0, fc_streams = fmempty\<rparr>"

definition example_stream :: stream_state where
  "example_stream =
     \<lparr>st_phase = Open, st_send_window = 65536, st_receive_window = 65536,
      st_local_half_closed = False, st_remote_half_closed = False, st_last_activity = 5\<rparr>"

definition example_open :: flow_controller where
  "example_open = set_stream 1 example_stream (example_flow\<lparr>fc_maximum_seen_stream_id := 1\<rparr>)"

lemma example_flow_new: "flow_new 1048576 1048576 4 = Inr example_flow"
  by (simp add: flow_new_def example_flow_def result_simps limit_defs)

lemma example_open_exchange:
  "open_exchange example_flow example_flow 5 1 65536 65536 = Some (example_open, example_open)"
  by (simp add: open_exchange_def open_local_def receive_open_def insert_new_stream_def
      accept_remote_open_def confirm_local_open_def validate_stream_id_def validate_window_def
      stream_mut_def set_stream_def stream_count_def result_simps limit_defs example_open_def
      example_stream_def example_flow_def fcard.rep_eq)

theorem flow_ledger_bounded_witness:
  "\<exists>f. reach fc_start fc_step f \<and> f \<noteq> example_flow \<and>
     fc_connection_send_window f \<le> MAX_CONNECTION_WINDOW \<and>
     stream_count f \<le> fc_maximum_concurrent_streams f \<and>
     fc_apply (OpDebitSend 1 10) 7 f = (Inl Closed, f)"
proof -
  obtain f where f: "fc_apply (OpOpenLocal 1 65536) 5 example_flow = (Inr (), f)"
    "fc_apply (OpDebitSend 1 10) 7 f = (Inl Closed, f)" "fc_maximum_seen_stream_id f = 1"
    by (simp add: open_local_def insert_new_stream_def validate_stream_id_def validate_window_def
        debit_send_def usize_to_u64_def
        stream_mut_def set_stream_def stream_count_def result_simps limit_defs example_flow_def
        fcard.rep_eq)
  have "reach fc_start fc_step example_flow"
    using example_flow_new unfolding fc_start_def by (blast intro: reach_start)
  with f(1) have r: "reach fc_start fc_step f"
    by (blast intro: reach_step fc_step.intros)
  have "f \<noteq> example_flow" using f(3) by (auto simp: example_flow_def)
  with r f flow_ledger_bounded [OF r] show ?thesis by blast
qed

text \<open>
  C18. Stream identifiers are used once. After an identifier has been opened, by either side,
  no sequence of operations makes it possible to open it again: both open operations refuse
  it with \<open>InvalidStreamId\<close>.
\<close>

theorem stream_identifiers_never_reused:
  assumes "fc_apply op now f = (Inr (), g)"
    and "op = OpOpenLocal i w \<or> op = OpReceiveOpen i w"
    and "fc_step\<^sup>*\<^sup>* g h"
  shows "open_local h now' i w' = (Inl InvalidStreamId, h) \<and>
    receive_open h now' i w' = (Inl InvalidStreamId, h)"
proof -
  have "insert_new_stream f now i ph sw rw = (Inr (), g) \<Longrightarrow> odd (unat i)" for ph sw rw
    by (auto simp: insert_new_stream_def result_simps)
  with assms(1,2) have "odd (unat i)" "fc_maximum_seen_stream_id g = i"
    by (auto simp: open_local_def receive_open_def dest: insert_new_stream_Inr)
  with fc_steps_seen [OF assms(3)] show ?thesis
    by (simp add: open_local_def receive_open_def insert_new_stream_def result_simps)
qed

theorem stream_identifiers_never_reused_witness:
  "\<exists>g h. open_local example_flow 5 1 65536 = (Inr (), g) \<and> reject_or_close g 1 = (Inr (), h) \<and>
     open_local h 9 1 65536 = (Inl InvalidStreamId, h)"
proof -
  obtain g h where gh: "fc_apply (OpOpenLocal 1 65536) 5 example_flow = (Inr (), g)"
    "fc_apply (OpRejectOrClose 1) 6 g = (Inr (), h)"
    by (simp add: open_local_def insert_new_stream_def validate_stream_id_def validate_window_def
        reject_or_close_def set_stream_def stream_count_def result_simps limit_defs
        example_flow_def fcard.rep_eq)
  then have "fc_step\<^sup>*\<^sup>* g h" by (blast intro: fc_step.intros)
  from stream_identifiers_never_reused [OF gh(1) _ this, of 1 65536 9 65536] gh show ?thesis
    by auto
qed



end
