(* ===== verification/Scheduler.thy ===== *)
theory Scheduler
  imports Gateway_Messages "HOL-Library.Multiset"
begin

text \<open>
  The outbound scheduler of \<open>src/crates/gateway-protocol/src/scheduler.rs\<close>: one queue of
  control frames and one queue of frames per stream, served with a bounded control burst
  and round robin across the streams. The detailed state keeps byte counters, a map of
  queues, a map of their sizes and a ring of active streams; the theory shows that the
  counters are exact, that the state refines a plain ring of queues, that no stream
  starves, and that a successful reservation is always honoured.
\<close>

section \<open>State\<close>

definition MAX_CONTROL_BURST :: nat where "MAX_CONTROL_BURST = 8"

record outbound_item =
  oi_body :: body
  oi_accounted_bytes :: nat

record fair_scheduler =
  fs_control :: "outbound_item list"
  fs_streams :: "(u64, outbound_item list) fmap"
  fs_per_stream_bytes :: "(u64, nat) fmap"
  fs_active :: "u64 list"
  fs_queued_bytes :: nat
  fs_maximum_queued_bytes :: nat
  fs_maximum_queued_bytes_per_stream :: nat
  fs_maximum_control_frames :: nat
  fs_control_burst :: nat

type_synonym fs_result = "(protocol_error + unit) \<times> fair_scheduler"

definition scheduler_new :: "nat \<Rightarrow> nat \<Rightarrow> nat \<Rightarrow> protocol_error + fair_scheduler" where
  "scheduler_new maximum_queued_bytes maximum_queued_bytes_per_stream maximum_control_frames =
     (if maximum_queued_bytes = 0 \<or> maximum_queued_bytes_per_stream = 0 \<or>
         maximum_queued_bytes < maximum_queued_bytes_per_stream \<or> maximum_control_frames = 0
      then Inl (InvalidField ''scheduler_limits'')
      else Inr \<lparr>fs_control = [], fs_streams = fmempty, fs_per_stream_bytes = fmempty,
                fs_active = [], fs_queued_bytes = 0,
                fs_maximum_queued_bytes = maximum_queued_bytes,
                fs_maximum_queued_bytes_per_stream = maximum_queued_bytes_per_stream,
                fs_maximum_control_frames = maximum_control_frames, fs_control_burst = 0\<rparr>)"

section \<open>Reservation and enqueueing\<close>

definition reserve_global :: "fair_scheduler \<Rightarrow> nat \<Rightarrow> protocol_error + unit" where
  "reserve_global f n =
     bindE (ok_or (checked_add_usize (fs_queued_bytes f) n) IntegerOverflow) (\<lambda>updated.
     ensure (updated \<le> fs_maximum_queued_bytes f) Backpressure)"

definition can_enqueue_control :: "fair_scheduler \<Rightarrow> nat \<Rightarrow> protocol_error + unit" where
  "can_enqueue_control f n =
     (if fs_maximum_control_frames f \<le> length (fs_control f) then Inl Backpressure
      else reserve_global f n)"

text \<open>\<open>per_stream_bytes.get(&id).copied().unwrap_or(0)\<close>\<close>

definition stream_bytes :: "fair_scheduler \<Rightarrow> u64 \<Rightarrow> nat" where
  "stream_bytes f stream_id = fm_get_or 0 (fs_per_stream_bytes f) stream_id"

definition can_enqueue_stream :: "fair_scheduler \<Rightarrow> u64 \<Rightarrow> nat \<Rightarrow> protocol_error + unit" where
  "can_enqueue_stream f stream_id n =
     bindE (reserve_global f n) (\<lambda>_.
     bindE (ok_or (checked_add_usize (stream_bytes f stream_id) n) IntegerOverflow) (\<lambda>updated.
     ensure (updated \<le> fs_maximum_queued_bytes_per_stream f) Backpressure))"

definition enqueue_control :: "fair_scheduler \<Rightarrow> outbound_item \<Rightarrow> fs_result" where
  "enqueue_control f item =
     tryE (can_enqueue_control f (oi_accounted_bytes item)) f (\<lambda>_.
     (Inr (), f\<lparr>fs_queued_bytes := fs_queued_bytes f + oi_accounted_bytes item,
                fs_control := fs_control f @ [item]\<rparr>))"

text \<open>\<open>streams.entry(id).or_default()\<close> as a read\<close>

definition stream_queue :: "fair_scheduler \<Rightarrow> u64 \<Rightarrow> outbound_item list" where
  "stream_queue f stream_id = fm_get_or [] (fs_streams f) stream_id"

definition enqueue_stream :: "fair_scheduler \<Rightarrow> u64 \<Rightarrow> outbound_item \<Rightarrow> fs_result" where
  "enqueue_stream f stream_id item =
     tryE (can_enqueue_stream f stream_id (oi_accounted_bytes item)) f (\<lambda>_.
     let updated = stream_bytes f stream_id + oi_accounted_bytes item;
         queue = stream_queue f stream_id;
         f1 = f\<lparr>fs_active := (if queue = [] then fs_active f @ [stream_id] else fs_active f),
               fs_streams := fmupd stream_id (queue @ [item]) (fs_streams f),
               fs_per_stream_bytes := fmupd stream_id updated (fs_per_stream_bytes f)\<rparr>
     in tryE (ok_or (checked_add_usize (fs_queued_bytes f1) (oi_accounted_bytes item))
                IntegerOverflow) f1 (\<lambda>total.
        (Inr (), f1\<lparr>fs_queued_bytes := total\<rparr>)))"

section \<open>Dequeueing and cancelling\<close>

definition pop_control :: "fair_scheduler \<Rightarrow> outbound_item option \<times> fair_scheduler" where
  "pop_control f =
     (case fs_control f of
        [] \<Rightarrow> (None, f)
      | item # rest \<Rightarrow>
          (Some item, f\<lparr>fs_control := rest,
                        fs_queued_bytes := fs_queued_bytes f - oi_accounted_bytes item\<rparr>))"

definition pop_stream ::
  "fair_scheduler \<Rightarrow> u64 \<Rightarrow> u64 list \<Rightarrow> outbound_item option \<times> fair_scheduler" where
  "pop_stream f stream_id active =
     (let f1 = f\<lparr>fs_active := active\<rparr> in
      case fmlookup (fs_streams f1) stream_id of
        None \<Rightarrow> (None, f1)
      | Some [] \<Rightarrow> (None, f1)
      | Some (item # queue) \<Rightarrow>
          let f2 = f1\<lparr>fs_control_burst := 0,
                     fs_queued_bytes := fs_queued_bytes f1 - oi_accounted_bytes item\<rparr>;
              updated = stream_bytes f2 stream_id - oi_accounted_bytes item
          in (Some item,
              if queue \<noteq> []
              then f2\<lparr>fs_streams := fmupd stream_id queue (fs_streams f2),
                      fs_active := active @ [stream_id],
                      fs_per_stream_bytes :=
                        fmupd stream_id updated (fs_per_stream_bytes f2)\<rparr>
              else f2\<lparr>fs_streams := fmdrop stream_id (fs_streams f2),
                      fs_per_stream_bytes :=
                        fmdrop stream_id (fs_per_stream_bytes f2)\<rparr>))"

definition pop_next :: "fair_scheduler \<Rightarrow> outbound_item option \<times> fair_scheduler" where
  "pop_next f =
     (if fs_control f \<noteq> [] \<and> (fs_control_burst f < MAX_CONTROL_BURST \<or> fs_active f = [])
      then pop_control (f\<lparr>fs_control_burst := fs_control_burst f + 1\<rparr>)
      else case fs_active f of
             stream_id # active \<Rightarrow> pop_stream f stream_id active
           | [] \<Rightarrow> pop_control f)"

definition cancel_stream :: "fair_scheduler \<Rightarrow> u64 \<Rightarrow> fair_scheduler" where
  "cancel_stream f stream_id =
     (let f1 = (case fmlookup (fs_streams f) stream_id of
                  None \<Rightarrow> f
                | Some queue \<Rightarrow>
                    f\<lparr>fs_streams := fmdrop stream_id (fs_streams f),
                      fs_queued_bytes := fs_queued_bytes f -
                        fold (\<lambda>item total. saturating_add_usize total (oi_accounted_bytes item))
                          queue 0\<rparr>)
      in f1\<lparr>fs_per_stream_bytes := fmdrop stream_id (fs_per_stream_bytes f1),
            fs_active := filter (\<lambda>candidate. candidate \<noteq> stream_id) (fs_active f1)\<rparr>)"

section \<open>Accounting invariant\<close>

definition queue_bytes :: "outbound_item list \<Rightarrow> nat" where
  "queue_bytes q = sum_list (map oi_accounted_bytes q)"

definition ring_bytes :: "fair_scheduler \<Rightarrow> nat" where
  "ring_bytes f = (\<Sum>i\<in>set (fs_active f). queue_bytes (stream_queue f i))"

definition fs_inv :: "fair_scheduler \<Rightarrow> bool" where
  "fs_inv f \<longleftrightarrow>
     distinct (fs_active f) \<and>
     fset (fmdom (fs_streams f)) = set (fs_active f) \<and>
     (\<forall>i. stream_queue f i = [] \<longleftrightarrow> i \<notin> set (fs_active f)) \<and>
     (\<forall>i. stream_bytes f i = queue_bytes (stream_queue f i)) \<and>
     fs_queued_bytes f = queue_bytes (fs_control f) + ring_bytes f \<and>
     fs_queued_bytes f \<le> fs_maximum_queued_bytes f \<and> fs_queued_bytes f \<le> usize_max \<and>
     (\<forall>i. queue_bytes (stream_queue f i) \<le> fs_maximum_queued_bytes_per_stream f) \<and>
     length (fs_control f) \<le> fs_maximum_control_frames f"

lemma queue_bytes_simps [simp]:
  "queue_bytes [] = 0"
  "queue_bytes (x # q) = oi_accounted_bytes x + queue_bytes q"
  "queue_bytes (q @ r) = queue_bytes q + queue_bytes r"
  by (simp_all add: queue_bytes_def)

lemmas fs_read_defs = stream_bytes_def stream_queue_def

lemma reserve_global_Inr:
  "reserve_global f n = Inr u \<longleftrightarrow>
     fs_queued_bytes f + n \<le> usize_max \<and> fs_queued_bytes f + n \<le> fs_maximum_queued_bytes f"
  by (auto simp: reserve_global_def result_simps)

lemma can_enqueue_control_Inr:
  "can_enqueue_control f n = Inr u \<longleftrightarrow> length (fs_control f) < fs_maximum_control_frames f \<and>
     fs_queued_bytes f + n \<le> usize_max \<and> fs_queued_bytes f + n \<le> fs_maximum_queued_bytes f"
  by (auto simp: can_enqueue_control_def reserve_global_Inr)

lemma can_enqueue_stream_Inr:
  "can_enqueue_stream f i n = Inr u \<longleftrightarrow>
     fs_queued_bytes f + n \<le> usize_max \<and> fs_queued_bytes f + n \<le> fs_maximum_queued_bytes f \<and>
     stream_bytes f i + n \<le> usize_max \<and>
     stream_bytes f i + n \<le> fs_maximum_queued_bytes_per_stream f"
  by (auto simp: can_enqueue_stream_def reserve_global_Inr result_simps)

lemma enqueue_control_Inr:
  "enqueue_control f x = (Inr (), g) \<longleftrightarrow>
     can_enqueue_control f (oi_accounted_bytes x) = Inr () \<and>
     g = f\<lparr>fs_queued_bytes := fs_queued_bytes f + oi_accounted_bytes x,
           fs_control := fs_control f @ [x]\<rparr>"
  by (auto simp: enqueue_control_def result_simps)

lemma enqueue_stream_Inr:
  "enqueue_stream f i x = (Inr (), g) \<longleftrightarrow>
     can_enqueue_stream f i (oi_accounted_bytes x) = Inr () \<and>
     g = f\<lparr>fs_active := (if stream_queue f i = [] then fs_active f @ [i] else fs_active f),
           fs_streams := fmupd i (stream_queue f i @ [x]) (fs_streams f),
           fs_per_stream_bytes :=
             fmupd i (stream_bytes f i + oi_accounted_bytes x) (fs_per_stream_bytes f),
           fs_queued_bytes := fs_queued_bytes f + oi_accounted_bytes x\<rparr>"
  by (auto simp: enqueue_stream_def result_simps Let_def can_enqueue_stream_Inr)

lemma enqueue_stream_Inl:
  "enqueue_stream f i x = (Inl e, g) \<longleftrightarrow>
     can_enqueue_stream f i (oi_accounted_bytes x) = Inl e \<and> g = f"
  by (auto simp: enqueue_stream_def result_simps Let_def can_enqueue_stream_Inr)

lemma enqueue_control_Inl:
  "enqueue_control f x = (Inl e, g) \<longleftrightarrow>
     can_enqueue_control f (oi_accounted_bytes x) = Inl e \<and> g = f"
  by (auto simp: enqueue_control_def result_simps)

lemma fs_inv_new: "scheduler_new a b c = Inr f \<Longrightarrow> fs_inv f"
  by (auto simp: scheduler_new_def fs_inv_def fs_read_defs ring_bytes_def split: if_splits)

lemma fs_inv_enqueue_control:
  assumes "fs_inv f" "enqueue_control f x = (Inr (), g)"
  shows "fs_inv g"
  using assms
  by (auto simp: enqueue_control_Inr can_enqueue_control_Inr fs_inv_def fs_read_defs ring_bytes_def)

lemma fs_inv_enqueue_stream:
  assumes inv: "fs_inv f" and ok: "enqueue_stream f i x = (Inr (), g)"
  shows "fs_inv g"
proof -
  let ?n = "oi_accounted_bytes x"
  from ok have can: "can_enqueue_stream f i ?n = Inr ()"
    and g: "g = f\<lparr>fs_active := (if stream_queue f i = [] then fs_active f @ [i] else fs_active f),
           fs_streams := fmupd i (stream_queue f i @ [x]) (fs_streams f),
           fs_per_stream_bytes := fmupd i (stream_bytes f i + ?n) (fs_per_stream_bytes f),
           fs_queued_bytes := fs_queued_bytes f + ?n\<rparr>"
    by (simp_all add: enqueue_stream_Inr)
  have q: "stream_queue g j = (if j = i then stream_queue f i @ [x] else stream_queue f j)" for j
    by (simp add: g stream_queue_def)
  have b: "stream_bytes g j = (if j = i then stream_bytes f i + ?n else stream_bytes f j)" for j
    by (simp add: g stream_bytes_def)
  have act: "set (fs_active g) = insert i (set (fs_active f))"
    using inv by (auto simp: g fs_inv_def)
  have ring: "ring_bytes g = ring_bytes f + ?n"
  proof (cases "i \<in> set (fs_active f)")
    case True
    then show ?thesis
      unfolding ring_bytes_def act
      by (simp add: q insert_absorb sum.remove [where x = i] cong: sum.cong_simp)
  next
    case False
    with inv have "stream_queue f i = []" by (simp add: fs_inv_def)
    with False show ?thesis
      unfolding ring_bytes_def act by (auto simp: q intro!: sum.cong)
  qed
  have "fmdom (fs_streams g) = finsert i (fmdom (fs_streams f))" by (simp add: g)
  with act inv have dom: "fset (fmdom (fs_streams g)) = set (fs_active g)"
    by (simp add: fs_inv_def)
  have "distinct (fs_active g)" using inv by (auto simp: g fs_inv_def)
  moreover have "fs_queued_bytes g = fs_queued_bytes f + ?n" "fs_control g = fs_control f"
    "fs_maximum_queued_bytes g = fs_maximum_queued_bytes f"
    "fs_maximum_queued_bytes_per_stream g = fs_maximum_queued_bytes_per_stream f"
    "fs_maximum_control_frames g = fs_maximum_control_frames f"
    by (simp_all add: g)
  ultimately show ?thesis
    using dom inv can unfolding fs_inv_def can_enqueue_stream_Inr by (simp add: q b act ring)
qed


lemma pop_stream_Cons:
  assumes "stream_queue f i = x # q" "pop_stream f i A = (y, g)"
  shows "y = Some x"
    "stream_queue g j = (if j = i then q else stream_queue f j)"
    "stream_bytes g j =
       (if j = i then (if q = [] then 0 else stream_bytes f i - oi_accounted_bytes x)
        else stream_bytes f j)"
    "fs_active g = A @ (if q = [] then [] else [i])"
    "fset (fmdom (fs_streams g)) =
       (if q = [] then fset (fmdom (fs_streams f)) - {i} else insert i (fset (fmdom (fs_streams f))))"
    "fs_queued_bytes g = fs_queued_bytes f - oi_accounted_bytes x" "fs_control g = fs_control f"
    "fs_control_burst g = 0"
    "fs_maximum_queued_bytes g = fs_maximum_queued_bytes f"
    "fs_maximum_queued_bytes_per_stream g = fs_maximum_queued_bytes_per_stream f"
    "fs_maximum_control_frames g = fs_maximum_control_frames f"
proof -
  from assms(1) have "fmlookup (fs_streams f) i = Some (x # q)"
    by (auto simp: stream_queue_def fm_get_or_def split: option.splits)
  with assms(2) have "(y, g) = (Some x,
     (if q \<noteq> [] then
        f\<lparr>fs_streams := fmupd i q (fs_streams f), fs_active := A @ [i],
          fs_per_stream_bytes := fmupd i (stream_bytes f i - oi_accounted_bytes x) (fs_per_stream_bytes f),
          fs_queued_bytes := fs_queued_bytes f - oi_accounted_bytes x, fs_control_burst := 0\<rparr>
      else f\<lparr>fs_streams := fmdrop i (fs_streams f), fs_active := A,
          fs_per_stream_bytes := fmdrop i (fs_per_stream_bytes f),
          fs_queued_bytes := fs_queued_bytes f - oi_accounted_bytes x, fs_control_burst := 0\<rparr>))"
    by (auto simp: pop_stream_def Let_def stream_bytes_def)
  then show "y = Some x"
    "stream_queue g j = (if j = i then q else stream_queue f j)"
    "stream_bytes g j =
       (if j = i then (if q = [] then 0 else stream_bytes f i - oi_accounted_bytes x)
        else stream_bytes f j)"
    "fs_active g = A @ (if q = [] then [] else [i])"
    "fset (fmdom (fs_streams g)) =
       (if q = [] then fset (fmdom (fs_streams f)) - {i} else insert i (fset (fmdom (fs_streams f))))"
    "fs_queued_bytes g = fs_queued_bytes f - oi_accounted_bytes x" "fs_control g = fs_control f"
    "fs_control_burst g = 0"
    "fs_maximum_queued_bytes g = fs_maximum_queued_bytes f"
    "fs_maximum_queued_bytes_per_stream g = fs_maximum_queued_bytes_per_stream f"
    "fs_maximum_control_frames g = fs_maximum_control_frames f"
    by (simp_all add: fs_read_defs)
qed

lemma fs_inv_active_queue:
  assumes "fs_inv f" "i \<in> set (fs_active f)"
  obtains x q where "stream_queue f i = x # q"
  using assms by (cases "stream_queue f i") (auto simp: fs_inv_def)

lemma fs_inv_pop_stream:
  assumes inv: "fs_inv f" and act: "fs_active f = i # A" and ok: "pop_stream f i A = (y, g)"
  shows "fs_inv g"
proof -
  from inv act obtain x q where xq: "stream_queue f i = x # q"
    using fs_inv_active_queue by (metis list.set_intros(1))
  note g' = pop_stream_Cons(2-7,9-) [OF xq ok]
  have i: "i \<notin> set A" using inv act by (simp add: fs_inv_def)
  have rest: "(\<Sum>j\<in>set A. queue_bytes (stream_queue g j)) = (\<Sum>j\<in>set A. queue_bytes (stream_queue f j))"
    using i g'(1) by (auto intro!: sum.cong)
  have "ring_bytes f = oi_accounted_bytes x + queue_bytes q + (\<Sum>j\<in>set A. queue_bytes (stream_queue f j))"
    using i act xq by (simp add: ring_bytes_def)
  moreover have "ring_bytes g = queue_bytes q + (\<Sum>j\<in>set A. queue_bytes (stream_queue f j))"
    using i rest g'(1,3) by (simp add: ring_bytes_def)
  ultimately have ring: "ring_bytes f = oi_accounted_bytes x + ring_bytes g" by simp
  have b: "stream_bytes g j = queue_bytes (stream_queue g j)" for j
    using inv xq g'(1,2) by (simp add: fs_inv_def)
  have le: "queue_bytes (stream_queue g j) \<le> fs_maximum_queued_bytes_per_stream f" for j
  proof -
    have "queue_bytes (stream_queue g j) \<le> queue_bytes (stream_queue f j)" using g'(1) xq by simp
    then show ?thesis using inv by (auto simp: fs_inv_def intro: order_trans)
  qed
  have e: "stream_queue g j = [] \<longleftrightarrow> j \<notin> set (fs_active g)" for j
    using inv act i g'(1,3) by (auto simp: fs_inv_def)
  have dom: "fset (fmdom (fs_streams g)) = set (fs_active g)"
    using inv act i g'(3,4) by (auto simp: fs_inv_def)
  have "distinct (fs_active g)" using inv act i g'(3) by (simp add: fs_inv_def)
  with dom e b le ring inv g'(5-) show ?thesis
    unfolding fs_inv_def by simp
qed

lemma fs_inv_pop_control:
  assumes "fs_inv f" "pop_control f = (y, g)"
  shows "fs_inv g"
  using assms
  by (auto simp: pop_control_def fs_inv_def fs_read_defs ring_bytes_def split: list.splits)

lemma fs_inv_burst: "fs_inv f \<Longrightarrow> fs_inv (f\<lparr>fs_control_burst := n\<rparr>)"
  by (simp add: fs_inv_def fs_read_defs ring_bytes_def)

lemma fs_inv_pop_next:
  assumes "fs_inv f" "pop_next f = (y, g)"
  shows "fs_inv g"
proof -
  from assms(2) consider n where "pop_control (f\<lparr>fs_control_burst := n\<rparr>) = (y, g)"
    | i A where "fs_active f = i # A" "pop_stream f i A = (y, g)"
    | "pop_control f = (y, g)"
    by (auto simp: pop_next_def split: if_splits list.splits)
  then show ?thesis
    by cases (use assms(1) in \<open>auto intro: fs_inv_pop_control fs_inv_burst fs_inv_pop_stream\<close>)
qed

lemma fold_saturating_bytes:
  "a + queue_bytes q \<le> usize_max \<Longrightarrow>
     fold (\<lambda>item total. saturating_add_usize total (oi_accounted_bytes item)) q a = a + queue_bytes q"
  by (induction q arbitrary: a) (simp_all add: saturating_add_usize_def)

lemma fs_inv_inactive: "fs_inv f \<Longrightarrow> i \<notin> set (fs_active f) \<Longrightarrow> stream_queue f i = []"
  by (simp add: fs_inv_def)

lemma cancel_stream_fields:
  assumes inv: "fs_inv f" and g: "g = cancel_stream f i"
  shows "stream_queue g j = (if j = i then [] else stream_queue f j)"
    "stream_bytes g j = (if j = i then 0 else stream_bytes f j)"
    "fs_active g = filter (\<lambda>j. j \<noteq> i) (fs_active f)"
    "fmdom (fs_streams g) = fmdom (fs_streams f) |-| {|i|}"
    "fs_queued_bytes g = fs_queued_bytes f - queue_bytes (stream_queue f i)"
    "fs_control g = fs_control f" "fs_control_burst g = fs_control_burst f"
    "fs_maximum_queued_bytes g = fs_maximum_queued_bytes f"
    "fs_maximum_queued_bytes_per_stream g = fs_maximum_queued_bytes_per_stream f"
    "fs_maximum_control_frames g = fs_maximum_control_frames f"
proof -
  have "queue_bytes (stream_queue f i) \<le> usize_max"
  proof (cases "i \<in> set (fs_active f)")
    case True
    then have "queue_bytes (stream_queue f i) \<le> ring_bytes f"
      unfolding ring_bytes_def by (intro member_le_sum) auto
    with inv show ?thesis by (simp add: fs_inv_def)
  next
    case False
    then show ?thesis using fs_inv_inactive [OF inv] by simp
  qed
  note fold = fold_saturating_bytes [of 0, simplified, OF this]
  show "stream_queue g j = (if j = i then [] else stream_queue f j)"
    "stream_bytes g j = (if j = i then 0 else stream_bytes f j)"
    "fs_active g = filter (\<lambda>j. j \<noteq> i) (fs_active f)"
    "fmdom (fs_streams g) = fmdom (fs_streams f) |-| {|i|}"
    "fs_queued_bytes g = fs_queued_bytes f - queue_bytes (stream_queue f i)"
    "fs_control g = fs_control f" "fs_control_burst g = fs_control_burst f"
    "fs_maximum_queued_bytes g = fs_maximum_queued_bytes f"
    "fs_maximum_queued_bytes_per_stream g = fs_maximum_queued_bytes_per_stream f"
    "fs_maximum_control_frames g = fs_maximum_control_frames f"
    using fold
    by (auto simp: g cancel_stream_def Let_def fs_read_defs fm_get_or_def split: option.splits)
qed

lemma fs_inv_cancel_stream:
  assumes inv: "fs_inv f"
  shows "fs_inv (cancel_stream f i)"
proof -
  let ?g = "cancel_stream f i"
  note g = cancel_stream_fields [OF inv refl, of i]
  have act: "set (fs_active ?g) = set (fs_active f) - {i}" using g(3) by auto
  have "(\<Sum>j\<in>set (fs_active f) - {i}. queue_bytes (stream_queue ?g j)) =
        (\<Sum>j\<in>set (fs_active f) - {i}. queue_bytes (stream_queue f j))"
    using g(1) by (auto intro!: sum.cong)
  moreover have "ring_bytes f = queue_bytes (stream_queue f i) +
      (\<Sum>j\<in>set (fs_active f) - {i}. queue_bytes (stream_queue f j))"
    using fs_inv_inactive [OF inv]
    by (cases "i \<in> set (fs_active f)") (auto simp: ring_bytes_def sum.remove)
  ultimately have ring: "ring_bytes f = queue_bytes (stream_queue f i) + ring_bytes ?g"
    by (simp add: ring_bytes_def act)
  have dom: "fset (fmdom (fs_streams ?g)) = set (fs_active ?g)"
    using g(4) inv act by (simp add: fs_inv_def)
  have "distinct (fs_active ?g)" using g(3) inv by (simp add: fs_inv_def)
  with dom act ring inv g(1,2,5-) show ?thesis unfolding fs_inv_def by simp
qed

section \<open>Reservations\<close>

text \<open>
  What a client of a bounded queue relies on: a reservation that succeeds is honoured by
  the next enqueue of that size, and a refused one reports the same error and changes
  nothing. The session reserves first, then updates its own ledger, then enqueues; the
  client lemma says that this sequence cannot fail after the ledger was updated.
\<close>

locale reserving_queue =
  fixes can_enqueue :: "'q \<Rightarrow> nat \<Rightarrow> protocol_error + unit"
    and enqueue :: "'q \<Rightarrow> outbound_item \<Rightarrow> (protocol_error + unit) \<times> 'q"
    and contents :: "'q \<Rightarrow> outbound_item list"
  assumes honoured: "can_enqueue q (oi_accounted_bytes x) = Inr () \<Longrightarrow>
      fst (enqueue q x) = Inr () \<and> contents (snd (enqueue q x)) = contents q @ [x]"
    and refused: "can_enqueue q (oi_accounted_bytes x) = Inl e \<Longrightarrow> enqueue q x = (Inl e, q)"
begin

lemma enqueue_error_unchanged:
  assumes "fst (enqueue q x) = Inl e"
  shows "snd (enqueue q x) = q \<and> can_enqueue q (oi_accounted_bytes x) = Inl e"
  using assms honoured [of q x] refused [of q x]
  by (cases "can_enqueue q (oi_accounted_bytes x)") auto

lemma reserve_then_commit:
  assumes "can_enqueue q n = Inr ()" "oi_accounted_bytes x = n"
  obtains q' where "enqueue q x = (Inr (), q')" "contents q' = contents q @ [x]"
  using honoured [of q x] assms by (metis prod.collapse)

end

interpretation control_queue: reserving_queue can_enqueue_control enqueue_control fs_control
  by unfold_locales (auto simp: enqueue_control_def)

interpretation stream_queues: reserving_queue "\<lambda>f. can_enqueue_stream f i"
    "\<lambda>f. enqueue_stream f i" "\<lambda>f. stream_queue f i" for i
proof unfold_locales
  fix f :: fair_scheduler and x :: outbound_item
  assume "can_enqueue_stream f i (oi_accounted_bytes x) = Inr ()"
  then obtain g where g: "enqueue_stream f i x = (Inr (), g)" by (simp add: enqueue_stream_Inr)
  then have "stream_queue g i = stream_queue f i @ [x]"
    by (auto simp: enqueue_stream_Inr stream_queue_def)
  with g show "fst (enqueue_stream f i x) = Inr () \<and>
      stream_queue (snd (enqueue_stream f i x)) i = stream_queue f i @ [x]"
    by simp
qed (simp add: enqueue_stream_Inl)

section \<open>Runs\<close>

datatype sched_op =
    EnqueueControl outbound_item
  | EnqueueStream u64 outbound_item
  | PopNext
  | CancelStream u64

fun sched_apply :: "sched_op \<Rightarrow> fair_scheduler \<Rightarrow> outbound_item option \<times> fair_scheduler" where
  "sched_apply (EnqueueControl x) f = (None, snd (enqueue_control f x))"
| "sched_apply (EnqueueStream i x) f = (None, snd (enqueue_stream f i x))"
| "sched_apply PopNext f = pop_next f"
| "sched_apply (CancelStream i) f = (None, cancel_stream f i)"

fun sched_run :: "sched_op list \<Rightarrow> fair_scheduler \<Rightarrow> outbound_item list \<times> fair_scheduler" where
  "sched_run [] f = ([], f)"
| "sched_run (op # ops) f =
     (let (y, g) = sched_apply op f; (ys, h) = sched_run ops g
      in ((case y of None \<Rightarrow> ys | Some x \<Rightarrow> x # ys), h))"

definition fs_start :: "fair_scheduler \<Rightarrow> bool" where
  "fs_start f \<longleftrightarrow> (\<exists>a b c. scheduler_new a b c = Inr f)"

inductive fs_step :: "fair_scheduler \<Rightarrow> fair_scheduler \<Rightarrow> bool" where
  "sched_apply op f = (y, g) \<Longrightarrow> fs_step f g"

lemma fs_inv_sched_apply:
  assumes "fs_inv f" "sched_apply op f = (y, g)"
  shows "fs_inv g"
proof (cases op)
  case (EnqueueControl x)
  with assms control_queue.enqueue_error_unchanged [of f x] show ?thesis
    by (cases "enqueue_control f x"; cases "fst (enqueue_control f x)")
      (auto intro: fs_inv_enqueue_control)
next
  case (EnqueueStream i x)
  with assms stream_queues.enqueue_error_unchanged [of f i x] show ?thesis
    by (cases "enqueue_stream f i x"; cases "fst (enqueue_stream f i x)")
      (auto intro: fs_inv_enqueue_stream)
next
  case PopNext
  with assms show ?thesis by (auto intro: fs_inv_pop_next)
next
  case (CancelStream i)
  with assms show ?thesis by (auto intro: fs_inv_cancel_stream)
qed

interpretation fsm: invariant_machine fs_start fs_step fs_inv
  by unfold_locales (auto simp: fs_start_def elim!: fs_step.cases
      intro: fs_inv_new fs_inv_sched_apply)

section \<open>Refinement of a ring of queues\<close>

text \<open>
  The abstract scheduler has no counters and no maps: a control queue, the non-empty
  stream queues in service order, and the length of the current control burst.
\<close>

record ring =
  rg_control :: "outbound_item list"
  rg_streams :: "(u64 \<times> outbound_item list) list"
  rg_burst :: nat

definition ring_enqueue_control :: "outbound_item \<Rightarrow> ring \<Rightarrow> ring" where
  "ring_enqueue_control x r = r\<lparr>rg_control := rg_control r @ [x]\<rparr>"

definition ring_enqueue_stream :: "u64 \<Rightarrow> outbound_item \<Rightarrow> ring \<Rightarrow> ring" where
  "ring_enqueue_stream i x r = r\<lparr>rg_streams :=
     (if i \<in> fst ` set (rg_streams r)
      then map (\<lambda>(j, q). (j, if j = i then q @ [x] else q)) (rg_streams r)
      else rg_streams r @ [(i, [x])])\<rparr>"

definition ring_pop :: "ring \<Rightarrow> outbound_item option \<times> ring" where
  "ring_pop r =
     (case (rg_control r, rg_streams r) of
        ([], []) \<Rightarrow> (None, r)
      | (x # c, []) \<Rightarrow> (Some x, r\<lparr>rg_control := c, rg_burst := rg_burst r + 1\<rparr>)
      | (c, (i, q) # s) \<Rightarrow>
          if c \<noteq> [] \<and> rg_burst r < 8
          then (Some (hd c), r\<lparr>rg_control := tl c, rg_burst := rg_burst r + 1\<rparr>)
          else (Some (hd q), r\<lparr>rg_streams := s @ (if tl q = [] then [] else [(i, tl q)]),
                               rg_burst := 0\<rparr>))"

definition ring_cancel :: "u64 \<Rightarrow> ring \<Rightarrow> ring" where
  "ring_cancel i r = r\<lparr>rg_streams := filter (\<lambda>s. fst s \<noteq> i) (rg_streams r)\<rparr>"

definition ring_of :: "fair_scheduler \<Rightarrow> ring" where
  "ring_of f = \<lparr>rg_control = fs_control f,
     rg_streams = map (\<lambda>i. (i, stream_queue f i)) (fs_active f),
     rg_burst = fs_control_burst f\<rparr>"

lemma ring_of_enqueue_control:
  "enqueue_control f x = (Inr (), g) \<Longrightarrow> ring_of g = ring_enqueue_control x (ring_of f)"
  by (simp add: enqueue_control_Inr ring_of_def ring_enqueue_control_def stream_queue_def)

lemma ring_of_enqueue_stream:
  assumes "fs_inv f" "enqueue_stream f i x = (Inr (), g)"
  shows "ring_of g = ring_enqueue_stream i x (ring_of f)"
proof -
  have "stream_queue f i = [] \<longleftrightarrow> i \<notin> set (fs_active f)" using assms(1) by (simp add: fs_inv_def)
  moreover have "fst ` (\<lambda>i. (i, stream_queue f i)) ` set (fs_active f) = set (fs_active f)"
    by (auto simp: image_image)
  moreover have "stream_queue g j = (if j = i then stream_queue f i @ [x] else stream_queue f j)" for j
    using assms(2) by (auto simp: enqueue_stream_Inr stream_queue_def)
  ultimately show ?thesis
    using assms(2) by (auto simp: enqueue_stream_Inr ring_of_def ring_enqueue_stream_def)
qed

lemma ring_of_cancel:
  assumes "fs_inv f"
  shows "ring_of (cancel_stream f i) = ring_cancel i (ring_of f)"
  using cancel_stream_fields [OF assms refl, of i]
  by (simp add: ring_of_def ring_cancel_def filter_map comp_def)

lemma pop_next_cases:
  assumes inv: "fs_inv f" and pop: "pop_next f = (y, g)"
  obtains
    (empty) "fs_control f = []" "fs_active f = []" "y = None" "g = f"
  | (control) x c where "fs_control f = x # c" "y = Some x"
      "fs_control_burst f < 8 \<or> fs_active f = []"
      "g = f\<lparr>fs_control := c, fs_queued_bytes := fs_queued_bytes f - oi_accounted_bytes x,
            fs_control_burst := fs_control_burst f + 1\<rparr>"
  | (stream) i A x q where "fs_active f = i # A" "stream_queue f i = x # q" "y = Some x"
      "fs_control f = [] \<or> 8 \<le> fs_control_burst f" "pop_stream f i A = (y, g)"
      "fs_control g = fs_control f" "fs_control_burst g = 0"
      "fs_active g = A @ (if q = [] then [] else [i])"
      "\<And>j. stream_queue g j = (if j = i then q else stream_queue f j)"
proof (cases "fs_active f")
  case Nil
  show thesis
  proof (cases "fs_control f")
    case c: Nil
    from pop Nil c have "y = None" "g = f" by (simp_all add: pop_next_def pop_control_def)
    with c Nil show thesis by (rule empty)
  next
    case (Cons x c)
    from pop Nil Cons show thesis
      by (intro control [OF Cons]) (auto simp: pop_next_def pop_control_def)
  qed
next
  case (Cons i A)
  with inv obtain x q where xq: "stream_queue f i = x # q"
    using fs_inv_active_queue by (metis list.set_intros(1))
  show thesis
  proof (cases "fs_control f \<noteq> [] \<and> fs_control_burst f < 8")
    case True
    then obtain z c where zc: "fs_control f = z # c" by (cases "fs_control f") auto
    from pop Cons True show thesis
      by (intro control [OF zc]) (auto simp: zc pop_next_def pop_control_def MAX_CONTROL_BURST_def)
  next
    case False
    with pop Cons have ok: "pop_stream f i A = (y, g)"
      by (auto simp: pop_next_def MAX_CONTROL_BURST_def)
    note g = pop_stream_Cons [OF xq ok]
    have "fs_control f = [] \<or> 8 \<le> fs_control_burst f" using False by auto
    then show thesis by (rule stream [OF Cons xq g(1) _ ok g(7,8,4) g(2)])
  qed
qed

lemma ring_of_pop:
  assumes inv: "fs_inv f" and pop: "pop_next f = (y, g)"
  shows "ring_pop (ring_of f) = (y, ring_of g)"
  using inv pop
proof (cases rule: pop_next_cases)
  case empty
  then show ?thesis by (simp add: ring_of_def ring_pop_def)
next
  case (control x c)
  then show ?thesis
    by (cases "fs_active f") (auto simp: ring_of_def ring_pop_def stream_queue_def)
next
  case (stream i A x q)
  have "i \<notin> set A" using inv stream(1) by (simp add: fs_inv_def)
  then have "map (\<lambda>j. (j, if j = i then q else stream_queue f j)) A = map (\<lambda>j. (j, stream_queue f j)) A"
    by auto
  with stream show ?thesis
    by (cases "fs_control f") (auto simp: ring_of_def ring_pop_def)
qed

section \<open>No starvation\<close>

text \<open>
  How many pops a stream can still have to wait: at most eight control frames before each
  stream ahead of it, and before itself.
\<close>

definition stream_position :: "fair_scheduler \<Rightarrow> u64 \<Rightarrow> nat" where
  "stream_position f i = length (takeWhile (\<lambda>j. j \<noteq> i) (fs_active f))"

definition stream_wait :: "fair_scheduler \<Rightarrow> u64 \<Rightarrow> nat" where
  "stream_wait f i = 9 * stream_position f i + (8 - fs_control_burst f)"

definition waits_with :: "fair_scheduler \<Rightarrow> u64 \<Rightarrow> outbound_item \<Rightarrow> bool" where
  "waits_with f i x \<longleftrightarrow> fs_inv f \<and> (\<exists>q. stream_queue f i = x # q)"

lemma waits_with_active: "waits_with f i x \<Longrightarrow> i \<in> set (fs_active f)"
  unfolding waits_with_def by (metis fs_inv_inactive list.distinct(1))

lemma pop_next_progress:
  assumes w: "waits_with f i x" and pop: "pop_next f = (y, g)"
  shows "y = Some x \<or> waits_with g i x \<and> stream_wait g i < stream_wait f i"
proof -
  have inv: "fs_inv f" and act: "i \<in> set (fs_active f)"
    using w waits_with_active by (auto simp: waits_with_def)
  have inv': "fs_inv g" using inv pop by (rule fs_inv_pop_next)
  from inv pop show ?thesis
  proof (cases rule: pop_next_cases)
    case empty
    with act show ?thesis by simp
  next
    case (control z c)
    with w inv' act show ?thesis
      by (auto simp: waits_with_def stream_wait_def stream_position_def stream_queue_def)
  next
    case (stream j A z q)
    show ?thesis
    proof (cases "j = i")
      case True
      with stream w show ?thesis by (auto simp: waits_with_def)
    next
      case False
      with act stream(1) have "i \<in> set A" by auto
      with False stream w inv' show ?thesis
        by (auto simp: waits_with_def stream_wait_def stream_position_def)
    qed
  qed
qed

lemma other_op_keeps_place:
  assumes w: "waits_with f i x" and op: "op \<noteq> PopNext" "op \<noteq> CancelStream i"
    and app: "sched_apply op f = (y, g)"
  shows "waits_with g i x \<and> stream_wait g i \<le> stream_wait f i"
proof -
  have inv: "fs_inv f" and act: "i \<in> set (fs_active f)"
    using w waits_with_active by (auto simp: waits_with_def)
  have inv': "fs_inv g" using inv app by (rule fs_inv_sched_apply)
  show ?thesis
  proof (cases op)
    case (EnqueueControl z)
    then show ?thesis using app w inv' by (cases "fst (enqueue_control f z)"; cases "enqueue_control f z")
        (auto simp: enqueue_control_Inr enqueue_control_Inl waits_with_def stream_wait_def
          stream_position_def stream_queue_def)
  next
    case (EnqueueStream j z)
    then show ?thesis using app w inv' act
      by (cases "fst (enqueue_stream f j z)"; cases "enqueue_stream f j z")
        (auto simp: enqueue_stream_Inr enqueue_stream_Inl waits_with_def stream_wait_def
          stream_position_def stream_queue_def)
  next
    case (CancelStream j)
    have "length (takeWhile (\<lambda>k. k \<noteq> i) (filter (\<lambda>k. k \<noteq> j) xs)) \<le> length (takeWhile (\<lambda>k. k \<noteq> i) xs)"
      if "j \<noteq> i" for xs :: "u64 list"
      using that by (induction xs) auto
    with CancelStream op app w inv' cancel_stream_fields [OF inv refl, of j] show ?thesis
      by (auto simp: waits_with_def stream_wait_def stream_position_def)
  qed (use op in simp)
qed

lemma sched_run_outputs:
  assumes "sched_apply op f = (y, g)"
  shows "set (fst (sched_run (op # ops) f)) = set_option y \<union> set (fst (sched_run ops g))"
  using assms by (auto split: prod.splits option.splits)

lemma served_within_wait:
  assumes "waits_with f i x" "CancelStream i \<notin> set ops" "stream_wait f i < count_list ops PopNext"
  shows "x \<in> set (fst (sched_run ops f))"
  using assms
proof (induction ops arbitrary: f)
  case (Cons op ops)
  obtain y g where yg: "sched_apply op f = (y, g)" by (cases "sched_apply op f")
  have "y = Some x \<or> waits_with g i x \<and> stream_wait g i < count_list ops PopNext"
  proof (cases "op = PopNext")
    case True
    with pop_next_progress [OF Cons.prems(1), of y g] yg Cons.prems(3) show ?thesis by auto
  next
    case False
    with other_op_keeps_place [OF Cons.prems(1) False _ yg] Cons.prems show ?thesis by auto
  qed
  with Cons.IH [of g] Cons.prems(2) show ?case
    unfolding sched_run_outputs [OF yg] by auto
qed simp

section \<open>Draining\<close>

definition queued_items :: "fair_scheduler \<Rightarrow> outbound_item list" where
  "queued_items f = fs_control f @ concat (map (stream_queue f) (fs_active f))"

lemma pop_next_takes_one:
  assumes inv: "fs_inv f" and pop: "pop_next f = (y, g)"
  shows "case y of None \<Rightarrow> queued_items f = []
    | Some x \<Rightarrow> mset (queued_items f) = add_mset x (mset (queued_items g))"
  using inv pop
proof (cases rule: pop_next_cases)
  case empty
  then show ?thesis by (simp add: queued_items_def)
next
  case (control x c)
  then show ?thesis by (simp add: queued_items_def stream_queue_def cong: map_cong)
next
  case (stream i A x q)
  have "i \<notin> set A" using inv stream(1) by (simp add: fs_inv_def)
  then have "concat (map (stream_queue g) A) = concat (map (stream_queue f) A)"
    using stream(9) by (intro arg_cong [where f = concat] map_cong) auto
  then show ?thesis using stream(1-3,6,8) stream(9) [of i] by (simp add: queued_items_def)
qed

lemma pop_all:
  assumes "fs_inv f" "length (queued_items f) = n"
  shows "mset (fst (sched_run (replicate n PopNext) f)) = mset (queued_items f) \<and>
    queued_items (snd (sched_run (replicate n PopNext) f)) = []"
  using assms
proof (induction n arbitrary: f)
  case (Suc n)
  obtain y g where yg: "pop_next f = (y, g)" by (cases "pop_next f")
  with Suc.prems pop_next_takes_one [OF Suc.prems(1) yg] obtain x
    where x: "y = Some x" "mset (queued_items f) = add_mset x (mset (queued_items g))"
    by (cases y) auto
  then have "length (queued_items f) = Suc (length (queued_items g))"
    by (metis size_add_mset size_mset)
  with Suc.IH [of g] Suc.prems fs_inv_pop_next [OF Suc.prems(1) yg] x yg show ?case
    by (auto split: prod.splits)
qed simp

lemma reach_sched_run:
  "reach fs_start fs_step f \<Longrightarrow> reach fs_start fs_step (snd (sched_run ops f))"
proof (induction ops arbitrary: f)
  case (Cons op ops)
  obtain y g where yg: "sched_apply op f = (y, g)" by (cases "sched_apply op f")
  then have "reach fs_start fs_step g" using Cons.prems by (blast intro: reach_step fs_step.intros)
  from Cons.IH [OF this] yg show ?case by (auto split: prod.splits)
qed simp

section \<open>Properties\<close>

text \<open>
  In every state the scheduler can reach its byte counters are exact and bounded: the
  total is the sum of the accounted sizes of everything queued and never exceeds the
  configured maximum, each per-stream counter is the size of that stream's queue and never
  exceeds the per-stream maximum, the control queue never exceeds its maximum length, and
  the active ring lists each stream with queued frames exactly once.
\<close>

theorem scheduler_accounting_exact:
  assumes "reach fs_start fs_step f"
  shows "fs_queued_bytes f = sum_list (map oi_accounted_bytes (queued_items f)) \<and>
    fs_queued_bytes f \<le> fs_maximum_queued_bytes f \<and>
    length (fs_control f) \<le> fs_maximum_control_frames f \<and>
    distinct (fs_active f) \<and>
    (\<forall>i. (i \<in> set (fs_active f) \<longleftrightarrow> stream_queue f i \<noteq> []) \<and>
       stream_bytes f i = sum_list (map oi_accounted_bytes (stream_queue f i)) \<and>
       stream_bytes f i \<le> fs_maximum_queued_bytes_per_stream f)"
proof -
  have inv: "fs_inv f" using assms by (rule fsm.reach_inv)
  have "sum_list (map oi_accounted_bytes (concat (map (stream_queue f) xs))) =
      sum_list (map (\<lambda>i. queue_bytes (stream_queue f i)) xs)" for xs
    by (induction xs) (simp_all add: queue_bytes_def)
  moreover have "sum_list (map (\<lambda>i. queue_bytes (stream_queue f i)) (fs_active f)) = ring_bytes f"
    using inv by (simp add: ring_bytes_def fs_inv_def sum_list_distinct_conv_sum_set)
  ultimately have "sum_list (map oi_accounted_bytes (queued_items f)) =
      queue_bytes (fs_control f) + ring_bytes f"
    by (simp add: queued_items_def queue_bytes_def)
  with inv show ?thesis by (auto simp: fs_inv_def queue_bytes_def)
qed

text \<open>
  C16. The scheduler implements the abstract ring of queues: under the invariant every
  operation commutes with the abstraction, so the byte counters, the two maps and the
  active list together behave as a control queue and a rotating list of stream queues.
\<close>

theorem scheduler_refines_ring:
  assumes "fs_inv f"
  shows "(enqueue_control f x = (Inr (), g) \<longrightarrow> ring_of g = ring_enqueue_control x (ring_of f)) \<and>
    (enqueue_stream f i x = (Inr (), g) \<longrightarrow> ring_of g = ring_enqueue_stream i x (ring_of f)) \<and>
    (pop_next f = (y, g) \<longrightarrow> ring_pop (ring_of f) = (y, ring_of g)) \<and>
    ring_of (cancel_stream f i) = ring_cancel i (ring_of f)"
  using assms ring_of_enqueue_control ring_of_enqueue_stream ring_of_pop ring_of_cancel by blast


text \<open>
  Draining loses and duplicates nothing: popping as many times as there are queued
  frames returns each of them exactly once and leaves the scheduler empty.
\<close>

theorem scheduler_drains:
  assumes "reach fs_start fs_step f"
  shows "mset (fst (sched_run (replicate (length (queued_items f)) PopNext) f)) =
      mset (queued_items f) \<and>
    queued_items (snd (sched_run (replicate (length (queued_items f)) PopNext) f)) = [] \<and>
    pop_next (snd (sched_run (replicate (length (queued_items f)) PopNext) f)) =
      (None, snd (sched_run (replicate (length (queued_items f)) PopNext) f))"
proof -
  let ?g = "snd (sched_run (replicate (length (queued_items f)) PopNext) f)"
  have p: "mset (fst (sched_run (replicate (length (queued_items f)) PopNext) f)) =
      mset (queued_items f)" and e: "queued_items ?g = []"
    using pop_all [OF fsm.reach_inv [OF assms] refl] by simp_all
  have inv: "fs_inv ?g" using reach_sched_run [OF assms] by (rule fsm.reach_inv)
  have "fs_active ?g = []"
  proof (rule ccontr)
    assume "fs_active ?g \<noteq> []"
    then obtain i A where "fs_active ?g = i # A" by (cases "fs_active ?g") auto
    with inv fs_inv_active_queue e show False
      by (metis append_is_Nil_conv concat.simps(2) list.distinct(1) list.set_intros(1)
          list.simps(9) queued_items_def)
  qed
  with e have "pop_next ?g = (None, ?g)"
    by (simp add: pop_next_def pop_control_def queued_items_def)
  with p e show ?thesis by blast
qed


text \<open>A scheduler with two frames of stream 1, one of stream 3 and a control frame.\<close>

definition example_item :: "nat \<Rightarrow> outbound_item" where
  "example_item n = \<lparr>oi_body = Ping [], oi_accounted_bytes = n\<rparr>"

definition empty_scheduler :: fair_scheduler where
  "empty_scheduler = \<lparr>fs_control = [], fs_streams = fmempty, fs_per_stream_bytes = fmempty,
     fs_active = [], fs_queued_bytes = 0, fs_maximum_queued_bytes = 1024,
     fs_maximum_queued_bytes_per_stream = 512, fs_maximum_control_frames = 64,
     fs_control_burst = 0\<rparr>"

definition example_scheduler :: fair_scheduler where
  "example_scheduler = snd (sched_run
     [EnqueueStream 1 (example_item 1), EnqueueStream 1 (example_item 2),
      EnqueueStream 3 (example_item 3), EnqueueControl (example_item 4)] empty_scheduler)"

lemma example_scheduler_fields:
  "fs_control example_scheduler = [example_item 4]" "fs_active example_scheduler = [1, 3]"
  "stream_queue example_scheduler 1 = [example_item 1, example_item 2]"
  "stream_queue example_scheduler 3 = [example_item 3]"
  "fs_queued_bytes example_scheduler = 10"
  by (simp_all add: example_scheduler_def empty_scheduler_def example_item_def enqueue_stream_def
      enqueue_control_def can_enqueue_stream_def can_enqueue_control_def reserve_global_def
      checked_add_usize_def fs_read_defs Let_def)

lemma example_scheduler_reach: "reach fs_start fs_step example_scheduler"
proof -
  have "scheduler_new 1024 512 64 = Inr empty_scheduler"
    by (simp add: scheduler_new_def empty_scheduler_def)
  then have "reach fs_start fs_step empty_scheduler"
    unfolding fs_start_def by (blast intro: reach_start)
  then show ?thesis unfolding example_scheduler_def by (rule reach_sched_run)
qed

theorem scheduler_accounting_exact_witness:
  "fs_queued_bytes example_scheduler = 10 \<and> stream_bytes example_scheduler 1 = 3"
  using scheduler_accounting_exact [OF example_scheduler_reach]
  by (simp add: example_scheduler_fields) (simp add: example_item_def)

theorem scheduler_refines_ring_witness:
  "ring_pop (ring_of example_scheduler) =
     (fst (pop_next example_scheduler), ring_of (snd (pop_next example_scheduler)))"
  using scheduler_refines_ring [OF fsm.reach_inv [OF example_scheduler_reach],
      of "example_item 0" "snd (pop_next example_scheduler)" 0 "fst (pop_next example_scheduler)"]
  by simp


theorem scheduler_drains_witness:
  "mset (fst (sched_run (replicate 4 PopNext) example_scheduler)) =
     {#example_item 4, example_item 1, example_item 2, example_item 3#}"
proof -
  have q: "queued_items example_scheduler =
      [example_item 4, example_item 1, example_item 2, example_item 3]"
    by (simp add: queued_items_def example_scheduler_fields)
  then have len: "length (queued_items example_scheduler) = 4" by simp
  show ?thesis
    using conjunct1 [OF scheduler_drains [OF example_scheduler_reach]] unfolding len
    by (simp add: q)
qed

end
