(* ===== verification/Framing.thy ===== *)
theory Framing
  imports Gateway_Messages
begin

text \<open>
  The length-prefixed framing of \<open>src/crates/gateway-protocol/src/framing.rs\<close>: the
  canonical length varint, the structural scan of the protobuf envelope that runs before
  the generated decoder, the incremental \<open>FrameDecoder\<close>, and the reading and writing of a
  frame on a byte transport. The generated encoder and decoder are the parameter
  \<^typ>\<open>prost\<close>.
\<close>

section \<open>The length prefix\<close>

definition MAX_U32_VARINT_BYTES :: nat where "MAX_U32_VARINT_BYTES = 5"
definition FIRST_MESSAGE_TAG :: u32 where "FIRST_MESSAGE_TAG = 10"
definition LAST_V1_MESSAGE_TAG :: u32 where "LAST_V1_MESSAGE_TAG = 28"
definition LAST_RESERVED_MESSAGE_TAG :: u32 where "LAST_RESERVED_MESSAGE_TAG = 63"

lemmas framing_defs =
  MAX_U32_VARINT_BYTES_def FIRST_MESSAGE_TAG_def LAST_V1_MESSAGE_TAG_def
  LAST_RESERVED_MESSAGE_TAG_def

lemma unat_drop_bit_7: "unat (drop_bit 7 (w :: u32)) = unat w div 128"
  using unsigned_drop_bit_eq [of 7 w, where 'a = nat] unat_u32_lt [of w]
  by (simp add: drop_bit_eq_div take_bit_nat_eq_self)

lemma unat_shift7_less: "128 \<le> (value :: u32) \<Longrightarrow> unat (drop_bit 7 value) < unat value"
proof -
  assume "128 \<le> value"
  then have "128 \<le> unat value" by (simp add: word_le_nat_alt)
  moreover have "unat (drop_bit 7 value) = unat value div 128"
    by (simp only: unat_drop_bit_7)
  ultimately show ?thesis by simp
qed

function encode_u32_varint :: "u32 \<Rightarrow> bytes" where
  "encode_u32_varint value =
     (if 128 \<le> value then (ucast value OR 0x80) # encode_u32_varint (drop_bit 7 value)
      else [ucast value])"
  by pat_completeness auto
termination
  by (relation "measure unat") (use unat_shift7_less in auto)

declare encode_u32_varint.simps [simp del]

text \<open>The loop of \<open>decode_canonical_u32_varint\<close>; \<open>len\<close> is \<open>bytes.len()\<close>.\<close>

fun decode_varint_loop :: "nat \<Rightarrow> nat \<Rightarrow> u32 \<Rightarrow> bytes \<Rightarrow> protocol_error + u32" where
  "decode_varint_loop len index value [] = Inl InvalidLengthPrefix"
| "decode_varint_loop len index value (byte # rest) =
     (let bits = (ucast (byte AND 0x7f) :: u32) in
      if index = 4 \<and> 0x0f < bits then Inl InvalidLengthPrefix
      else
        let value' = value OR push_bit (index * 7) bits in
        if byte AND 0x80 = 0 then
          if index + 1 \<noteq> len then Inl InvalidLengthPrefix
          else
            let minimum = (if index = 0 then 0 else push_bit (index * 7) 1) in
            if value' < minimum then Inl NonCanonicalVarint else Inr value'
        else decode_varint_loop len (index + 1) value' rest)"

definition decode_canonical_u32_varint :: "bytes \<Rightarrow> protocol_error + u32" where
  "decode_canonical_u32_varint bs =
     (if bs = [] \<or> MAX_U32_VARINT_BYTES < length bs then Inl InvalidLengthPrefix
      else decode_varint_loop (length bs) 0 0 bs)"

section \<open>The envelope scan\<close>

text \<open>
  Reading moves an offset through the frame; the model returns the value read and the new
  offset. On an error the whole scan is abandoned, so no offset is returned with it.
\<close>

fun read_varint_loop ::
  "bytes \<Rightarrow> nat list \<Rightarrow> nat \<Rightarrow> u64 \<Rightarrow> protocol_error + (u64 \<times> nat)" where
  "read_varint_loop bs [] offset value = Inl (ProtocolViolation ''protobuf varint overflow'')"
| "read_varint_loop bs (index # indices) offset value =
     bindE (ok_or (if offset < length bs then Some (bs ! offset) else None) TruncatedWireValue)
       (\<lambda>byte.
     bindE (ok_or (checked_add_usize offset 1) IntegerOverflow) (\<lambda>offset'.
     let bits = (ucast (byte AND 0x7f) :: u64) in
     if index = 9 \<and> 1 < bits then Inl (ProtocolViolation ''protobuf varint overflow'')
     else
       let value' = value OR push_bit (index * 7) bits in
       if byte AND 0x80 = 0 then
         if 0 < index \<and> value' < push_bit (index * 7) 1 then Inl NonCanonicalVarint
         else Inr (value', offset')
       else read_varint_loop bs indices offset' value'))"

definition read_wire_varint :: "bytes \<Rightarrow> nat \<Rightarrow> protocol_error + (u64 \<times> nat)" where
  "read_wire_varint bs offset = read_varint_loop bs [0..<10] offset 0"

definition skip_wire_value :: "bytes \<Rightarrow> nat \<Rightarrow> u8 \<Rightarrow> protocol_error + nat" where
  "skip_wire_value bs offset wire_type =
     (let skip = (\<lambda>offset len.
            bindE (ok_or (checked_add_usize offset len) IntegerOverflow) (\<lambda>end_offset.
            if length bs < end_offset then Inl TruncatedWireValue else Inr end_offset))
      in if wire_type = 0 then bindE (read_wire_varint bs offset) (\<lambda>(_, offset'). Inr offset')
         else if wire_type = 1 then skip offset 8
         else if wire_type = 2 then
           bindE (read_wire_varint bs offset) (\<lambda>(len, offset'). skip offset' (unat len))
         else if wire_type = 5 then skip offset 4
         else Inl (ProtocolViolation ''unsupported protobuf wire type''))"

definition expected_wire_type :: "u32 \<Rightarrow> protocol_error + u8 option" where
  "expected_wire_type tag =
     (if tag = 1 then Inr (Some 0)
      else if tag = 2 \<or> tag = 4 \<or> FIRST_MESSAGE_TAG \<le> tag \<and> tag \<le> LAST_V1_MESSAGE_TAG
        then Inr (Some 2)
      else if tag = 3 then Inr None
      else if 5 \<le> tag \<and> tag \<le> 9 then Inl (ProtocolViolation ''reserved envelope field'')
      else if 29 \<le> tag \<and> tag \<le> LAST_RESERVED_MESSAGE_TAG then Inl (UnknownMessageTag tag)
      else Inr None)"

text \<open>
  One turn of the scan loop: it returns the next offset, the tags seen and the body tag.
  \<open>seen\<close> is the array of 29 flags.
\<close>

definition scan_field ::
  "bytes \<Rightarrow> nat \<Rightarrow> bool list \<Rightarrow> u32 option \<Rightarrow> protocol_error + (nat \<times> bool list \<times> u32 option)" where
  "scan_field bs offset seen body_tag =
     bindE (read_wire_varint bs offset) (\<lambda>(key, offset1).
     bindE (if unat (drop_bit 3 key) < 2 ^ 32 then Inr (ucast (drop_bit 3 key))
            else Inl IntegerOverflow) (\<lambda>tag.
     let wire_type = (ucast (key AND 0x07) :: u8) in
     bindE (ensure (tag \<noteq> 0) (ProtocolViolation ''protobuf tag zero'')) (\<lambda>_.
     bindE (expected_wire_type tag) (\<lambda>expected.
     bindE (ensure (\<not> (expected \<noteq> None \<and> Some wire_type \<noteq> expected))
              (ProtocolViolation ''invalid envelope wire type'')) (\<lambda>_.
     bindE (if tag \<le> LAST_V1_MESSAGE_TAG \<and> tag \<noteq> 3
            then (if seen ! unat tag then Inl (DuplicateField tag)
                  else Inr (seen[unat tag := True]))
            else Inr seen) (\<lambda>seen'.
     bindE (if FIRST_MESSAGE_TAG \<le> tag \<and> tag \<le> LAST_V1_MESSAGE_TAG
            then (if body_tag \<noteq> None then Inl (ProtocolViolation ''multiple frame bodies'')
                  else Inr (Some tag))
            else Inr body_tag) (\<lambda>body_tag'.
     bindE (skip_wire_value bs offset1 wire_type) (\<lambda>offset2.
     Inr (offset2, seen', body_tag')))))))))"


lemma read_varint_loop_progress:
  "read_varint_loop bs ks offset acc = Inr (v, offset') \<Longrightarrow>
     offset < offset' \<and> offset' \<le> length bs"
proof (induction ks arbitrary: offset acc)
  case (Cons k ks)
  show ?case
    using Cons.prems Cons.IH [of "Suc offset"]
    by (fastforce simp: Let_def result_simps split: if_splits)
qed simp

lemma read_wire_varint_progress:
  "read_wire_varint bs offset = Inr (v, offset') \<Longrightarrow> offset < offset' \<and> offset' \<le> length bs"
  unfolding read_wire_varint_def by (rule read_varint_loop_progress)

lemma skip_wire_value_progress:
  "skip_wire_value bs offset wt = Inr offset' \<Longrightarrow> offset \<le> offset'"
  by (auto simp: skip_wire_value_def Let_def result_simps split: if_splits
      dest!: read_wire_varint_progress)

lemma scan_field_progress:
  "scan_field bs offset seen body_tag = Inr (offset', seen', body_tag') \<Longrightarrow> offset < offset'"
  unfolding scan_field_def bindE_eq_Inr Let_def
  by (fastforce simp: result_simps split: prod.splits
      dest: read_wire_varint_progress skip_wire_value_progress)

function scan_loop :: "bytes \<Rightarrow> nat \<Rightarrow> bool list \<Rightarrow> u32 option \<Rightarrow> protocol_error + unit" where
  "scan_loop bs offset seen body_tag =
     (if offset < length bs then
        bindE (scan_field bs offset seen body_tag) (\<lambda>r.
          scan_loop bs (fst r) (fst (snd r)) (snd (snd r)))
      else Inr ())"
  by pat_completeness auto
termination
  by (relation "measure (\<lambda>(bs, offset, _, _). length bs - offset)")
    (auto dest: scan_field_progress intro: diff_less_mono2)

declare scan_loop.simps [simp del]

definition scan_gateway_envelope :: "bytes \<Rightarrow> protocol_error + unit" where
  "scan_gateway_envelope bs = scan_loop bs 0 (replicate (unat LAST_V1_MESSAGE_TAG + 1) False) None"

section \<open>Frames\<close>

definition decode_frame_bytes :: "prost \<Rightarrow> bytes \<Rightarrow> protocol_error + gateway_frame" where
  "decode_frame_bytes p bs =
     (if bs = [] then Inl EmptyFrame
      else if ABSOLUTE_MAX_FRAME_SIZE < length bs
        then Inl (FrameTooLarge (length bs) ABSOLUTE_MAX_FRAME_SIZE)
      else
        bindE (scan_gateway_envelope bs) (\<lambda>_.
        bindE (ok_or (p_decode p bs) Decode) (\<lambda>frame.
        if gf_body frame = None then Inl MissingBody else Inr frame)))"

definition validate_maximum :: "nat \<Rightarrow> protocol_error + unit" where
  "validate_maximum maximum_frame_size =
     (if maximum_frame_size = 0 \<or> ABSOLUTE_MAX_FRAME_SIZE < maximum_frame_size
      then Inl (InvalidField ''maximum_frame_size'') else Inr ())"

definition encode_frame :: "prost \<Rightarrow> gateway_frame \<Rightarrow> nat \<Rightarrow> protocol_error + bytes" where
  "encode_frame p frame maximum_frame_size =
     bindE (validate_maximum maximum_frame_size) (\<lambda>_.
     let len = p_encoded_len p frame in
     if len = 0 then Inl EmptyFrame
     else if maximum_frame_size < len then Inl (FrameTooLarge len maximum_frame_size)
     else
       bindE (if len < 2 ^ 32 then Inr (word_of_nat len) else Inl IntegerOverflow) (\<lambda>length_u32.
       Inr (encode_u32_varint length_u32 @ p_encode p frame)))"

section \<open>The incremental decoder\<close>

record frame_decoder =
  fd_maximum_frame_size :: nat
  fd_prefix :: bytes
  fd_prefix_len :: nat
  fd_expected_body :: "nat option"
  fd_body :: bytes

record decode_progress =
  dp_consumed :: nat
  dp_frame :: "gateway_frame option"

definition decoder_new :: "nat \<Rightarrow> protocol_error + frame_decoder" where
  "decoder_new maximum_frame_size =
     bindE (validate_maximum maximum_frame_size) (\<lambda>_.
     Inr \<lparr>fd_maximum_frame_size = maximum_frame_size,
          fd_prefix = replicate MAX_U32_VARINT_BYTES 0, fd_prefix_len = 0,
          fd_expected_body = None, fd_body = []\<rparr>)"

definition set_maximum_frame_size ::
  "frame_decoder \<Rightarrow> nat \<Rightarrow> (protocol_error + unit) \<times> frame_decoder" where
  "set_maximum_frame_size d maximum_frame_size =
     tryE (validate_maximum maximum_frame_size) d (\<lambda>_.
     case fd_expected_body d of
       Some expected \<Rightarrow>
         if maximum_frame_size < expected
         then (Inl (FrameTooLarge expected maximum_frame_size), d)
         else (Inr (), d\<lparr>fd_maximum_frame_size := maximum_frame_size\<rparr>)
     | None \<Rightarrow> (Inr (), d\<lparr>fd_maximum_frame_size := maximum_frame_size\<rparr>))"

definition buffered_bytes :: "frame_decoder \<Rightarrow> nat" where
  "buffered_bytes d = saturating_add_usize (fd_prefix_len d) (length (fd_body d))"

definition reset :: "frame_decoder \<Rightarrow> frame_decoder" where
  "reset d = d\<lparr>fd_prefix := replicate MAX_U32_VARINT_BYTES 0, fd_prefix_len := 0,
               fd_expected_body := None, fd_body := []\<rparr>"

text \<open>
  The first loop of \<open>push\<close>: it consumes prefix bytes until the length is known or the
  input ends. The result is the number of bytes consumed and the rest of the input.
\<close>

fun push_prefix ::
  "frame_decoder \<Rightarrow> bytes \<Rightarrow> nat \<Rightarrow> (protocol_error + (nat \<times> bytes)) \<times> frame_decoder" where
  "push_prefix d [] consumed = (Inr (consumed, []), d)"
| "push_prefix d (byte # rest) consumed =
     (if fd_expected_body d \<noteq> None then (Inr (consumed, byte # rest), d)
      else if fd_prefix_len d = MAX_U32_VARINT_BYTES then (Inl InvalidLengthPrefix, reset d)
      else
        let d1 = d\<lparr>fd_prefix := (fd_prefix d)[fd_prefix_len d := byte],
                   fd_prefix_len := fd_prefix_len d + 1\<rparr>
        in if byte AND 0x80 = 0 then
             case decode_canonical_u32_varint (take (fd_prefix_len d1) (fd_prefix d1)) of
               Inl e \<Rightarrow> (Inl e, reset d1)
             | Inr len_u32 \<Rightarrow>
                 let len = unat len_u32 in
                 if len = 0 then (Inl EmptyFrame, reset d1)
                 else if fd_maximum_frame_size d1 < len
                   then (Inl (FrameTooLarge len (fd_maximum_frame_size d1)), reset d1)
                 else push_prefix (d1\<lparr>fd_body := [], fd_expected_body := Some len\<rparr>) rest
                        (consumed + 1)
           else push_prefix d1 rest (consumed + 1))"

definition push ::
  "prost \<Rightarrow> frame_decoder \<Rightarrow> bytes \<Rightarrow> (protocol_error + decode_progress) \<times> frame_decoder" where
  "push p d input =
     (case push_prefix d input 0 of
        (Inl e, d1) \<Rightarrow> (Inl e, d1)
      | (Inr (consumed, rest), d1) \<Rightarrow>
          (case fd_expected_body d1 of
             None \<Rightarrow> (Inr \<lparr>dp_consumed = consumed, dp_frame = None\<rparr>, d1)
           | Some expected \<Rightarrow>
               let remaining = expected - length (fd_body d1);
                   available = length input - consumed;
                   taken = min remaining available;
                   d2 = d1\<lparr>fd_body := fd_body d1 @ take taken rest\<rparr>;
                   consumed' = consumed + taken
               in if length (fd_body d2) = expected then
                    tryE (decode_frame_bytes p (fd_body d2)) (reset d2) (\<lambda>frame.
                      (Inr \<lparr>dp_consumed = consumed', dp_frame = Some frame\<rparr>, reset d2))
                  else (Inr \<lparr>dp_consumed = consumed', dp_frame = None\<rparr>, d2)))"

section \<open>Reading and writing on a transport\<close>

text \<open>
  The byte transport is external (any \<open>AsyncRead + AsyncWrite\<close>). Its state here is the
  bytes that will arrive before it ends, the bytes written so far, and whether a write
  succeeds. \<open>read_exact\<close> fails when fewer bytes arrive than it wants.
\<close>

record transport =
  tr_input :: bytes
  tr_output :: bytes
  tr_write_ok :: bool

definition read_exact :: "transport \<Rightarrow> nat \<Rightarrow> (protocol_error + bytes) \<times> transport" where
  "read_exact t n =
     (if n \<le> length (tr_input t)
      then (Inr (take n (tr_input t)), t\<lparr>tr_input := drop n (tr_input t)\<rparr>)
      else (Inl Io, t\<lparr>tr_input := []\<rparr>))"

definition write_all :: "transport \<Rightarrow> bytes \<Rightarrow> (protocol_error + unit) \<times> transport" where
  "write_all t bs =
     (if tr_write_ok t then (Inr (), t\<lparr>tr_output := tr_output t @ bs\<rparr>) else (Inl Io, t))"

definition write_frame ::
  "prost \<Rightarrow> transport \<Rightarrow> gateway_frame \<Rightarrow> nat \<Rightarrow> (protocol_error + unit) \<times> transport" where
  "write_frame p t frame maximum_frame_size =
     tryE (encode_frame p frame maximum_frame_size) t (\<lambda>encoded. write_all t encoded)"

text \<open>The prefix loop of \<open>read_frame\<close>; \<open>slots\<close> counts the free bytes of the prefix array.\<close>

fun read_prefix :: "nat \<Rightarrow> bytes \<Rightarrow> transport \<Rightarrow> (protocol_error + bytes) \<times> transport" where
  "read_prefix 0 prefix t = (Inl InvalidLengthPrefix, t)"
| "read_prefix (Suc slots) prefix t =
     (case read_exact t 1 of
        (Inl e, t') \<Rightarrow> (Inl e, t')
      | (Inr bs, t') \<Rightarrow>
          if hd bs AND 0x80 = 0 then (Inr (prefix @ bs), t')
          else read_prefix slots (prefix @ bs) t')"

definition read_frame ::
  "prost \<Rightarrow> transport \<Rightarrow> nat \<Rightarrow> (protocol_error + gateway_frame) \<times> transport" where
  "read_frame p t maximum_frame_size =
     tryE (validate_maximum maximum_frame_size) t (\<lambda>_.
     case read_prefix MAX_U32_VARINT_BYTES [] t of
       (Inl e, t1) \<Rightarrow> (Inl e, t1)
     | (Inr prefix, t1) \<Rightarrow>
         tryE (decode_canonical_u32_varint prefix) t1 (\<lambda>len_u32.
         let len = unat len_u32 in
         if len = 0 then (Inl EmptyFrame, t1)
         else if maximum_frame_size < len
           then (Inl (FrameTooLarge len maximum_frame_size), t1)
         else
           (case read_exact t1 len of
              (Inl e, t2) \<Rightarrow> (Inl e, t2)
            | (Inr bs, t2) \<Rightarrow> (decode_frame_bytes p bs, t2))))"

section \<open>Canonical varints\<close>

text \<open>The varint of the protobuf encoding, as a function of a natural number.\<close>

fun wire_varint :: "nat \<Rightarrow> bytes" where
  "wire_varint n =
     (if n < 128 then [word_of_nat n]
      else word_of_nat (n mod 128 + 128) # wire_varint (n div 128))"

declare wire_varint.simps [simp del]

lemma unat_small_byte: "n < 256 \<Longrightarrow> unat (word_of_nat n :: u8) = n"
  by (simp add: unat_of_nat)

lemma unat_set_high_bit: "unat ((x :: u8) OR 0x80) = unat x mod 128 + 128"
proof -
  have "(x AND 0x7f) OR push_bit 7 1 = x OR 0x80"
  proof -
    have "(0x7f :: u8) = NOT 0x80" by simp
    then have "(x AND 0x7f) OR 0x80 = x OR 0x80"
      by (simp only: bit.disj_conj_distrib2 bit.disj_cancel_left and.right_neutral)
    then show ?thesis by simp
  qed
  with unat_or_push_bit [of "x AND 0x7f" 7 1 1] show ?thesis
    by (simp add: unat_byte_low)
qed

lemma encode_u32_varint_eq: "encode_u32_varint v = wire_varint (unat v)"
proof (induction v rule: encode_u32_varint.induct)
  case (1 v)
  have low: "unat (ucast v :: u8) = unat v mod 256"
    by (simp add: unsigned_ucast_eq take_bit_eq_mod)
  show ?case
  proof (cases "128 \<le> v")
    case True
    then have ge: "\<not> unat v < 128" by (simp add: word_le_nat_alt)
    have "unat (ucast v OR 0x80 :: u8) = unat v mod 128 + 128"
      by (simp add: unat_set_high_bit low mod_mod_cancel)
    also have "\<dots> = unat (word_of_nat (unat v mod 128 + 128) :: u8)"
      by (subst unat_small_byte) simp_all
    finally have "(ucast v OR 0x80 :: u8) = word_of_nat (unat v mod 128 + 128)"
      by (simp only: word_unat_eq_iff)
    with 1 True ge show ?thesis
      by (subst encode_u32_varint.simps, subst wire_varint.simps)
        (simp only: unat_drop_bit_7 if_True if_False simp_thms)
  next
    case False
    then have lt: "unat v < 128" by (simp add: word_le_nat_alt)
    then have "unat (ucast v :: u8) = unat (word_of_nat (unat v) :: u8)"
      by (simp add: low unat_small_byte del: word_of_nat_eq_iff unsigned_of_nat)
    then have "(ucast v :: u8) = word_of_nat (unat v)" by (simp only: word_unat_eq_iff)
    with lt False show ?thesis
      by (subst encode_u32_varint.simps, subst wire_varint.simps) (simp only: if_False if_True)
  qed
qed

text \<open>How the two readers see a byte: seven payload bits and a continuation flag.\<close>

lemma varint_byte_last: "n < 128 \<Longrightarrow>
    (word_of_nat n :: u8) AND 0x80 = 0 \<and> unat ((word_of_nat n :: u8) AND 0x7f) = n"
  by (simp add: byte_high_clear unat_byte_low unat_small_byte)

lemma varint_byte_more:
  "(word_of_nat (n mod 128 + 128) :: u8) AND 0x80 \<noteq> 0 \<and>
   unat ((word_of_nat (n mod 128 + 128) :: u8) AND 0x7f) = n mod 128"
  unfolding byte_high_clear unat_byte_low by (subst (1 2) unat_small_byte) simp_all

lemma length_wire_varint:
  "n < 128 ^ Suc k \<Longrightarrow> length (wire_varint n) \<le> Suc k"
proof (induction k arbitrary: n)
  case (Suc k)
  then have "n div 128 < 128 ^ Suc k" by (simp add: less_mult_imp_div_less mult.commute)
  with Suc.IH show ?case by (subst wire_varint.simps) simp
qed (simp add: wire_varint.simps)

lemma wire_varint_nonempty [simp]: "wire_varint n \<noteq> []"
  by (subst wire_varint.simps) simp

lemma unat_low_bits:
  "unat (ucast ((b :: u8) AND 0x7f) :: u32) = unat b mod 128"
  "unat (ucast ((b :: u8) AND 0x7f) :: u64) = unat b mod 128"
proof -
  have "unat (b AND 0x7f) < 128" by (simp add: unat_byte_low)
  then show "unat (ucast (b AND 0x7f) :: u32) = unat b mod 128"
    "unat (ucast (b AND 0x7f) :: u64) = unat b mod 128"
    by (simp_all only: unsigned_ucast_eq unat_byte_low) (simp_all add: take_bit_nat_eq_self)
qed

lemma unat_power_of_two:
  "i < 32 \<Longrightarrow> unat (2 ^ i :: u32) = 2 ^ i" "i < 64 \<Longrightarrow> unat (2 ^ i :: u64) = 2 ^ i"
  using unat_or_push_bit [of "0 :: u32" i 1 1] unat_or_push_bit [of "0 :: u64" i 1 1] by simp_all

lemma varint_step_u32:
  assumes "unat v < 2 ^ (k * 7)" "k < 4 \<or> k = 4 \<and> unat b mod 128 \<le> 15"
  shows "unat (v OR push_bit (k * 7) (ucast ((b :: u8) AND 0x7f) :: u32))
    = unat v + 2 ^ (k * 7) * (unat b mod 128)"
proof (cases "k < 4")
  case True
  then show ?thesis
    using unat_or_push_bit [OF assms(1), of _ 7] by (simp add: unat_low_bits)
next
  case False
  with assms(2) have "k = 4" "unat b mod 128 < 2 ^ 4" by auto
  then show ?thesis
    using unat_or_push_bit [OF assms(1), of "ucast (b AND 0x7f)" 4] by (simp add: unat_low_bits)
qed

lemma varint_step_u64:
  assumes "unat v < 2 ^ (k * 7)" "k < 9 \<or> k = 9 \<and> unat b mod 128 \<le> 1"
  shows "unat (v OR push_bit (k * 7) (ucast ((b :: u8) AND 0x7f) :: u64))
    = unat v + 2 ^ (k * 7) * (unat b mod 128)"
proof (cases "k < 9")
  case True
  then show ?thesis
    using unat_or_push_bit [OF assms(1), of _ 7] by (simp add: unat_low_bits)
next
  case False
  with assms(2) have "k = 9" "unat b mod 128 < 2 ^ 1" by auto
  then show ?thesis
    using unat_or_push_bit [OF assms(1), of "ucast (b AND 0x7f)" 1] by (simp add: unat_low_bits)
qed

lemma varint_value_less:
  "a < 2 ^ (k * 7) \<Longrightarrow> a + 2 ^ (k * 7) * (b mod 128) < 2 ^ (Suc k * 7)" for a b k :: nat
proof -
  assume "a < 2 ^ (k * 7)"
  moreover have "2 ^ (k * 7) * (b mod 128) \<le> 2 ^ (k * 7) * 127" by simp
  moreover have "(2 :: nat) ^ (Suc k * 7) = 2 ^ (k * 7) * 128" by (simp add: power_add)
  ultimately show ?thesis by linarith
qed

lemma varint_split:
  "a + 2 ^ (k * 7) * (n mod 128) + 2 ^ (Suc k * 7) * (n div 128) = a + 2 ^ (k * 7) * n" for a n k :: nat
proof -
  have "2 ^ (k * 7) * n = 2 ^ (k * 7) * (n mod 128) + 2 ^ (k * 7) * (128 * (n div 128))"
    by (metis add_mult_distrib2 mod_mult_div_eq)
  then show ?thesis by (simp add: power_add)
qed

text \<open>The condition under which a reader at position \<open>k\<close> accepts the last byte.\<close>

lemma varint_minimum: "a < 2 ^ i \<Longrightarrow> a + 2 ^ i * c < 2 ^ i \<longleftrightarrow> c = 0" for a c i :: nat
  by (cases c) auto

lemma wire_varint_last: "unat b < 128 \<Longrightarrow> wire_varint (unat b) = [b]"
  by (subst wire_varint.simps) simp

lemma wire_varint_more:
  assumes "\<not> unat (b :: u8) < 128" "0 < n"
  shows "wire_varint (unat b mod 128 + 128 * n) = b # wire_varint n"
proof -
  have "unat b mod 128 + 128 = unat b"
    using assms(1) unat_u8_lt [of b] by (simp add: le_mod_geq not_less)
  then have "word_of_nat (unat b mod 128 + 128) = b" by (simp only: of_nat_unat ucast_id)
  moreover have "(unat b mod 128 + 128 * n) mod 128 = unat b mod 128"
    "(unat b mod 128 + 128 * n) div 128 = n" "\<not> unat b mod 128 + 128 * n < 128"
    using assms(2) by simp_all
  ultimately show ?thesis by (subst wire_varint.simps) (simp only: if_False)
qed

lemma decode_loop_sound:
  assumes "decode_varint_loop (k + length bs) k v bs = Inr r"
    and "unat v < 2 ^ (k * 7)" "k + length bs \<le> 5"
  shows "\<exists>n. bs = wire_varint n \<and> unat r = unat v + 2 ^ (k * 7) * n \<and> (0 < k \<longrightarrow> 0 < n)"
  using assms
proof (induction bs arbitrary: k v)
  case (Cons b bs)
  let ?c = "unat b mod 128"
  let ?v = "v OR push_bit (k * 7) (ucast (b AND 0x7f))"
  from Cons.prems(1) have k: "k < 4 \<or> k = 4 \<and> ?c \<le> 15"
    using Cons.prems(3)
    by (auto simp: Let_def word_less_nat_alt unat_low_bits split: if_splits)
  have v: "unat ?v = unat v + 2 ^ (k * 7) * ?c"
    using Cons.prems(2) k by (rule varint_step_u32)
  show ?case
  proof (cases "unat b < 128")
    case True
    with Cons.prems(1) have "bs = []" "r = ?v" "k = 0 \<or> \<not> ?v < push_bit (k * 7) 1"
      by (auto simp: Let_def byte_high_clear split: if_splits)
    moreover from this have "0 < k \<longrightarrow> 0 < ?c"
      using k v Cons.prems(2) by (auto simp: word_less_nat_alt unat_power_of_two varint_minimum)
    ultimately show ?thesis
      using True v by (intro exI [of _ ?c]) (auto simp: wire_varint_last)
  next
    case False
    with Cons.prems(1) have "decode_varint_loop (Suc k + length bs) (Suc k) ?v bs = Inr r"
      by (auto simp: Let_def byte_high_clear split: if_splits)
    moreover have "unat ?v < 2 ^ (Suc k * 7)"
      unfolding v using Cons.prems(2) by (rule varint_value_less)
    ultimately obtain n where n: "bs = wire_varint n" "0 < n"
      "unat r = unat ?v + 2 ^ (Suc k * 7) * n"
      using Cons.IH [of "Suc k" ?v] Cons.prems(3) by auto
    then have "unat r = unat v + 2 ^ (k * 7) * (?c + 128 * n)"
      by (simp add: v power_add algebra_simps)
    then show ?thesis
      using n(1,2) wire_varint_more [OF False n(2)] by (intro exI [of _ "?c + 128 * n"]) simp
  qed
qed simp


lemma decode_loop_complete:
  assumes "unat v < 2 ^ (k * 7)" "unat v + 2 ^ (k * 7) * n < 2 ^ 32" "k \<le> 4" "0 < k \<longrightarrow> 0 < n"
  shows "\<exists>r. decode_varint_loop (k + length (wire_varint n)) k v (wire_varint n) = Inr r \<and>
    unat r = unat v + 2 ^ (k * 7) * n"
  using assms
proof (induction n arbitrary: k v rule: wire_varint.induct)
  case (1 n)
  have k4: "n < 16" if "k = 4" using 1(3) that by simp
  show ?case
  proof (cases "n < 128")
    case True
    let ?b = "word_of_nat n :: u8"
    let ?v = "v OR push_bit (k * 7) (ucast (?b AND 0x7f))"
    have b: "unat ?b = n" using True by (simp add: unat_small_byte del: unsigned_of_nat)
    have c: "k < 4 \<or> k = 4 \<and> unat ?b mod 128 \<le> 15" using 1(4) k4 True b by auto
    have v: "unat ?v = unat v + 2 ^ (k * 7) * n"
      using varint_step_u32 [OF 1(2) c] b True by simp
    have "0 < k \<longrightarrow> \<not> ?v < push_bit (k * 7) 1"
      using 1(2,4,5) v by (simp add: word_less_nat_alt unat_power_of_two varint_minimum)
    moreover have "\<not> (k = 4 \<and> 0x0f < (ucast (?b AND 0x7f) :: u32))"
      using c by (simp only: word_less_nat_alt unat_low_bits) auto
    ultimately have "decode_varint_loop (k + 1) k v [?b] = Inr ?v"
      using b True by (auto simp: Let_def byte_high_clear simp del: unsigned_of_nat)
    with True v show ?thesis by (subst (1 2) wire_varint.simps) simp
  next
    case False
    define b :: u8 where "b = word_of_nat (n mod 128 + 128)"
    let ?v = "v OR push_bit (k * 7) (ucast (b AND 0x7f))"
    have b: "unat b = n mod 128 + 128" unfolding b_def by (subst unat_small_byte) simp_all
    have k: "k < 4" using 1(4) k4 False by (cases "k = 4") auto
    have v: "unat ?v = unat v + 2 ^ (k * 7) * (n mod 128)"
      using varint_step_u32 [OF 1(2), of b] k b by simp
    have e: "unat ?v + 2 ^ (Suc k * 7) * (n div 128) = unat v + 2 ^ (k * 7) * n"
      unfolding v by (rule varint_split)
    have "unat ?v < 2 ^ (Suc k * 7)" "0 < n div 128"
      unfolding v using varint_value_less [OF 1(2), of n] False by (auto simp: div_greater_zero_iff)
    then obtain r where r: "decode_varint_loop (Suc k + length (wire_varint (n div 128))) (Suc k) ?v
        (wire_varint (n div 128)) = Inr r" "unat r = unat v + 2 ^ (k * 7) * n"
      using 1(1) [OF False, of ?v "Suc k"] 1(3) k False e by auto
    have "decode_varint_loop (k + length (b # wire_varint (n div 128))) k v
        (b # wire_varint (n div 128)) = Inr r"
      using r(1) k b by (simp add: Let_def byte_high_clear)
    moreover have "wire_varint n = b # wire_varint (n div 128)"
      using False by (subst wire_varint.simps) (simp only: b_def if_False)
    ultimately show ?thesis using r(2) by simp
  qed
qed


lemma decode_encode_varint: "decode_canonical_u32_varint (encode_u32_varint v) = Inr v"
proof -
  have "unat v < 128 ^ Suc 4" using unat_u32_lt [of v] by simp
  then have "length (wire_varint (unat v)) \<le> 5" using length_wire_varint by fastforce
  moreover obtain r where "decode_varint_loop (length (wire_varint (unat v))) 0 0
      (wire_varint (unat v)) = Inr r" "unat r = unat v"
    using decode_loop_complete [of 0 0 "unat v"] unat_u32_lt [of v] by auto
  ultimately show ?thesis
    by (simp add: decode_canonical_u32_varint_def encode_u32_varint_eq MAX_U32_VARINT_BYTES_def
        word_unat_eq_iff)
qed

lemma decode_varint_canonical:
  assumes "decode_canonical_u32_varint bs = Inr v"
  shows "bs = encode_u32_varint v"
proof -
  from assms have "decode_varint_loop (length bs) 0 0 bs = Inr v" "length bs \<le> 5"
    by (auto simp: decode_canonical_u32_varint_def MAX_U32_VARINT_BYTES_def split: if_splits)
  with decode_loop_sound [of 0 bs 0 v] show ?thesis by (auto simp: encode_u32_varint_eq)
qed

lemma drop_Cons_nth:
  "drop i xs = x # ys \<longleftrightarrow> i < length xs \<and> xs ! i = x \<and> drop (Suc i) xs = ys"
  by (metis Cons_nth_drop_Suc drop_all list.distinct(1) list.inject not_less)

lemma read_loop_sound:
  assumes "read_varint_loop bs ks offset v = Inr (r, offset')" "ks = [k..<10]"
    and "unat v < 2 ^ (k * 7)"
  shows "\<exists>n. drop offset bs = wire_varint n @ drop offset' bs \<and>
    unat r = unat v + 2 ^ (k * 7) * n \<and> (0 < k \<longrightarrow> 0 < n)"
  using assms
proof (induction ks arbitrary: k v offset)
  case (Cons i ks)
  then have k: "i = k" "ks = [Suc k..<10]" "k < 10"
    by (metis list.distinct(1) list.inject upt_rec)+
  define b where "b = bs ! offset"
  let ?c = "unat b mod 128"
  let ?v = "v OR push_bit (k * 7) (ucast (b AND 0x7f))"
  from Cons.prems(1) have off: "offset < length bs"
    by (auto simp: Let_def result_simps k split: if_splits)
  then have dr: "drop offset bs = b # drop (Suc offset) bs"
    by (simp add: Cons_nth_drop_Suc b_def)
  from Cons.prems(1) have c: "k < 9 \<or> k = 9 \<and> ?c \<le> 1"
    using k by (auto simp: Let_def result_simps word_less_nat_alt unat_low_bits b_def
        split: if_splits)
  have v: "unat ?v = unat v + 2 ^ (k * 7) * ?c"
    using Cons.prems(3) c by (rule varint_step_u64)
  show ?case
  proof (cases "unat b < 128")
    case True
    with Cons.prems(1) have "offset' = Suc offset" "r = ?v" "k = 0 \<or> \<not> ?v < push_bit (k * 7) 1"
      by (auto simp: Let_def byte_high_clear result_simps k b_def split: if_splits)
    moreover from this have "0 < k \<longrightarrow> 0 < ?c"
      using k v Cons.prems(3) by (auto simp: word_less_nat_alt unat_power_of_two varint_minimum)
    ultimately show ?thesis
      using True v dr by (intro exI [of _ ?c]) (auto simp: wire_varint_last)
  next
    case False
    with Cons.prems(1) have "read_varint_loop bs ks (Suc offset) ?v = Inr (r, offset')"
      by (auto simp: Let_def byte_high_clear result_simps k b_def split: if_splits)
    moreover have "unat ?v < 2 ^ (Suc k * 7)"
      unfolding v using Cons.prems(3) by (rule varint_value_less)
    ultimately obtain n where n: "drop (Suc offset) bs = wire_varint n @ drop offset' bs" "0 < n"
      "unat r = unat ?v + 2 ^ (Suc k * 7) * n"
      using Cons.IH [of "Suc offset" ?v "Suc k"] k(2) by auto
    then have "unat r = unat v + 2 ^ (k * 7) * (?c + 128 * n)"
      by (simp add: v power_add algebra_simps)
    then show ?thesis
      using n(1,2) dr wire_varint_more [OF False n(2)] by (intro exI [of _ "?c + 128 * n"]) simp
  qed
qed simp

lemma read_loop_complete:
  assumes "drop offset bs = wire_varint n @ post" "length bs \<le> usize_max"
    and "unat v < 2 ^ (k * 7)" "unat v + 2 ^ (k * 7) * n < 2 ^ 64" "k \<le> 9" "0 < k \<longrightarrow> 0 < n"
  shows "\<exists>r. read_varint_loop bs [k..<10] offset v = Inr (r, offset + length (wire_varint n)) \<and>
    unat r = unat v + 2 ^ (k * 7) * n"
  using assms
proof (induction n arbitrary: k v offset rule: wire_varint.induct)
  case (1 n)
  have ks: "[k..<10] = k # [Suc k..<10]" using 1(6) by (simp add: upt_conv_Cons)
  have k9: "n < 2" if "k = 9" using 1(5) that by simp
  show ?case
  proof (cases "n < 128")
    case True
    define b :: u8 where "b = word_of_nat n"
    let ?v = "v OR push_bit (k * 7) (ucast (b AND 0x7f))"
    have b: "unat b = n" unfolding b_def using True by (simp add: unat_small_byte del: unsigned_of_nat)
    have w: "wire_varint n = [b]" using True by (subst wire_varint.simps) (simp add: b_def)
    have off: "offset < length bs" "bs ! offset = b" using 1(2) w by (simp_all add: drop_Cons_nth)
    have c: "k < 9 \<or> k = 9 \<and> unat b mod 128 \<le> 1" using 1(6) k9 True b by auto
    have v: "unat ?v = unat v + 2 ^ (k * 7) * n"
      using varint_step_u64 [OF 1(4) c] b True by simp
    have "0 < k \<longrightarrow> \<not> ?v < push_bit (k * 7) 1"
      using 1(4,6,7) v by (simp add: word_less_nat_alt unat_power_of_two varint_minimum)
    moreover have "\<not> (k = 9 \<and> 1 < (ucast (b AND 0x7f) :: u64))"
      using c by (simp only: word_less_nat_alt unat_low_bits) auto
    ultimately have "read_varint_loop bs [k..<10] offset v = Inr (?v, Suc offset)"
      using off b True 1(3) unfolding ks by (auto simp: Let_def byte_high_clear result_simps)
    with w v show ?thesis by simp
  next
    case False
    define b :: u8 where "b = word_of_nat (n mod 128 + 128)"
    let ?v = "v OR push_bit (k * 7) (ucast (b AND 0x7f))"
    have b: "unat b = n mod 128 + 128" unfolding b_def by (subst unat_small_byte) simp_all
    have w: "wire_varint n = b # wire_varint (n div 128)"
      using False by (subst wire_varint.simps) (simp only: b_def if_False)
    have off: "offset < length bs" "bs ! offset = b"
      "drop (Suc offset) bs = wire_varint (n div 128) @ post"
      using 1(2) w by (simp_all add: drop_Cons_nth)
    have k: "k < 9" using 1(6) k9 False by (cases "k = 9") auto
    have v: "unat ?v = unat v + 2 ^ (k * 7) * (n mod 128)"
      using varint_step_u64 [OF 1(4), of b] k b by simp
    have e: "unat ?v + 2 ^ (Suc k * 7) * (n div 128) = unat v + 2 ^ (k * 7) * n"
      unfolding v by (rule varint_split)
    have "unat ?v < 2 ^ (Suc k * 7)" "0 < n div 128"
      unfolding v using varint_value_less [OF 1(4), of n] False by (auto simp: div_greater_zero_iff)
    then obtain r where r: "read_varint_loop bs [Suc k..<10] (Suc offset) ?v =
        Inr (r, Suc offset + length (wire_varint (n div 128)))" "unat r = unat v + 2 ^ (k * 7) * n"
      using 1(1) [OF False off(3) 1(3), of ?v "Suc k"] 1(5) k e by auto
    have "read_varint_loop bs [k..<10] offset v = Inr (r, offset + length (wire_varint n))"
      using r(1) k b off 1(3) unfolding ks w by (simp add: Let_def byte_high_clear result_simps)
    with r(2) show ?thesis by blast
  qed
qed

lemma read_wire_varint_sound:
  assumes "read_wire_varint bs offset = Inr (v, offset')"
  shows "drop offset bs = wire_varint (unat v) @ drop offset' bs"
    "offset' = offset + length (wire_varint (unat v))"
proof -
  show d: "drop offset bs = wire_varint (unat v) @ drop offset' bs"
    using read_loop_sound [OF assms [unfolded read_wire_varint_def], of 0] by simp
  then have "length (drop offset bs) = length (wire_varint (unat v)) + length (drop offset' bs)"
    by simp
  with read_wire_varint_progress [OF assms] show "offset' = offset + length (wire_varint (unat v))"
    unfolding length_drop by linarith
qed

lemma read_wire_varint_complete:
  assumes "drop offset bs = wire_varint n @ post" "length bs \<le> usize_max" "n < 2 ^ 64"
  shows "read_wire_varint bs offset = Inr (word_of_nat n, offset + length (wire_varint n))"
proof -
  from read_loop_complete [OF assms(1,2), of 0 0] assms(3) obtain r
    where "read_wire_varint bs offset = Inr (r, offset + length (wire_varint n))" "unat r = n"
    by (auto simp: read_wire_varint_def)
  then show ?thesis by auto
qed


section \<open>The envelope grammar\<close>

text \<open>
  A protobuf message on the wire is a sequence of fields. The scan accepts a byte string
  exactly when it is the canonical encoding of a sequence in which the reserved tags do
  not occur, the envelope's own fields have their wire types, no field but the repeated
  one (tag 3) occurs twice, and at most one body is present.
\<close>

datatype wire_value = WVarint nat | WFixed64 bytes | WBytes bytes | WFixed32 bytes

fun wire_type_of :: "wire_value \<Rightarrow> nat" where
  "wire_type_of (WVarint n) = 0"
| "wire_type_of (WFixed64 bs) = 1"
| "wire_type_of (WBytes bs) = 2"
| "wire_type_of (WFixed32 bs) = 5"

fun encode_value :: "wire_value \<Rightarrow> bytes" where
  "encode_value (WVarint n) = wire_varint n"
| "encode_value (WFixed64 bs) = bs"
| "encode_value (WBytes bs) = wire_varint (length bs) @ bs"
| "encode_value (WFixed32 bs) = bs"

fun value_ok :: "wire_value \<Rightarrow> bool" where
  "value_ok (WVarint n) \<longleftrightarrow> n < 2 ^ 64"
| "value_ok (WFixed64 bs) \<longleftrightarrow> length bs = 8"
| "value_ok (WBytes bs) \<longleftrightarrow> True"
| "value_ok (WFixed32 bs) \<longleftrightarrow> length bs = 4"

type_synonym wire_field = "nat \<times> wire_value"

definition encode_field :: "wire_field \<Rightarrow> bytes" where
  "encode_field f = wire_varint (fst f * 8 + wire_type_of (snd f)) @ encode_value (snd f)"

definition is_body_tag :: "nat \<Rightarrow> bool" where
  "is_body_tag t \<longleftrightarrow> 10 \<le> t \<and> t \<le> 28"

definition is_single_tag :: "nat \<Rightarrow> bool" where
  "is_single_tag t \<longleftrightarrow> t \<le> 28 \<and> t \<noteq> 3"

definition field_ok :: "wire_field \<Rightarrow> bool" where
  "field_ok f \<longleftrightarrow> (case f of (t, v) \<Rightarrow>
     0 < t \<and> t < 2 ^ 32 \<and> value_ok v \<and> \<not> (5 \<le> t \<and> t \<le> 9) \<and> \<not> (29 \<le> t \<and> t \<le> 63) \<and>
     (t = 1 \<longrightarrow> wire_type_of v = 0) \<and>
     (t = 2 \<or> t = 4 \<or> is_body_tag t \<longrightarrow> wire_type_of v = 2))"

definition envelope_ok :: "wire_field list \<Rightarrow> bool" where
  "envelope_ok fs \<longleftrightarrow>
     list_all field_ok fs \<and> distinct (filter is_single_tag (map fst fs)) \<and>
     length (filter is_body_tag (map fst fs)) \<le> 1"

lemma skip_wire_value_sound:
  assumes "skip_wire_value bs offset wt = Inr offset'"
  shows "\<exists>v. wire_type_of v = unat wt \<and> value_ok v \<and>
    drop offset bs = encode_value v @ drop offset' bs \<and> offset' = offset + length (encode_value v)"
proof -
  have fixed: "drop o1 bs = take n (drop o1 bs) @ drop (o1 + n) bs" for o1 n
    by (metis append_take_drop_id drop_drop add.commute)
  from assms consider
      (varint) n where "wt = 0" "read_wire_varint bs offset = Inr (n, offset')"
    | (fixed64) "wt = 1" "offset' = offset + 8" "offset' \<le> length bs"
    | (delimited) n o1 where "wt = 2" "read_wire_varint bs offset = Inr (n, o1)"
        "offset' = o1 + unat n" "offset' \<le> length bs"
    | (fixed32) "wt = 5" "offset' = offset + 4" "offset' \<le> length bs"
    by (auto simp: skip_wire_value_def Let_def result_simps split: if_splits)
  then show ?thesis
  proof cases
    case varint
    with read_wire_varint_sound [OF varint(2)] unat_u64_lt [of n] show ?thesis
      by (intro exI [of _ "WVarint (unat n)"]) simp
  next
    case fixed64
    then show ?thesis using fixed [of offset 8]
      by (intro exI [of _ "WFixed64 (take 8 (drop offset bs))"]) simp
  next
    case delimited
    with read_wire_varint_sound [OF delimited(2)] fixed [of o1 "unat n"] show ?thesis
      by (intro exI [of _ "WBytes (take (unat n) (drop o1 bs))"]) simp
  next
    case fixed32
    then show ?thesis using fixed [of offset 4]
      by (intro exI [of _ "WFixed32 (take 4 (drop offset bs))"]) simp
  qed
qed

lemma skip_wire_value_complete:
  assumes "value_ok v" "drop offset bs = encode_value v @ post" "length bs \<le> usize_max"
    "offset \<le> length bs"
  shows "skip_wire_value bs offset (word_of_nat (wire_type_of v)) = Inr (offset + length (encode_value v))"
proof -
  have len: "offset + length (encode_value v) + length post = length bs"
    using arg_cong [OF assms(2), of length] assms(4) by simp
  show ?thesis
  proof (cases v)
    case (WVarint n)
    with assms read_wire_varint_complete [of offset bs n post] show ?thesis
      by (simp add: skip_wire_value_def)
  next
    case (WBytes xs)
    with len assms(3) have "length xs < 2 ^ 64" by simp
    with WBytes assms read_wire_varint_complete [of offset bs "length xs" "xs @ post"] len show ?thesis
      by (simp add: skip_wire_value_def Let_def unat_of_nat checked_add_usize_def)
  qed (use assms len in \<open>simp_all add: skip_wire_value_def Let_def checked_add_usize_def\<close>)
qed

lemma unat_key_parts:
  "unat (drop_bit 3 (key :: u64)) = unat key div 8"
  "unat (ucast (key AND 0x07) :: u8) = unat key mod 8"
proof -
  show "unat (drop_bit 3 key) = unat key div 8"
    using unsigned_drop_bit_eq [of 3 key, where 'a = nat] unat_u64_lt [of key]
    by (simp add: drop_bit_eq_div take_bit_nat_eq_self)
  have "key AND 0x07 = take_bit 3 key" by (simp add: take_bit_eq_mask mask_eq_exp_minus_1)
  then have "unat (key AND 0x07) = take_bit 3 (unat key)" by (simp only: unsigned_take_bit_eq)
  then have "unat (key AND 0x07) = unat key mod 8" by (simp add: take_bit_eq_mod)
  then show "unat (ucast (key AND 0x07) :: u8) = unat key mod 8"
    by (simp add: unsigned_ucast_eq take_bit_nat_eq_self)
qed

definition allowed_tag :: "nat \<Rightarrow> bool" where
  "allowed_tag t \<longleftrightarrow> 0 < t \<and> t < 2 ^ 32 \<and> \<not> (5 \<le> t \<and> t \<le> 9) \<and> \<not> (29 \<le> t \<and> t \<le> 63)"

definition type_fits :: "nat \<Rightarrow> nat \<Rightarrow> bool" where
  "type_fits t wt \<longleftrightarrow> (t = 1 \<longrightarrow> wt = 0) \<and> (t = 2 \<or> t = 4 \<or> is_body_tag t \<longrightarrow> wt = 2)"

lemma field_ok_iff:
  "field_ok (t, v) \<longleftrightarrow> allowed_tag t \<and> value_ok v \<and> type_fits t (wire_type_of v)"
  by (auto simp: field_ok_def allowed_tag_def type_fits_def)

lemma word_tag_cases:
  fixes tag :: u32
  shows "tag = 0 \<longleftrightarrow> unat tag = 0" "tag = 1 \<longleftrightarrow> unat tag = 1" "tag = 2 \<longleftrightarrow> unat tag = 2"
    "tag = 3 \<longleftrightarrow> unat tag = 3" "tag = 4 \<longleftrightarrow> unat tag = 4"
    "5 \<le> tag \<longleftrightarrow> 5 \<le> unat tag" "tag \<le> 9 \<longleftrightarrow> unat tag \<le> 9" "29 \<le> tag \<longleftrightarrow> 29 \<le> unat tag"
    "10 \<le> tag \<longleftrightarrow> 10 \<le> unat tag" "tag \<le> 28 \<longleftrightarrow> unat tag \<le> 28" "tag \<le> 63 \<longleftrightarrow> unat tag \<le> 63"
  by (auto simp: word_le_nat_alt word_unat_eq_iff)

lemma scan_field_Inr:
  assumes "read_wire_varint bs offset = Inr (key, offset1)" "t = unat key div 8" "wt = unat key mod 8"
  shows "scan_field bs offset seen body_tag = Inr (offset2, seen', body_tag') \<longleftrightarrow>
    allowed_tag t \<and> type_fits t wt \<and>
    (is_single_tag t \<longrightarrow> \<not> seen ! t) \<and>
    seen' = (if is_single_tag t then seen[t := True] else seen) \<and>
    (is_body_tag t \<longrightarrow> body_tag = None) \<and>
    body_tag' = (if is_body_tag t then Some (word_of_nat t) else body_tag) \<and>
    skip_wire_value bs offset1 (word_of_nat wt) = Inr offset2"
proof (cases "t < 2 ^ 32")
  case False
  then show ?thesis
    using assms by (simp add: scan_field_def unat_key_parts allowed_tag_def result_simps)
next
  case True
  define tag :: u32 where "tag = ucast (drop_bit 3 key)"
  define wire_type :: u8 where "wire_type = ucast (key AND 0x07)"
  have t: "unat tag = t"
    using True assms(2) unat_key_parts(1) [of key]
    by (simp add: tag_def unsigned_ucast_eq take_bit_nat_eq_self)
  have "unat wire_type = wt" using unat_key_parts(2) [of key] assms(3) by (simp add: wire_type_def)
  then have wt: "wire_type = word_of_nat wt" by (metis word_unat_eq_iff of_nat_unat ucast_id)
  have wt': "wire_type = 0 \<longleftrightarrow> wt = 0" "wire_type = 2 \<longleftrightarrow> wt = 2"
    using \<open>unat wire_type = wt\<close> by (auto simp: word_unat_eq_iff)
  have tag: "Some tag = Some (word_of_nat t)" using t by auto
  show ?thesis
    using assms(1) True t wt' tag
    unfolding scan_field_def Let_def expected_wire_type_def framing_defs wt
    by (simp add: unat_key_parts(1) assms(2) [symmetric] tag_def [symmetric]
        wire_type_def [symmetric] wt [symmetric] result_simps word_tag_cases
        allowed_tag_def type_fits_def is_single_tag_def is_body_tag_def)
      auto
qed

definition seen_exactly :: "bool list \<Rightarrow> nat set \<Rightarrow> bool" where
  "seen_exactly seen T \<longleftrightarrow> length seen = 29 \<and> (\<forall>t \<le> 28. seen ! t \<longleftrightarrow> t \<in> T)"

fun fields_from :: "nat set \<Rightarrow> bool \<Rightarrow> wire_field list \<Rightarrow> bool" where
  "fields_from T has_body [] = True"
| "fields_from T has_body ((t, v) # fs) =
     (field_ok (t, v) \<and> (is_single_tag t \<longrightarrow> t \<notin> T) \<and> (is_body_tag t \<longrightarrow> \<not> has_body) \<and>
      fields_from (if is_single_tag t then insert t T else T) (has_body \<or> is_body_tag t) fs)"

lemma seen_exactly_upd:
  assumes "seen_exactly seen T"
  shows "seen_exactly (if is_single_tag t then seen[t := True] else seen)
    (if is_single_tag t then insert t T else T)"
  using assms by (auto simp: seen_exactly_def is_single_tag_def nth_list_update)

lemma seen_exactly_single: "seen_exactly seen T \<Longrightarrow> is_single_tag t \<Longrightarrow> seen ! t \<longleftrightarrow> t \<in> T"
  by (simp add: seen_exactly_def is_single_tag_def)

lemma fields_from_iff:
  "fields_from T has_body fs \<longleftrightarrow>
     list_all field_ok fs \<and> distinct (filter is_single_tag (map fst fs)) \<and>
     set (filter is_single_tag (map fst fs)) \<inter> T = {} \<and>
     length (filter is_body_tag (map fst fs)) + of_bool has_body \<le> max 1 (of_bool has_body)"
  by (induction T has_body fs rule: fields_from.induct) auto

lemma envelope_ok_iff: "envelope_ok fs \<longleftrightarrow> fields_from {} False fs"
  by (auto simp: fields_from_iff envelope_ok_def)

lemma scan_field_sound:
  assumes "scan_field bs offset seen body_tag = Inr (offset', seen', body_tag')"
    and "seen_exactly seen T"
  shows "\<exists>t v. drop offset bs = encode_field (t, v) @ drop offset' bs \<and> field_ok (t, v) \<and>
    (is_single_tag t \<longrightarrow> t \<notin> T) \<and> (is_body_tag t \<longrightarrow> body_tag = None) \<and>
    seen_exactly seen' (if is_single_tag t then insert t T else T) \<and>
    (body_tag' \<noteq> None \<longleftrightarrow> body_tag \<noteq> None \<or> is_body_tag t)"
proof -
  from assms(1) obtain key offset1 where r: "read_wire_varint bs offset = Inr (key, offset1)"
    by (auto simp: scan_field_def result_simps)
  let ?t = "unat key div 8" and ?wt = "unat key mod 8"
  note f = assms(1) [unfolded scan_field_Inr [OF r refl refl]]
  from f obtain v where v: "wire_type_of v = unat (word_of_nat ?wt :: u8)" "value_ok v"
    "drop offset1 bs = encode_value v @ drop offset' bs"
    using skip_wire_value_sound by blast
  have wt: "wire_type_of v = ?wt" using v(1) by (simp add: unat_of_nat)
  have "drop offset bs = encode_field (?t, v) @ drop offset' bs"
    using read_wire_varint_sound(1) [OF r] v(3) wt by (simp add: encode_field_def)
  moreover have "field_ok (?t, v)" using f v(2) wt by (simp add: field_ok_iff)
  ultimately show ?thesis
    using f seen_exactly_upd [OF assms(2), of ?t] seen_exactly_single [OF assms(2)]
    by (intro exI [of _ ?t] exI [of _ v]) (auto split: if_splits)
qed

lemma scan_loop_sound:
  assumes "scan_loop bs offset seen body_tag = Inr ()" "seen_exactly seen T"
  shows "\<exists>fs. drop offset bs = concat (map encode_field fs) \<and> fields_from T (body_tag \<noteq> None) fs"
  using assms
proof (induction bs offset seen body_tag arbitrary: T rule: scan_loop.induct)
  case (1 bs offset seen body_tag)
  show ?case
  proof (cases "offset < length bs")
    case True
    with 1(2) have "bindE (scan_field bs offset seen body_tag)
        (\<lambda>r. scan_loop bs (fst r) (fst (snd r)) (snd (snd r))) = Inr ()"
      using scan_loop.simps [of bs offset seen body_tag] by simp
    then obtain q where "scan_field bs offset seen body_tag = Inr q"
      "scan_loop bs (fst q) (fst (snd q)) (snd (snd q)) = Inr ()"
      unfolding bindE_eq_Inr by blast
    then obtain offset' seen' body_tag'
      where f: "scan_field bs offset seen body_tag = Inr (offset', seen', body_tag')"
        and l: "scan_loop bs offset' seen' body_tag' = Inr ()"
      by (cases q) simp
    from scan_field_sound [OF f 1(3)] obtain t v
      where tv: "drop offset bs = encode_field (t, v) @ drop offset' bs" "field_ok (t, v)"
        "is_single_tag t \<longrightarrow> t \<notin> T" "is_body_tag t \<longrightarrow> body_tag = None"
        "seen_exactly seen' (if is_single_tag t then insert t T else T)"
        "body_tag' \<noteq> None \<longleftrightarrow> body_tag \<noteq> None \<or> is_body_tag t"
      by (elim exE conjE) (rule that)
    from 1(1) [OF True f, simplified, OF l tv(5)] obtain fs
      where "drop offset' bs = concat (map encode_field fs)"
        "fields_from (if is_single_tag t then insert t T else T) (body_tag' \<noteq> None) fs" by auto
    with tv show ?thesis
      by (intro exI [of _ "(t, v) # fs"]) (simp add: disj_commute)
  next
    case False
    then show ?thesis by (intro exI [of _ "[]"]) simp
  qed
qed

lemma scan_loop_complete:
  assumes "drop offset bs = concat (map encode_field fs)" "fields_from T (body_tag \<noteq> None) fs"
    and "seen_exactly seen T" "offset \<le> length bs" "length bs \<le> usize_max"
  shows "scan_loop bs offset seen body_tag = Inr ()"
  using assms
proof (induction fs arbitrary: offset T seen body_tag)
  case Nil
  then show ?case by (subst scan_loop.simps) simp
next
  case (Cons f fs)
  obtain t v where [simp]: "f = (t, v)" by (cases f)
  let ?key = "t * 8 + wire_type_of v"
  have ok: "allowed_tag t" "value_ok v" "type_fits t (wire_type_of v)"
    using Cons.prems(2) by (auto simp: field_ok_iff)
  have wt: "wire_type_of v < 8" by (cases v) simp_all
  have key: "?key < 2 ^ 64" using ok(1) wt by (simp add: allowed_tag_def)
  let ?o1 = "offset + length (wire_varint ?key)"
  have d: "drop offset bs = wire_varint ?key @ (encode_value v @ concat (map encode_field fs))"
    using Cons.prems(1) by (simp add: encode_field_def [of "(t, v)"])
  note r = read_wire_varint_complete [OF d Cons.prems(5) key]
  have o1: "?o1 \<le> length bs" "drop ?o1 bs = encode_value v @ concat (map encode_field fs)"
    using arg_cong [OF d, of length] Cons.prems(4) arg_cong [OF d, of "drop (length (wire_varint ?key))"]
    by (auto simp: add.commute)
  let ?o2 = "?o1 + length (encode_value v)"
  note s = skip_wire_value_complete [OF ok(2) o1(2) Cons.prems(5) o1(1)]
  have o2: "?o2 \<le> length bs" "drop ?o2 bs = concat (map encode_field fs)"
    using arg_cong [OF o1(2), of length] o1(1) arg_cong [OF o1(2), of "drop (length (encode_value v))"]
    by (auto simp: add.commute)
  have parts: "unat (word_of_nat ?key :: u64) div 8 = t"
    "unat (word_of_nat ?key :: u64) mod 8 = wire_type_of v"
    using key wt by (simp_all add: unat_of_nat del: of_nat_add of_nat_mult unsigned_of_nat)
  let ?seen' = "if is_single_tag t then seen[t := True] else seen"
  let ?body' = "if is_body_tag t then Some (word_of_nat t) else body_tag"
  have f: "scan_field bs offset seen body_tag = Inr (?o2, ?seen', ?body')"
    unfolding scan_field_Inr [OF r parts(1) [symmetric] parts(2) [symmetric]]
    using ok s Cons.prems(2) seen_exactly_single [OF Cons.prems(3)] by auto
  have "scan_loop bs ?o2 ?seen' ?body' = Inr ()"
    using Cons.IH [OF o2(2) _ seen_exactly_upd [OF Cons.prems(3), of t] o2(1) Cons.prems(5),
        of ?body'] Cons.prems(2)
    by (auto split: if_splits)
  moreover have "offset < length bs"
    using arg_cong [OF d, of length] wire_varint_nonempty [of ?key] by (cases "wire_varint ?key") auto
  ultimately show ?case using f by (subst scan_loop.simps) simp
qed

lemma scan_gateway_envelope_iff:
  assumes "length bs \<le> usize_max"
  shows "scan_gateway_envelope bs = Inr () \<longleftrightarrow>
    (\<exists>fs. bs = concat (map encode_field fs) \<and> envelope_ok fs)"
proof -
  have "seen_exactly (replicate (unat LAST_V1_MESSAGE_TAG + 1) False) {}"
    by (simp add: seen_exactly_def LAST_V1_MESSAGE_TAG_def del: replicate_Suc)
  then show ?thesis
    unfolding scan_gateway_envelope_def envelope_ok_iff
    using scan_loop_sound [of bs 0 _ None "{}"] scan_loop_complete [of 0 bs _ "{}" None] assms
    by fastforce
qed

section \<open>The incremental decoder\<close>

definition fd_inv :: "frame_decoder \<Rightarrow> bool" where
  "fd_inv d \<longleftrightarrow>
     0 < fd_maximum_frame_size d \<and> fd_maximum_frame_size d \<le> ABSOLUTE_MAX_FRAME_SIZE \<and>
     length (fd_prefix d) = MAX_U32_VARINT_BYTES \<and> fd_prefix_len d \<le> MAX_U32_VARINT_BYTES \<and>
     (case fd_expected_body d of
        None \<Rightarrow> fd_body d = []
      | Some n \<Rightarrow> n \<le> fd_maximum_frame_size d \<and> length (fd_body d) < n)"

lemma fd_inv_reset: "fd_inv d \<Longrightarrow> fd_inv (reset d)"
  by (simp add: fd_inv_def reset_def)

lemma fd_inv_new: "decoder_new n = Inr d \<Longrightarrow> fd_inv d"
  by (auto simp: decoder_new_def validate_maximum_def fd_inv_def result_simps split: if_splits)

lemma fd_inv_set_maximum:
  "fd_inv d \<Longrightarrow> set_maximum_frame_size d n = (r, d') \<Longrightarrow> fd_inv d'"
  by (auto simp: set_maximum_frame_size_def validate_maximum_def fd_inv_def tryE_def
      split: if_splits option.splits)

text \<open>One byte of the prefix either finds the length known, fails, or moves on.\<close>

lemma push_prefix_Cons:
  obtains (known) "fd_expected_body d \<noteq> None"
    "\<And>rest c. push_prefix d (byte # rest) c = (Inr (c, byte # rest), d)"
  | (error) e where "fd_expected_body d = None"
    "\<And>rest c. push_prefix d (byte # rest) c =
       (Inl e, if fd_prefix_len d = MAX_U32_VARINT_BYTES then reset d
               else reset (d\<lparr>fd_prefix := (fd_prefix d)[fd_prefix_len d := byte],
                             fd_prefix_len := fd_prefix_len d + 1\<rparr>))"
  | (more) d1 where "fd_expected_body d = None" "fd_inv d \<longrightarrow> fd_inv d1"
    "\<And>rest c. push_prefix d (byte # rest) c = push_prefix d1 rest (c + 1)"
proof (cases "fd_expected_body d = None")
  case False
  then show thesis by (intro known) auto
next
  case None: True
  let ?d1 = "d\<lparr>fd_prefix := (fd_prefix d)[fd_prefix_len d := byte],
               fd_prefix_len := fd_prefix_len d + 1\<rparr>"
  let ?dec = "decode_canonical_u32_varint (take (fd_prefix_len ?d1) (fd_prefix ?d1))"
  consider (long) "fd_prefix_len d = MAX_U32_VARINT_BYTES"
    | (cont) "fd_prefix_len d \<noteq> MAX_U32_VARINT_BYTES" "byte AND 0x80 \<noteq> 0"
    | (bad) e where "fd_prefix_len d \<noteq> MAX_U32_VARINT_BYTES" "byte AND 0x80 = 0" "?dec = Inl e"
    | (last) n where "fd_prefix_len d \<noteq> MAX_U32_VARINT_BYTES" "byte AND 0x80 = 0" "?dec = Inr n"
    by (cases ?dec) auto
  then show thesis
  proof cases
    case long
    with None show thesis by (intro error) auto
  next
    case cont
    with None show thesis by (intro more [of ?d1]) (auto simp: Let_def fd_inv_def)
  next
    case bad
    with None show thesis by (intro error [of e]) (auto simp: Let_def)
  next
    case last
    consider "unat n = 0" | "unat n \<noteq> 0" "fd_maximum_frame_size d < unat n"
      | "unat n \<noteq> 0" "unat n \<le> fd_maximum_frame_size d" by linarith
    then show thesis
    proof cases
      case 1
      with last None show thesis by (intro error [of EmptyFrame]) (auto simp: Let_def)
    next
      case 2
      with last None show thesis
        by (intro error [of "FrameTooLarge (unat n) (fd_maximum_frame_size d)"])
          (auto simp: Let_def)
    next
      case 3
      with last None show thesis
        by (intro more [of "?d1\<lparr>fd_body := [], fd_expected_body := Some (unat n)\<rparr>"])
          (auto simp: Let_def fd_inv_def)
    qed
  qed
qed

declare push_prefix.simps(2) [simp del]

lemma fd_inv_push_prefix:
  "fd_inv d \<Longrightarrow> push_prefix d input c = (r, d') \<Longrightarrow> fd_inv d'"
proof (induction input arbitrary: d c)
  case (Cons byte rest)
  show ?case
  proof (cases rule: push_prefix_Cons [of d byte])
    case (error e)
    have "fd_inv (d\<lparr>fd_prefix := (fd_prefix d)[fd_prefix_len d := byte],
                    fd_prefix_len := fd_prefix_len d + 1\<rparr>)"
      if "fd_prefix_len d \<noteq> MAX_U32_VARINT_BYTES"
      using Cons.prems(1) that error(1) by (simp add: fd_inv_def)
    with error Cons.prems show ?thesis by (auto intro!: fd_inv_reset split: if_splits)
  qed (use Cons in auto)
qed simp

lemma fd_inv_push:
  assumes inv: "fd_inv d" and p: "push p d input = (r, d')"
  shows "fd_inv d'"
proof -
  obtain q d1 where q: "push_prefix d input 0 = (q, d1)" by (cases "push_prefix d input 0")
  have d1: "fd_inv d1" using inv q by (rule fd_inv_push_prefix)
  have body: "fd_inv (d1\<lparr>fd_body := fd_body d1 @ take (min (n - length (fd_body d1)) k) rest\<rparr>)"
    if "fd_expected_body d1 = Some n"
      "length (fd_body d1 @ take (min (n - length (fd_body d1)) k) rest) \<noteq> n" for n k rest
    using d1 that by (auto simp: fd_inv_def)
  have reset: "fd_inv (reset (d1\<lparr>fd_body := bs\<rparr>))" for bs
    using d1 by (simp add: fd_inv_def reset_def)
  show ?thesis
    using p q d1 body reset unfolding push_def Let_def
    by (auto simp: tryE_def split: sum.splits option.splits if_splits)
qed

lemma push_prefix_shift:
  "push_prefix d input c = (case push_prefix d input 0 of
     (Inl e, d') \<Rightarrow> (Inl e, d') | (Inr (k, rest), d') \<Rightarrow> (Inr (c + k, rest), d'))"
proof (induction input arbitrary: d c)
  case (Cons byte rest)
  show ?case
  proof (cases rule: push_prefix_Cons [of d byte])
    case (more d1)
    show ?thesis
      unfolding more(3) using Cons.IH [of d1 "c + 1"] Cons.IH [of d1 1]
      by (auto split: prod.splits sum.splits)
  qed auto
qed simp

lemma push_prefix_consumed:
  "push_prefix d input c = (Inr (k, rest), d') \<Longrightarrow>
     \<exists>used. input = used @ rest \<and> k = c + length used \<and> (fd_expected_body d' = None \<longrightarrow> rest = [])"
proof (induction input arbitrary: d c)
  case (Cons byte input)
  show ?case
  proof (cases rule: push_prefix_Cons [of d byte])
    case (more d1)
    with Cons.prems Cons.IH [of d1 "c + 1"] obtain used where
      "input = used @ rest" "k = c + 1 + length used" "fd_expected_body d' = None \<longrightarrow> rest = []"
      by auto
    then show ?thesis by (intro exI [of _ "byte # used"]) simp
  qed (use Cons.prems in auto)
qed simp

lemma push_prefix_append:
  "push_prefix d (a @ b) c = (case push_prefix d a c of
     (Inl e, d') \<Rightarrow> (Inl e, d')
   | (Inr (k, rest), d') \<Rightarrow>
       if fd_expected_body d' = None then push_prefix d' b k
       else (Inr (k, rest @ b), d'))"
proof (induction a arbitrary: d c)
  case Nil
  show ?case by (cases b) (simp_all add: push_prefix.simps(2))
next
  case (Cons x a)
  show ?case
  proof (cases rule: push_prefix_Cons [of d x])
    case (more d1)
    show ?thesis unfolding append_Cons more(3) by (rule Cons.IH)
  qed auto
qed


text \<open>The second half of \<open>push\<close>, once the prefix is done.\<close>

definition push_body ::
  "prost \<Rightarrow> frame_decoder \<Rightarrow> nat \<Rightarrow> bytes \<Rightarrow> (protocol_error + decode_progress) \<times> frame_decoder" where
  "push_body p d consumed rest =
     (case fd_expected_body d of
        None \<Rightarrow> (Inr \<lparr>dp_consumed = consumed, dp_frame = None\<rparr>, d)
      | Some n \<Rightarrow>
          (let taken = take (n - length (fd_body d)) rest;
               d2 = d\<lparr>fd_body := fd_body d @ taken\<rparr>
           in if length (fd_body d2) = n then
                tryE (decode_frame_bytes p (fd_body d2)) (reset d2) (\<lambda>frame.
                  (Inr \<lparr>dp_consumed = consumed + length taken, dp_frame = Some frame\<rparr>, reset d2))
              else (Inr \<lparr>dp_consumed = consumed + length taken, dp_frame = None\<rparr>, d2)))"

lemma push_eq_body:
  "push p d input = (case push_prefix d input 0 of
     (Inl e, d1) \<Rightarrow> (Inl e, d1) | (Inr (consumed, rest), d1) \<Rightarrow> push_body p d1 consumed rest)"
proof (cases "push_prefix d input 0")
  case (Pair q d1)
  show ?thesis
  proof (cases q)
    case (Inr kr)
    obtain k rest where kr: "kr = (k, rest)" by (cases kr)
    with Inr Pair push_prefix_consumed [of d input 0 k rest d1]
    have "length input - k = length rest" by auto
    then have "take (min n (length input - k)) rest = take n rest"
      "min n (length input - k) = length (take n rest)" for n
      by (auto simp: min_def)
    then show ?thesis
      using Pair Inr kr by (simp add: push_def push_body_def Let_def split: option.splits)
  qed (simp add: push_def Pair)
qed

text \<open>
  \<open>resume p b n\<close> takes the outcome of pushing \<open>n\<close> bytes and goes on with \<open>b\<close>: an error or
  a complete frame stays, an incomplete one continues in the state reached.
\<close>

type_synonym push_outcome = "(protocol_error + decode_progress) \<times> frame_decoder"

definition advance :: "nat \<Rightarrow> push_outcome \<Rightarrow> push_outcome" where
  "advance n res = (case res of
     (Inl e, d) \<Rightarrow> (Inl e, d)
   | (Inr pr, d) \<Rightarrow> (Inr (pr\<lparr>dp_consumed := n + dp_consumed pr\<rparr>), d))"

definition resume :: "prost \<Rightarrow> bytes \<Rightarrow> nat \<Rightarrow> push_outcome \<Rightarrow> push_outcome" where
  "resume p b n res = (case res of
     (Inl e, d) \<Rightarrow> (Inl e, d)
   | (Inr pr, d) \<Rightarrow> if dp_frame pr \<noteq> None then (Inr pr, d) else advance n (push p d b))"

lemma advance_add: "advance n (advance k res) = advance (n + k) res"
  by (auto simp: advance_def split: prod.splits sum.splits)

lemma push_body_advance: "push_body p e (k + m) s = advance k (push_body p e m s)"
  by (auto simp: push_body_def Let_def tryE_def advance_def split: option.splits sum.splits)

lemma push_known: "fd_expected_body e \<noteq> None \<Longrightarrow> push p e s = push_body p e 0 s"
  by (cases s) (auto simp: push_eq_body push_prefix.simps(2))

lemma push_body_append:
  assumes "fd_inv d" "fd_expected_body d \<noteq> None"
  shows "push_body p d k (rest @ b) = resume p b (k + length rest) (push_body p d k rest)"
proof -
  from assms obtain n where n: "fd_expected_body d = Some n" "length (fd_body d) < n"
    by (auto simp: fd_inv_def)
  show ?thesis
  proof (cases "n - length (fd_body d) \<le> length rest")
    case True
    then show ?thesis
      using n
      by (cases "decode_frame_bytes p (fd_body d @ take (n - length (fd_body d)) rest)")
        (auto simp: push_body_def Let_def resume_def)
  next
    case False
    then have "length (fd_body d) + length rest \<noteq> n" by simp
    with False n have r: "push_body p d k rest =
        (Inr \<lparr>dp_consumed = k + length rest, dp_frame = None\<rparr>, d\<lparr>fd_body := fd_body d @ rest\<rparr>)"
      by (simp add: push_body_def Let_def)
    have "push_body p d k (rest @ b) =
        push_body p (d\<lparr>fd_body := fd_body d @ rest\<rparr>) (k + length rest) b"
      using n False by (simp add: push_body_def Let_def add.assoc)
    with n show ?thesis
      using push_body_advance [of p "d\<lparr>fd_body := fd_body d @ rest\<rparr>" "k + length rest" 0 b]
      by (simp add: r resume_def push_known)
  qed
qed

lemma push_resume:
  assumes inv: "fd_inv d"
  shows "push p d (a @ b) = resume p b (length a) (push p d a)"
proof -
  obtain q d1 where q: "push_prefix d a 0 = (q, d1)" by (cases "push_prefix d a 0")
  have d1: "fd_inv d1" using inv q by (rule fd_inv_push_prefix)
  show ?thesis
  proof (cases q)
    case (Inl e)
    then show ?thesis using q by (simp add: push_eq_body push_prefix_append resume_def)
  next
    case (Inr kr)
    then obtain k rest used where kr: "q = Inr (k, rest)" "a = used @ rest" "k = length used"
      "fd_expected_body d1 = None \<longrightarrow> rest = []"
      using push_prefix_consumed [of d a 0] q by (cases kr) auto
    show ?thesis
    proof (cases "fd_expected_body d1")
      case None
      have "push p d (a @ b) = (case push_prefix d1 b (length a) of
          (Inl e, d1) \<Rightarrow> (Inl e, d1) | (Inr (c, s), d1) \<Rightarrow> push_body p d1 c s)"
        using q kr None by (simp add: push_eq_body push_prefix_append)
      also have "\<dots> = advance (length a) (push p d1 b)"
        by (subst push_prefix_shift)
          (auto simp: push_eq_body push_body_advance advance_def split: prod.splits sum.splits)
      finally show ?thesis
        using q kr None by (simp add: push_eq_body [of p d used] push_body_def resume_def)
    next
      case (Some n)
      then have "push p d (a @ b) = push_body p d1 k (rest @ b)"
        using push_prefix_append [of d a b 0] q kr(1) by (simp add: push_eq_body [of p d "a @ b"])
      also have "\<dots> = resume p b (k + length rest) (push_body p d1 k rest)"
        using d1 Some by (intro push_body_append) simp_all
      also have "push_body p d1 k rest = push p d a"
        using q kr(1) by (simp add: push_eq_body)
      finally show ?thesis using kr(2,3) by simp
    qed
  qed
qed

lemma push_incomplete_consumes_all:
  assumes inv: "fd_inv d" and a: "push p d a = (Inr pr, d')" "dp_frame pr = None"
  shows "dp_consumed pr = length a"
proof -
  obtain q d1 where q: "push_prefix d a 0 = (q, d1)" by (cases "push_prefix d a 0")
  with a obtain kr where "q = Inr kr" by (cases q) (auto simp: push_eq_body)
  then obtain k rest used where kr: "q = Inr (k, rest)" "a = used @ rest" "k = length used"
    "fd_expected_body d1 = None \<longrightarrow> rest = []"
    using push_prefix_consumed [of d a 0] q by (cases kr) auto
  have "fd_inv d1" using inv q by (rule fd_inv_push_prefix)
  moreover have "push_body p d1 k rest = (Inr pr, d')" using a q kr by (simp add: push_eq_body)
  ultimately show ?thesis
    using a(2) kr
    by (auto simp: push_body_def fd_inv_def Let_def tryE_def min_def
        split: option.splits if_splits sum.splits)
qed

section \<open>The two readers agree\<close>

text \<open>What both readers do with a complete prefix.\<close>

definition prefix_length :: "nat \<Rightarrow> bytes \<Rightarrow> protocol_error + nat" where
  "prefix_length m px =
     bindE (decode_canonical_u32_varint px) (\<lambda>n.
     if unat n = 0 then Inl EmptyFrame
     else if m < unat n then Inl (FrameTooLarge (unat n) m) else Inr (unat n))"

definition prefix_state :: "frame_decoder \<Rightarrow> bytes \<Rightarrow> bool" where
  "prefix_state d pre \<longleftrightarrow>
     fd_expected_body d = None \<and> fd_body d = [] \<and> length (fd_prefix d) = MAX_U32_VARINT_BYTES \<and>
     fd_prefix_len d = length pre \<and> length pre \<le> MAX_U32_VARINT_BYTES \<and>
     take (length pre) (fd_prefix d) = pre"

lemma take_list_update_snoc:
  "k < length xs \<Longrightarrow> take (Suc k) (xs[k := x]) = take k xs @ [x]"
  by (simp add: take_Suc_conv_app_nth)

lemma prefix_state_snoc:
  assumes "prefix_state d pre" "length pre \<noteq> MAX_U32_VARINT_BYTES"
  shows "prefix_state (d\<lparr>fd_prefix := (fd_prefix d)[fd_prefix_len d := b],
      fd_prefix_len := fd_prefix_len d + 1\<rparr>) (pre @ [b])"
  using assms take_list_update_snoc [of "length pre" "fd_prefix d" b] by (simp add: prefix_state_def)

text \<open>\<open>split_prefix\<close> is the prefix that both readers cut off: up to the first byte without
  the continuation flag.\<close>

fun split_prefix :: "nat \<Rightarrow> bytes \<Rightarrow> bytes \<Rightarrow> (bytes \<times> bytes) option" where
  "split_prefix 0 pre input = None"
| "split_prefix (Suc n) pre [] = None"
| "split_prefix (Suc n) pre (b # input) =
     (if b AND 0x80 = 0 then Some (pre @ [b], input) else split_prefix n (pre @ [b]) input)"

lemma read_prefix_split:
  "case split_prefix n pre (tr_input t) of
     Some (px, rest) \<Rightarrow> read_prefix n pre t = (Inr px, t\<lparr>tr_input := rest\<rparr>)
   | None \<Rightarrow> fst (read_prefix n pre t) =
       Inl (if length (tr_input t) < n then Io else InvalidLengthPrefix)"
proof (induction n arbitrary: pre t)
  case (Suc n)
  show ?case
  proof (cases "tr_input t")
    case (Cons b input)
    with Suc.IH [of "pre @ [b]" "t\<lparr>tr_input := input\<rparr>"] show ?thesis
      by (auto simp: read_exact_def split: option.splits)
  qed (simp add: read_exact_def)
qed simp

lemma push_prefix_split:
  assumes "prefix_state d pre" "length pre + n = MAX_U32_VARINT_BYTES"
  shows "case split_prefix n pre input of
      Some (px, rest) \<Rightarrow>
        (case prefix_length (fd_maximum_frame_size d) px of
           Inl e \<Rightarrow> \<exists>d'. push_prefix d input c = (Inl e, d')
         | Inr len \<Rightarrow> \<exists>d'. push_prefix d input c =
             (Inr (c + (length input - length rest), rest), d') \<and>
             reset d' = reset d \<and> fd_body d' = [] \<and> fd_expected_body d' = Some len)
    | None \<Rightarrow> (\<exists>d'. push_prefix d input c = (Inr (c + length input, []), d') \<and>
                 fd_expected_body d' = None \<and> length input \<le> n) \<or>
        ((\<exists>d'. push_prefix d input c = (Inl InvalidLengthPrefix, d')) \<and> n < length input)"
  using assms
proof (induction n pre input arbitrary: d c rule: split_prefix.induct)
  case (1 pre input)
  then have "length pre = MAX_U32_VARINT_BYTES" by (simp add: prefix_state_def)
  with 1(1) show ?case
    by (cases input) (auto simp: prefix_state_def push_prefix.simps(2))
next
  case (2 n pre)
  then show ?case by (simp add: prefix_state_def)
next
  case (3 n pre b input)
  have l: "length pre \<noteq> MAX_U32_VARINT_BYTES" using 3(3) by auto
  let ?d1 = "d\<lparr>fd_prefix := (fd_prefix d)[fd_prefix_len d := b], fd_prefix_len := fd_prefix_len d + 1\<rparr>"
  have d1: "prefix_state ?d1 (pre @ [b])" using 3(2) l by (rule prefix_state_snoc)
  show ?case
  proof (cases "b AND 0x80 = 0")
    case True
    have "take (fd_prefix_len ?d1) (fd_prefix ?d1) = pre @ [b]"
      using d1 by (auto simp: prefix_state_def)
    with True 3(2) l show ?thesis
      by (cases input; cases "decode_canonical_u32_varint (pre @ [b])")
        (auto simp: prefix_state_def prefix_length_def push_prefix.simps(2) Let_def reset_def)
  next
    case False
    have n: "length (pre @ [b]) + n = MAX_U32_VARINT_BYTES" using 3(3) by simp
    have step: "push_prefix d (b # input) c = push_prefix ?d1 input (c + 1)"
      using False l 3(2) by (simp add: push_prefix.simps(2) prefix_state_def Let_def)
    have "reset ?d1 = reset d" "fd_maximum_frame_size ?d1 = fd_maximum_frame_size d"
      by (simp_all add: reset_def)
    moreover have "length input - length rest + 1 = length (b # input) - length rest"
      if "split_prefix n (pre @ [b]) input = Some (px, rest)" for px rest
    proof -
      have "split_prefix n p i = Some (px, rest) \<Longrightarrow> length rest \<le> length i" for n p i
        by (induction n p i rule: split_prefix.induct) (auto split: if_splits)
      from this [OF that] show ?thesis by simp
    qed
    ultimately show ?thesis
      using 3(1) [OF False d1 n, of "c + 1"] False unfolding step
      by (auto split: option.splits sum.splits)
  qed
qed

lemma decoder_new_state:
  assumes "decoder_new m = Inr d"
  shows "prefix_state d []" "fd_maximum_frame_size d = m" "reset d = d" "validate_maximum m = Inr ()"
    "fd_inv d"
  using assms fd_inv_new [OF assms]
  by (auto simp: decoder_new_def prefix_state_def reset_def result_simps)

text \<open>\<open>read_frame\<close> in terms of the common prefix functions.\<close>

lemma read_frame_eq:
  assumes "validate_maximum m = Inr ()"
  shows "case split_prefix MAX_U32_VARINT_BYTES [] (tr_input t) of
      None \<Rightarrow> fst (read_frame p t m) =
        Inl (if length (tr_input t) < MAX_U32_VARINT_BYTES then Io else InvalidLengthPrefix)
    | Some (px, rest) \<Rightarrow>
        (case prefix_length m px of
           Inl e \<Rightarrow> fst (read_frame p t m) = Inl e
         | Inr len \<Rightarrow>
             if len \<le> length rest
             then read_frame p t m = (decode_frame_bytes p (take len rest), t\<lparr>tr_input := drop len rest\<rparr>)
             else fst (read_frame p t m) = Inl Io)"
proof (cases "split_prefix MAX_U32_VARINT_BYTES [] (tr_input t)")
  case None
  with read_prefix_split [of MAX_U32_VARINT_BYTES "[]" t] assms show ?thesis
    by (cases "read_prefix MAX_U32_VARINT_BYTES [] t") (auto simp: read_frame_def)
next
  case (Some pr)
  obtain px rest where pr: "pr = (px, rest)" by (cases pr)
  with Some read_prefix_split [of MAX_U32_VARINT_BYTES "[]" t]
  have "read_prefix MAX_U32_VARINT_BYTES [] t = (Inr px, t\<lparr>tr_input := rest\<rparr>)" by simp
  with Some pr assms show ?thesis
    by (cases "decode_canonical_u32_varint px")
      (auto simp: read_frame_def prefix_length_def read_exact_def Let_def)
qed

lemma push_new_eq:
  assumes "decoder_new m = Inr d"
  shows "case split_prefix MAX_U32_VARINT_BYTES [] input of
      None \<Rightarrow> (\<exists>d'. push p d input = (Inr \<lparr>dp_consumed = length input, dp_frame = None\<rparr>, d')) \<and>
          length input \<le> MAX_U32_VARINT_BYTES \<or>
        fst (push p d input) = Inl InvalidLengthPrefix \<and> MAX_U32_VARINT_BYTES < length input
    | Some (px, rest) \<Rightarrow>
        (case prefix_length m px of
           Inl e \<Rightarrow> fst (push p d input) = Inl e
         | Inr len \<Rightarrow>
             if len \<le> length rest
             then push p d input =
               (case decode_frame_bytes p (take len rest) of
                  Inl e \<Rightarrow> (Inl e, d)
                | Inr f \<Rightarrow> (Inr \<lparr>dp_consumed = length input - length rest + len, dp_frame = Some f\<rparr>, d))
             else (\<exists>d' n. push p d input = (Inr \<lparr>dp_consumed = n, dp_frame = None\<rparr>, d')))"
proof -
  note new = decoder_new_state [OF assms]
  note split = push_prefix_split [OF new(1), of MAX_U32_VARINT_BYTES input 0, unfolded new(2,3)]
  show ?thesis
  proof (cases "split_prefix MAX_U32_VARINT_BYTES [] input")
    case None
    with split show ?thesis by (auto simp: push_eq_body push_body_def)
  next
    case (Some pr)
    obtain px rest where pr: "pr = (px, rest)" by (cases pr)
    show ?thesis
    proof (cases "prefix_length m px")
      case (Inl e)
      with Some pr split show ?thesis by (auto simp: push_eq_body)
    next
      case (Inr len)
      with Some pr split obtain d1 where d1:
        "push_prefix d input 0 = (Inr (length input - length rest, rest), d1)"
        "reset d1 = d" "fd_body d1 = []" "fd_expected_body d1 = Some len" by auto
      have "reset (d1\<lparr>fd_body := bs\<rparr>) = d" for bs
        using d1(2) by (simp add: reset_def)
      with d1 Inr Some pr show ?thesis
        by (auto simp: push_eq_body push_body_def Let_def tryE_def min_def split: sum.splits)
    qed
  qed
qed

lemma split_prefix_length:
  "split_prefix n pre input = Some (px, rest) \<Longrightarrow> length rest \<le> length input \<and>
     rest = drop (length input - length rest) input"
proof (induction n pre input rule: split_prefix.induct)
  case (3 n pre b input)
  then show ?case by (auto simp: Suc_diff_le split: if_splits)
qed simp_all

text \<open>The prefix written by \<open>encode_u32_varint\<close> is cut off where it ends.\<close>

lemma split_prefix_varint:
  "length (wire_varint n) \<le> k \<Longrightarrow>
     split_prefix k pre (wire_varint n @ rest) = Some (pre @ wire_varint n, rest)"
proof (induction n arbitrary: k pre rule: wire_varint.induct)
  case (1 n)
  show ?case
  proof (cases "n < 128")
    case True
    then have "wire_varint n = [word_of_nat n]" by (subst wire_varint.simps) simp
    with 1(2) True varint_byte_last [of n] show ?thesis by (cases k) auto
  next
    case False
    define b :: u8 where "b = word_of_nat (n mod 128 + 128)"
    have w: "wire_varint n = b # wire_varint (n div 128)"
      using False by (subst wire_varint.simps) (simp only: b_def if_False)
    have "b AND 0x80 \<noteq> 0" unfolding b_def by (rule conjunct1 [OF varint_byte_more])
    with 1(2) 1(1) [OF False] show ?thesis unfolding w by (cases k) auto
  qed
qed

lemma split_prefix_encode:
  "split_prefix MAX_U32_VARINT_BYTES [] (encode_u32_varint v @ rest) =
     Some (encode_u32_varint v, rest)"
proof -
  have "unat v < 128 ^ Suc 4" using unat_u32_lt [of v] by simp
  then have "length (wire_varint (unat v)) \<le> 5" using length_wire_varint by fastforce
  then show ?thesis
    by (simp add: encode_u32_varint_eq split_prefix_varint MAX_U32_VARINT_BYTES_def)
qed


section \<open>Properties\<close>

definition fd_start :: "frame_decoder \<Rightarrow> bool" where
  "fd_start d \<longleftrightarrow> (\<exists>m. decoder_new m = Inr d)"

inductive fd_step :: "prost \<Rightarrow> frame_decoder \<Rightarrow> frame_decoder \<Rightarrow> bool" for p where
  "push p d input = (r, d') \<Longrightarrow> fd_step p d d'"
| "set_maximum_frame_size d m = (r', d') \<Longrightarrow> fd_step p d d'"

interpretation fdm: invariant_machine fd_start "fd_step p" fd_inv for p
proof unfold_locales
  show "fd_start d \<Longrightarrow> fd_inv d" for d
    by (auto simp: fd_start_def intro: fd_inv_new)
  show "fd_inv d \<Longrightarrow> fd_step p d d' \<Longrightarrow> fd_inv d'" for d d'
    by (erule fd_step.cases) (blast intro: fd_inv_push fd_inv_set_maximum)+
qed

text \<open>
  The length prefix has exactly one encoding per value: the decoder accepts a byte
  string as \<open>v\<close> if and only if it is what the encoder writes for \<open>v\<close>. Over-long,
  truncated and out-of-range encodings are all refused.
\<close>

theorem varint_canonical:
  "decode_canonical_u32_varint bs = Inr v \<longleftrightarrow> bs = encode_u32_varint v"
  using decode_varint_canonical decode_encode_varint by blast

text \<open>
  C15. The envelope scan accepts exactly the canonical protobuf encodings of a well-formed
  envelope: a sequence of fields with minimal varints, no reserved or unknown body tag, the
  right wire type for the envelope's own fields, no singular field twice and at most one
  body. Nothing else reaches the generated decoder.
\<close>

theorem scan_accepts_exactly_canonical_envelopes:
  assumes "length bs \<le> usize_max"
  shows "scan_gateway_envelope bs = Inr () \<longleftrightarrow>
    (\<exists>fs. bs = concat (map encode_field fs) \<and> envelope_ok fs)"
  using assms by (rule scan_gateway_envelope_iff)

text \<open>
  The incremental decoder's memory is bounded by the negotiated maximum: in every state
  it can reach, whatever bytes were pushed, it holds at most the five prefix bytes and less
  than one frame of the maximum size, which itself never exceeds 64 KiB.
\<close>

theorem decoder_memory_bounded:
  assumes "reach fd_start (fd_step p) d"
  shows "buffered_bytes d < MAX_U32_VARINT_BYTES + fd_maximum_frame_size d \<and>
    fd_maximum_frame_size d \<le> ABSOLUTE_MAX_FRAME_SIZE"
  using fdm.reach_inv [OF assms]
  by (auto simp: fd_inv_def buffered_bytes_def saturating_add_usize_def split: option.splits)

text \<open>
  How the input is cut into chunks does not matter: pushing \<open>a @ b\<close> gives what pushing
  \<open>a\<close> and then, if no frame and no error came out, \<open>b\<close> gives, with the consumed bytes
  added up; and a push that returns no frame has consumed its whole input.
\<close>

theorem decoder_chunking_irrelevant:
  assumes "reach fd_start (fd_step p) d"
  shows "push p d (a @ b) = resume p b (length a) (push p d a) \<and>
    (\<forall>pr d'. push p d a = (Inr pr, d') \<and> dp_frame pr = None \<longrightarrow> dp_consumed pr = length a)"
  using push_resume push_incomplete_consumes_all fdm.reach_inv [OF assms] by blast

text \<open>
  The incremental decoder and \<open>read_frame\<close> decode the same language. On the same input
  a fresh decoder returns a frame exactly when \<open>read_frame\<close> does, with the same frame and
  the same bytes left over; where it returns an error \<open>read_frame\<close> returns the same error;
  where it asks for more input \<open>read_frame\<close> reports the end of the stream, or an invalid
  prefix when the five prefix bytes are used up.
\<close>

theorem decoder_agrees_with_read_frame:
  assumes "decoder_new m = Inr d"
  shows "case push p d (tr_input t) of
      (Inl e, _) \<Rightarrow> fst (read_frame p t m) = Inl e
    | (Inr pr, _) \<Rightarrow>
        (case dp_frame pr of
           Some f \<Rightarrow> read_frame p t m = (Inr f, t\<lparr>tr_input := drop (dp_consumed pr) (tr_input t)\<rparr>)
         | None \<Rightarrow> fst (read_frame p t m) \<in> {Inl Io, Inl InvalidLengthPrefix})"
proof -
  note v = decoder_new_state(4) [OF assms]
  note r = read_frame_eq [OF v, where t = t and p = p] and q = push_new_eq [OF assms, where input = "tr_input t" and p = p]
  show ?thesis
  proof (cases "split_prefix MAX_U32_VARINT_BYTES [] (tr_input t)")
    case None
    with r q show ?thesis by (cases "push p d (tr_input t)") (auto split: if_splits)
  next
    case (Some s)
    obtain px rest where s: "s = (px, rest)" by (cases s)
    note len = split_prefix_length [OF Some [unfolded s]]
    have "drop n rest = drop (length (tr_input t) - length rest + n) (tr_input t)" for n
      using len by (metis add.commute drop_drop)
    with Some s r q show ?thesis
      by (cases "push p d (tr_input t)")
        (auto split: if_splits sum.splits)
  qed
qed

text \<open>
  What is assumed of the generated protobuf code for a frame \<open>f\<close>: the announced length is
  the length written, decoding inverts encoding, and the encoding is a canonical sequence
  of the envelope's fields with one body.
\<close>

definition prost_conforms :: "prost \<Rightarrow> gateway_frame \<Rightarrow> bool" where
  "prost_conforms p f \<longleftrightarrow>
     p_encoded_len p f = length (p_encode p f) \<and> p_decode p (p_encode p f) = Some f \<and>
     (\<exists>fs. p_encode p f = concat (map encode_field fs) \<and> envelope_ok fs)"

lemma encoded_frame_read_back:
  assumes "prost_conforms p f" "gf_body f \<noteq> None" "encode_frame p f m = Inr bs"
    and "decoder_new m = Inr d" "tr_input t = bs @ rest"
  shows "read_frame p t m = (Inr f, t\<lparr>tr_input := rest\<rparr>) \<and>
    push p d (bs @ rest) = (Inr \<lparr>dp_consumed = length bs, dp_frame = Some f\<rparr>, d)"
proof -
  let ?e = "p_encode p f"
  from assms(1,3) have e: "0 < length ?e" "length ?e \<le> m" "m \<le> ABSOLUTE_MAX_FRAME_SIZE"
    and bs: "bs = encode_u32_varint (word_of_nat (length ?e)) @ ?e"
    by (auto simp: encode_frame_def prost_conforms_def validate_maximum_def result_simps Let_def
        split: if_splits)
  let ?n = "word_of_nat (length ?e) :: u32"
  have n: "unat ?n = length ?e" using e by (simp add: unat_of_nat ABSOLUTE_MAX_FRAME_SIZE_def)
  have pl: "prefix_length m (encode_u32_varint ?n) = Inr (length ?e)"
    using e by (simp add: prefix_length_def decode_encode_varint n)
  have "length ?e \<le> usize_max" using e by (simp add: ABSOLUTE_MAX_FRAME_SIZE_def)
  then have dec: "decode_frame_bytes p ?e = Inr f"
    using assms(1,2) e scan_gateway_envelope_iff [of ?e]
    by (auto simp: decode_frame_bytes_def prost_conforms_def)
  have sp: "split_prefix MAX_U32_VARINT_BYTES [] (bs @ rest) = Some (encode_u32_varint ?n, ?e @ rest)"
    by (simp add: bs split_prefix_encode)
  show ?thesis
    using read_frame_eq [OF decoder_new_state(4) [OF assms(4)], where t = t and p = p]
      push_new_eq [OF assms(4), where input = "bs @ rest" and p = p] sp pl dec assms(5)
    by (simp add: bs)
qed

text \<open>
  C10. Framing round trip. Whatever \<open>encode_frame\<close> writes for a frame with a body,
  \<open>read_frame\<close> and the incremental decoder read back as that frame, consuming exactly the
  bytes written and leaving the bytes that follow untouched, for every maximum that admits
  the frame.
\<close>

theorem frame_roundtrip:
  assumes "prost_conforms p f" "gf_body f \<noteq> None" "encode_frame p f m = Inr bs"
    and "decoder_new m = Inr d" "tr_input t = bs @ rest"
  shows "read_frame p t m = (Inr f, t\<lparr>tr_input := rest\<rparr>) \<and>
    push p d (bs @ rest) = (Inr \<lparr>dp_consumed = length bs, dp_frame = Some f\<rparr>, d)"
  using assms by (rule encoded_frame_read_back)

text \<open>A \<open>Ping\<close> frame and its protobuf encoding.\<close>

definition example_ping :: gateway_frame where
  "example_ping = \<lparr>gf_sequence = 1, gf_version = Some \<lparr>pv_major = 1, pv_minor = 0\<rparr>,
     gf_critical_extension_ids = [], gf_session_id = replicate 16 7,
     gf_body = Some (Ping (replicate 8 9))\<rparr>"

definition example_ping_fields :: "wire_field list" where
  "example_ping_fields =
     [(1, WVarint 1), (2, WBytes [8, 1]), (4, WBytes (replicate 16 7)),
      (25, WBytes ([10, 8] @ replicate 8 9))]"

definition example_ping_bytes :: bytes where
  "example_ping_bytes = concat (map encode_field example_ping_fields)"

definition example_prost :: prost where
  "example_prost = \<lparr>p_encode = (\<lambda>_. example_ping_bytes),
     p_encoded_len = (\<lambda>_. length example_ping_bytes),
     p_decode = (\<lambda>bs. if bs = example_ping_bytes then Some example_ping else None)\<rparr>"

lemma example_ping_envelope: "envelope_ok example_ping_fields"
  by (simp add: envelope_ok_def example_ping_fields_def field_ok_def is_single_tag_def
      is_body_tag_def)

lemma example_ping_bytes_eq:
  "example_ping_bytes = [8, 1, 18, 2, 8, 1, 34, 16] @ replicate 16 7 @ [202, 1, 10, 10, 8] @ replicate 8 9"
  by (simp add: example_ping_bytes_def example_ping_fields_def encode_field_def wire_varint.simps)

lemma example_prost_conforms: "prost_conforms example_prost example_ping"
  using example_ping_envelope
  by (auto simp: prost_conforms_def example_prost_def example_ping_bytes_def)

definition example_decoder :: frame_decoder where
  "example_decoder = \<lparr>fd_maximum_frame_size = 1024, fd_prefix = [0, 0, 0, 0, 0], fd_prefix_len = 0,
     fd_expected_body = None, fd_body = []\<rparr>"

lemma example_decoder_new: "decoder_new 1024 = Inr example_decoder"
proof -
  have "replicate MAX_U32_VARINT_BYTES 0 = [0, 0, 0, 0, 0 :: u8]"
    by (simp add: MAX_U32_VARINT_BYTES_def eval_nat_numeral)
  then show ?thesis
    by (simp add: decoder_new_def validate_maximum_def limit_defs example_decoder_def)
qed

lemma example_decoder_reach: "reach fd_start (fd_step p) example_decoder"
  using example_decoder_new unfolding fd_start_def by (blast intro: reach_start)

theorem scan_accepts_exactly_canonical_envelopes_witness:
  "scan_gateway_envelope example_ping_bytes = Inr ()"
  using scan_accepts_exactly_canonical_envelopes [of example_ping_bytes] example_ping_envelope
  by (auto simp: example_ping_bytes_eq example_ping_bytes_def [symmetric])

theorem decoder_memory_bounded_witness:
  "\<exists>d. push example_prost example_decoder [40, 8, 1] =
       (Inr \<lparr>dp_consumed = 3, dp_frame = None\<rparr>, d) \<and>
     buffered_bytes d = 3 \<and> buffered_bytes d < MAX_U32_VARINT_BYTES + fd_maximum_frame_size d"
proof -
  obtain d where d: "push example_prost example_decoder [40, 8, 1] =
      (Inr \<lparr>dp_consumed = 3, dp_frame = None\<rparr>, d)" "buffered_bytes d = 3"
    by (simp add: push_eq_body push_prefix.simps(2) push_body_def example_decoder_def Let_def
        decode_canonical_u32_varint_def MAX_U32_VARINT_BYTES_def buffered_bytes_def
        saturating_add_usize_def)
  then have "reach fd_start (fd_step example_prost) d"
    by (blast intro: reach_step fd_step.intros example_decoder_reach)
  with decoder_memory_bounded [OF this] d show ?thesis by blast
qed

theorem decoder_chunking_irrelevant_witness:
  "push example_prost example_decoder ([40] @ [8, 1]) =
     resume example_prost [8, 1] 1 (push example_prost example_decoder [40])"
  using decoder_chunking_irrelevant [OF example_decoder_reach, of example_prost "[40]" "[8, 1]"]
  by simp

lemma example_ping_frame:
  "encode_frame example_prost example_ping 1024 = Inr (37 # example_ping_bytes)"
  by (simp add: encode_frame_def validate_maximum_def limit_defs example_prost_def
      example_ping_bytes_eq encode_u32_varint.simps)

theorem frame_roundtrip_witness:
  "read_frame example_prost
     \<lparr>tr_input = 37 # example_ping_bytes @ [1, 2], tr_output = [], tr_write_ok = True\<rparr> 1024 =
     (Inr example_ping, \<lparr>tr_input = [1, 2], tr_output = [], tr_write_ok = True\<rparr>)"
  using frame_roundtrip [OF example_prost_conforms _ example_ping_frame example_decoder_new,
      of "\<lparr>tr_input = 37 # example_ping_bytes @ [1, 2], tr_output = [], tr_write_ok = True\<rparr>" "[1, 2]"]
  by (simp add: example_ping_def)

theorem decoder_agrees_with_read_frame_witness:
  "fst (push example_prost example_decoder [0]) = Inl EmptyFrame \<and>
   fst (read_frame example_prost
     \<lparr>tr_input = [0], tr_output = [], tr_write_ok = True\<rparr> 1024) = Inl EmptyFrame"
proof -
  have "fst (push example_prost example_decoder [0]) = Inl EmptyFrame"
    by (simp add: push_eq_body push_prefix.simps(2) example_decoder_def Let_def
        decode_canonical_u32_varint_def MAX_U32_VARINT_BYTES_def)
  with decoder_agrees_with_read_frame [OF example_decoder_new, of example_prost
      "\<lparr>tr_input = [0], tr_output = [], tr_write_ok = True\<rparr>"]
  show ?thesis by (auto split: prod.splits)
qed

end
