(* ===== verification/Session.thy ===== *)
theory Session
  imports Negotiation Validation Flow_Control Scheduler Framing
    "HOL-Library.List_Lexorder" "HOL-Library.Char_ord"
begin

text \<open>
  The session state machine of \<open>src/crates/gateway-protocol/src/session.rs\<close>: the phases of
  a connection, the outbound operations that reserve queue space, update the credit ledger
  and enqueue a frame, the flushing of queued frames to the transport, and the receiving
  and applying of inbound frames.
\<close>

section \<open>State\<close>

definition FRAME_ACCOUNTING_OVERHEAD :: nat where "FRAME_ACCOUNTING_OVERHEAD = 128"

datatype peer_role = RoleClient | RoleServer

datatype session_phase =
    AwaitingServerHello
  | AwaitingClientHello
  | AwaitingAuthentication
  | AwaitingAuthenticationResult
  | Active
  | Draining
  | PhaseClosed

record negotiated_parameters =
  np_selected_version :: protocol_version
  np_session_id :: bytes
  np_maximum_frame_size :: nat
  np_peer_connection_receive_window :: u32
  np_local_connection_receive_window :: u32
  np_maximum_concurrent_streams :: nat
  np_enabled_capabilities :: "string fset"
  np_idle_stream_timeout :: duration
  np_next_phase :: session_phase

record session =
  ss_transport :: transport
  ss_local_role :: peer_role
  ss_phase :: session_phase
  ss_limits :: protocol_limits
  ss_maximum_frame_size :: nat
  ss_outbound_version :: protocol_version
  ss_selected_version :: "protocol_version option"
  ss_session_id :: bytes
  ss_next_send_sequence :: u64
  ss_next_receive_sequence :: u64
  ss_enabled_critical_extensions :: "u32 fset"
  ss_enabled_capabilities :: "string fset"
  ss_scheduler :: fair_scheduler
  ss_flow :: "flow_controller option"
  ss_local_resolves :: "u64 fset"
  ss_remote_resolves :: "u64 fset"
  ss_maximum_seen_local_query_id :: u64
  ss_maximum_seen_remote_query_id :: u64

type_synonym 'a session_result = "(protocol_error + 'a) \<times> session"

definition session_new ::
  "transport \<Rightarrow> peer_role \<Rightarrow> session_phase \<Rightarrow> protocol_limits \<Rightarrow> protocol_version
     \<Rightarrow> protocol_error + session" where
  "session_new t role phase limits initial_version =
     bindE (validate_limits limits) (\<lambda>_.
     bindE (ensure (pv_major initial_version \<noteq> 0) (InvalidField ''initial_version'')) (\<lambda>_.
     bindE (scheduler_new (lim_maximum_queued_bytes limits)
              (lim_maximum_queued_bytes_per_stream limits) (lim_maximum_control_frames limits))
       (\<lambda>scheduler.
     Inr \<lparr>ss_transport = t, ss_local_role = role, ss_phase = phase, ss_limits = limits,
          ss_maximum_frame_size = lim_maximum_frame_size limits,
          ss_outbound_version = initial_version, ss_selected_version = None,
          ss_session_id = [], ss_next_send_sequence = 1, ss_next_receive_sequence = 1,
          ss_enabled_critical_extensions = {||}, ss_enabled_capabilities = {||},
          ss_scheduler = scheduler, ss_flow = None, ss_local_resolves = {||},
          ss_remote_resolves = {||}, ss_maximum_seen_local_query_id = 0,
          ss_maximum_seen_remote_query_id = 0\<rparr>)))"

definition new_client ::
  "transport \<Rightarrow> protocol_limits \<Rightarrow> protocol_version \<Rightarrow> protocol_error + session" where
  "new_client t limits initial_version =
     session_new t RoleClient AwaitingServerHello limits initial_version"

definition new_server ::
  "transport \<Rightarrow> protocol_limits \<Rightarrow> protocol_version \<Rightarrow> protocol_error + session" where
  "new_server t limits initial_version =
     session_new t RoleServer AwaitingClientHello limits initial_version"

section \<open>Access to the parts\<close>

text \<open>\<open>self.flow_mut()?.op(...)\<close> and \<open>self.scheduler.op(...)\<close>\<close>

definition with_flow ::
  "session \<Rightarrow> (flow_controller \<Rightarrow> (protocol_error + 'a) \<times> flow_controller) \<Rightarrow> 'a session_result" where
  "with_flow s op =
     (case ss_flow s of
        None \<Rightarrow> (Inl InvalidSession, s)
      | Some f \<Rightarrow> (case op f of (r, f') \<Rightarrow> (r, s\<lparr>ss_flow := Some f'\<rparr>)))"

definition with_scheduler ::
  "session \<Rightarrow> (fair_scheduler \<Rightarrow> (protocol_error + 'a) \<times> fair_scheduler) \<Rightarrow> 'a session_result" where
  "with_scheduler s op =
     (case op (ss_scheduler s) of (r, f') \<Rightarrow> (r, s\<lparr>ss_scheduler := f'\<rparr>))"

definition require_active_client :: "session \<Rightarrow> protocol_error + unit" where
  "require_active_client s =
     (if ss_phase s \<noteq> Active \<or> ss_local_role s \<noteq> RoleClient then Inl Closed else Inr ())"

definition require_active_server :: "session \<Rightarrow> protocol_error + unit" where
  "require_active_server s =
     (if ss_phase s \<noteq> Active \<or> ss_local_role s \<noteq> RoleServer then Inl Closed else Inr ())"

definition require_active_or_draining :: "session \<Rightarrow> protocol_error + unit" where
  "require_active_or_draining s =
     (if ss_phase s \<noteq> Active \<and> ss_phase s \<noteq> Draining then Inl Closed else Inr ())"

definition require_capability :: "session \<Rightarrow> string \<Rightarrow> protocol_error + unit" where
  "require_capability s capability =
     (if capability |\<notin>| ss_enabled_capabilities s
      then Inl (ProtocolViolation ''capability was not negotiated and granted'') else Inr ())"

definition accounted_body_size :: "prost \<Rightarrow> body \<Rightarrow> protocol_error + nat" where
  "accounted_body_size p b =
     (let frame = \<lparr>gf_sequence = -1,
                   gf_version = Some \<lparr>pv_major = -1, pv_minor = -1\<rparr>,
                   gf_critical_extension_ids = [], gf_session_id = replicate 16 0,
                   gf_body = Some b\<rparr>
      in bindE (validate_frame frame {||}) (\<lambda>_.
         ok_or (checked_add_usize (p_encoded_len p frame) FRAME_ACCOUNTING_OVERHEAD)
           IntegerOverflow))"

definition queue_control_body :: "prost \<Rightarrow> session \<Rightarrow> body \<Rightarrow> unit session_result" where
  "queue_control_body p s b =
     tryE (accounted_body_size p b) s (\<lambda>size.
     with_scheduler s (\<lambda>f. enqueue_control f \<lparr>oi_body = b, oi_accounted_bytes = size\<rparr>))"

section \<open>Handshake support\<close>

definition configure_negotiated :: "session \<Rightarrow> negotiated_parameters \<Rightarrow> unit session_result" where
  "configure_negotiated s q =
     tryE (ensure (\<not> (pv_major (np_selected_version q) = 0 \<or> length (np_session_id q) \<noteq> 16))
             InvalidSession) s (\<lambda>_.
     tryE (ensure (\<not> (np_maximum_frame_size q = 0 \<or>
                      lim_maximum_frame_size (ss_limits s) < np_maximum_frame_size q))
             (InvalidField ''negotiated_frame_size'')) s (\<lambda>_.
     tryE (flow_new (np_peer_connection_receive_window q) (np_local_connection_receive_window q)
             (min (np_maximum_concurrent_streams q)
                  (lim_maximum_concurrent_streams (ss_limits s)))) s (\<lambda>flow.
     tryE (validate_capabilities (sorted_list_of_fset (np_enabled_capabilities q))) s (\<lambda>_.
     tryE (ensure (np_idle_stream_timeout q \<noteq> 0) (InvalidField ''idle_stream_timeout'')) s (\<lambda>_.
     (Inr (), s\<lparr>ss_outbound_version := np_selected_version q,
                ss_selected_version := Some (np_selected_version q),
                ss_session_id := np_session_id q,
                ss_maximum_frame_size := np_maximum_frame_size q,
                ss_enabled_capabilities := np_enabled_capabilities q,
                ss_limits := (ss_limits s)\<lparr>lim_idle_stream_timeout := np_idle_stream_timeout q\<rparr>,
                ss_flow := Some flow,
                ss_phase := np_next_phase q\<rparr>))))))"

definition mark_active :: "session \<Rightarrow> unit session_result" where
  "mark_active s =
     (if ss_phase s = AwaitingAuthentication \<or> ss_phase s = AwaitingAuthenticationResult
      then (Inr (), s\<lparr>ss_phase := Active\<rparr>)
      else (Inl (ProtocolViolation ''invalid active transition''), s))"

definition set_granted_capabilities :: "session \<Rightarrow> string list \<Rightarrow> unit session_result" where
  "set_granted_capabilities s granted =
     tryE (validate_capabilities granted) s (\<lambda>_.
     let granted_set = fset_of_list granted in
     if fcard granted_set \<noteq> length granted \<or>
        \<not> granted_set |\<subseteq>| ss_enabled_capabilities s
     then (Inl (ProtocolViolation ''authentication granted an unnegotiated capability''), s)
     else (Inr (), s\<lparr>ss_enabled_capabilities := granted_set\<rparr>))"

definition queue_handshake :: "prost \<Rightarrow> session \<Rightarrow> body \<Rightarrow> unit session_result" where
  "queue_handshake p s b =
     (if ss_phase s \<in> {AwaitingServerHello, AwaitingClientHello, AwaitingAuthentication,
                       AwaitingAuthenticationResult}
      then queue_control_body p s b
      else (Inl (ProtocolViolation ''handshake already complete''), s))"

section \<open>Outbound operations\<close>

text \<open>
  The common tail of the control operations: reserve, update, enqueue. The update may
  change any part of the session; the frame is enqueued in the state it leaves.
\<close>

definition reserve_update_enqueue ::
  "prost \<Rightarrow> session \<Rightarrow> body \<Rightarrow> (session \<Rightarrow> unit session_result) \<Rightarrow> unit session_result" where
  "reserve_update_enqueue p s b update =
     tryE (accounted_body_size p b) s (\<lambda>size.
     tryE (can_enqueue_control (ss_scheduler s) size) s (\<lambda>_.
     bindS (update s) (\<lambda>_ s1.
     with_scheduler s1 (\<lambda>f. enqueue_control f \<lparr>oi_body = b, oi_accounted_bytes = size\<rparr>))))"

definition open_tcp :: "prost \<Rightarrow> session \<Rightarrow> instant \<Rightarrow> open_tcp_stream \<Rightarrow> unit session_result" where
  "open_tcp p s now message =
     tryE (require_active_client s) s (\<lambda>_.
     tryE (require_capability s TCP_CONNECT_V1) s (\<lambda>_.
     reserve_update_enqueue p s (OpenTcpStream message) (\<lambda>s.
       with_flow s (\<lambda>f. open_local f now (ot_stream_id message)
                          (ot_initial_receive_window message)))))"

definition accept_tcp :: "prost \<Rightarrow> session \<Rightarrow> instant \<Rightarrow> u64 \<Rightarrow> u32 \<Rightarrow> unit session_result" where
  "accept_tcp p s now stream_id initial_receive_window =
     tryE (require_active_server s) s (\<lambda>_.
     tryE (require_capability s TCP_CONNECT_V1) s (\<lambda>_.
     reserve_update_enqueue p s
       (TcpStreamOpened \<lparr>so_stream_id = stream_id,
                         so_initial_receive_window = initial_receive_window\<rparr>) (\<lambda>s.
       with_flow s (\<lambda>f. accept_remote_open f now stream_id initial_receive_window))))"

definition reject_tcp :: "prost \<Rightarrow> session \<Rightarrow> tcp_stream_rejected \<Rightarrow> unit session_result" where
  "reject_tcp p s message =
     tryE (require_active_server s) s (\<lambda>_.
     tryE (require_capability s TCP_CONNECT_V1) s (\<lambda>_.
     reserve_update_enqueue p s (TcpStreamRejected message) (\<lambda>s.
       with_flow s (\<lambda>f. reject_or_close f (sr_stream_id message)))))"

definition try_queue_data ::
  "prost \<Rightarrow> session \<Rightarrow> instant \<Rightarrow> u64 \<Rightarrow> bytes \<Rightarrow> nat session_result" where
  "try_queue_data p s now stream_id payload =
     tryE (require_active_or_draining s) s (\<lambda>_.
     tryE (require_capability s TCP_CONNECT_V1) s (\<lambda>_.
     tryE (validate_stream_id stream_id) s (\<lambda>_.
     if payload = [] then (Inl (InvalidField ''data_payload''), s)
     else
       let consumed = min (length payload) MAX_DATA_PAYLOAD;
           b = Data \<lparr>da_stream_id = stream_id, da_payload = take consumed payload\<rparr>
       in tryE (accounted_body_size p b) s (\<lambda>accounted.
          tryE (can_enqueue_stream (ss_scheduler s) stream_id accounted) s (\<lambda>_.
          bindS (with_flow s (\<lambda>f. debit_send f now stream_id consumed)) (\<lambda>_ s1.
          bindS (with_scheduler s1 (\<lambda>f. enqueue_stream f stream_id
                   \<lparr>oi_body = b, oi_accounted_bytes = accounted\<rparr>)) (\<lambda>_ s2.
          (Inr consumed, s2))))))))"

definition session_grant_receive_credit ::
  "prost \<Rightarrow> session \<Rightarrow> instant \<Rightarrow> u64 \<Rightarrow> u32 \<Rightarrow> unit session_result" where
  "session_grant_receive_credit p s now stream_id credit =
     tryE (require_active_or_draining s) s (\<lambda>_.
     tryE (require_capability s FLOW_CONTROL_V1) s (\<lambda>_.
     reserve_update_enqueue p s
       (WindowUpdate \<lparr>wu_stream_id = stream_id, wu_credit = credit\<rparr>) (\<lambda>s.
       with_flow s (\<lambda>f. grant_receive_credit f now stream_id credit))))"

definition half_close :: "prost \<Rightarrow> session \<Rightarrow> instant \<Rightarrow> u64 \<Rightarrow> unit session_result" where
  "half_close p s now stream_id =
     tryE (require_active_or_draining s) s (\<lambda>_.
     tryE (require_capability s TCP_CONNECT_V1) s (\<lambda>_.
     reserve_update_enqueue p s (HalfClose \<lparr>hc_stream_id = stream_id\<rparr>) (\<lambda>s.
       with_flow s (\<lambda>f. local_half_close f now stream_id))))"

text \<open>\<open>CloseCode\<close> values are those of the schema; \<open>Unspecified\<close> is 0, \<open>Timeout\<close> is 3.\<close>

definition close_code_timeout :: int where "close_code_timeout = 3"

definition close_stream :: "prost \<Rightarrow> session \<Rightarrow> u64 \<Rightarrow> int \<Rightarrow> unit session_result" where
  "close_stream p s stream_id code =
     tryE (require_active_or_draining s) s (\<lambda>_.
     tryE (require_capability s TCP_CONNECT_V1) s (\<lambda>_.
     if code = 0 then (Inl (InvalidField ''close_code''), s)
     else
       reserve_update_enqueue p s (CloseStream \<lparr>cl_stream_id = stream_id, cl_code = code\<rparr>) (\<lambda>s.
         bindS (with_flow s (\<lambda>f. reject_or_close f stream_id)) (\<lambda>_ s1.
         (Inr (), s1\<lparr>ss_scheduler := cancel_stream (ss_scheduler s1) stream_id\<rparr>)))))"

definition resolve :: "prost \<Rightarrow> session \<Rightarrow> resolve_domain \<Rightarrow> unit session_result" where
  "resolve p s message =
     tryE (require_active_client s) s (\<lambda>_.
     tryE (require_capability s RESOLVE_DOMAIN_V1) s (\<lambda>_.
     if rd_query_id message \<le> ss_maximum_seen_local_query_id s \<or>
        lim_maximum_outstanding_resolves (ss_limits s) \<le> fcard (ss_local_resolves s)
     then (Inl InvalidStreamId, s)
     else
       reserve_update_enqueue p s (ResolveDomain message) (\<lambda>s.
         (Inr (), s\<lparr>ss_maximum_seen_local_query_id := rd_query_id message,
                    ss_local_resolves := finsert (rd_query_id message) (ss_local_resolves s)\<rparr>))))"

definition resolve_result :: "prost \<Rightarrow> session \<Rightarrow> resolve_result_message \<Rightarrow> unit session_result" where
  "resolve_result p s message =
     tryE (require_active_server s) s (\<lambda>_.
     tryE (require_capability s RESOLVE_DOMAIN_V1) s (\<lambda>_.
     if rr_query_id message |\<notin>| ss_remote_resolves s then (Inl InvalidStreamId, s)
     else
       reserve_update_enqueue p s (ResolveResult message) (\<lambda>s.
         (Inr (), s\<lparr>ss_remote_resolves :=
                      ss_remote_resolves s |-| {|rr_query_id message|}\<rparr>))))"

definition queue_control :: "prost \<Rightarrow> session \<Rightarrow> body \<Rightarrow> unit session_result" where
  "queue_control p s b =
     tryE (require_active_or_draining s) s (\<lambda>_.
     case b of
       RotateSession _ \<Rightarrow>
         tryE (require_capability s SESSION_ROTATION_V1) s (\<lambda>_. queue_control_body p s b)
     | SessionRotated _ \<Rightarrow>
         tryE (require_capability s SESSION_ROTATION_V1) s (\<lambda>_. queue_control_body p s b)
     | Ping _ \<Rightarrow> queue_control_body p s b
     | Pong _ \<Rightarrow> queue_control_body p s b
     | Error _ \<Rightarrow> queue_control_body p s b
     | _ \<Rightarrow> (Inl (ProtocolViolation ''message requires a typed session method''), s))"

definition begin_go_away :: "prost \<Rightarrow> session \<Rightarrow> go_away \<Rightarrow> unit session_result" where
  "begin_go_away p s message =
     tryE (require_active_or_draining s) s (\<lambda>_.
     bindS (queue_control_body p s (GoAway message)) (\<lambda>_ s1.
     (Inr (), s1\<lparr>ss_phase := Draining\<rparr>)))"

fun close_all :: "prost \<Rightarrow> session \<Rightarrow> u64 list \<Rightarrow> unit session_result" where
  "close_all p s [] = (Inr (), s)"
| "close_all p s (stream_id # rest) =
     bindS (close_stream p s stream_id close_code_timeout) (\<lambda>_ s1. close_all p s1 rest)"

definition expire_idle_streams :: "prost \<Rightarrow> session \<Rightarrow> instant \<Rightarrow> u64 list session_result" where
  "expire_idle_streams p s now =
     (let expired = (case ss_flow s of
                       None \<Rightarrow> []
                     | Some flow \<Rightarrow> expire_idle flow now (lim_idle_stream_timeout (ss_limits s)))
      in bindS (close_all p s expired) (\<lambda>_ s1. (Inr expired, s1)))"

definition graceful_go_away :: "u64 \<Rightarrow> u32 \<Rightarrow> go_away" where
  "graceful_go_away last_accepted_stream_id drain_timeout_ms =
     \<lparr>ga_last_accepted_stream_id = last_accepted_stream_id, ga_code = 0,
      ga_drain_timeout_ms = drain_timeout_ms\<rparr>"


section \<open>Flushing\<close>

definition flush_one_inner :: "prost \<Rightarrow> session \<Rightarrow> bool session_result" where
  "flush_one_inner p s =
     (case pop_next (ss_scheduler s) of
        (None, scheduler) \<Rightarrow> (Inr False, s\<lparr>ss_scheduler := scheduler\<rparr>)
      | (Some item, scheduler) \<Rightarrow>
          let s1 = s\<lparr>ss_scheduler := scheduler\<rparr>;
              sequence = ss_next_send_sequence s1
          in tryE (ok_or (checked_add_u64 (ss_next_send_sequence s1) 1) IntegerOverflow) s1
               (\<lambda>next_sequence.
             let s2 = s1\<lparr>ss_next_send_sequence := next_sequence\<rparr>;
                 frame = \<lparr>gf_sequence = sequence, gf_version = Some (ss_outbound_version s2),
                          gf_critical_extension_ids = [], gf_session_id = ss_session_id s2,
                          gf_body = Some (oi_body item)\<rparr>
             in tryE (validate_frame frame (ss_enabled_critical_extensions s2)) s2 (\<lambda>_.
                case write_frame p (ss_transport s2) frame (ss_maximum_frame_size s2) of
                  (Inl e, t) \<Rightarrow> (Inl e, s2\<lparr>ss_transport := t\<rparr>)
                | (Inr _, t) \<Rightarrow> (Inr True, s2\<lparr>ss_transport := t\<rparr>))))"

text \<open>\<open>if result.is_err() { self.phase = Closed }\<close>\<close>

definition close_on_error :: "'a session_result \<Rightarrow> 'a session_result" where
  "close_on_error m =
     (case m of (Inl e, s) \<Rightarrow> (Inl e, s\<lparr>ss_phase := PhaseClosed\<rparr>) | (Inr a, s) \<Rightarrow> (Inr a, s))"

definition flush_one :: "prost \<Rightarrow> session \<Rightarrow> bool session_result" where
  "flush_one p s =
     (if ss_phase s = PhaseClosed then (Inl Closed, s) else close_on_error (flush_one_inner p s))"

text \<open>Every successful pop makes the queues shorter, so the flushing loop ends.\<close>

definition sched_size :: "fair_scheduler \<Rightarrow> nat" where
  "sched_size f = length (fs_control f) +
     (\<Sum>i\<in>fset (fmdom (fs_streams f)). length (stream_queue f i))"

lemma pop_control_size:
  "pop_control f = (Some x, g) \<Longrightarrow> sched_size g < sched_size f"
  by (auto simp: pop_control_def sched_size_def stream_queue_def split: list.splits)

lemma pop_stream_size:
  assumes "pop_stream f i A = (Some x, g)"
  shows "sched_size g < sched_size f"
proof -
  let ?D = "fset (fmdom (fs_streams f))"
  from assms obtain q where q: "fmlookup (fs_streams f) i = Some (x # q)"
    by (auto simp: pop_stream_def Let_def split: option.splits list.splits)
  then have i: "i \<in> ?D" and xq: "stream_queue f i = x # q"
    by (auto simp: stream_queue_def fm_get_or_def intro: fmdomI)
  note g = pop_stream_Cons [OF xq assms]
  have other: "(\<Sum>j\<in>?D - {i}. length (stream_queue g j)) = (\<Sum>j\<in>?D - {i}. length (stream_queue f j))"
    using g(2) by (intro sum.cong) auto
  have "(\<Sum>j\<in>fset (fmdom (fs_streams g)). length (stream_queue g j)) =
      length q + (\<Sum>j\<in>?D - {i}. length (stream_queue f j))"
  proof (cases "q = []")
    case True
    with g(5) other show ?thesis by simp
  next
    case False
    with g(5) i have "fset (fmdom (fs_streams g)) = ?D" by auto
    with other i g(2) show ?thesis by (simp add: sum.remove [where x = i])
  qed
  moreover have "(\<Sum>j\<in>?D. length (stream_queue f j)) =
      Suc (length q) + (\<Sum>j\<in>?D - {i}. length (stream_queue f j))"
    using i xq by (simp add: sum.remove [where x = i])
  ultimately show ?thesis using g(7) by (simp add: sched_size_def)
qed

lemma pop_next_size:
  assumes "pop_next f = (Some x, g)"
  shows "sched_size g < sched_size f"
proof -
  have "sched_size (f\<lparr>fs_control_burst := n\<rparr>) = sched_size f" for n
    by (simp add: sched_size_def stream_queue_def)
  with assms show ?thesis
    by (auto simp: pop_next_def split: if_splits list.splits dest: pop_control_size pop_stream_size)
qed

lemma flush_one_True:
  assumes "flush_one p s = (Inr True, s')"
  shows "sched_size (ss_scheduler s') < sched_size (ss_scheduler s)"
  using assms
  by (auto simp: flush_one_def flush_one_inner_def close_on_error_def Let_def tryE_def
      split: if_splits prod.splits sum.splits option.splits dest!: pop_next_size)

function flush_all :: "prost \<Rightarrow> session \<Rightarrow> unit session_result" where
  "flush_all p s =
     (case flush_one p s of
        (Inl e, s') \<Rightarrow> (Inl e, s')
      | (Inr True, s') \<Rightarrow> flush_all p s'
      | (Inr False, s') \<Rightarrow> (Inr (), s'))"
  by pat_completeness auto
termination
  by (relation "measure (\<lambda>(p, s). sched_size (ss_scheduler s))") (auto dest: flush_one_True [OF sym])

declare flush_all.simps [simp del]

section \<open>Receiving\<close>

definition validate_frame_context :: "session \<Rightarrow> gateway_frame \<Rightarrow> protocol_error + unit" where
  "validate_frame_context s frame =
     (case ss_phase s of
        AwaitingClientHello \<Rightarrow>
          (case gf_body frame of
             Some (ClientHello hello) \<Rightarrow>
               ensure (gf_session_id frame = [] \<and>
                       Option.bind (ch_supported_versions hello) vr_maximum = gf_version frame)
                 InvalidSession
           | _ \<Rightarrow> Inl InvalidSession)
      | AwaitingServerHello \<Rightarrow>
          (case gf_body frame of
             Some (ServerHello hello) \<Rightarrow>
               ensure (gf_session_id frame = sh_ephemeral_session_id hello \<and>
                       sh_selected_version hello = gf_version frame) InvalidSession
           | Some (Error _) \<Rightarrow> ensure (gf_session_id frame = []) InvalidSession
           | Some (GoAway _) \<Rightarrow> ensure (gf_session_id frame = []) InvalidSession
           | _ \<Rightarrow> Inl InvalidSession)
      | PhaseClosed \<Rightarrow> Inl Closed
      | _ \<Rightarrow>
          bindE (ensure (gf_session_id frame = ss_session_id s) InvalidSession) (\<lambda>_.
          bindE (ok_or (ss_selected_version s) InvalidSession) (\<lambda>selected.
          ensure (gf_version frame = Some selected)
            (ProtocolViolation ''version changed after negotiation''))))"

definition apply_active_inbound :: "session \<Rightarrow> instant \<Rightarrow> body \<Rightarrow> unit session_result" where
  "apply_active_inbound s now b =
     (case b of
        OpenTcpStream message \<Rightarrow>
          tryE (require_capability s TCP_CONNECT_V1) s (\<lambda>_.
          if ss_local_role s \<noteq> RoleServer \<or> ss_phase s = Draining
          then (Inl (ProtocolViolation ''new stream not permitted''), s)
          else with_flow s (\<lambda>f. receive_open f now (ot_stream_id message)
                                  (ot_initial_receive_window message)))
      | TcpStreamOpened message \<Rightarrow>
          tryE (require_capability s TCP_CONNECT_V1) s (\<lambda>_.
          if ss_local_role s \<noteq> RoleClient
          then (Inl (ProtocolViolation ''unexpected stream opened''), s)
          else with_flow s (\<lambda>f. confirm_local_open f now (so_stream_id message)
                                  (so_initial_receive_window message)))
      | TcpStreamRejected message \<Rightarrow>
          tryE (require_capability s TCP_CONNECT_V1) s (\<lambda>_.
          if ss_local_role s \<noteq> RoleClient
          then (Inl (ProtocolViolation ''unexpected stream rejected''), s)
          else with_flow s (\<lambda>f. reject_or_close f (sr_stream_id message)))
      | Data message \<Rightarrow>
          tryE (require_capability s TCP_CONNECT_V1) s (\<lambda>_.
          with_flow s (\<lambda>f. debit_receive f now (da_stream_id message)
                             (length (da_payload message))))
      | WindowUpdate message \<Rightarrow>
          tryE (require_capability s FLOW_CONTROL_V1) s (\<lambda>_.
          with_flow s (\<lambda>f. receive_window_update f now (wu_stream_id message)
                             (wu_credit message)))
      | HalfClose message \<Rightarrow>
          tryE (require_capability s TCP_CONNECT_V1) s (\<lambda>_.
          with_flow s (\<lambda>f. receive_half_close f now (hc_stream_id message)))
      | CloseStream message \<Rightarrow>
          tryE (require_capability s TCP_CONNECT_V1) s (\<lambda>_.
          with_flow (s\<lparr>ss_scheduler := cancel_stream (ss_scheduler s) (cl_stream_id message)\<rparr>)
            (\<lambda>f. reject_or_close f (cl_stream_id message)))
      | ResolveDomain message \<Rightarrow>
          tryE (require_capability s RESOLVE_DOMAIN_V1) s (\<lambda>_.
          if ss_local_role s \<noteq> RoleServer \<or> ss_phase s = Draining
          then (Inl (ProtocolViolation ''resolve not permitted''), s)
          else if rd_query_id message \<le> ss_maximum_seen_remote_query_id s \<or>
                  lim_maximum_outstanding_resolves (ss_limits s) \<le> fcard (ss_remote_resolves s)
          then (Inl InvalidStreamId, s)
          else (Inr (), s\<lparr>ss_maximum_seen_remote_query_id := rd_query_id message,
                          ss_remote_resolves :=
                            finsert (rd_query_id message) (ss_remote_resolves s)\<rparr>))
      | ResolveResult message \<Rightarrow>
          tryE (require_capability s RESOLVE_DOMAIN_V1) s (\<lambda>_.
          if ss_local_role s \<noteq> RoleClient then (Inl InvalidStreamId, s)
          else if rr_query_id message |\<notin>| ss_local_resolves s then (Inl InvalidStreamId, s)
          else (Inr (), s\<lparr>ss_local_resolves :=
                            ss_local_resolves s |-| {|rr_query_id message|}\<rparr>))
      | GoAway _ \<Rightarrow> (Inr (), s\<lparr>ss_phase := Draining\<rparr>)
      | Error message \<Rightarrow>
          if er_fatal message then (Inr (), s\<lparr>ss_phase := PhaseClosed\<rparr>) else (Inr (), s)
      | RotateSession _ \<Rightarrow> (require_capability s SESSION_ROTATION_V1, s)
      | SessionRotated _ \<Rightarrow> (require_capability s SESSION_ROTATION_V1, s)
      | Ping _ \<Rightarrow> (Inr (), s)
      | Pong _ \<Rightarrow> (Inr (), s)
      | _ \<Rightarrow> (Inl (ProtocolViolation ''handshake message after authentication''), s))"

definition apply_inbound :: "session \<Rightarrow> instant \<Rightarrow> body \<Rightarrow> unit session_result" where
  "apply_inbound s now b =
     (case ss_phase s of
        AwaitingClientHello \<Rightarrow>
          (case b of ClientHello _ \<Rightarrow> (Inr (), s)
           | _ \<Rightarrow> (Inl (ProtocolViolation ''expected ClientHello''), s))
      | AwaitingServerHello \<Rightarrow>
          (case b of ServerHello _ \<Rightarrow> (Inr (), s) | Error _ \<Rightarrow> (Inr (), s) | GoAway _ \<Rightarrow> (Inr (), s)
           | _ \<Rightarrow> (Inl (ProtocolViolation ''expected ServerHello''), s))
      | AwaitingAuthentication \<Rightarrow>
          (case b of Authenticate _ \<Rightarrow> (Inr (), s) | Error _ \<Rightarrow> (Inr (), s) | GoAway _ \<Rightarrow> (Inr (), s)
           | _ \<Rightarrow> (Inl (ProtocolViolation ''expected Authenticate''), s))
      | AwaitingAuthenticationResult \<Rightarrow>
          (case b of AuthenticationResult _ \<Rightarrow> (Inr (), s) | Error _ \<Rightarrow> (Inr (), s)
           | GoAway _ \<Rightarrow> (Inr (), s)
           | _ \<Rightarrow> (Inl (ProtocolViolation ''expected AuthenticationResult''), s))
      | Active \<Rightarrow> apply_active_inbound s now b
      | Draining \<Rightarrow> apply_active_inbound s now b
      | PhaseClosed \<Rightarrow> (Inl Closed, s))"

text \<open>The part of \<open>receive_inner\<close> after a frame has been read.\<close>

definition process_frame :: "session \<Rightarrow> instant \<Rightarrow> gateway_frame \<Rightarrow> body session_result" where
  "process_frame s now frame =
     tryE (validate_frame frame (ss_enabled_critical_extensions s)) s (\<lambda>_.
     if gf_sequence frame \<noteq> ss_next_receive_sequence s
     then (Inl InvalidSequence, s\<lparr>ss_phase := PhaseClosed\<rparr>)
     else
       tryE (ok_or (checked_add_u64 (ss_next_receive_sequence s) 1) IntegerOverflow) s
         (\<lambda>next_sequence.
       let s1 = s\<lparr>ss_next_receive_sequence := next_sequence\<rparr> in
       tryE (validate_frame_context s1 frame) s1 (\<lambda>_.
       tryE (ok_or (gf_body frame) MissingBody) s1 (\<lambda>b.
       bindS (apply_inbound s1 now b) (\<lambda>_ s2. (Inr b, s2))))))"

definition receive_inner :: "prost \<Rightarrow> session \<Rightarrow> instant \<Rightarrow> body session_result" where
  "receive_inner p s now =
     (if ss_phase s = PhaseClosed then (Inl Closed, s)
      else
        (case read_frame p (ss_transport s) (ss_maximum_frame_size s) of
           (Inl e, t) \<Rightarrow> (Inl e, s\<lparr>ss_transport := t\<rparr>)
         | (Inr frame, t) \<Rightarrow> process_frame (s\<lparr>ss_transport := t\<rparr>) now frame))"

definition receive :: "prost \<Rightarrow> session \<Rightarrow> instant \<Rightarrow> body session_result" where
  "receive p s now = close_on_error (receive_inner p s now)"

end
