(* ===== verification/Session_Laws.thy ===== *)
theory Session_Laws
  imports Session
begin

text \<open>
  The laws of the session of theory \<open>Session\<close>: failed outbound operations change nothing,
  every reachable session satisfies its invariant, a closed session is inert, frames are
  accepted in sequence, what one peer flushes the other receives, and two places where the
  code does not do what it means to.
\<close>

section \<open>Outbound operations as one machine\<close>

datatype session_op =
    OpOpenTcp open_tcp_stream
  | OpAcceptTcp u64 u32
  | OpRejectTcp tcp_stream_rejected
  | OpQueueData u64 bytes
  | OpGrantCredit u64 u32
  | OpHalfClose u64
  | OpCloseStream u64 int
  | OpResolve resolve_domain
  | OpResolveResult resolve_result_message
  | OpQueueControl body
  | OpBeginGoAway go_away

fun session_apply :: "prost \<Rightarrow> session_op \<Rightarrow> instant \<Rightarrow> session \<Rightarrow> unit session_result" where
  "session_apply p (OpOpenTcp m) now s = open_tcp p s now m"
| "session_apply p (OpAcceptTcp i w) now s = accept_tcp p s now i w"
| "session_apply p (OpRejectTcp m) now s = reject_tcp p s m"
| "session_apply p (OpQueueData i payload) now s =
     bindS (try_queue_data p s now i payload) (\<lambda>_ t. (Inr (), t))"
| "session_apply p (OpGrantCredit i c) now s = session_grant_receive_credit p s now i c"
| "session_apply p (OpHalfClose i) now s = half_close p s now i"
| "session_apply p (OpCloseStream i code) now s = close_stream p s i code"
| "session_apply p (OpResolve m) now s = resolve p s m"
| "session_apply p (OpResolveResult m) now s = resolve_result p s m"
| "session_apply p (OpQueueControl b) now s = queue_control p s b"
| "session_apply p (OpBeginGoAway m) now s = begin_go_away p s m"

section \<open>Atomicity\<close>

text \<open>A step is atomic in a state when an error leaves that state behind.\<close>

definition atomic_at :: "'s \<Rightarrow> ('e + 'a) \<times> 's \<Rightarrow> bool" where
  "atomic_at s m \<longleftrightarrow> (\<forall>e t. m = (Inl e, t) \<longrightarrow> t = s)"

lemma atomic_atI: "(\<And>e t. m = (Inl e, t) \<Longrightarrow> t = s) \<Longrightarrow> atomic_at s m"
  by (simp add: atomic_at_def)

lemma atomic_at_tryE: "(\<And>a. r = Inr a \<Longrightarrow> atomic_at s (k a)) \<Longrightarrow> atomic_at s (tryE r s k)"
  by (cases r) (auto simp: atomic_at_def)

lemma atomic_at_pair [simp]: "atomic_at s (r, s)"
  by (simp add: atomic_at_def)

lemma atomic_at_Inr [simp]: "atomic_at s (Inr a, t)"
  by (simp add: atomic_at_def)

lemma atomic_at_with_flow:
  assumes "\<And>f. atomic_at f (op f)"
  shows "atomic_at s (with_flow s op)"
proof (cases "ss_flow s")
  case (Some f)
  with assms [of f] show ?thesis
    by (cases "op f") (auto simp: with_flow_def atomic_at_def)
qed (simp add: with_flow_def)

lemma atomic_at_fc_apply: "atomic_at f (fc_apply op now f)"
  using fc_apply_error_unchanged by (auto simp: atomic_at_def)

lemmas fc_ops_atomic =
  atomic_at_fc_apply [of _ "OpOpenLocal i w" for i w, simplified]
  atomic_at_fc_apply [of _ "OpAcceptRemoteOpen i w" for i w, simplified]
  atomic_at_fc_apply [of _ "OpRejectOrClose i" for i, simplified]
  atomic_at_fc_apply [of _ "OpDebitSend i n" for i n, simplified]
  atomic_at_fc_apply [of _ "OpGrantReceiveCredit i c" for i c, simplified]
  atomic_at_fc_apply [of _ "OpLocalHalfClose i" for i, simplified]

lemma with_flow_scheduler: "with_flow s op = (r, t) \<Longrightarrow> ss_scheduler t = ss_scheduler s"
  by (auto simp: with_flow_def split: option.splits prod.splits)

lemma enqueue_reserved_control:
  assumes "can_enqueue_control (ss_scheduler s) n = Inr ()"
  shows "\<exists>t. with_scheduler s (\<lambda>f. enqueue_control f \<lparr>oi_body = b, oi_accounted_bytes = n\<rparr>) = (Inr (), t)"
proof -
  let ?x = "\<lparr>oi_body = b, oi_accounted_bytes = n\<rparr>"
  from assms obtain g where "enqueue_control (ss_scheduler s) ?x = (Inr (), g)"
    by (rule control_queue.reserve_then_commit [where x = ?x]) simp
  then show ?thesis by (simp add: with_scheduler_def)
qed

lemma enqueue_reserved_stream:
  assumes "can_enqueue_stream (ss_scheduler s) i n = Inr ()"
  shows "\<exists>t. with_scheduler s (\<lambda>f. enqueue_stream f i \<lparr>oi_body = b, oi_accounted_bytes = n\<rparr>) = (Inr (), t)"
proof -
  let ?x = "\<lparr>oi_body = b, oi_accounted_bytes = n\<rparr>"
  from assms obtain g where "enqueue_stream (ss_scheduler s) i ?x = (Inr (), g)"
    by (rule stream_queues.reserve_then_commit [where x = ?x]) simp
  then show ?thesis by (simp add: with_scheduler_def)
qed

lemma atomic_at_bindS:
  assumes "atomic_at s m" "\<And>a t. m = (Inr a, t) \<Longrightarrow> \<exists>b u. k a t = (Inr b, u)"
  shows "atomic_at s (bindS m k)"
proof (cases m)
  case (Pair r t)
  with assms show ?thesis
    by (cases r) (fastforce simp: atomic_at_def)+
qed

lemma can_enqueue_after_cancel:
  "can_enqueue_control f n = Inr () \<Longrightarrow> can_enqueue_control (cancel_stream f i) n = Inr ()"
  by (auto simp: can_enqueue_control_Inr cancel_stream_def Let_def split: option.splits)

lemma atomic_at_reserve:
  assumes "atomic_at s (update s)"
    and "\<And>t n. update s = (Inr (), t) \<Longrightarrow> can_enqueue_control (ss_scheduler s) n = Inr () \<Longrightarrow>
      can_enqueue_control (ss_scheduler t) n = Inr ()"
  shows "atomic_at s (reserve_update_enqueue p s b update)"
  unfolding reserve_update_enqueue_def
  using assms enqueue_reserved_control
  by (intro atomic_at_tryE atomic_at_bindS) (fastforce simp: old.unit.exhaust)+

lemma atomic_at_reserve_flow:
  assumes "\<And>f. atomic_at f (op f)"
  shows "atomic_at s (reserve_update_enqueue p s b (\<lambda>s. with_flow s op))"
  by (rule atomic_at_reserve) (auto intro: atomic_at_with_flow assms dest: with_flow_scheduler)

lemma atomic_at_queue_control_body: "atomic_at s (queue_control_body p s b)"
  unfolding queue_control_body_def
proof (rule atomic_at_tryE)
  fix n
  let ?x = "\<lparr>oi_body = b, oi_accounted_bytes = n\<rparr>"
  show "atomic_at s (with_scheduler s (\<lambda>f. enqueue_control f ?x))"
    using control_queue.enqueue_error_unchanged [of "ss_scheduler s" ?x]
    by (cases "enqueue_control (ss_scheduler s) ?x") (auto simp: with_scheduler_def atomic_at_def)
qed

lemma atomic_at_close_stream: "atomic_at s (close_stream p s i code)"
  unfolding close_stream_def
proof (intro atomic_at_tryE, simp, intro impI atomic_at_reserve)
  show "atomic_at s (bindS (with_flow s (\<lambda>f. reject_or_close f i))
      (\<lambda>_ s1. (Inr (), s1\<lparr>ss_scheduler := cancel_stream (ss_scheduler s1) i\<rparr>)))"
    by (intro atomic_at_bindS atomic_at_with_flow fc_ops_atomic) auto
qed (auto simp: result_simps can_enqueue_after_cancel dest!: with_flow_scheduler)

lemma atomic_at_try_queue_data: "atomic_at s (try_queue_data p s now i payload)"
  unfolding try_queue_data_def Let_def
  using enqueue_reserved_stream
  by (auto intro!: atomic_at_tryE atomic_at_bindS atomic_at_with_flow fc_ops_atomic
      simp: result_simps dest!: with_flow_scheduler)

lemma session_apply_atomic: "atomic_at s (session_apply p op now s)"
proof (cases op)
  case (OpQueueData i payload)
  then show ?thesis by (auto intro!: atomic_at_bindS atomic_at_try_queue_data)
next
  case (OpCloseStream i code)
  then show ?thesis by (simp add: atomic_at_close_stream)
next
  case (OpResolve m)
  then show ?thesis by (auto simp: resolve_def intro!: atomic_at_tryE atomic_at_reserve)
next
  case (OpResolveResult m)
  then show ?thesis by (auto simp: resolve_result_def intro!: atomic_at_tryE atomic_at_reserve)
next
  case (OpQueueControl b)
  then show ?thesis
    by (auto simp: queue_control_def intro!: atomic_at_tryE atomic_at_queue_control_body
        split: body.splits)
next
  case (OpBeginGoAway m)
  then show ?thesis
    by (auto simp: begin_go_away_def intro!: atomic_at_tryE atomic_at_bindS
        atomic_at_queue_control_body)
qed (simp_all add: open_tcp_def accept_tcp_def reject_tcp_def session_grant_receive_credit_def
    half_close_def atomic_at_tryE atomic_at_reserve_flow fc_ops_atomic)

section \<open>The session invariant\<close>

definition negotiated_phase :: "session_phase \<Rightarrow> bool" where
  "negotiated_phase ph \<longleftrightarrow>
     ph \<in> {AwaitingAuthentication, AwaitingAuthenticationResult, Active, Draining}"

definition resolves_ok :: "nat \<Rightarrow> u64 \<Rightarrow> u64 fset \<Rightarrow> bool" where
  "resolves_ok limit highest pending \<longleftrightarrow> fcard pending \<le> limit \<and> fBall pending (\<lambda>q. q \<le> highest)"

text \<open>The queues are consistent and bounded by the limits of the session.\<close>

definition scheduler_ok :: "protocol_limits \<Rightarrow> fair_scheduler \<Rightarrow> bool" where
  "scheduler_ok l f \<longleftrightarrow> fs_inv f \<and>
     fs_maximum_queued_bytes f = lim_maximum_queued_bytes l \<and>
     fs_maximum_queued_bytes_per_stream f = lim_maximum_queued_bytes_per_stream l \<and>
     fs_maximum_control_frames f = lim_maximum_control_frames l"

definition session_inv :: "session \<Rightarrow> bool" where
  "session_inv s \<longleftrightarrow>
     scheduler_ok (ss_limits s) (ss_scheduler s) \<and> pred_option fc_inv (ss_flow s) \<and>
     validate_limits (ss_limits s) = Inr () \<and>
     0 < ss_maximum_frame_size s \<and>
     ss_maximum_frame_size s \<le> lim_maximum_frame_size (ss_limits s) \<and>
     ss_enabled_critical_extensions s = {||} \<and>
     ss_next_send_sequence s \<noteq> 0 \<and> ss_next_receive_sequence s \<noteq> 0 \<and>
     pv_major (ss_outbound_version s) \<noteq> 0 \<and>
     (negotiated_phase (ss_phase s) \<longrightarrow>
        ss_flow s \<noteq> None \<and> ss_selected_version s = Some (ss_outbound_version s) \<and>
        length (ss_session_id s) = 16) \<and>
     resolves_ok (lim_maximum_outstanding_resolves (ss_limits s))
       (ss_maximum_seen_local_query_id s) (ss_local_resolves s) \<and>
     resolves_ok (lim_maximum_outstanding_resolves (ss_limits s))
       (ss_maximum_seen_remote_query_id s) (ss_remote_resolves s)"

named_theorems session_inv_intros \<open>updates that keep the session invariant\<close>

lemma session_inv_parts:
  assumes "session_inv s"
  shows "scheduler_ok (ss_limits s) (ss_scheduler s)" "ss_flow s = Some f \<Longrightarrow> fc_inv f"
    "ss_next_send_sequence s \<noteq> 0" "ss_next_receive_sequence s \<noteq> 0"
    "ss_enabled_critical_extensions s = {||}"
  using assms by (auto simp: session_inv_def)

lemma session_inv_flow [session_inv_intros]:
  "session_inv s \<Longrightarrow> fc_inv f \<Longrightarrow> session_inv (s\<lparr>ss_flow := Some f\<rparr>)"
  by (simp add: session_inv_def)

lemma session_inv_scheduler [session_inv_intros]:
  "session_inv s \<Longrightarrow> scheduler_ok (ss_limits s) f \<Longrightarrow> session_inv (s\<lparr>ss_scheduler := f\<rparr>)"
  by (simp add: session_inv_def)

lemma session_inv_transport [session_inv_intros]:
  "session_inv s \<Longrightarrow> session_inv (s\<lparr>ss_transport := t\<rparr>)"
  by (simp add: session_inv_def)

lemma session_inv_close [session_inv_intros]:
  "session_inv s \<Longrightarrow> session_inv (s\<lparr>ss_phase := PhaseClosed\<rparr>)"
  by (auto simp: session_inv_def negotiated_phase_def)

lemma session_inv_drain [session_inv_intros]:
  "session_inv s \<Longrightarrow> negotiated_phase (ss_phase s) \<Longrightarrow> session_inv (s\<lparr>ss_phase := Draining\<rparr>)"
  by (auto simp: session_inv_def negotiated_phase_def)

lemma session_inv_capabilities [session_inv_intros]:
  "session_inv s \<Longrightarrow> session_inv (s\<lparr>ss_enabled_capabilities := c\<rparr>)"
  by (simp add: session_inv_def)

lemma resolves_ok_insert:
  assumes "resolves_ok limit h q" "h < i" "fcard q < limit"
  shows "resolves_ok limit i (finsert i q)"
proof -
  have "fcard (finsert i q) \<le> Suc (fcard q)" by (simp add: fcard_finsert_if)
  with assms show ?thesis by (auto simp: resolves_ok_def)
qed

lemma resolves_ok_remove: "resolves_ok limit h q \<Longrightarrow> resolves_ok limit h (q |-| {|i|})"
  using fcard_mono [of "q |-| {|i|}" q] by (fastforce simp: resolves_ok_def)

text \<open>A step keeps a property when the state it leaves has it, whatever it returns.\<close>

definition keeps :: "('s \<Rightarrow> bool) \<Rightarrow> 'r \<times> 's \<Rightarrow> bool" where
  "keeps P m \<longleftrightarrow> P (snd m)"

lemma keeps_pair [simp]: "keeps P (r, s) \<longleftrightarrow> P s"
  by (simp add: keeps_def)

lemma keepsD: "keeps P m \<Longrightarrow> m = (r, s) \<Longrightarrow> P s"
  by (simp add: keeps_def)

lemma keeps_tryE: "P s \<Longrightarrow> (\<And>a. r = Inr a \<Longrightarrow> keeps P (k a)) \<Longrightarrow> keeps P (tryE r s k)"
  by (cases r) auto

lemma keeps_bindS:
  assumes "keeps P m" "\<And>a s. m = (Inr a, s) \<Longrightarrow> P s \<Longrightarrow> keeps P (k a s)"
  shows "keeps P (bindS m k)"
proof (cases m)
  case (Pair r s)
  with assms show ?thesis by (cases r) auto
qed

lemma keeps_with_flow:
  assumes "session_inv s" "\<And>f. fc_inv f \<Longrightarrow> keeps fc_inv (op f)"
  shows "keeps session_inv (with_flow s op)"
proof (cases "ss_flow s")
  case None
  with assms(1) show ?thesis by (simp add: with_flow_def)
next
  case (Some f)
  with assms(2) [OF session_inv_parts(2) [OF assms(1) Some]] assms(1) show ?thesis
    by (auto simp: with_flow_def intro: session_inv_flow split: prod.splits)
qed

lemma keeps_with_scheduler:
  assumes "session_inv s" "keeps (scheduler_ok (ss_limits s)) (op (ss_scheduler s))"
  shows "keeps session_inv (with_scheduler s op)"
  using assms by (auto simp: with_scheduler_def intro: session_inv_scheduler split: prod.splits)

lemma keeps_fc_apply: "fc_inv f \<Longrightarrow> keeps fc_inv (fc_apply op now f)"
  using fc_apply_unit [of op now f] fc_inv_apply [of f op now]
  by (cases "fc_apply op now f") auto

lemmas fc_ops_keep =
  keeps_fc_apply [of _ "OpOpenLocal i w" for i w, simplified]
  keeps_fc_apply [of _ "OpReceiveOpen i w" for i w, simplified]
  keeps_fc_apply [of _ "OpConfirmLocalOpen i w" for i w, simplified]
  keeps_fc_apply [of _ "OpAcceptRemoteOpen i w" for i w, simplified]
  keeps_fc_apply [of _ "OpRejectOrClose i" for i, simplified]
  keeps_fc_apply [of _ "OpDebitSend i n" for i n, simplified]
  keeps_fc_apply [of _ "OpDebitReceive i n" for i n, simplified]
  keeps_fc_apply [of _ "OpReceiveWindowUpdate i c" for i c, simplified]
  keeps_fc_apply [of _ "OpGrantReceiveCredit i c" for i c, simplified]
  keeps_fc_apply [of _ "OpLocalHalfClose i" for i, simplified]
  keeps_fc_apply [of _ "OpReceiveHalfClose i" for i, simplified]

text \<open>Enqueueing and popping leave the configured bounds alone.\<close>

definition same_bounds :: "fair_scheduler \<Rightarrow> fair_scheduler \<Rightarrow> bool" where
  "same_bounds f g \<longleftrightarrow> fs_maximum_queued_bytes g = fs_maximum_queued_bytes f \<and>
     fs_maximum_queued_bytes_per_stream g = fs_maximum_queued_bytes_per_stream f \<and>
     fs_maximum_control_frames g = fs_maximum_control_frames f"

lemma scheduler_ok_same: "scheduler_ok l f \<Longrightarrow> fs_inv g \<Longrightarrow> same_bounds f g \<Longrightarrow> scheduler_ok l g"
  by (simp add: scheduler_ok_def same_bounds_def)

lemma scheduler_ok_inv: "scheduler_ok l f \<Longrightarrow> fs_inv f"
  by (simp add: scheduler_ok_def)

lemma keeps_enqueue_control:
  assumes ok: "scheduler_ok l f"
  shows "keeps (scheduler_ok l) (enqueue_control f x)"
proof (cases "fst (enqueue_control f x)")
  case (Inl e)
  with control_queue.enqueue_error_unchanged [OF this] ok show ?thesis by (simp add: keeps_def)
next
  case (Inr u)
  then obtain g where g: "enqueue_control f x = (Inr (), g)" by (cases "enqueue_control f x") auto
  then have "same_bounds f g" by (simp add: enqueue_control_Inr same_bounds_def)
  with fs_inv_enqueue_control [OF scheduler_ok_inv [OF ok] g] ok g show ?thesis
    by (simp add: scheduler_ok_same)
qed

lemma keeps_enqueue_stream:
  assumes ok: "scheduler_ok l f"
  shows "keeps (scheduler_ok l) (enqueue_stream f i x)"
proof (cases "fst (enqueue_stream f i x)")
  case (Inl e)
  with stream_queues.enqueue_error_unchanged [OF this] ok show ?thesis by (simp add: keeps_def)
next
  case (Inr u)
  then obtain g where g: "enqueue_stream f i x = (Inr (), g)" by (cases "enqueue_stream f i x") auto
  then have "same_bounds f g" by (simp add: enqueue_stream_Inr same_bounds_def)
  with fs_inv_enqueue_stream [OF scheduler_ok_inv [OF ok] g] ok g show ?thesis
    by (simp add: scheduler_ok_same)
qed

lemma scheduler_ok_cancel:
  assumes ok: "scheduler_ok l f"
  shows "scheduler_ok l (cancel_stream f i)"
proof (rule scheduler_ok_same [OF ok fs_inv_cancel_stream [OF scheduler_ok_inv [OF ok]]])
  show "same_bounds f (cancel_stream f i)"
    by (simp add: same_bounds_def cancel_stream_fields [OF scheduler_ok_inv [OF ok] refl])
qed

lemma scheduler_ok_pop:
  assumes ok: "scheduler_ok l f" and pop: "pop_next f = (y, g)"
  shows "scheduler_ok l g"
proof (rule scheduler_ok_same [OF ok fs_inv_pop_next [OF scheduler_ok_inv [OF ok] pop]])
  from scheduler_ok_inv [OF ok] pop show "same_bounds f g"
    by (cases rule: pop_next_cases)
      (auto simp: same_bounds_def pop_stream_def Let_def split: option.splits list.splits)
qed

lemma keeps_reserve:
  assumes "session_inv s" "keeps session_inv (update s)"
  shows "keeps session_inv (reserve_update_enqueue p s b update)"
  unfolding reserve_update_enqueue_def
  using assms
  by (intro keeps_tryE keeps_bindS keeps_with_scheduler keeps_enqueue_control)
    (auto dest: session_inv_parts)

lemma keeps_reserve_flow:
  assumes "session_inv s" "\<And>f. fc_inv f \<Longrightarrow> keeps fc_inv (op f)"
  shows "keeps session_inv (reserve_update_enqueue p s b (\<lambda>s. with_flow s op))"
  using assms by (intro keeps_reserve keeps_with_flow)

lemma keeps_queue_control_body:
  "session_inv s \<Longrightarrow> keeps session_inv (queue_control_body p s b)"
  unfolding queue_control_body_def
  by (intro keeps_tryE keeps_with_scheduler keeps_enqueue_control) (auto dest: session_inv_parts)

lemma session_inv_cancel:
  "session_inv s \<Longrightarrow> session_inv (s\<lparr>ss_scheduler := cancel_stream (ss_scheduler s) i\<rparr>)"
  by (intro session_inv_scheduler scheduler_ok_cancel session_inv_parts(1))

lemma keeps_close_stream: "session_inv s \<Longrightarrow> keeps session_inv (close_stream p s i code)"
  unfolding close_stream_def
  by (auto intro!: keeps_tryE keeps_reserve keeps_bindS keeps_with_flow fc_ops_keep
      session_inv_cancel)

lemma keeps_try_queue_data: "session_inv s \<Longrightarrow> keeps session_inv (try_queue_data p s now i payload)"
  unfolding try_queue_data_def Let_def
  by (auto intro!: keeps_tryE keeps_bindS keeps_with_flow fc_ops_keep
      keeps_with_scheduler keeps_enqueue_stream dest: session_inv_parts)

lemma session_inv_local_resolve:
  assumes "session_inv s" "ss_maximum_seen_local_query_id s < i"
    "fcard (ss_local_resolves s) < lim_maximum_outstanding_resolves (ss_limits s)"
  shows "session_inv (s\<lparr>ss_maximum_seen_local_query_id := i,
                        ss_local_resolves := finsert i (ss_local_resolves s)\<rparr>)"
  using assms by (auto simp: session_inv_def intro: resolves_ok_insert)

lemma session_inv_remote_resolve:
  assumes "session_inv s" "ss_maximum_seen_remote_query_id s < i"
    "fcard (ss_remote_resolves s) < lim_maximum_outstanding_resolves (ss_limits s)"
  shows "session_inv (s\<lparr>ss_maximum_seen_remote_query_id := i,
                        ss_remote_resolves := finsert i (ss_remote_resolves s)\<rparr>)"
  using assms by (auto simp: session_inv_def intro: resolves_ok_insert)

lemma session_inv_resolved:
  assumes "session_inv s"
  shows "session_inv (s\<lparr>ss_local_resolves := ss_local_resolves s |-| {|i|}\<rparr>)"
    and "session_inv (s\<lparr>ss_remote_resolves := ss_remote_resolves s |-| {|i|}\<rparr>)"
  using assms by (simp_all add: session_inv_def resolves_ok_remove)

lemma queue_control_body_phase:
  "queue_control_body p s b = (r, t) \<Longrightarrow> ss_phase t = ss_phase s"
  by (auto simp: queue_control_body_def with_scheduler_def tryE_def
      split: sum.splits prod.splits)

lemma require_active_or_draining_phase:
  "require_active_or_draining s = Inr u \<Longrightarrow> ss_phase s = Active \<or> ss_phase s = Draining"
  by (simp add: require_active_or_draining_def split: if_splits)

lemma keeps_begin_go_away: "session_inv s \<Longrightarrow> keeps session_inv (begin_go_away p s m)"
  unfolding begin_go_away_def
  by (auto intro!: keeps_tryE keeps_bindS keeps_queue_control_body session_inv_drain
      simp: negotiated_phase_def
      dest!: queue_control_body_phase require_active_or_draining_phase)

lemma session_apply_keeps:
  assumes "session_inv s"
  shows "keeps session_inv (session_apply p op now s)"
proof (cases op)
  case (OpQueueData i payload)
  with assms show ?thesis by (auto intro!: keeps_bindS keeps_try_queue_data)
next
  case (OpCloseStream i code)
  with assms show ?thesis by (simp add: keeps_close_stream)
next
  case (OpResolve m)
  with assms show ?thesis
    by (auto simp: resolve_def not_le intro!: keeps_tryE keeps_reserve session_inv_local_resolve)
next
  case (OpResolveResult m)
  with assms show ?thesis
    by (auto simp: resolve_result_def intro!: keeps_tryE keeps_reserve session_inv_resolved)
next
  case (OpQueueControl b)
  with assms show ?thesis
    by (auto simp: queue_control_def intro!: keeps_tryE keeps_queue_control_body
        split: body.splits)
next
  case (OpBeginGoAway m)
  with assms show ?thesis by (simp add: keeps_begin_go_away)
qed (use assms in \<open>simp_all add: open_tcp_def accept_tcp_def reject_tcp_def
    session_grant_receive_credit_def half_close_def keeps_tryE keeps_reserve_flow fc_ops_keep\<close>)

lemma keeps_close_all: "session_inv s \<Longrightarrow> keeps session_inv (close_all p s ids)"
  by (induction ids arbitrary: s) (auto intro!: keeps_bindS keeps_close_stream)

lemma keeps_expire: "session_inv s \<Longrightarrow> keeps session_inv (expire_idle_streams p s now)"
  unfolding expire_idle_streams_def Let_def by (auto intro!: keeps_bindS keeps_close_all)

lemma keeps_close_on_error: "keeps session_inv m \<Longrightarrow> keeps session_inv (close_on_error m)"
  by (cases m; cases "fst m") (auto simp: close_on_error_def intro: session_inv_close)

lemma checked_increment:
  "checked_add_u64 w 1 = Some v \<Longrightarrow> v = w + 1 \<and> v \<noteq> 0 \<and> unat v = Suc (unat w)"
  by (auto simp: checked_add_u64_def unat_word_ariths unat_eq_0 split: if_splits
      simp flip: unat_eq_0)

lemma session_inv_sent:
  "session_inv s \<Longrightarrow> checked_add_u64 w 1 = Some v \<Longrightarrow> session_inv (s\<lparr>ss_next_send_sequence := v\<rparr>)"
  by (auto simp: session_inv_def dest: checked_increment)

lemma session_inv_received:
  "session_inv s \<Longrightarrow> checked_add_u64 w 1 = Some v \<Longrightarrow> session_inv (s\<lparr>ss_next_receive_sequence := v\<rparr>)"
  by (auto simp: session_inv_def dest: checked_increment)

lemma ok_or_Inr_iff: "ok_or x e = Inr a \<longleftrightarrow> x = Some a"
  by (cases x) auto

lemma keeps_flush_one: 
  assumes "session_inv s"
  shows "keeps session_inv (flush_one p s)"
proof -
  obtain y g where pop: "pop_next (ss_scheduler s) = (y, g)" by (cases "pop_next (ss_scheduler s)")
  have "session_inv (s\<lparr>ss_scheduler := g\<rparr>)"
    by (rule session_inv_scheduler [OF assms scheduler_ok_pop [OF session_inv_parts(1) [OF assms] pop]])
  then have "keeps session_inv (flush_one_inner p s)"
    by (auto simp: flush_one_inner_def pop Let_def ok_or_Inr_iff
        split: option.split prod.split sum.split
        intro!: keeps_tryE session_inv_transport session_inv_sent)
  then show ?thesis using assms by (simp add: flush_one_def keeps_close_on_error)
qed

lemma keeps_flush_all: "session_inv s \<Longrightarrow> keeps session_inv (flush_all p s)"
proof (induction p s rule: flush_all.induct)
  case (1 p s)
  obtain r t where f: "flush_one p s = (r, t)" by (cases "flush_one p s")
  with keeps_flush_one [OF 1(2), of p] have t: "session_inv t" by simp
  show ?case
  proof (cases r)
    case (Inl e)
    with f t show ?thesis by (subst flush_all.simps) simp
  next
    case (Inr more)
    with f t 1(1) [OF f [symmetric] Inr] show ?thesis
      by (subst flush_all.simps) (simp split: bool.split)
  qed
qed

lemma keeps_apply_active_inbound:
  assumes "session_inv s" "negotiated_phase (ss_phase s)"
  shows "keeps session_inv (apply_active_inbound s now b)"
  using assms
  by (cases b) (auto simp: apply_active_inbound_def not_le
      intro!: keeps_tryE keeps_with_flow fc_ops_keep session_inv_cancel session_inv_close
        session_inv_drain session_inv_remote_resolve session_inv_resolved)

lemma keeps_apply_inbound: "session_inv s \<Longrightarrow> keeps session_inv (apply_inbound s now b)"
  by (auto simp: apply_inbound_def negotiated_phase_def keeps_apply_active_inbound
      split: session_phase.split body.split)

lemma keeps_process_frame: "session_inv s \<Longrightarrow> keeps session_inv (process_frame s now frame)"
  unfolding process_frame_def Let_def
  by (auto simp: ok_or_Inr_iff intro!: keeps_tryE keeps_bindS keeps_apply_inbound
      session_inv_close session_inv_received)

lemma keeps_receive: "session_inv s \<Longrightarrow> keeps session_inv (receive p s now)"
  by (auto simp: receive_def receive_inner_def
      intro!: keeps_close_on_error keeps_process_frame session_inv_transport
      split: prod.split sum.split)

lemma keeps_queue_handshake: "session_inv s \<Longrightarrow> keeps session_inv (queue_handshake p s b)"
  by (simp add: queue_handshake_def keeps_queue_control_body)

lemma keeps_mark_active: "session_inv s \<Longrightarrow> keeps session_inv (mark_active s)"
  by (auto simp: mark_active_def session_inv_def negotiated_phase_def)

lemma keeps_set_granted: "session_inv s \<Longrightarrow> keeps session_inv (set_granted_capabilities s granted)"
  unfolding set_granted_capabilities_def Let_def
  by (auto intro!: keeps_tryE session_inv_capabilities)

lemma validate_limits_idle:
  "validate_limits l = Inr () \<Longrightarrow> d \<noteq> 0 \<Longrightarrow>
   validate_limits (l\<lparr>lim_idle_stream_timeout := d\<rparr>) = Inr ()"
  by (auto simp: validate_limits_def result_simps)

lemma flow_new_inv: "flow_new p l m = Inr f \<Longrightarrow> fc_inv f"
  by (rule fc_start_inv) (auto simp: fc_start_def)

lemma keeps_configure:
  assumes "session_inv s"
  shows "keeps session_inv (configure_negotiated s q)"
  unfolding configure_negotiated_def
  using assms
  by (intro keeps_tryE)
    (auto simp: session_inv_def validate_limits_idle ensure_def scheduler_ok_def
      dest: flow_new_inv split: if_splits)

lemma scheduler_new_ok:
  assumes "scheduler_new (lim_maximum_queued_bytes l) (lim_maximum_queued_bytes_per_stream l)
      (lim_maximum_control_frames l) = Inr f"
  shows "scheduler_ok l f"
  using fs_inv_new [OF assms] assms by (auto simp: scheduler_ok_def scheduler_new_def split: if_splits)

lemma session_new_inv:
  assumes "session_new t role phase limits v = Inr s" "\<not> negotiated_phase phase"
  shows "session_inv s"
  using assms
  by (auto simp: session_new_def result_simps session_inv_def resolves_ok_def validate_limits_def
      MIN_NEGOTIABLE_FRAME_SIZE_def fcard_fempty dest: scheduler_new_ok)

section \<open>The session as a machine\<close>

definition session_start :: "session \<Rightarrow> bool" where
  "session_start s \<longleftrightarrow>
     (\<exists>t limits v. new_client t limits v = Inr s \<or> new_server t limits v = Inr s)"

text \<open>
  Every public method of the session, the crate-private methods the handshake drives it with,
  and the arrival of bytes from the peer.
\<close>

inductive session_step :: "prost \<Rightarrow> session \<Rightarrow> session \<Rightarrow> bool" for p where
  outbound: "session_apply p op now s = (r, t) \<Longrightarrow> session_step p s t"
| expire: "expire_idle_streams p s now = (r, t) \<Longrightarrow> session_step p s t"
| flush_step: "flush_one p s = (r, t) \<Longrightarrow> session_step p s t"
| flush_queue: "flush_all p s = (r, t) \<Longrightarrow> session_step p s t"
| inbound: "receive p s now = (r, t) \<Longrightarrow> session_step p s t"
| configure: "configure_negotiated s q = (r, t) \<Longrightarrow> session_step p s t"
| activate: "mark_active s = (r, t) \<Longrightarrow> session_step p s t"
| grant: "set_granted_capabilities s granted = (r, t) \<Longrightarrow> session_step p s t"
| handshake: "queue_handshake p s b = (r, t) \<Longrightarrow> session_step p s t"
| arrival: "session_step p s (s\<lparr>ss_transport := x\<rparr>)"

inductive_cases session_stepE: "session_step p s t"

lemma session_inv_step: "session_step p s t \<Longrightarrow> session_inv s \<Longrightarrow> session_inv t"
  by (induction rule: session_step.induct)
    (auto dest: keepsD [rotated] intro: session_apply_keeps keeps_expire keeps_flush_one
      keeps_flush_all keeps_receive keeps_configure keeps_mark_active keeps_set_granted
      keeps_queue_handshake session_inv_transport)

interpretation sessionm: invariant_machine session_start "session_step p" session_inv for p
proof unfold_locales
  show "session_inv s" if "session_start s" for s
    using that unfolding session_start_def new_client_def new_server_def
    by (auto simp: negotiated_phase_def intro: session_new_inv)
  show "session_inv t" if "session_inv s" "session_step p s t" for s t
    using session_inv_step [OF that(2,1)] .
qed

section \<open>Errors close the session\<close>

lemma session_apply_closed:
  assumes "ss_phase s = PhaseClosed"
  shows "session_apply p op now s = (Inl Closed, s)"
  using assms
  by (cases op)
    (simp_all add: open_tcp_def accept_tcp_def reject_tcp_def try_queue_data_def
      session_grant_receive_credit_def half_close_def close_stream_def resolve_def
      resolve_result_def queue_control_def begin_go_away_def require_active_client_def
      require_active_server_def require_active_or_draining_def)

lemma closed_inert:
  assumes "ss_phase s = PhaseClosed"
  shows "session_apply p op now s = (Inl Closed, s)" "flush_one p s = (Inl Closed, s)"
    "flush_all p s = (Inl Closed, s)" "receive p s now = (Inl Closed, s)"
    "fst (mark_active s) \<noteq> Inr ()" "fst (queue_handshake p s b) \<noteq> Inr ()"
proof -
  show f: "flush_one p s = (Inl Closed, s)" using assms by (simp add: flush_one_def)
  then show "flush_all p s = (Inl Closed, s)" by (simp add: flush_all.simps)
  show "receive p s now = (Inl Closed, s)"
    using assms by (simp add: receive_def receive_inner_def close_on_error_def)
qed (use assms in \<open>simp_all add: session_apply_closed mark_active_def queue_handshake_def\<close>)

lemma close_on_error_Inl: "close_on_error m = (Inl e, t) \<Longrightarrow> ss_phase t = PhaseClosed"
  by (auto simp: close_on_error_def split: prod.splits sum.splits)

lemma flush_one_Inl: "flush_one p s = (Inl e, t) \<Longrightarrow> ss_phase t = PhaseClosed"
  by (auto simp: flush_one_def dest: close_on_error_Inl split: if_splits)

lemma flush_all_Inl: "flush_all p s = (Inl e, t) \<Longrightarrow> ss_phase t = PhaseClosed"
proof (induction p s rule: flush_all.induct)
  case (1 p s)
  obtain r u where f: "flush_one p s = (r, u)" by (cases "flush_one p s")
  show ?case
  proof (cases r)
    case (Inl e')
    with 1(2) f flush_one_Inl show ?thesis by (auto simp: flush_all.simps [of p s])
  next
    case (Inr more)
    with 1(1) [OF f [symmetric] Inr] 1(2) f show ?thesis
      by (auto simp: flush_all.simps [of p s] split: bool.splits)
  qed
qed

section \<open>Frames are accepted in sequence\<close>

text \<open>The frames of a connection, processed one after the other until one fails.\<close>

fun process_frames :: "session \<Rightarrow> (instant \<times> gateway_frame) list \<Rightarrow> body list session_result" where
  "process_frames s [] = (Inr [], s)"
| "process_frames s ((now, frame) # rest) =
     bindS (process_frame s now frame) (\<lambda>b s1.
     bindS (process_frames s1 rest) (\<lambda>bs s2. (Inr (b # bs), s2)))"

lemma with_flow_sequence:
  "with_flow s op = (r, t) \<Longrightarrow> ss_next_receive_sequence t = ss_next_receive_sequence s"
  by (auto simp: with_flow_def split: option.splits prod.splits)

lemma apply_inbound_sequence:
  assumes "apply_inbound s now b = (r, t)"
  shows "ss_next_receive_sequence t = ss_next_receive_sequence s"
  using assms
  by (auto simp: apply_inbound_def apply_active_inbound_def tryE_def
      dest!: with_flow_sequence
      split: session_phase.splits body.splits sum.splits if_splits)

lemma process_frame_Inr:
  assumes "process_frame s now frame = (Inr b, t)"
  shows "gf_sequence frame = ss_next_receive_sequence s" "gf_body frame = Some b"
    "ss_next_receive_sequence t = gf_sequence frame + 1"
    "unat (ss_next_receive_sequence t) = Suc (unat (ss_next_receive_sequence s))"
    "validate_frame frame (ss_enabled_critical_extensions s) = Inr ()"
proof -
  from assms obtain v where seq: "gf_sequence frame = ss_next_receive_sequence s"
    and body: "gf_body frame = Some b"
    and v: "checked_add_u64 (ss_next_receive_sequence s) 1 = Some v"
    and t: "apply_inbound (s\<lparr>ss_next_receive_sequence := v\<rparr>) now b = (Inr (), t)"
    and valid: "validate_frame frame (ss_enabled_critical_extensions s) = Inr ()"
    by (auto simp: process_frame_def tryE_def bindS_def ok_or_Inr_iff Let_def
        split: if_splits sum.splits prod.splits)
  note inc = checked_increment [OF v]
  from t have "ss_next_receive_sequence t = v" by (auto dest: apply_inbound_sequence)
  with seq body valid inc
  show "gf_sequence frame = ss_next_receive_sequence s" "gf_body frame = Some b"
    "ss_next_receive_sequence t = gf_sequence frame + 1"
    "unat (ss_next_receive_sequence t) = Suc (unat (ss_next_receive_sequence s))"
    "validate_frame frame (ss_enabled_critical_extensions s) = Inr ()"
    by auto
qed

lemma process_frames_Inr:
  assumes "process_frames s fs = (Inr bs, t)"
  shows "map (\<lambda>(_, f). unat (gf_sequence f)) fs =
      [unat (ss_next_receive_sequence s) ..< unat (ss_next_receive_sequence s) + length fs] \<and>
    map (\<lambda>(_, f). gf_body f) fs = map Some bs"
  using assms
proof (induction s fs arbitrary: bs rule: process_frames.induct)
  case (2 s now frame rest)
  obtain r u where pf: "process_frame s now frame = (r, u)" by (cases "process_frame s now frame")
  with 2(2) obtain b where r: "r = Inr b" by (cases r) auto
  obtain r' v where rest: "process_frames u rest = (r', v)" by (cases "process_frames u rest")
  with 2(2) pf r obtain bs' where bs: "r' = Inr bs'" "bs = b # bs'" by (cases r') auto
  note head = process_frame_Inr [OF pf [unfolded r]]
  have "map (\<lambda>(_, f). unat (gf_sequence f)) rest =
      [Suc (unat (ss_next_receive_sequence s)) ..< Suc (unat (ss_next_receive_sequence s)) + length rest] \<and>
      map (\<lambda>(_, f). gf_body f) rest = map Some bs'"
    using 2(1) [of u bs'] 2(2) rest bs head(4) pf r by (simp del: upt_Suc)
  with head bs show ?case by (simp add: upt_conv_Cons del: upt_Suc)
qed simp

section \<open>From one peer to the other\<close>

text \<open>The frame \<open>flush_one\<close> builds for a queued item.\<close>

definition outbound_frame :: "session \<Rightarrow> outbound_item \<Rightarrow> gateway_frame" where
  "outbound_frame s x =
     \<lparr>gf_sequence = ss_next_send_sequence s, gf_version = Some (ss_outbound_version s),
      gf_critical_extension_ids = [], gf_session_id = ss_session_id s,
      gf_body = Some (oi_body x)\<rparr>"

lemma flush_one_Inr_True:
  assumes "flush_one p s = (Inr True, t)"
  obtains x g bs where "pop_next (ss_scheduler s) = (Some x, g)"
    "validate_frame (outbound_frame s x) (ss_enabled_critical_extensions s) = Inr ()"
    "encode_frame p (outbound_frame s x) (ss_maximum_frame_size s) = Inr bs"
    "checked_add_u64 (ss_next_send_sequence s) 1 = Some (ss_next_send_sequence t)"
    "t = s\<lparr>ss_scheduler := g, ss_next_send_sequence := ss_next_send_sequence s + 1,
          ss_transport := (ss_transport s)\<lparr>tr_output := tr_output (ss_transport s) @ bs\<rparr>\<rparr>"
proof -
  obtain y g where pop: "pop_next (ss_scheduler s) = (y, g)" by (cases "pop_next (ss_scheduler s)")
  show thesis
  proof (cases y)
    case None
    with assms pop show thesis
      by (simp add: flush_one_def flush_one_inner_def close_on_error_def split: if_splits)
  next
    case (Some x)
    with assms pop obtain bs v where
      v: "checked_add_u64 (ss_next_send_sequence s) 1 = Some v"
      and ok: "validate_frame (outbound_frame s x) (ss_enabled_critical_extensions s) = Inr ()"
      and bs: "encode_frame p (outbound_frame s x) (ss_maximum_frame_size s) = Inr bs"
      and t: "t = s\<lparr>ss_scheduler := g, ss_next_send_sequence := v,
        ss_transport := (ss_transport s)\<lparr>tr_output := tr_output (ss_transport s) @ bs\<rparr>\<rparr>"
      by (auto simp: flush_one_def flush_one_inner_def close_on_error_def Let_def tryE_def
          write_frame_def write_all_def outbound_frame_def ok_or_Inr_iff
          split: if_splits sum.splits prod.splits)
    have "v = ss_next_send_sequence s + 1" using checked_increment [OF v] by simp
    with pop [unfolded Some] ok bs v t show thesis by (intro that) auto
  qed
qed

text \<open>A session that is in step with the sender of the next frame.\<close>

definition in_step :: "session \<Rightarrow> session \<Rightarrow> bool" where
  "in_step s r \<longleftrightarrow>
     ss_selected_version r = Some (ss_outbound_version s) \<and> ss_session_id r = ss_session_id s \<and>
     ss_maximum_frame_size r = ss_maximum_frame_size s \<and>
     ss_next_receive_sequence r = ss_next_send_sequence s \<and>
     ss_enabled_critical_extensions r = ss_enabled_critical_extensions s"

lemma delivery:
  assumes flush: "flush_one p s = (Inr True, t)"
    and pop: "pop_next (ss_scheduler s) = (Some x, g)"
    and conf: "prost_conforms p (outbound_frame s x)"
    and out: "tr_output (ss_transport t) = tr_output (ss_transport s) @ bs"
    and inp: "tr_input (ss_transport r) = bs @ rest"
    and peer: "in_step s r" "ss_phase r \<in> {Active, Draining}"
  shows "receive p r now = close_on_error (bindS
      (apply_active_inbound (r\<lparr>ss_transport := (ss_transport r)\<lparr>tr_input := rest\<rparr>,
         ss_next_receive_sequence := ss_next_send_sequence t\<rparr>) now (oi_body x))
      (\<lambda>_ u. (Inr (oi_body x), u)))"
proof -
  let ?f = "outbound_frame s x" and ?m = "ss_maximum_frame_size s"
  obtain y h bs' where y: "pop_next (ss_scheduler s) = (Some y, h)"
    and ok: "validate_frame (outbound_frame s y) (ss_enabled_critical_extensions s) = Inr ()"
    and bs': "encode_frame p (outbound_frame s y) ?m = Inr bs'"
    and inc: "checked_add_u64 (ss_next_send_sequence s) 1 = Some (ss_next_send_sequence t)"
    and t: "t = s\<lparr>ss_scheduler := h, ss_next_send_sequence := ss_next_send_sequence s + 1,
          ss_transport := (ss_transport s)\<lparr>tr_output := tr_output (ss_transport s) @ bs'\<rparr>\<rparr>"
    using flush by (rule flush_one_Inr_True)
  have [simp]: "y = x" using y pop by simp
  have "bs' = bs" using out by (simp add: t)
  with bs' have bs: "encode_frame p ?f ?m = Inr bs" by simp
  then obtain d where d: "decoder_new ?m = Inr d"
    by (auto simp: encode_frame_def decoder_new_def result_simps)
  have read: "read_frame p (ss_transport r) ?m = (Inr ?f, (ss_transport r)\<lparr>tr_input := rest\<rparr>)"
    using encoded_frame_read_back [OF conf _ bs d inp] by (simp add: outbound_frame_def)
  have "process_frame (r\<lparr>ss_transport := (ss_transport r)\<lparr>tr_input := rest\<rparr>\<rparr>) now ?f =
    bindS (apply_active_inbound (r\<lparr>ss_transport := (ss_transport r)\<lparr>tr_input := rest\<rparr>,
         ss_next_receive_sequence := ss_next_send_sequence t\<rparr>) now (oi_body x))
      (\<lambda>_ u. (Inr (oi_body x), u))"
    using ok inc peer
    by (auto simp: process_frame_def in_step_def outbound_frame_def validate_frame_context_def
        apply_inbound_def)
  with read peer show ?thesis by (auto simp: receive_def receive_inner_def in_step_def)
qed

section \<open>A half-close overtakes the data queued before it\<close>

lemma with_flow_Inr:
  "with_flow s op = (Inr a, t) \<longleftrightarrow>
     (\<exists>f g. ss_flow s = Some f \<and> op f = (Inr a, g) \<and> t = s\<lparr>ss_flow := Some g\<rparr>)"
  by (auto simp: with_flow_def split: option.splits prod.splits)

lemma with_scheduler_Inr:
  "with_scheduler s op = (Inr a, t) \<longleftrightarrow>
     (\<exists>g. op (ss_scheduler s) = (Inr a, g) \<and> t = s\<lparr>ss_scheduler := g\<rparr>)"
  by (auto simp: with_scheduler_def split: prod.splits)

lemma try_queue_data_Inr:
  assumes "try_queue_data p s now i payload = (Inr n, t)"
  obtains f g k where "n = min (length payload) MAX_DATA_PAYLOAD"
    "payload \<noteq> []" "validate_stream_id i = Inr ()"
    "accounted_body_size p (Data \<lparr>da_stream_id = i, da_payload = take n payload\<rparr>) = Inr k"
    "ss_flow s = Some f" "debit_send f now i n = (Inr (), g)"
    "can_enqueue_stream (ss_scheduler s) i k = Inr ()"
    "t = s\<lparr>ss_flow := Some g,
          ss_scheduler := snd (enqueue_stream (ss_scheduler s) i
            \<lparr>oi_body = Data \<lparr>da_stream_id = i, da_payload = take n payload\<rparr>, oi_accounted_bytes = k\<rparr>)\<rparr>"
proof -
  let ?n = "min (length payload) MAX_DATA_PAYLOAD"
  let ?b = "Data \<lparr>da_stream_id = i, da_payload = take ?n payload\<rparr>"
  from assms obtain k u where n: "n = ?n" "payload \<noteq> []" "validate_stream_id i = Inr ()"
    and k: "accounted_body_size p ?b = Inr k" "can_enqueue_stream (ss_scheduler s) i k = Inr ()"
    and u: "with_flow s (\<lambda>f. debit_send f now i ?n) = (Inr (), u)"
    and t: "with_scheduler u (\<lambda>f. enqueue_stream f i \<lparr>oi_body = ?b, oi_accounted_bytes = k\<rparr>) = (Inr (), t)"
    by (auto simp: try_queue_data_def Let_def result_simps split: if_splits)
  from u obtain f g where f: "ss_flow s = Some f" "debit_send f now i ?n = (Inr (), g)"
    "u = s\<lparr>ss_flow := Some g\<rparr>"
    unfolding with_flow_Inr by blast
  show thesis
    by (rule that [of k f g]) (use n k f t in \<open>auto simp: with_scheduler_Inr\<close>)
qed

lemma half_close_Inr:
  assumes "half_close p s now i = (Inr (), t)"
  obtains f g k where "ss_flow s = Some f" "local_half_close f now i = (Inr (), g)"
    "can_enqueue_control (ss_scheduler s) k = Inr ()"
    "t = s\<lparr>ss_flow := Some g, ss_scheduler := (ss_scheduler s)
          \<lparr>fs_queued_bytes := fs_queued_bytes (ss_scheduler s) + k,
           fs_control := fs_control (ss_scheduler s) @
             [\<lparr>oi_body = HalfClose \<lparr>hc_stream_id = i\<rparr>, oi_accounted_bytes = k\<rparr>]\<rparr>\<rparr>"
proof -
  let ?b = "HalfClose \<lparr>hc_stream_id = i\<rparr>"
  from assms obtain k u where
    k: "can_enqueue_control (ss_scheduler s) k = Inr ()"
    and u: "with_flow s (\<lambda>f. local_half_close f now i) = (Inr (), u)"
    and t: "with_scheduler u (\<lambda>f. enqueue_control f \<lparr>oi_body = ?b, oi_accounted_bytes = k\<rparr>) = (Inr (), t)"
    by (auto simp: half_close_def reserve_update_enqueue_def result_simps)
  from u obtain f g where f: "ss_flow s = Some f" "local_half_close f now i = (Inr (), g)"
    "u = s\<lparr>ss_flow := Some g\<rparr>"
    unfolding with_flow_Inr by blast
  show thesis
    by (rule that [of f g k]) (use k f t in \<open>auto simp: with_scheduler_Inr enqueue_control_Inr\<close>)
qed

lemma data_after_half_close:
  assumes "apply_active_inbound r now (HalfClose \<lparr>hc_stream_id = i\<rparr>) = (Inr (), r1)"
  shows "fst (apply_active_inbound r1 now' (Data \<lparr>da_stream_id = i, da_payload = d\<rparr>)) =
    Inl (if length d \<le> usize_max then FlowControlViolation else IntegerOverflow)"
proof -
  from assms obtain f g where f: "require_capability r TCP_CONNECT_V1 = Inr ()"
    "ss_flow r = Some f" "receive_half_close f now i = (Inr (), g)" "r1 = r\<lparr>ss_flow := Some g\<rparr>"
    by (auto simp: apply_active_inbound_def result_simps with_flow_Inr)
  then obtain st where "fmlookup (fc_streams g) i = Some st" "st_remote_half_closed st"
    by (auto simp: receive_half_close_def result_simps split: if_splits)
  with f show ?thesis
    by (auto simp: apply_active_inbound_def require_capability_def with_flow_def debit_receive_def
        usize_to_u64_def Let_def split: if_splits prod.splits)
qed

lemma stream_queue_enqueue:
  assumes "can_enqueue_stream f i (oi_accounted_bytes x) = Inr ()"
  shows "stream_queue (snd (enqueue_stream f i x)) i = stream_queue f i @ [x]"
    "fs_control (snd (enqueue_stream f i x)) = fs_control f"
    "fs_control_burst (snd (enqueue_stream f i x)) = fs_control_burst f"
    "fs_active f = [] \<Longrightarrow> stream_queue f i = [] \<Longrightarrow> fs_active (snd (enqueue_stream f i x)) = [i]"
proof -
  obtain g where g: "enqueue_stream f i x = (Inr (), g)"
    using enqueue_stream_Inr [of f i x] assms by blast
  note enqueue_stream_Inr [of f i x g, THEN iffD1, OF g]
  then show "stream_queue (snd (enqueue_stream f i x)) i = stream_queue f i @ [x]"
    "fs_control (snd (enqueue_stream f i x)) = fs_control f"
    "fs_control_burst (snd (enqueue_stream f i x)) = fs_control_burst f"
    "fs_active f = [] \<Longrightarrow> stream_queue f i = [] \<Longrightarrow> fs_active (snd (enqueue_stream f i x)) = [i]"
    by (auto simp: g stream_queue_def fm_get_or_def)
qed

lemma overtaking:
  assumes idle: "fs_control (ss_scheduler s) = []" "fs_control_burst (ss_scheduler s) < MAX_CONTROL_BURST"
    and data: "try_queue_data p s now i payload = (Inr n, s1)"
    and close: "half_close p s1 now' i = (Inr (), s2)"
  shows "\<exists>x y g q. pop_next (ss_scheduler s2) = (Some x, g) \<and>
     oi_body x = HalfClose \<lparr>hc_stream_id = i\<rparr> \<and> stream_queue g i = q @ [y] \<and>
     oi_body y = Data \<lparr>da_stream_id = i, da_payload = take n payload\<rparr>"
proof -
  let ?b = "Data \<lparr>da_stream_id = i, da_payload = take n payload\<rparr>"
  from data obtain k fl where can: "can_enqueue_stream (ss_scheduler s) i k = Inr ()"
    and s1: "s1 = s\<lparr>ss_flow := fl, ss_scheduler := snd (enqueue_stream (ss_scheduler s) i
            \<lparr>oi_body = ?b, oi_accounted_bytes = k\<rparr>)\<rparr>"
    by (rule try_queue_data_Inr) blast
  let ?y = "\<lparr>oi_body = ?b, oi_accounted_bytes = k\<rparr>"
  note q = stream_queue_enqueue [of "ss_scheduler s" i ?y, simplified, OF can]
  from close obtain j fl' where s2: "s2 = s1\<lparr>ss_flow := fl', ss_scheduler := (ss_scheduler s1)
          \<lparr>fs_queued_bytes := fs_queued_bytes (ss_scheduler s1) + j,
           fs_control := fs_control (ss_scheduler s1) @
             [\<lparr>oi_body = HalfClose \<lparr>hc_stream_id = i\<rparr>, oi_accounted_bytes = j\<rparr>]\<rparr>\<rparr>"
    by (rule half_close_Inr) blast
  have "stream_queue (snd (pop_next (ss_scheduler s2))) i = stream_queue (ss_scheduler s) i @ [?y]"
    "fst (pop_next (ss_scheduler s2)) =
       Some \<lparr>oi_body = HalfClose \<lparr>hc_stream_id = i\<rparr>, oi_accounted_bytes = j\<rparr>"
    using q idle by (simp_all add: s2 s1 pop_next_def pop_control_def stream_queue_def)
  then show ?thesis
    by (cases "pop_next (ss_scheduler s2)") fastforce
qed

section \<open>A chunk can be larger than the negotiated frame\<close>

lemma pop_only_stream:
  assumes inv: "fs_inv f" and idle: "fs_control f = []" "fs_active f = []"
    and can: "can_enqueue_stream f i (oi_accounted_bytes x) = Inr ()"
  shows "\<exists>h. pop_next (snd (enqueue_stream f i x)) = (Some x, h)"
proof -
  let ?g = "snd (enqueue_stream f i x)"
  have empty: "stream_queue f i = []" using fs_inv_inactive [OF inv] idle by simp
  note g = stream_queue_enqueue [OF can]
  have "fmlookup (fs_streams ?g) i = Some [x]"
    using g(1) empty by (auto simp: stream_queue_def fm_get_or_def split: option.splits)
  with g(2) g(4) [OF idle(2) empty] idle show ?thesis
    by (auto simp: pop_next_def pop_stream_def Let_def split: option.splits)
qed

text \<open>An encoded \<open>Data\<close> frame is at least as long as the payload it carries.\<close>

definition payload_encoded :: "prost \<Rightarrow> bool" where
  "payload_encoded p \<longleftrightarrow>
     (\<forall>f d. gf_body f = Some (Data d) \<longrightarrow> length (da_payload d) \<le> p_encoded_len p f)"

lemma oversized_chunk:
  assumes inv: "session_inv s" and sizes: "payload_encoded p"
    and idle: "fs_control (ss_scheduler s) = []" "fs_active (ss_scheduler s) = []"
    and data: "try_queue_data p s now i payload = (Inr n, t)"
    and large: "ss_maximum_frame_size s < n" and seq: "unat (ss_next_send_sequence s) < 2 ^ 64 - 1"
  shows "\<exists>len u. flush_one p t = (Inl (FrameTooLarge len (ss_maximum_frame_size s)), u) \<and>
    ss_phase u = PhaseClosed \<and> tr_output (ss_transport u) = tr_output (ss_transport s)"
proof -
  let ?b = "Data \<lparr>da_stream_id = i, da_payload = take n payload\<rparr>"
  from data obtain k fl where n: "n = min (length payload) MAX_DATA_PAYLOAD" "payload \<noteq> []"
      "validate_stream_id i = Inr ()"
    and can: "can_enqueue_stream (ss_scheduler s) i k = Inr ()"
    and t: "t = s\<lparr>ss_flow := fl, ss_scheduler := snd (enqueue_stream (ss_scheduler s) i
            \<lparr>oi_body = ?b, oi_accounted_bytes = k\<rparr>)\<rparr>"
    by (rule try_queue_data_Inr) blast
  let ?x = "\<lparr>oi_body = ?b, oi_accounted_bytes = k\<rparr>"
  obtain h where pop: "pop_next (ss_scheduler t) = (Some ?x, h)"
    using pop_only_stream [of "ss_scheduler s" i ?x, simplified, OF _ idle can] session_inv_parts(1) [OF inv]
    by (auto simp: t scheduler_ok_inv)
  have v: "checked_add_u64 (ss_next_send_sequence s) 1 = Some (ss_next_send_sequence s + 1)"
    using seq by (simp add: checked_add_u64_def)
  have valid: "validate_frame (outbound_frame s ?x) {||} = Inr ()"
    using inv n by (simp add: session_inv_def outbound_frame_def validate_frame_v1 validate_data_def
        bounded_nonempty_def bounded_range_def result_simps MAX_DATA_PAYLOAD_def Suc_le_eq)
  let ?len = "p_encoded_len p (outbound_frame s ?x)"
  have "n \<le> ?len"
    using n(1) sizes [unfolded payload_encoded_def, rule_format, of "outbound_frame s ?x"
        "\<lparr>da_stream_id = i, da_payload = take n payload\<rparr>"]
    by (simp add: outbound_frame_def)
  then have "encode_frame p (outbound_frame s ?x) (ss_maximum_frame_size s) =
      Inl (FrameTooLarge ?len (ss_maximum_frame_size s))"
    using inv large
    by (auto simp: encode_frame_def validate_maximum_def session_inv_def validate_limits_def
        result_simps)
  moreover have "ss_phase s \<noteq> PhaseClosed"
    using data by (auto simp: try_queue_data_def require_active_or_draining_def)
  ultimately show ?thesis
    using valid v session_inv_parts(5) [OF inv]
    by (simp add: flush_one_def flush_one_inner_def pop Let_def write_frame_def close_on_error_def
        outbound_frame_def) (simp add: t)
qed

section \<open>Capabilities\<close>

text \<open>The capability each operation and each message needs.\<close>

fun op_capability :: "session_op \<Rightarrow> string option" where
  "op_capability (OpOpenTcp _) = Some TCP_CONNECT_V1"
| "op_capability (OpAcceptTcp _ _) = Some TCP_CONNECT_V1"
| "op_capability (OpRejectTcp _) = Some TCP_CONNECT_V1"
| "op_capability (OpQueueData _ _) = Some TCP_CONNECT_V1"
| "op_capability (OpGrantCredit _ _) = Some FLOW_CONTROL_V1"
| "op_capability (OpHalfClose _) = Some TCP_CONNECT_V1"
| "op_capability (OpCloseStream _ _) = Some TCP_CONNECT_V1"
| "op_capability (OpResolve _) = Some RESOLVE_DOMAIN_V1"
| "op_capability (OpResolveResult _) = Some RESOLVE_DOMAIN_V1"
| "op_capability (OpQueueControl (RotateSession _)) = Some SESSION_ROTATION_V1"
| "op_capability (OpQueueControl (SessionRotated _)) = Some SESSION_ROTATION_V1"
| "op_capability _ = None"

fun body_capability :: "body \<Rightarrow> string option" where
  "body_capability (OpenTcpStream _) = Some TCP_CONNECT_V1"
| "body_capability (TcpStreamOpened _) = Some TCP_CONNECT_V1"
| "body_capability (TcpStreamRejected _) = Some TCP_CONNECT_V1"
| "body_capability (Data _) = Some TCP_CONNECT_V1"
| "body_capability (WindowUpdate _) = Some FLOW_CONTROL_V1"
| "body_capability (HalfClose _) = Some TCP_CONNECT_V1"
| "body_capability (CloseStream _) = Some TCP_CONNECT_V1"
| "body_capability (ResolveDomain _) = Some RESOLVE_DOMAIN_V1"
| "body_capability (ResolveResult _) = Some RESOLVE_DOMAIN_V1"
| "body_capability (RotateSession _) = Some SESSION_ROTATION_V1"
| "body_capability (SessionRotated _) = Some SESSION_ROTATION_V1"
| "body_capability _ = None"

lemma op_needs_capability:
  assumes "session_apply p op now s = (Inr (), t)" "op_capability op = Some c"
  shows "c |\<in>| ss_enabled_capabilities s"
  using assms
  by (cases op rule: op_capability.cases)
    (auto simp: open_tcp_def accept_tcp_def reject_tcp_def try_queue_data_def
      session_grant_receive_credit_def half_close_def close_stream_def resolve_def
      resolve_result_def queue_control_def result_simps require_capability_def split: if_splits)

lemma body_needs_capability:
  assumes "apply_active_inbound s now b = (Inr (), t)" "body_capability b = Some c"
  shows "c |\<in>| ss_enabled_capabilities s"
  using assms
  by (cases b) (auto simp: apply_active_inbound_def result_simps require_capability_def split: if_splits)

lemma granted_subset:
  assumes "set_granted_capabilities s granted = (r, t)"
  shows "ss_enabled_capabilities t |\<subseteq>| ss_enabled_capabilities s"
  using assms
  by (cases "validate_capabilities granted")
    (auto simp: set_granted_capabilities_def Let_def split: if_splits)

section \<open>Example sessions\<close>

definition example_negotiated :: negotiated_parameters where
  "example_negotiated =
     \<lparr>np_selected_version = \<lparr>pv_major = 1, pv_minor = 0\<rparr>, np_session_id = replicate 16 7,
      np_maximum_frame_size = 1024, np_peer_connection_receive_window = 1048576,
      np_local_connection_receive_window = 1048576, np_maximum_concurrent_streams = 4,
      np_enabled_capabilities = {|TCP_CONNECT_V1, FLOW_CONTROL_V1|},
      np_idle_stream_timeout = 1000, np_next_phase = AwaitingAuthenticationResult\<rparr>"

definition example_queues :: fair_scheduler where
  "example_queues =
     \<lparr>fs_control = [], fs_streams = fmempty, fs_per_stream_bytes = fmempty, fs_active = [],
      fs_queued_bytes = 0, fs_maximum_queued_bytes = 8388608,
      fs_maximum_queued_bytes_per_stream = 262144, fs_maximum_control_frames = 256,
      fs_control_burst = 0\<rparr>"

definition example_transport :: transport where
  "example_transport = \<lparr>tr_input = [], tr_output = [], tr_write_ok = True\<rparr>"

definition example_client :: "transport \<Rightarrow> session" where
  "example_client t =
     \<lparr>ss_transport = t, ss_local_role = RoleClient, ss_phase = Active,
      ss_limits = default_limits\<lparr>lim_idle_stream_timeout := 1000\<rparr>,
      ss_maximum_frame_size = 1024, ss_outbound_version = \<lparr>pv_major = 1, pv_minor = 0\<rparr>,
      ss_selected_version = Some \<lparr>pv_major = 1, pv_minor = 0\<rparr>, ss_session_id = replicate 16 7,
      ss_next_send_sequence = 1, ss_next_receive_sequence = 1,
      ss_enabled_critical_extensions = {||},
      ss_enabled_capabilities = {|TCP_CONNECT_V1, FLOW_CONTROL_V1|},
      ss_scheduler = example_queues, ss_flow = Some example_flow, ss_local_resolves = {||},
      ss_remote_resolves = {||}, ss_maximum_seen_local_query_id = 0,
      ss_maximum_seen_remote_query_id = 0\<rparr>"

lemma validate_capabilities_fset:
  "validate_capabilities (sorted_list_of_fset S) = Inr () \<longleftrightarrow>
     fcard S \<le> MAX_CAPABILITIES \<and> (\<forall>x. x |\<in>| S \<longrightarrow> validate_capability x = Inr ())"
  by (simp add: validate_capabilities_def result_simps sorted_list_of_fset.rep_eq fcard.rep_eq for_all_eq_Inr Ball_def)

lemma example_capabilities:
  "validate_capability TCP_CONNECT_V1 = Inr ()" "validate_capability FLOW_CONTROL_V1 = Inr ()"
  by (simp_all add: validate_capability_def capability_name_def strip_prefix_def
      capability_byte_def ascii_defs limit_defs starts_with_char_def ends_with_char_def
      capability_name_defs)

lemma example_capability_set:
  "validate_capabilities (sorted_list_of_fset {|TCP_CONNECT_V1, FLOW_CONTROL_V1|}) = Inr ()"
  unfolding validate_capabilities_fset
  by (simp add: example_capabilities fcard.rep_eq card_insert_if limit_defs)

lemma example_client_reach: "reach session_start (session_step p) (example_client t)"
proof -
  let ?c = "example_client t"
  let ?a = "?c\<lparr>ss_phase := AwaitingAuthenticationResult\<rparr>"
  let ?n = "?c\<lparr>ss_phase := AwaitingServerHello, ss_limits := default_limits,
      ss_maximum_frame_size := 65536, ss_selected_version := None, ss_session_id := [],
      ss_enabled_capabilities := {||}, ss_flow := None\<rparr>"
  have "new_client t default_limits \<lparr>pv_major = 1, pv_minor = 0\<rparr> = Inr ?n"
    by (simp add: new_client_def session_new_def default_limits_def validate_limits_def limit_defs
        scheduler_new_def example_client_def example_queues_def)
  then have n: "reach session_start (session_step p) ?n"
    unfolding session_start_def by (blast intro: reach_start)
  have "configure_negotiated ?n example_negotiated = (Inr (), ?a)"
    by (simp add: configure_negotiated_def example_negotiated_def example_client_def
        default_limits_def limit_defs example_flow_new example_capability_set)
  then have a: "reach session_start (session_step p) ?a"
    by (rule reach_step [OF n session_step.configure])
  have "mark_active ?a = (Inr (), ?c)"
    by (simp add: mark_active_def example_client_def)
  then show ?thesis by (rule reach_step [OF a session_step.activate])
qed

lemma example_client_inv: "session_inv (example_client t)"
  by (rule sessionm.reach_inv [OF example_client_reach])

lemma example_open_inv: "fc_inv example_open"
  by (auto simp: fc_inv_def stream_ok_def example_open_def example_flow_def example_stream_def
      set_stream_def stream_count_def limit_defs fcard.rep_eq split: if_splits)

section \<open>Properties\<close>

text \<open>
  C12. The session invariant. In every session that any sequence of operations, received
  bytes and handshake steps can produce, the bytes and control frames queued are within the
  configured limits, the resolves outstanding in both directions too, the maximum frame size
  is within the protocol's, sequence numbers are never zero, and once negotiation is over
  there are a ledger whose windows are all in bounds, a selected version that is the one
  written to the wire, and a session identifier of sixteen bytes.
\<close>

theorem session_invariant:
  assumes "reach session_start (session_step p) s"
  shows "fs_queued_bytes (ss_scheduler s) \<le> lim_maximum_queued_bytes (ss_limits s) \<and>
    length (fs_control (ss_scheduler s)) \<le> lim_maximum_control_frames (ss_limits s) \<and>
    (\<forall>i. queue_bytes (stream_queue (ss_scheduler s) i)
           \<le> lim_maximum_queued_bytes_per_stream (ss_limits s)) \<and>
    fcard (ss_local_resolves s) \<le> lim_maximum_outstanding_resolves (ss_limits s) \<and>
    fcard (ss_remote_resolves s) \<le> lim_maximum_outstanding_resolves (ss_limits s) \<and>
    0 < ss_maximum_frame_size s \<and> ss_maximum_frame_size s \<le> ABSOLUTE_MAX_FRAME_SIZE \<and>
    ss_next_send_sequence s \<noteq> 0 \<and> ss_next_receive_sequence s \<noteq> 0 \<and>
    (ss_phase s \<in> {Active, Draining} \<longrightarrow>
       pred_option fc_inv (ss_flow s) \<and> ss_flow s \<noteq> None \<and>
       ss_selected_version s = Some (ss_outbound_version s) \<and> length (ss_session_id s) = 16)"
  using sessionm.reach_inv [OF assms]
  by (auto simp: session_inv_def scheduler_ok_def fs_inv_def resolves_ok_def negotiated_phase_def
      validate_limits_def result_simps)

theorem session_invariant_witness:
  "ss_phase (example_client example_transport) = Active \<and>
   length (ss_session_id (example_client example_transport)) = 16 \<and>
   fs_queued_bytes (ss_scheduler (example_client example_transport)) \<le> 8388608"
  using session_invariant [OF example_client_reach, of example_transport]
  by (simp add: example_client_def default_limits_def)

text \<open>
  C13. Failed operations change nothing. When any of the eleven outbound operations of a
  session returns an error, whatever the error, the session is exactly what it was: no
  credit is spent, no stream changes state, no query identifier is used up and nothing
  is queued.
\<close>

theorem failed_operations_change_nothing:
  assumes "session_apply p op now s = (Inl e, t)"
  shows "t = s"
  using session_apply_atomic [of s p op now] assms by (simp add: atomic_at_def)

theorem failed_operations_change_nothing_witness:
  "session_apply example_prost (OpQueueData 1 [5]) 9 (example_client example_transport) =
     (Inl InvalidStreamId, example_client example_transport)"
proof -
  let ?s = "example_client example_transport"
  obtain t where t: "session_apply example_prost (OpQueueData 1 [5]) 9 ?s = (Inl InvalidStreamId, t)"
    by (simp add: example_client_def try_queue_data_def require_active_or_draining_def
        require_capability_def validate_stream_id_def accounted_body_size_def validate_frame_def
        validate_data_def bounded_nonempty_def bounded_range_def limit_defs Let_def
        example_prost_def example_ping_bytes_eq FRAME_ACCOUNTING_OVERHEAD_def checked_add_usize_def
        can_enqueue_stream_def reserve_global_def example_queues_def stream_bytes_def
        with_flow_def example_flow_def debit_send_def usize_to_u64_def stream_mut_def)
  with failed_operations_change_nothing [OF t] show ?thesis by simp
qed

lemma receive_Inl: "receive p s now = (Inl e, t) \<Longrightarrow> ss_phase t = PhaseClosed"
  unfolding receive_def by (rule close_on_error_Inl)

text \<open>
  Errors are fatal and final. After receiving or flushing has failed the session is
  closed, and a closed session refuses every operation, every flush and every receive with
  \<open>Closed\<close>, without changing any more; nor can the handshake reopen it.
\<close>

theorem errors_close_the_session:
  assumes "receive p s now = (Inl e, t) \<or> flush_one p s = (Inl e, t) \<or> flush_all p s = (Inl e, t)"
  shows "ss_phase t = PhaseClosed \<and> session_apply p op now' t = (Inl Closed, t) \<and>
    flush_one p t = (Inl Closed, t) \<and> flush_all p t = (Inl Closed, t) \<and>
    receive p t now' = (Inl Closed, t) \<and> fst (mark_active t) \<noteq> Inr () \<and>
    fst (queue_handshake p t b) \<noteq> Inr ()"
proof -
  have c: "ss_phase t = PhaseClosed"
    using assms by (elim disjE) (erule receive_Inl flush_one_Inl flush_all_Inl)+
  then show ?thesis by (simp add: closed_inert [OF c])
qed

theorem errors_close_the_session_witness:
  "\<exists>t. receive example_prost (example_client example_transport) 3 = (Inl Io, t) \<and>
     receive example_prost t 4 = (Inl Closed, t)"
proof -
  let ?s = "example_client example_transport"
  have five: "MAX_U32_VARINT_BYTES = Suc 4" by (simp add: MAX_U32_VARINT_BYTES_def)
  have "read_prefix MAX_U32_VARINT_BYTES [] example_transport = (Inl Io, example_transport)"
    unfolding five read_prefix.simps by (simp add: read_exact_def example_transport_def)
  then obtain t where t: "receive example_prost ?s 3 = (Inl Io, t)"
    by (simp add: receive_def receive_inner_def example_client_def read_frame_def
        validate_maximum_def ABSOLUTE_MAX_FRAME_SIZE_def close_on_error_def)
  with errors_close_the_session [of example_prost ?s 3 Io t "OpHalfClose 1" 4 "Ping []"]
  show ?thesis by simp
qed

text \<open>
  C19. Frames are accepted in sequence. When a session has accepted a series of frames, their
  sequence numbers are the consecutive numbers from the one it expected on, so no frame was
  replayed, dropped or reordered, and the bodies delivered are those of the frames, in order.
\<close>

theorem frames_accepted_in_sequence:
  assumes "process_frames s frames = (Inr bodies, t)"
  shows "map (\<lambda>(_, f). unat (gf_sequence f)) frames =
      [unat (ss_next_receive_sequence s) ..< unat (ss_next_receive_sequence s) + length frames] \<and>
    map (\<lambda>(_, f). gf_body f) frames = map Some bodies"
  using assms by (rule process_frames_Inr)

lemma example_ping_processed:
  "process_frame (example_client t) now example_ping =
     (Inr (Ping (replicate 8 9)), (example_client t)\<lparr>ss_next_receive_sequence := 2\<rparr>)"
  by (simp add: process_frame_def example_client_def example_ping_def validate_frame_def
      bounded_range_def checked_add_u64_def validate_frame_context_def apply_inbound_def
      apply_active_inbound_def Let_def)

theorem frames_accepted_in_sequence_witness:
  "unat (gf_sequence example_ping) = 1 \<and>
   fst (process_frames (example_client example_transport) [(3, example_ping)]) =
     Inr [Ping (replicate 8 9)]"
proof -
  let ?s = "example_client example_transport"
  have "process_frames ?s [(3, example_ping)] =
      (Inr [Ping (replicate 8 9)], ?s\<lparr>ss_next_receive_sequence := 2\<rparr>)"
    by (simp add: example_ping_processed)
  with frames_accepted_in_sequence [OF this] show ?thesis by (simp add: example_client_def)
qed

text \<open>
  C11. What one peer flushes the other receives. When a session has flushed a queued body and
  the bytes it wrote arrive at a peer that is in step with it (same version, session, frame
  limit and sequence number), the peer's \<open>receive\<close> applies exactly that body, with the
  sequence number advanced on both sides and the following bytes left in place.
\<close>

theorem flushed_frames_are_delivered:
  assumes "flush_one p s = (Inr True, t)" "pop_next (ss_scheduler s) = (Some x, g)"
    and "prost_conforms p (outbound_frame s x)"
    and "tr_output (ss_transport t) = tr_output (ss_transport s) @ bs"
    and "tr_input (ss_transport r) = bs @ rest"
    and "in_step s r" "ss_phase r \<in> {Active, Draining}"
  shows "receive p r now = close_on_error (bindS
      (apply_active_inbound (r\<lparr>ss_transport := (ss_transport r)\<lparr>tr_input := rest\<rparr>,
         ss_next_receive_sequence := ss_next_send_sequence t\<rparr>) now (oi_body x))
      (\<lambda>_ u. (Inr (oi_body x), u)))"
  using assms by (rule delivery)

definition example_sender :: session where
  "example_sender = (example_client example_transport)\<lparr>ss_scheduler := example_queues
     \<lparr>fs_control := [\<lparr>oi_body = Ping (replicate 8 9), oi_accounted_bytes = 165\<rparr>],
      fs_queued_bytes := 165\<rparr>\<rparr>"

lemma example_sender_frame:
  "outbound_frame example_sender \<lparr>oi_body = Ping (replicate 8 9), oi_accounted_bytes = 165\<rparr> = example_ping"
  by (simp add: outbound_frame_def example_sender_def example_client_def example_ping_def)

lemma example_flush:
  "flush_one example_prost example_sender =
     (Inr True, (example_client example_transport)\<lparr>ss_next_send_sequence := 2,
        ss_scheduler := example_queues\<lparr>fs_control_burst := 1\<rparr>,
        ss_transport := example_transport\<lparr>tr_output := 37 # example_ping_bytes\<rparr>\<rparr>)"
proof -
  let ?f = "\<lparr>gf_sequence = 1, gf_version = Some \<lparr>pv_major = 1, pv_minor = 0\<rparr>,
     gf_critical_extension_ids = [], gf_session_id = replicate 16 7,
     gf_body = Some (Ping (replicate 8 9))\<rparr>"
  have "validate_frame ?f {||} = Inr ()" by (simp add: validate_frame_def bounded_range_def)
  moreover have "encode_frame example_prost ?f 1024 = Inr (37 # example_ping_bytes)"
    using example_ping_frame by (simp add: example_ping_def)
  ultimately show ?thesis
    by (simp add: flush_one_def flush_one_inner_def example_sender_def example_client_def
        example_queues_def pop_next_def pop_control_def MAX_CONTROL_BURST_def Let_def
        checked_add_u64_def write_frame_def write_all_def example_transport_def close_on_error_def)
qed

theorem flushed_frames_are_delivered_witness:
  "receive example_prost
     (example_client (example_transport\<lparr>tr_input := 37 # example_ping_bytes\<rparr>)) 4 =
   (Inr (Ping (replicate 8 9)), (example_client example_transport)\<lparr>ss_next_receive_sequence := 2\<rparr>)"
proof -
  let ?r = "example_client (example_transport\<lparr>tr_input := 37 # example_ping_bytes\<rparr>)"
  have pop: "pop_next (ss_scheduler example_sender) =
      (Some \<lparr>oi_body = Ping (replicate 8 9), oi_accounted_bytes = 165\<rparr>,
       example_queues\<lparr>fs_control_burst := 1\<rparr>)"
    by (simp add: example_sender_def example_queues_def pop_next_def pop_control_def
        MAX_CONTROL_BURST_def)
  show ?thesis
    using flushed_frames_are_delivered [OF example_flush pop, of "37 # example_ping_bytes" ?r "[]" 4]
    by (simp add: example_sender_frame example_prost_conforms)
      (simp add: example_sender_def in_step_def example_client_def example_transport_def
        apply_active_inbound_def close_on_error_def)
qed

text \<open>
  C20. Capabilities gate the session. An operation, and an inbound message, that belongs to a
  capability succeeds only when that capability is enabled, and the capabilities granted
  with the authentication are a subset of the negotiated ones, whatever the answer.
\<close>

theorem capabilities_gate_the_session:
  shows "(session_apply p op now s = (Inr (), t) \<and> op_capability op = Some c \<longrightarrow>
      c |\<in>| ss_enabled_capabilities s) \<and>
    (apply_active_inbound s now b = (Inr (), t') \<and> body_capability b = Some c \<longrightarrow>
      c |\<in>| ss_enabled_capabilities s) \<and>
    ss_enabled_capabilities (snd (set_granted_capabilities s granted))
      |\<subseteq>| ss_enabled_capabilities s"
  using op_needs_capability [of p op now s t c] body_needs_capability [of s now b t' c]
    granted_subset [of s granted] by (metis prod.collapse)

text \<open>A client with an open stream, for the operations on streams.\<close>

definition example_streaming :: session where
  "example_streaming = (example_client example_transport)\<lparr>ss_flow := Some example_open\<rparr>"

lemma example_streaming_inv: "session_inv example_streaming"
  unfolding example_streaming_def by (intro session_inv_flow example_client_inv example_open_inv)

lemma example_accounted:
  "validate_body b = Inr () \<Longrightarrow> accounted_body_size example_prost b = Inr 165"
  by (simp add: accounted_body_size_def validate_frame_def example_prost_def example_ping_bytes_eq
      FRAME_ACCOUNTING_OVERHEAD_def checked_add_usize_def)

lemmas example_evaluation =
  example_streaming_def example_client_def example_queues_def require_active_or_draining_def
  require_capability_def validate_stream_id_def can_enqueue_stream_def can_enqueue_control_def
  enqueue_stream_def enqueue_control_def
  reserve_global_def stream_bytes_def stream_queue_def checked_add_usize_def with_flow_def
  with_scheduler_def debit_send_def local_half_close_def usize_to_u64_def stream_mut_def
  set_stream_def example_open_def example_flow_def example_stream_def Let_def fm_get_or_def

lemma example_data_queued:
  "\<exists>t. try_queue_data example_prost example_streaming 6 1 [5] = (Inr 1, t) \<and>
     (\<exists>u. half_close example_prost t 7 1 = (Inr (), u))"
  by (simp add: try_queue_data_def half_close_def reserve_update_enqueue_def example_accounted
      validate_data_def bounded_nonempty_def bounded_range_def limit_defs example_evaluation)

theorem capabilities_gate_the_session_witness:
  "TCP_CONNECT_V1 |\<in>| ss_enabled_capabilities example_streaming \<and>
   (\<exists>t. session_apply example_prost (OpQueueData 1 [5]) 6 example_streaming = (Inr (), t))"
proof -
  obtain t where t: "session_apply example_prost (OpQueueData 1 [5]) 6 example_streaming = (Inr (), t)"
    using example_data_queued by auto
  with capabilities_gate_the_session [of example_prost "OpQueueData 1 [5]" 6 example_streaming t]
  show ?thesis by auto
qed

text \<open>
  A half-close overtakes the data queued before it. When a caller queues data on a stream
  and then half-closes it, an otherwise idle control queue sends the \<open>HalfClose\<close> first,
  with the data still queued; a peer that has applied the \<open>HalfClose\<close> answers that data
  with an error, which closes its session.
\<close>

theorem half_close_overtakes_data:
  assumes "fs_control (ss_scheduler s) = []" "fs_control_burst (ss_scheduler s) < MAX_CONTROL_BURST"
    and "try_queue_data p s now i payload = (Inr n, s1)" "half_close p s1 now' i = (Inr (), s2)"
  shows "(\<exists>x y g q. pop_next (ss_scheduler s2) = (Some x, g) \<and>
     oi_body x = HalfClose \<lparr>hc_stream_id = i\<rparr> \<and> stream_queue g i = q @ [y] \<and>
     oi_body y = Data \<lparr>da_stream_id = i, da_payload = take n payload\<rparr>) \<and>
   (apply_active_inbound r t1 (HalfClose \<lparr>hc_stream_id = i\<rparr>) = (Inr (), r1) \<longrightarrow>
     fst (apply_active_inbound r1 t2 (Data \<lparr>da_stream_id = i, da_payload = take n payload\<rparr>)) =
       Inl FlowControlViolation)"
proof -
  have "n \<le> MAX_DATA_PAYLOAD" using assms(3) by (rule try_queue_data_Inr) simp
  then have "length (take n payload) \<le> usize_max" by (simp add: MAX_DATA_PAYLOAD_def)
  with overtaking [OF assms] data_after_half_close [of r t1 i r1 t2 "take n payload"]
  show ?thesis by simp
qed

theorem half_close_overtakes_data_witness:
  "\<exists>s1 s2 x g. try_queue_data example_prost example_streaming 6 1 [5] = (Inr 1, s1) \<and>
     half_close example_prost s1 7 1 = (Inr (), s2) \<and>
     pop_next (ss_scheduler s2) = (Some x, g) \<and> oi_body x = HalfClose \<lparr>hc_stream_id = 1\<rparr>"
proof -
  obtain s1 s2 where s: "try_queue_data example_prost example_streaming 6 1 [5] = (Inr 1, s1)"
    "half_close example_prost s1 7 1 = (Inr (), s2)"
    using example_data_queued by blast
  have "fs_control (ss_scheduler example_streaming) = []"
    "fs_control_burst (ss_scheduler example_streaming) < MAX_CONTROL_BURST"
    by (simp_all add: example_evaluation MAX_CONTROL_BURST_def)
  from conjunct1 [OF half_close_overtakes_data [OF this s]] s show ?thesis by blast
qed

text \<open>
  A chunk can be larger than the negotiated frame. \<open>try_queue_data\<close> cuts the payload at
  32 KiB whatever frame size was negotiated. When that is smaller than the chunk, the chunk
  is accepted, its credit is spent, and the next flush of the otherwise empty queues fails
  with \<open>FrameTooLarge\<close>, writes nothing and closes the session.
\<close>

theorem oversized_chunk_closes_session:
  assumes "session_inv s" "payload_encoded p"
    and "fs_control (ss_scheduler s) = []" "fs_active (ss_scheduler s) = []"
    and "try_queue_data p s now i payload = (Inr n, t)"
    and "ss_maximum_frame_size s < n" "unat (ss_next_send_sequence s) < 2 ^ 64 - 1"
  shows "\<exists>len u. flush_one p t = (Inl (FrameTooLarge len (ss_maximum_frame_size s)), u) \<and>
    ss_phase u = PhaseClosed \<and> tr_output (ss_transport u) = tr_output (ss_transport s)"
  using assms by (rule oversized_chunk)

definition sizing_prost :: prost where
  "sizing_prost = \<lparr>p_encode = (\<lambda>_. []),
     p_encoded_len = (\<lambda>f. case gf_body f of Some (Data d) \<Rightarrow> length (da_payload d) + 40 | _ \<Rightarrow> 40),
     p_decode = (\<lambda>_. None)\<rparr>"

lemma sizing_prost_payload: "payload_encoded sizing_prost"
  by (simp add: payload_encoded_def sizing_prost_def)

lemma example_large_chunk:
  "\<exists>t. try_queue_data sizing_prost example_streaming 6 1 (replicate 2000 0) = (Inr 2000, t)"
proof -
  have "accounted_body_size sizing_prost
      (Data \<lparr>da_stream_id = 1, da_payload = replicate 2000 0\<rparr>) = Inr 2168"
    by (simp add: accounted_body_size_def validate_frame_def validate_data_def validate_stream_id_def
        bounded_nonempty_def bounded_range_def limit_defs sizing_prost_def
        FRAME_ACCOUNTING_OVERHEAD_def checked_add_usize_def)
  then show ?thesis
    by (simp add: try_queue_data_def MAX_DATA_PAYLOAD_def example_evaluation)
qed

theorem oversized_chunk_closes_session_witness:
  "\<exists>t len u. try_queue_data sizing_prost example_streaming 6 1 (replicate 2000 0) = (Inr 2000, t) \<and>
     flush_one sizing_prost t = (Inl (FrameTooLarge len 1024), u) \<and> ss_phase u = PhaseClosed"
proof -
  obtain t where t: "try_queue_data sizing_prost example_streaming 6 1 (replicate 2000 0) = (Inr 2000, t)"
    using example_large_chunk by blast
  have "fs_control (ss_scheduler example_streaming) = []"
    "fs_active (ss_scheduler example_streaming) = []"
    "ss_maximum_frame_size example_streaming = 1024"
    "ss_next_send_sequence example_streaming = 1"
    by (simp_all add: example_evaluation)
  with oversized_chunk_closes_session [OF example_streaming_inv sizing_prost_payload this(1,2) t] t
  show ?thesis by auto
qed

end
