(* ===== verification/Handshake.thy ===== *)
theory Handshake
  imports Session_Laws
begin

text \<open>
  The two handshakes that put a session to work: the reference client of
  \<open>src/crates/gateway-protocol/src/client.rs\<close>, the reference server of \<open>server.rs\<close>, and the
  transcript binding of \<open>binding.rs\<close>. The random number generator, SHA-256, the client's
  authenticator, the server's verifier and the time-out of the async runtime are parameters.
\<close>

section \<open>The transcript binding\<close>

definition AUTH_BINDING_DOMAIN :: bytes where
  "AUTH_BINDING_DOMAIN = map (\<lambda>c. word_of_nat (of_char c)) ''onionroute-gateway-auth-v1'' @ [0]"

text \<open>\<open>u32::to_be_bytes\<close>\<close>

definition to_be_bytes_u32 :: "u32 \<Rightarrow> bytes" where
  "to_be_bytes_u32 w = map (\<lambda>i. ucast (drop_bit i w)) [24, 16, 8, 0]"

definition transcript :: "bytes \<Rightarrow> bytes \<Rightarrow> bytes \<Rightarrow> protocol_version \<Rightarrow> bytes" where
  "transcript client_nonce server_nonce session_id selected =
     AUTH_BINDING_DOMAIN @ client_nonce @ server_nonce @ session_id @
     to_be_bytes_u32 (pv_major selected) @ to_be_bytes_u32 (pv_minor selected)"

definition session_nonce_binding ::
  "(bytes \<Rightarrow> bytes) \<Rightarrow> bytes \<Rightarrow> bytes \<Rightarrow> bytes \<Rightarrow> protocol_version \<Rightarrow> protocol_error + bytes" where
  "session_nonce_binding sha256 client_nonce server_nonce ephemeral_session_id selected_version =
     bindE (ensure (length client_nonce = 32) (InvalidField ''client_nonce'')) (\<lambda>_.
     bindE (ensure (length server_nonce = 32) (InvalidField ''server_nonce'')) (\<lambda>_.
     bindE (ensure (length ephemeral_session_id = 16) (InvalidField ''ephemeral_session_id''))
       (\<lambda>_.
     bindE (ensure (pv_major selected_version \<noteq> 0) (InvalidField ''selected_version'')) (\<lambda>_.
     Inr (sha256 (transcript client_nonce server_nonce ephemeral_session_id selected_version))))))"

section \<open>The client\<close>

text \<open>\<open>session.queue_handshake(body)?; session.flush_all().await?\<close>, in both handshakes.\<close>

definition send_handshake :: "prost \<Rightarrow> session \<Rightarrow> body \<Rightarrow> unit session_result" where
  "send_handshake p s b = bindS (queue_handshake p s b) (\<lambda>_ s. flush_all p s)"

definition error_code_protocol_incompatible :: int where "error_code_protocol_incompatible = 1"
definition error_code_authentication_failed :: int where "error_code_authentication_failed = 4"
definition retry_hint_never :: int where "retry_hint_never = 1"
definition anonymity_mode_standard :: int where "anonymity_mode_standard = 1"

record authentication_material =
  am_anonymous_capability_token :: bytes
  am_proof_of_possession :: bytes

type_synonym authenticator = "bytes \<Rightarrow> protocol_error + authentication_material"

record client_config =
  cc_supported_versions :: protocol_version_range
  cc_capabilities :: "string list"
  cc_anonymity_mode :: int
  cc_desired_country :: string
  cc_limits :: protocol_limits

definition default_client_config :: client_config where
  "default_client_config =
     \<lparr>cc_supported_versions = version_range 1 0 0,
      cc_capabilities = [required_prefix @ TCP_CONNECT_V1, required_prefix @ FLOW_CONTROL_V1],
      cc_anonymity_mode = anonymity_mode_standard, cc_desired_country = [],
      cc_limits = default_limits\<rparr>"

record client_reference =
  cr_session :: session
  cr_granted_capabilities :: "string list"

text \<open>\<open>nonce\<close> is what the random number generator delivered, if it did.\<close>

definition client_hello_of :: "client_config \<Rightarrow> bytes \<Rightarrow> client_hello" where
  "client_hello_of config client_nonce =
     \<lparr>ch_supported_versions = Some (cc_supported_versions config),
      ch_client_capabilities = cc_capabilities config,
      ch_anonymity_mode = cc_anonymity_mode config,
      ch_desired_country = cc_desired_country config, ch_session_nonce = client_nonce,
      ch_maximum_frame_size = word_of_nat (lim_maximum_frame_size (cc_limits config)),
      ch_initial_connection_receive_window = lim_initial_connection_window (cc_limits config),
      ch_initial_stream_receive_window = lim_initial_stream_window (cc_limits config)\<rparr>"

text \<open>Durations are in nanoseconds; \<open>Duration::from_millis\<close> multiplies by a million.\<close>

definition client_parameters :: "client_config \<Rightarrow> server_hello \<Rightarrow> protocol_version \<Rightarrow> negotiated_parameters"
  where
  "client_parameters config server_hello selected =
     \<lparr>np_selected_version = selected,
      np_session_id = sh_ephemeral_session_id server_hello,
      np_maximum_frame_size = min (lim_maximum_frame_size (cc_limits config))
                                  (unat (sh_maximum_frame_size server_hello)),
      np_peer_connection_receive_window = sh_initial_connection_receive_window server_hello,
      np_local_connection_receive_window = lim_initial_connection_window (cc_limits config),
      np_maximum_concurrent_streams = unat (sh_maximum_concurrent_streams server_hello),
      np_enabled_capabilities = fset_of_list (sh_enabled_capabilities server_hello),
      np_idle_stream_timeout = min (lim_idle_stream_timeout (cc_limits config))
                                   (unat (sh_idle_stream_timeout_ms server_hello) * 1000000),
      np_next_phase = AwaitingAuthenticationResult\<rparr>"

text \<open>The reply to the hello and the reply to the authentication, as the client reads them.\<close>

definition expect_server_hello :: "body \<Rightarrow> protocol_error + server_hello" where
  "expect_server_hello b =
     (case b of
        ServerHello hello \<Rightarrow> Inr hello
      | Error error \<Rightarrow>
          if er_code error = error_code_protocol_incompatible then Inl IncompatibleVersion
          else Inl (ProtocolViolation ''hello rejected'')
      | GoAway _ \<Rightarrow> Inl (ProtocolViolation ''hello rejected'')
      | _ \<Rightarrow> Inl (ProtocolViolation ''expected ServerHello''))"

definition expect_authentication_result :: "body \<Rightarrow> protocol_error + authentication_result" where
  "expect_authentication_result b =
     (case b of
        AuthenticationResult result \<Rightarrow> Inr result
      | Error _ \<Rightarrow> Inl AuthenticationRejected
      | GoAway _ \<Rightarrow> Inl AuthenticationRejected
      | _ \<Rightarrow> Inl (ProtocolViolation ''expected AuthenticationResult''))"

definition client_check_hello ::
  "client_config \<Rightarrow> bytes \<Rightarrow> server_hello \<Rightarrow> protocol_error + protocol_version" where
  "client_check_hello config client_nonce server_hello =
     bindE (ensure (sh_echoed_client_nonce server_hello = client_nonce) InvalidSession) (\<lambda>_.
     bindE (ok_or (sh_supported_versions server_hello)
              (InvalidField ''server_supported_versions'')) (\<lambda>server_range.
     bindE (ok_or (sh_selected_version server_hello) (InvalidField ''selected_version''))
       (\<lambda>selected.
     bindE (verify_server_selection (cc_supported_versions config) server_range selected) (\<lambda>_.
     bindE (verify_enabled_capabilities (cc_capabilities config)
              (sh_enabled_capabilities server_hello)) (\<lambda>_.
     Inr selected)))))"

text \<open>The authentication exchange of the client, after the hellos.\<close>

definition client_authenticate ::
  "prost \<Rightarrow> (bytes \<Rightarrow> bytes) \<Rightarrow> authenticator \<Rightarrow> session \<Rightarrow> instant \<Rightarrow> bytes \<Rightarrow> server_hello
     \<Rightarrow> protocol_version \<Rightarrow> string list session_result" where
  "client_authenticate p sha256 authenticator s now client_nonce server_hello selected =
     tryE (session_nonce_binding sha256 client_nonce (sh_server_nonce server_hello)
             (sh_ephemeral_session_id server_hello) selected) s (\<lambda>binding.
     tryE (authenticator binding) s (\<lambda>material.
     bindS (send_handshake p s (Authenticate
              \<lparr>au_anonymous_capability_token = am_anonymous_capability_token material,
               au_proof_of_possession = am_proof_of_possession material,
               au_session_nonce_binding = binding\<rparr>)) (\<lambda>_ s.
     bindS (receive p s now) (\<lambda>b s.
     tryE (expect_authentication_result b) s (\<lambda>result.
     if \<not> ar_accepted result then (Inl AuthenticationRejected, s)
     else
       tryE (verify_enabled_capabilities (sh_enabled_capabilities server_hello)
               (ar_granted_capabilities result)) s (\<lambda>_.
       bindS (set_granted_capabilities s (ar_granted_capabilities result)) (\<lambda>_ s.
       bindS (mark_active s) (\<lambda>_ s.
       (Inr (ar_granted_capabilities result), s)))))))))"

definition client_handshake ::
  "prost \<Rightarrow> (bytes \<Rightarrow> bytes) \<Rightarrow> authenticator \<Rightarrow> client_config \<Rightarrow> bytes \<Rightarrow> session \<Rightarrow> instant \<Rightarrow> instant
     \<Rightarrow> string list session_result" where
  "client_handshake p sha256 authenticator config client_nonce s now1 now2 =
     bindS (send_handshake p s (ClientHello (client_hello_of config client_nonce))) (\<lambda>_ s.
     bindS (receive p s now1) (\<lambda>b s.
     tryE (expect_server_hello b) s (\<lambda>server_hello.
     tryE (client_check_hello config client_nonce server_hello) s (\<lambda>selected.
     bindS (configure_negotiated s (client_parameters config server_hello selected)) (\<lambda>_ s.
     client_authenticate p sha256 authenticator s now2 client_nonce server_hello selected)))))"

definition connect_inner ::
  "prost \<Rightarrow> (bytes \<Rightarrow> bytes) \<Rightarrow> authenticator \<Rightarrow> bytes option \<Rightarrow> transport \<Rightarrow> client_config
     \<Rightarrow> instant \<Rightarrow> instant \<Rightarrow> (protocol_error + client_reference) \<times> transport" where
  "connect_inner p sha256 authenticator nonce t config now1 now2 =
     tryE (validate_limits (cc_limits config)) t (\<lambda>_.
     tryE (ok_or (vr_maximum (cc_supported_versions config)) (InvalidField ''maximum_version'')) t
       (\<lambda>initial_version.
     tryE (ok_or nonce EntropyUnavailable) t (\<lambda>client_nonce.
     tryE (validate_client_hello (client_hello_of config client_nonce)) t (\<lambda>_.
     tryE (new_client t (cc_limits config) initial_version) t (\<lambda>s.
     case client_handshake p sha256 authenticator config client_nonce s now1 now2 of
       (Inl e, s') \<Rightarrow> (Inl e, ss_transport s')
     | (Inr granted, s') \<Rightarrow>
         (Inr \<lparr>cr_session = s', cr_granted_capabilities = granted\<rparr>, ss_transport s'))))))"

text \<open>\<open>timed_out\<close> tells whether the runtime's time-out of \<open>handshake_timeout\<close> fired first.\<close>

definition connect ::
  "bool \<Rightarrow> prost \<Rightarrow> (bytes \<Rightarrow> bytes) \<Rightarrow> authenticator \<Rightarrow> bytes option \<Rightarrow> transport \<Rightarrow> client_config
     \<Rightarrow> instant \<Rightarrow> instant \<Rightarrow> protocol_error + client_reference" where
  "connect timed_out p sha256 authenticator nonce t config now1 now2 =
     (if timed_out then Inl HandshakeTimeout
      else fst (connect_inner p sha256 authenticator nonce t config now1 now2))"

section \<open>The server\<close>

record authentication_decision =
  ad_accepted :: bool
  ad_expires_at_unix_seconds :: int
  ad_granted_capabilities :: "string list"

definition reject_decision :: authentication_decision where
  "reject_decision = \<lparr>ad_accepted = False, ad_expires_at_unix_seconds = 0, ad_granted_capabilities = []\<rparr>"

type_synonym verifier = "bytes \<Rightarrow> bytes \<Rightarrow> bytes \<Rightarrow> protocol_error + authentication_decision"

record server_config =
  sc_supported_versions :: protocol_version_range
  sc_supported_capabilities :: "string fset"
  sc_session_ttl_seconds :: u32
  sc_limits :: protocol_limits

definition default_server_config :: server_config where
  "default_server_config =
     \<lparr>sc_supported_versions = version_range 1 0 0,
      sc_supported_capabilities = {|TCP_CONNECT_V1, FLOW_CONTROL_V1|},
      sc_session_ttl_seconds = 3600, sc_limits = default_limits\<rparr>"

record server_reference =
  sr_session :: session
  sr_granted_capabilities :: "string list"

text \<open>\<open>u32::try_from\<close>\<close>

definition checked_u32 :: "nat \<Rightarrow> u32 option" where
  "checked_u32 n = (if n < 2 ^ 32 then Some (word_of_nat n) else None)"

text \<open>What the random number generator delivers in the course of one handshake.\<close>

record server_entropy =
  se_server_nonce :: "bytes option"
  se_session_id :: "bytes option"
  se_correlation_id :: "bytes option"

definition send_incompatible :: "prost \<Rightarrow> session \<Rightarrow> bytes option \<Rightarrow> unit session_result" where
  "send_incompatible p s correlation =
     tryE (ok_or correlation EntropyUnavailable) s (\<lambda>correlation_id.
     send_handshake p s (Error
       \<lparr>er_code = error_code_protocol_incompatible, er_retry_hint = retry_hint_never,
        er_fatal = True, er_stream_id = 0, er_retry_after_ms = 0,
        er_correlation_id = correlation_id\<rparr>))"

definition send_authentication_result ::
  "prost \<Rightarrow> session \<Rightarrow> authentication_decision \<Rightarrow> unit session_result" where
  "send_authentication_result p s decision =
     send_handshake p s (AuthenticationResult
       \<lparr>ar_accepted = ad_accepted decision,
        ar_error_code = (if ad_accepted decision then 0 else error_code_authentication_failed),
        ar_granted_capabilities = ad_granted_capabilities decision,
        ar_expires_at_unix_seconds = ad_expires_at_unix_seconds decision\<rparr>)"

text \<open>\<open>match negotiation \{ Ok(x) => x, Err(error) => \{ send_incompatible(..)?; return Err(error) \} \}\<close>\<close>

definition or_incompatible ::
  "prost \<Rightarrow> session \<Rightarrow> bytes option \<Rightarrow> protocol_error + 'a \<Rightarrow> ('a \<Rightarrow> 'b session_result) \<Rightarrow> 'b session_result"
  where
  "or_incompatible p s correlation r k =
     (case r of
        Inr a \<Rightarrow> k a
      | Inl e \<Rightarrow> bindS (send_incompatible p s correlation) (\<lambda>_ s. (Inl e, s)))"

definition expect_client_hello :: "body \<Rightarrow> protocol_error + client_hello" where
  "expect_client_hello b =
     (case b of ClientHello hello \<Rightarrow> Inr hello
      | _ \<Rightarrow> Inl (ProtocolViolation ''expected ClientHello''))"

definition expect_authenticate :: "body \<Rightarrow> protocol_error + authenticate" where
  "expect_authenticate b =
     (case b of Authenticate authenticate \<Rightarrow> Inr authenticate
      | _ \<Rightarrow> Inl (ProtocolViolation ''expected Authenticate''))"

definition server_maximum_frame_size :: "server_config \<Rightarrow> client_hello \<Rightarrow> nat" where
  "server_maximum_frame_size config client_hello =
     min (lim_maximum_frame_size (sc_limits config)) (unat (ch_maximum_frame_size client_hello))"

definition server_hello_of ::
  "server_config \<Rightarrow> client_hello \<Rightarrow> protocol_version \<Rightarrow> string list \<Rightarrow> bytes \<Rightarrow> bytes \<Rightarrow> u32 \<Rightarrow> server_hello"
  where
  "server_hello_of config client_hello selected enabled server_nonce session_id idle_timeout_ms =
     \<lparr>sh_supported_versions = Some (sc_supported_versions config),
      sh_selected_version = Some selected, sh_enabled_capabilities = enabled,
      sh_echoed_client_nonce = ch_session_nonce client_hello, sh_server_nonce = server_nonce,
      sh_ephemeral_session_id = session_id,
      sh_maximum_frame_size = word_of_nat (server_maximum_frame_size config client_hello),
      sh_maximum_concurrent_streams =
        word_of_nat (lim_maximum_concurrent_streams (sc_limits config)),
      sh_initial_connection_receive_window = lim_initial_connection_window (sc_limits config),
      sh_initial_stream_receive_window = lim_initial_stream_window (sc_limits config),
      sh_idle_stream_timeout_ms = idle_timeout_ms,
      sh_session_ttl_seconds = sc_session_ttl_seconds config\<rparr>"

definition server_parameters ::
  "server_config \<Rightarrow> client_hello \<Rightarrow> protocol_version \<Rightarrow> string list \<Rightarrow> bytes \<Rightarrow> negotiated_parameters"
  where
  "server_parameters config client_hello selected enabled session_id =
     \<lparr>np_selected_version = selected, np_session_id = session_id,
      np_maximum_frame_size = server_maximum_frame_size config client_hello,
      np_peer_connection_receive_window = ch_initial_connection_receive_window client_hello,
      np_local_connection_receive_window = lim_initial_connection_window (sc_limits config),
      np_maximum_concurrent_streams = lim_maximum_concurrent_streams (sc_limits config),
      np_enabled_capabilities = fset_of_list enabled,
      np_idle_stream_timeout = lim_idle_stream_timeout (sc_limits config),
      np_next_phase = AwaitingAuthentication\<rparr>"

text \<open>The authentication exchange of the server, after the hellos.\<close>

definition server_authenticate ::
  "prost \<Rightarrow> (bytes \<Rightarrow> bytes) \<Rightarrow> verifier \<Rightarrow> session \<Rightarrow> instant \<Rightarrow> client_hello \<Rightarrow> protocol_version
     \<Rightarrow> string list \<Rightarrow> bytes \<Rightarrow> bytes \<Rightarrow> string list session_result" where
  "server_authenticate p sha256 verify s now client_hello selected enabled server_nonce session_id =
     bindS (receive p s now) (\<lambda>b s.
     tryE (expect_authenticate b) s (\<lambda>authenticate.
     tryE (session_nonce_binding sha256 (ch_session_nonce client_hello) server_nonce session_id
             selected) s (\<lambda>expected_binding.
     if au_session_nonce_binding authenticate \<noteq> expected_binding then
       bindS (send_authentication_result p s reject_decision) (\<lambda>_ s.
       (Inl AuthenticationRejected, s))
     else
       tryE (verify (au_anonymous_capability_token authenticate)
               (au_proof_of_possession authenticate) expected_binding) s (\<lambda>decision.
       tryE (if ad_accepted decision then
               bindE (verify_enabled_capabilities enabled (ad_granted_capabilities decision)) (\<lambda>_.
               ensure (0 < ad_expires_at_unix_seconds decision)
                 (InvalidField ''authentication_expiry''))
             else Inr ()) s (\<lambda>_.
       bindS (send_authentication_result p s decision) (\<lambda>_ s.
       if \<not> ad_accepted decision then (Inl AuthenticationRejected, s)
       else
         bindS (set_granted_capabilities s (ad_granted_capabilities decision)) (\<lambda>_ s.
         bindS (mark_active s) (\<lambda>_ s.
         (Inr (ad_granted_capabilities decision), s)))))))))"

definition server_handshake ::
  "prost \<Rightarrow> (bytes \<Rightarrow> bytes) \<Rightarrow> verifier \<Rightarrow> server_config \<Rightarrow> server_entropy \<Rightarrow> session \<Rightarrow> instant \<Rightarrow> instant
     \<Rightarrow> string list session_result" where
  "server_handshake p sha256 verify config entropy s now1 now2 =
     bindS (receive p s now1) (\<lambda>b s.
     tryE (expect_client_hello b) s (\<lambda>client_hello.
     tryE (ok_or (ch_supported_versions client_hello)
             (InvalidField ''client_supported_versions'')) s (\<lambda>client_range.
     or_incompatible p s (se_correlation_id entropy)
       (select_version client_range (sc_supported_versions config)) (\<lambda>selected.
     or_incompatible p s (se_correlation_id entropy)
       (negotiate_capabilities (ch_client_capabilities client_hello)
          (sc_supported_capabilities config)) (\<lambda>enabled.
     tryE (ok_or (se_server_nonce entropy) EntropyUnavailable) s (\<lambda>server_nonce.
     tryE (ok_or (se_session_id entropy) EntropyUnavailable) s (\<lambda>session_id.
     tryE (ok_or (checked_u32 (lim_idle_stream_timeout (sc_limits config) div 1000000))
             (InvalidField ''idle_stream_timeout'')) s (\<lambda>idle_timeout_ms.
     bindS (configure_negotiated s
              (server_parameters config client_hello selected enabled session_id)) (\<lambda>_ s.
     bindS (send_handshake p s (ServerHello
              (server_hello_of config client_hello selected enabled server_nonce session_id
                 idle_timeout_ms))) (\<lambda>_ s.
     server_authenticate p sha256 verify s now2 client_hello selected enabled server_nonce
       session_id))))))))))"

definition accept_inner ::
  "prost \<Rightarrow> (bytes \<Rightarrow> bytes) \<Rightarrow> verifier \<Rightarrow> server_entropy \<Rightarrow> transport \<Rightarrow> server_config
     \<Rightarrow> instant \<Rightarrow> instant \<Rightarrow> (protocol_error + server_reference) \<times> transport" where
  "accept_inner p sha256 verify entropy t config now1 now2 =
     tryE (validate_limits (sc_limits config)) t (\<lambda>_.
     tryE (ensure (\<not> (sc_session_ttl_seconds config = 0 \<or>
                      MAX_SESSION_TTL_SECONDS < sc_session_ttl_seconds config))
             (InvalidField ''session_ttl_seconds'')) t (\<lambda>_.
     tryE (ok_or (vr_maximum (sc_supported_versions config)) (InvalidField ''maximum_version'')) t
       (\<lambda>initial_version.
     tryE (new_server t (sc_limits config) initial_version) t (\<lambda>s.
     case server_handshake p sha256 verify config entropy s now1 now2 of
       (Inl e, s') \<Rightarrow> (Inl e, ss_transport s')
     | (Inr granted, s') \<Rightarrow>
         (Inr \<lparr>sr_session = s', sr_granted_capabilities = granted\<rparr>, ss_transport s')))))"

definition accept ::
  "bool \<Rightarrow> prost \<Rightarrow> (bytes \<Rightarrow> bytes) \<Rightarrow> verifier \<Rightarrow> server_entropy \<Rightarrow> transport \<Rightarrow> server_config
     \<Rightarrow> instant \<Rightarrow> instant \<Rightarrow> protocol_error + server_reference" where
  "accept timed_out p sha256 verify entropy t config now1 now2 =
     (if timed_out then Inl HandshakeTimeout
      else fst (accept_inner p sha256 verify entropy t config now1 now2))"

section \<open>Frames of the handshake\<close>

text \<open>
  What is assumed of the generated protobuf code: every valid frame it encodes conforms to the
  schema, that is, it is written with the announced length, as a canonical envelope, and
  decoding gives the frame back.
\<close>

definition prost_faithful :: "prost \<Rightarrow> bool" where
  "prost_faithful p \<longleftrightarrow>
     (\<forall>f m bs. encode_frame p f m = Inr bs \<longrightarrow> validate_frame f {||} = Inr () \<longrightarrow> prost_conforms p f)"

lemma read_frame_of_encoded:
  assumes conf: "prost_conforms p f" and body: "gf_body f \<noteq> None"
    and enc: "encode_frame p f m = Inr bs" and inp: "tr_input t = bs @ rest"
    and read: "read_frame p t m' = (Inr f', t')"
  shows "f' = f \<and> t' = t\<lparr>tr_input := rest\<rparr>"
proof -
  let ?e = "p_encode p f"
  from conf enc have e: "0 < length ?e" "length ?e \<le> ABSOLUTE_MAX_FRAME_SIZE"
    and bs: "bs = encode_u32_varint (word_of_nat (length ?e)) @ ?e"
    and len: "p_encoded_len p f = length ?e"
    by (auto simp: encode_frame_def prost_conforms_def validate_maximum_def result_simps Let_def
        split: if_splits)
  let ?n = "word_of_nat (length ?e) :: u32"
  have n: "unat ?n = length ?e" using e by (simp add: unat_of_nat ABSOLUTE_MAX_FRAME_SIZE_def)
  from read have m': "validate_maximum m' = Inr ()" by (auto simp: read_frame_def result_simps)
  then obtain d where d: "decoder_new m' = Inr d" by (auto simp: decoder_new_def)
  have sp: "split_prefix MAX_U32_VARINT_BYTES [] (tr_input t) = Some (encode_u32_varint ?n, ?e @ rest)"
    using inp by (simp add: bs split_prefix_encode)
  have "length ?e \<le> m'"
  proof (rule ccontr)
    assume "\<not> length ?e \<le> m'"
    then have "prefix_length m' (encode_u32_varint ?n) = Inl (FrameTooLarge (length ?e) m')"
      using e by (simp add: prefix_length_def decode_encode_varint n)
    with read read_frame_eq [OF decoder_new_state(4) [OF d], where t = t and p = p] sp
    show False by simp
  qed
  moreover have "length ?e < 2 ^ 32" using e(2) by (simp add: ABSOLUTE_MAX_FRAME_SIZE_def)
  ultimately have "encode_frame p f m' = Inr bs"
    unfolding encode_frame_def m' bs len Let_def using e(1) by simp
  from encoded_frame_read_back [OF conf body this d inp] read show ?thesis by simp
qed

definition quiet :: "session \<Rightarrow> bool" where
  "quiet s \<longleftrightarrow> fs_control (ss_scheduler s) = [] \<and> fs_active (ss_scheduler s) = []"

lemma queue_handshake_Inr:
  assumes "queue_handshake p s b = (Inr (), t)"
  obtains n where "t = s\<lparr>ss_scheduler := (ss_scheduler s)
      \<lparr>fs_queued_bytes := fs_queued_bytes (ss_scheduler s) + n,
       fs_control := fs_control (ss_scheduler s) @ [\<lparr>oi_body = b, oi_accounted_bytes = n\<rparr>]\<rparr>\<rparr>"
    "ss_phase s \<noteq> PhaseClosed"
proof -
  from assms have ph: "ss_phase s \<noteq> PhaseClosed"
    and q: "queue_control_body p s b = (Inr (), t)"
    by (auto simp: queue_handshake_def split: if_splits)
  from q obtain n where
    "with_scheduler s (\<lambda>f. enqueue_control f \<lparr>oi_body = b, oi_accounted_bytes = n\<rparr>) = (Inr (), t)"
    by (auto simp: queue_control_body_def result_simps)
  then show thesis
    using ph by (intro that [of n]) (auto simp: with_scheduler_Inr enqueue_control_Inr)
qed

lemma flush_all_quiet:
  assumes "quiet s" "ss_phase s \<noteq> PhaseClosed"
  shows "flush_all p s = (Inr (), s)"
  using assms
  by (simp add: quiet_def flush_all.simps [of p s] flush_one_def flush_one_inner_def pop_next_def
      pop_control_def close_on_error_def)

lemma flush_all_single:
  assumes "flush_all p s = (Inr (), t)" "fs_control (ss_scheduler s) = [x]"
    "fs_active (ss_scheduler s) = []" "ss_phase s \<noteq> PhaseClosed"
  obtains bs g where "encode_frame p (outbound_frame s x) (ss_maximum_frame_size s) = Inr bs"
    "validate_frame (outbound_frame s x) (ss_enabled_critical_extensions s) = Inr ()"
    "t = s\<lparr>ss_scheduler := g, ss_next_send_sequence := ss_next_send_sequence s + 1,
          ss_transport := (ss_transport s)\<lparr>tr_output := tr_output (ss_transport s) @ bs\<rparr>\<rparr>"
    "fs_control g = []" "fs_active g = []"
proof -
  obtain g where pop: "pop_next (ss_scheduler s) = (Some x, g)" "fs_control g = []" "fs_active g = []"
    using assms(2,3) by (simp add: pop_next_def pop_control_def)
  obtain r u where f: "flush_one p s = (r, u)" by (cases "flush_one p s")
  have "r = Inr True"
  proof (cases r)
    case (Inl e)
    with assms(1) f show ?thesis by (simp add: flush_all.simps [of p s])
  next
    case (Inr more)
    with f pop(1) assms(4) show ?thesis
      by (auto simp: flush_one_def flush_one_inner_def close_on_error_def Let_def tryE_def
          split: if_splits sum.splits prod.splits)
  qed
  with f have f: "flush_one p s = (Inr True, u)" by simp
  from f obtain y h bs where y: "pop_next (ss_scheduler s) = (Some y, h)"
    and ok: "validate_frame (outbound_frame s y) (ss_enabled_critical_extensions s) = Inr ()"
    and bs: "encode_frame p (outbound_frame s y) (ss_maximum_frame_size s) = Inr bs"
    and u: "u = s\<lparr>ss_scheduler := h, ss_next_send_sequence := ss_next_send_sequence s + 1,
          ss_transport := (ss_transport s)\<lparr>tr_output := tr_output (ss_transport s) @ bs\<rparr>\<rparr>"
    by (rule flush_one_Inr_True)
  have "y = x" "h = g" using y pop by simp_all
  moreover have "flush_all p u = (Inr (), u)"
    using u y pop assms(4) by (intro flush_all_quiet) (simp_all add: quiet_def)
  with f assms(1) have "t = u" by (simp add: flush_all.simps [of p s])
  ultimately show thesis using that [of bs g] ok bs u pop by simp
qed

lemma send_handshake_Inr:
  assumes "send_handshake p s b = (Inr (), t)" "quiet s"
  obtains bs g f where "f = \<lparr>gf_sequence = ss_next_send_sequence s,
      gf_version = Some (ss_outbound_version s), gf_critical_extension_ids = [],
      gf_session_id = ss_session_id s, gf_body = Some b\<rparr>"
    "encode_frame p f (ss_maximum_frame_size s) = Inr bs"
    "validate_frame f (ss_enabled_critical_extensions s) = Inr ()"
    "t = s\<lparr>ss_scheduler := g, ss_next_send_sequence := ss_next_send_sequence s + 1,
          ss_transport := (ss_transport s)\<lparr>tr_output := tr_output (ss_transport s) @ bs\<rparr>\<rparr>"
    "quiet t"
proof -
  from assms(1) obtain u where q: "queue_handshake p s b = (Inr (), u)" and f: "flush_all p u = (Inr (), t)"
    by (auto simp: send_handshake_def result_simps)
  from q obtain n where u: "u = s\<lparr>ss_scheduler := (ss_scheduler s)
      \<lparr>fs_queued_bytes := fs_queued_bytes (ss_scheduler s) + n,
       fs_control := fs_control (ss_scheduler s) @ [\<lparr>oi_body = b, oi_accounted_bytes = n\<rparr>]\<rparr>\<rparr>"
    and open_phase: "ss_phase s \<noteq> PhaseClosed"
    by (rule queue_handshake_Inr)
  have "fs_control (ss_scheduler u) = [\<lparr>oi_body = b, oi_accounted_bytes = n\<rparr>]"
    "fs_active (ss_scheduler u) = []" "ss_phase u \<noteq> PhaseClosed"
    using open_phase assms(2) by (simp_all add: u quiet_def)
  with f obtain bs g where
    "encode_frame p (outbound_frame u \<lparr>oi_body = b, oi_accounted_bytes = n\<rparr>)
       (ss_maximum_frame_size u) = Inr bs"
    "validate_frame (outbound_frame u \<lparr>oi_body = b, oi_accounted_bytes = n\<rparr>)
       (ss_enabled_critical_extensions u) = Inr ()"
    "t = u\<lparr>ss_scheduler := g, ss_next_send_sequence := ss_next_send_sequence u + 1,
          ss_transport := (ss_transport u)\<lparr>tr_output := tr_output (ss_transport u) @ bs\<rparr>\<rparr>"
    "fs_control g = []" "fs_active g = []"
    by (rule flush_all_single)
  then show thesis
    by (intro that [OF refl, of bs g]) (simp_all add: u outbound_frame_def quiet_def)
qed

definition handshake_phase :: "session_phase \<Rightarrow> bool" where
  "handshake_phase ph \<longleftrightarrow> ph \<in> {AwaitingServerHello, AwaitingClientHello, AwaitingAuthentication,
     AwaitingAuthenticationResult}"

lemma apply_inbound_handshake:
  "handshake_phase (ss_phase s) \<Longrightarrow> apply_inbound s now b = (Inr (), t) \<Longrightarrow> t = s"
  by (cases "ss_phase s"; cases b) (simp_all add: handshake_phase_def apply_inbound_def)

lemma receive_handshake:
  assumes "receive p s now = (Inr b, t)" "handshake_phase (ss_phase s)"
  obtains f tr where "read_frame p (ss_transport s) (ss_maximum_frame_size s) = (Inr f, tr)"
    "gf_body f = Some b" "gf_sequence f = ss_next_receive_sequence s"
    "validate_frame_context s f = Inr ()"
    "validate_frame f (ss_enabled_critical_extensions s) = Inr ()"
    "t = s\<lparr>ss_transport := tr, ss_next_receive_sequence := ss_next_receive_sequence s + 1\<rparr>"
proof -
  from assms(1) have "receive_inner p s now = (Inr b, t)"
    by (auto simp: receive_def close_on_error_def split: prod.splits sum.splits)
  then obtain f tr where read: "read_frame p (ss_transport s) (ss_maximum_frame_size s) = (Inr f, tr)"
    and pf: "process_frame (s\<lparr>ss_transport := tr\<rparr>) now f = (Inr b, t)"
    by (auto simp: receive_inner_def split: if_splits prod.splits sum.splits)
  from pf obtain v where v: "checked_add_u64 (ss_next_receive_sequence s) 1 = Some v"
    and ctx: "validate_frame_context (s\<lparr>ss_transport := tr, ss_next_receive_sequence := v\<rparr>) f = Inr ()"
    and t: "apply_inbound (s\<lparr>ss_transport := tr, ss_next_receive_sequence := v\<rparr>) now b = (Inr (), t)"
    by (auto simp: process_frame_def result_simps Let_def split: if_splits)
  have "validate_frame_context s f = Inr ()"
    using ctx by (simp add: validate_frame_context_def cong: session_phase.case_cong)
  moreover have "t = s\<lparr>ss_transport := tr, ss_next_receive_sequence := ss_next_receive_sequence s + 1\<rparr>"
    using apply_inbound_handshake [OF _ t] assms(2) checked_increment [OF v] by simp
  ultimately show thesis
    using that [OF read] process_frame_Inr [OF pf] by simp
qed

section \<open>What a successful handshake did\<close>

lemma read_exact_output: "read_exact t n = (r, t') \<Longrightarrow> tr_output t' = tr_output t"
  by (auto simp: read_exact_def split: if_splits)

lemma read_prefix_output: "read_prefix n px t = (r, t') \<Longrightarrow> tr_output t' = tr_output t"
proof (induction n px t rule: read_prefix.induct)
  case (2 slots prefix t)
  then show ?case
    by (auto split: prod.splits sum.splits if_splits dest!: read_exact_output)
qed simp

lemma read_frame_output: "read_frame p t m = (r, t') \<Longrightarrow> tr_output t' = tr_output t"
  by (auto simp: read_frame_def tryE_def Let_def split: prod.splits sum.splits if_splits
      dest!: read_exact_output read_prefix_output)

lemma configure_negotiated_Inr:
  assumes "configure_negotiated s q = (Inr (), t)"
  obtains flow where "flow_new (np_peer_connection_receive_window q)
      (np_local_connection_receive_window q)
      (min (np_maximum_concurrent_streams q) (lim_maximum_concurrent_streams (ss_limits s))) = Inr flow"
    "np_maximum_frame_size q \<le> lim_maximum_frame_size (ss_limits s)"
    "t = s\<lparr>ss_outbound_version := np_selected_version q,
          ss_selected_version := Some (np_selected_version q), ss_session_id := np_session_id q,
          ss_maximum_frame_size := np_maximum_frame_size q,
          ss_enabled_capabilities := np_enabled_capabilities q,
          ss_limits := (ss_limits s)\<lparr>lim_idle_stream_timeout := np_idle_stream_timeout q\<rparr>,
          ss_flow := Some flow, ss_phase := np_next_phase q\<rparr>"
proof -
  from assms obtain flow where
    "flow_new (np_peer_connection_receive_window q) (np_local_connection_receive_window q)
      (min (np_maximum_concurrent_streams q) (lim_maximum_concurrent_streams (ss_limits s))) = Inr flow"
    "\<not> lim_maximum_frame_size (ss_limits s) < np_maximum_frame_size q"
    "(Inr (), t) = (Inr (), s\<lparr>ss_outbound_version := np_selected_version q,
          ss_selected_version := Some (np_selected_version q), ss_session_id := np_session_id q,
          ss_maximum_frame_size := np_maximum_frame_size q,
          ss_enabled_capabilities := np_enabled_capabilities q,
          ss_limits := (ss_limits s)\<lparr>lim_idle_stream_timeout := np_idle_stream_timeout q\<rparr>,
          ss_flow := Some flow, ss_phase := np_next_phase q\<rparr>)"
    unfolding configure_negotiated_def tryE_eq_Inr ensure_eq_Inr by (elim exE conjE) (auto intro: that)
  then show thesis by (intro that [of flow]) simp_all
qed

lemma set_granted_Inr:
  assumes "set_granted_capabilities s granted = (Inr (), t)"
  shows "t = s\<lparr>ss_enabled_capabilities := fset_of_list granted\<rparr>"
    "fset_of_list granted |\<subseteq>| ss_enabled_capabilities s"
  using assms by (auto simp: set_granted_capabilities_def result_simps Let_def split: if_splits)

lemma mark_active_Inr: "mark_active s = (Inr (), t) \<Longrightarrow> t = s\<lparr>ss_phase := Active\<rparr>"
  by (simp add: mark_active_def split: if_splits)

text \<open>The frame with which a session answers in the handshake.\<close>

definition handshake_frame :: "session \<Rightarrow> body \<Rightarrow> gateway_frame" where
  "handshake_frame s b = \<lparr>gf_sequence = ss_next_send_sequence s,
      gf_version = Some (ss_outbound_version s), gf_critical_extension_ids = [],
      gf_session_id = ss_session_id s, gf_body = Some b\<rparr>"

text \<open>One round of a handshake: a frame sent, a frame received.\<close>

definition sent :: "prost \<Rightarrow> session \<Rightarrow> body \<Rightarrow> bytes \<Rightarrow> session \<Rightarrow> bool" where
  "sent p s b bs t \<longleftrightarrow>
     encode_frame p (handshake_frame s b) (ss_maximum_frame_size s) = Inr bs \<and>
     validate_frame (handshake_frame s b) (ss_enabled_critical_extensions s) = Inr () \<and> quiet t \<and>
     (\<exists>g. t = s\<lparr>ss_scheduler := g, ss_next_send_sequence := ss_next_send_sequence s + 1,
          ss_transport := (ss_transport s)\<lparr>tr_output := tr_output (ss_transport s) @ bs\<rparr>\<rparr>)"

definition received :: "prost \<Rightarrow> session \<Rightarrow> gateway_frame \<Rightarrow> session \<Rightarrow> bool" where
  "received p s f t \<longleftrightarrow>
     (\<exists>tr. read_frame p (ss_transport s) (ss_maximum_frame_size s) = (Inr f, tr) \<and>
       t = s\<lparr>ss_transport := tr, ss_next_receive_sequence := ss_next_receive_sequence s + 1\<rparr>) \<and>
     validate_frame f (ss_enabled_critical_extensions s) = Inr ()"

lemma send_handshake_sent:
  assumes "send_handshake p s b = (Inr (), t)" "quiet s"
  obtains bs where "sent p s b bs t"
  using assms
  by (rule send_handshake_Inr) (auto intro!: that simp: sent_def handshake_frame_def)

lemma receive_received:
  assumes "receive p s now = (Inr b, t)" "handshake_phase (ss_phase s)"
  obtains f where "received p s f t" "gf_body f = Some b"
  using assms by (rule receive_handshake) (auto intro!: that simp: received_def)

lemma received_quiet: "received p s f t \<Longrightarrow> quiet s \<Longrightarrow> quiet t"
  by (auto simp: received_def quiet_def)

text \<open>A frame sent is what a receiver reads when its input starts with the bytes written.\<close>

lemma sent_received:
  assumes "prost_faithful p" "sent p s b bs t" "received p r f r'"
    and "ss_enabled_critical_extensions s = {||}" "tr_input (ss_transport r) = bs @ rest"
  shows "f = handshake_frame s b \<and> tr_input (ss_transport r') = rest \<and>
    tr_output (ss_transport r') = tr_output (ss_transport r)"
proof -
  from assms(2,4) have enc: "encode_frame p (handshake_frame s b) (ss_maximum_frame_size s) = Inr bs"
    and ok: "validate_frame (handshake_frame s b) {||} = Inr ()"
    by (auto simp: sent_def)
  have conf: "prost_conforms p (handshake_frame s b)"
    using assms(1) enc ok unfolding prost_faithful_def by blast
  from assms(3) obtain tr where
    read: "read_frame p (ss_transport r) (ss_maximum_frame_size r) = (Inr f, tr)"
    and r': "ss_transport r' = tr"
    by (auto simp: received_def)
  from read_frame_of_encoded [OF conf _ enc assms(5) read] read_frame_output [OF read] r'
  show ?thesis by (simp add: handshake_frame_def)
qed

lemma new_session_fields:
  assumes "session_new t role phase limits v = Inr s"
  shows "quiet s" "ss_phase s = phase" "ss_transport s = t" "ss_limits s = limits"
    "ss_maximum_frame_size s = lim_maximum_frame_size limits"
    "ss_enabled_critical_extensions s = {||}" "ss_next_send_sequence s = 1"
    "ss_next_receive_sequence s = 1" "ss_session_id s = []" "ss_local_role s = role"
    "ss_outbound_version s = v"
  using assms
  by (auto simp: session_new_def result_simps scheduler_new_def quiet_def split: if_splits)

lemma expect_Inr:
  "expect_server_hello b = Inr sh \<longleftrightarrow> b = ServerHello sh"
  "expect_authentication_result b = Inr res \<longleftrightarrow> b = AuthenticationResult res"
  "expect_client_hello b = Inr ch \<longleftrightarrow> b = ClientHello ch"
  "expect_authenticate b = Inr au \<longleftrightarrow> b = Authenticate au"
  by (cases b; simp add: expect_server_hello_def expect_authentication_result_def
      expect_client_hello_def expect_authenticate_def)+

lemma or_incompatible_Inr:
  "or_incompatible p s corr r k = (Inr x, t) \<longleftrightarrow> (\<exists>a. r = Inr a \<and> k a = (Inr x, t))"
  by (cases r) (auto simp: or_incompatible_def result_simps)

lemma sent_fields:
  assumes "sent p s b bs t"
  shows "ss_phase t = ss_phase s" "quiet t" "ss_limits t = ss_limits s"
    "ss_next_send_sequence t = ss_next_send_sequence s + 1"
    "ss_next_receive_sequence t = ss_next_receive_sequence s"
    "ss_enabled_critical_extensions t = ss_enabled_critical_extensions s"
    "ss_maximum_frame_size t = ss_maximum_frame_size s" "ss_session_id t = ss_session_id s"
    "ss_outbound_version t = ss_outbound_version s" "ss_selected_version t = ss_selected_version s"
    "ss_flow t = ss_flow s" "ss_local_role t = ss_local_role s"
    "tr_input (ss_transport t) = tr_input (ss_transport s)"
    "tr_output (ss_transport t) = tr_output (ss_transport s) @ bs"
    "ss_enabled_capabilities t = ss_enabled_capabilities s"
    "tr_write_ok (ss_transport t) = tr_write_ok (ss_transport s)"
  using assms by (auto simp: sent_def)

lemma received_fields:
  assumes "received p s f t"
  shows "ss_phase t = ss_phase s" "quiet s \<Longrightarrow> quiet t" "ss_limits t = ss_limits s"
    "ss_next_send_sequence t = ss_next_send_sequence s"
    "ss_next_receive_sequence t = ss_next_receive_sequence s + 1"
    "ss_enabled_critical_extensions t = ss_enabled_critical_extensions s"
    "ss_maximum_frame_size t = ss_maximum_frame_size s" "ss_session_id t = ss_session_id s"
    "ss_outbound_version t = ss_outbound_version s" "ss_selected_version t = ss_selected_version s"
    "ss_flow t = ss_flow s" "ss_local_role t = ss_local_role s"
    "tr_output (ss_transport t) = tr_output (ss_transport s)"
    "ss_enabled_capabilities t = ss_enabled_capabilities s"
  using assms by (auto simp: received_def quiet_def dest: read_frame_output)

lemma configured_fields:
  assumes "configure_negotiated s q = (Inr (), t)"
  shows "ss_phase t = np_next_phase q" "quiet s \<Longrightarrow> quiet t"
    "ss_next_send_sequence t = ss_next_send_sequence s"
    "ss_next_receive_sequence t = ss_next_receive_sequence s"
    "ss_enabled_critical_extensions t = ss_enabled_critical_extensions s"
    "ss_maximum_frame_size t = np_maximum_frame_size q" "ss_session_id t = np_session_id q"
    "ss_outbound_version t = np_selected_version q"
    "ss_selected_version t = Some (np_selected_version q)"
    "ss_enabled_capabilities t = np_enabled_capabilities q"
    "ss_local_role t = ss_local_role s" "ss_transport t = ss_transport s"
    "\<exists>flow. ss_flow t = Some flow \<and> flow_new (np_peer_connection_receive_window q)
      (np_local_connection_receive_window q)
      (min (np_maximum_concurrent_streams q) (lim_maximum_concurrent_streams (ss_limits s))) = Inr flow"
  using assms by (auto elim!: configure_negotiated_Inr simp: quiet_def)

text \<open>The rounds of a successful client.\<close>

definition authenticate_message :: "bytes \<Rightarrow> authentication_material \<Rightarrow> body" where
  "authenticate_message binding material = Authenticate
     \<lparr>au_anonymous_capability_token = am_anonymous_capability_token material,
      au_proof_of_possession = am_proof_of_possession material,
      au_session_nonce_binding = binding\<rparr>"

lemma client_authenticate_run:
  assumes "client_authenticate p sha auth s now cn sh sel = (Inr granted, t)"
    and "quiet s" "ss_phase s = AwaitingAuthenticationResult"
  obtains bd mat bs s4 f s5 res where
    "session_nonce_binding sha cn (sh_server_nonce sh) (sh_ephemeral_session_id sh) sel = Inr bd"
    "auth bd = Inr mat" "sent p s (authenticate_message bd mat) bs s4" "received p s4 f s5"
    "gf_body f = Some (AuthenticationResult res)" "ar_accepted res"
    "granted = ar_granted_capabilities res"
    "fset_of_list granted |\<subseteq>| ss_enabled_capabilities s5"
    "t = s5\<lparr>ss_enabled_capabilities := fset_of_list granted, ss_phase := Active\<rparr>"
proof -
  from assms(1) obtain bd mat s4 b s5 s6 res where
    bd: "session_nonce_binding sha cn (sh_server_nonce sh) (sh_ephemeral_session_id sh) sel = Inr bd"
    and mat: "auth bd = Inr mat"
    and s4: "send_handshake p s (authenticate_message bd mat) = (Inr (), s4)"
    and s5: "receive p s4 now = (Inr b, s5)" and res: "expect_authentication_result b = Inr res"
    and acc: "ar_accepted res"
    and s6: "set_granted_capabilities s5 (ar_granted_capabilities res) = (Inr (), s6)"
    and t: "mark_active s6 = (Inr (), t)" "granted = ar_granted_capabilities res"
    by (auto simp: client_authenticate_def result_simps authenticate_message_def split: if_splits)
  from s4 assms(2) obtain bs where sent: "sent p s (authenticate_message bd mat) bs s4"
    by (rule send_handshake_sent)
  have "handshake_phase (ss_phase s4)"
    using assms(3) by (simp add: sent_fields [OF sent] handshake_phase_def)
  with s5 obtain f where rec: "received p s4 f s5" "gf_body f = Some b" by (rule receive_received)
  note g = set_granted_Inr [OF s6] mark_active_Inr [OF t(1)]
  show thesis
    by (rule that [OF bd mat sent rec(1)])
      (use rec(2) res acc g t(2) in \<open>auto simp: expect_Inr\<close>)
qed

lemma client_handshake_run:
  assumes "client_handshake p sha auth config cn s now1 now2 = (Inr granted, t)"
    and "quiet s" "ss_phase s = AwaitingServerHello"
  obtains bs s1 f s2 sh sel s3 where
    "sent p s (ClientHello (client_hello_of config cn)) bs s1" "received p s1 f s2"
    "gf_body f = Some (ServerHello sh)" "client_check_hello config cn sh = Inr sel"
    "configure_negotiated s2 (client_parameters config sh sel) = (Inr (), s3)"
    "client_authenticate p sha auth s3 now2 cn sh sel = (Inr granted, t)"
    "quiet s3" "ss_phase s3 = AwaitingAuthenticationResult"
proof -
  from assms(1) obtain s1 b s2 sh sel s3 where
    s1: "send_handshake p s (ClientHello (client_hello_of config cn)) = (Inr (), s1)"
    and s2: "receive p s1 now1 = (Inr b, s2)" and sh: "expect_server_hello b = Inr sh"
    and rest: "client_check_hello config cn sh = Inr sel"
      "configure_negotiated s2 (client_parameters config sh sel) = (Inr (), s3)"
      "client_authenticate p sha auth s3 now2 cn sh sel = (Inr granted, t)"
    by (auto simp: client_handshake_def result_simps)
  from s1 assms(2) obtain bs where sent: "sent p s (ClientHello (client_hello_of config cn)) bs s1"
    by (rule send_handshake_sent)
  have "handshake_phase (ss_phase s1)"
    using assms(3) by (simp add: sent_fields [OF sent] handshake_phase_def)
  with s2 obtain f where rec: "received p s1 f s2" "gf_body f = Some b" by (rule receive_received)
  show thesis
    by (rule that [OF sent rec(1) _ rest])
      (use rec sh configured_fields [OF rest(2)] received_fields [OF rec(1)] sent_fields [OF sent]
        in \<open>auto simp: expect_Inr client_parameters_def\<close>)
qed

text \<open>The rounds of a successful server.\<close>

definition result_message :: "authentication_decision \<Rightarrow> body" where
  "result_message decision = AuthenticationResult
     \<lparr>ar_accepted = ad_accepted decision,
      ar_error_code = (if ad_accepted decision then 0 else error_code_authentication_failed),
      ar_granted_capabilities = ad_granted_capabilities decision,
      ar_expires_at_unix_seconds = ad_expires_at_unix_seconds decision\<rparr>"

lemma server_authenticate_run:
  assumes "server_authenticate p sha verify s now ch sel enabled sn sid = (Inr granted, t)"
    and "quiet s" "ss_phase s = AwaitingAuthentication"
  obtains f s1 au bd decision bs s2 where
    "received p s f s1" "gf_body f = Some (Authenticate au)"
    "session_nonce_binding sha (ch_session_nonce ch) sn sid sel = Inr bd"
    "au_session_nonce_binding au = bd"
    "verify (au_anonymous_capability_token au) (au_proof_of_possession au) bd = Inr decision"
    "ad_accepted decision" "0 < ad_expires_at_unix_seconds decision"
    "sent p s1 (result_message decision) bs s2"
    "granted = ad_granted_capabilities decision"
    "fset_of_list granted |\<subseteq>| ss_enabled_capabilities s2"
    "t = s2\<lparr>ss_enabled_capabilities := fset_of_list granted, ss_phase := Active\<rparr>"
proof -
  from assms(1) obtain b s1 au bd decision s2 s3 where
    s1: "receive p s now = (Inr b, s1)" and b: "expect_authenticate b = Inr au"
    and bd: "session_nonce_binding sha (ch_session_nonce ch) sn sid sel = Inr bd"
      "au_session_nonce_binding au = bd"
    and dec: "verify (au_anonymous_capability_token au) (au_proof_of_possession au) bd = Inr decision"
      "ad_accepted decision" "0 < ad_expires_at_unix_seconds decision"
    and s2: "send_authentication_result p s1 decision = (Inr (), s2)"
    and s3: "set_granted_capabilities s2 (ad_granted_capabilities decision) = (Inr (), s3)"
    and t: "mark_active s3 = (Inr (), t)" "granted = ad_granted_capabilities decision"
    unfolding server_authenticate_def tryE_eq_Inr bindS_eq_Inr
    by (elim exE conjE) (auto simp: result_simps split: if_splits)
  have "handshake_phase (ss_phase s)" using assms(3) by (simp add: handshake_phase_def)
  with s1 obtain f where rec: "received p s f s1" "gf_body f = Some b" by (rule receive_received)
  have "send_handshake p s1 (result_message decision) = (Inr (), s2)"
    using s2 by (simp add: send_authentication_result_def result_message_def)
  moreover have "quiet s1" using assms(2) by (simp add: received_fields [OF rec(1)])
  ultimately obtain bs where sent: "sent p s1 (result_message decision) bs s2"
    by (rule send_handshake_sent)
  note g = set_granted_Inr [OF s3] mark_active_Inr [OF t(1)]
  show thesis
    by (rule that [OF rec(1) _ bd dec sent])
      (use rec(2) b g t(2) in \<open>auto simp: expect_Inr\<close>)
qed

lemma server_handshake_run:
  assumes "server_handshake p sha verify config entropy s now1 now2 = (Inr granted, t)"
    and "quiet s" "ss_phase s = AwaitingClientHello"
  obtains f s1 ch range sel enabled sn sid idle s2 bs s3 where
    "received p s f s1" "gf_body f = Some (ClientHello ch)" "ch_supported_versions ch = Some range"
    "select_version range (sc_supported_versions config) = Inr sel"
    "negotiate_capabilities (ch_client_capabilities ch) (sc_supported_capabilities config) = Inr enabled"
    "se_server_nonce entropy = Some sn" "se_session_id entropy = Some sid"
    "configure_negotiated s1 (server_parameters config ch sel enabled sid) = (Inr (), s2)"
    "sent p s2 (ServerHello (server_hello_of config ch sel enabled sn sid idle)) bs s3"
    "server_authenticate p sha verify s3 now2 ch sel enabled sn sid = (Inr granted, t)"
    "quiet s3" "ss_phase s3 = AwaitingAuthentication"
proof -
  from assms(1) obtain b s1 ch range sel enabled sn sid idle s2 s3 where
    s1: "receive p s now1 = (Inr b, s1)" and b: "expect_client_hello b = Inr ch"
    and neg: "ch_supported_versions ch = Some range"
      "select_version range (sc_supported_versions config) = Inr sel"
      "negotiate_capabilities (ch_client_capabilities ch) (sc_supported_capabilities config) = Inr enabled"
      "se_server_nonce entropy = Some sn" "se_session_id entropy = Some sid"
      "configure_negotiated s1 (server_parameters config ch sel enabled sid) = (Inr (), s2)"
    and s3: "send_handshake p s2
        (ServerHello (server_hello_of config ch sel enabled sn sid idle)) = (Inr (), s3)"
    and rest: "server_authenticate p sha verify s3 now2 ch sel enabled sn sid = (Inr granted, t)"
    by (auto simp: server_handshake_def or_incompatible_Inr result_simps)
  have "handshake_phase (ss_phase s)" using assms(3) by (simp add: handshake_phase_def)
  with s1 obtain f where rec: "received p s f s1" "gf_body f = Some b" by (rule receive_received)
  have "quiet s1" using assms(2) by (simp add: received_fields [OF rec(1)])
  then have "quiet s2" by (simp add: configured_fields [OF neg(6)])
  with s3 obtain bs where sent: "sent p s2
      (ServerHello (server_hello_of config ch sel enabled sn sid idle)) bs s3"
    by (rule send_handshake_sent)
  show thesis
    by (rule that [OF rec(1) _ neg sent rest])
      (use rec(2) b configured_fields [OF neg(6)] in
        \<open>auto simp: expect_Inr sent_fields [OF sent] server_parameters_def\<close>)
qed

section \<open>Agreement\<close>

text \<open>Two peers that each expect what the other sends next, with mirrored windows.\<close>

definition mirrored :: "session \<Rightarrow> session \<Rightarrow> bool" where
  "mirrored c s \<longleftrightarrow>
     in_step c s \<and> in_step s c \<and> ss_phase c = Active \<and> ss_phase s = Active \<and>
     ss_local_role c = RoleClient \<and> ss_local_role s = RoleServer \<and>
     ss_enabled_capabilities c = ss_enabled_capabilities s \<and>
     (\<exists>f g. ss_flow c = Some f \<and> ss_flow s = Some g \<and> fc_streams f = fmempty \<and> fc_streams g = fmempty \<and>
        fc_connection_send_window f = fc_connection_receive_window g \<and>
        fc_connection_receive_window f = fc_connection_send_window g)"

lemma validated_client_frame_size:
  assumes "validate_limits l = Inr ()"
  shows "unat (word_of_nat (lim_maximum_frame_size l) :: u32) = lim_maximum_frame_size l"
  using assms by (auto simp: validate_limits_def result_simps unat_of_nat ABSOLUTE_MAX_FRAME_SIZE_def)

lemma finish_Inr:
  assumes "(case m of (Inl e, s) \<Rightarrow> (Inl e, ss_transport s)
     | (Inr g, s) \<Rightarrow> (Inr (mk s g), ss_transport s)) = (Inr c, t)"
  obtains g s where "m = (Inr g, s)" "c = mk s g" "t = ss_transport s"
proof -
  obtain r s where m: "m = (r, s)" by (cases m)
  with assms show thesis by (cases r) (auto intro: that)
qed

lemma connect_inner_run:
  assumes "connect_inner p sha auth nonce t config now1 now2 = (Inr c, t')"
  obtains v cn s where "validate_limits (cc_limits config) = Inr ()" "nonce = Some cn"
    "new_client t (cc_limits config) v = Inr s"
    "client_handshake p sha auth config cn s now1 now2 = (Inr (cr_granted_capabilities c), cr_session c)"
    "t' = ss_transport (cr_session c)" "quiet s" "ss_phase s = AwaitingServerHello"
proof -
  from assms obtain v cn s where *: "validate_limits (cc_limits config) = Inr ()" "nonce = Some cn"
    "new_client t (cc_limits config) v = Inr s"
    and fin: "(case client_handshake p sha auth config cn s now1 now2 of
       (Inl e, s') \<Rightarrow> (Inl e, ss_transport s')
     | (Inr granted, s') \<Rightarrow>
         (Inr \<lparr>cr_session = s', cr_granted_capabilities = granted\<rparr>, ss_transport s')) = (Inr c, t')"
    unfolding connect_inner_def tryE_eq_Inr ok_or_eq_Inr by (elim exE conjE) (simp add: that)
  from fin obtain g u where "client_handshake p sha auth config cn s now1 now2 = (Inr g, u)"
    "c = \<lparr>cr_session = u, cr_granted_capabilities = g\<rparr>" "t' = ss_transport u"
    by (rule finish_Inr)
  with * new_session_fields [OF *(3) [unfolded new_client_def]] show thesis by (intro that) auto
qed

lemma accept_inner_run:
  assumes "accept_inner p sha verify entropy t config now1 now2 = (Inr c, t')"
  obtains v s where "validate_limits (sc_limits config) = Inr ()"
    "new_server t (sc_limits config) v = Inr s"
    "server_handshake p sha verify config entropy s now1 now2 = (Inr (sr_granted_capabilities c), sr_session c)"
    "t' = ss_transport (sr_session c)" "quiet s" "ss_phase s = AwaitingClientHello"
proof -
  from assms obtain v s where *: "validate_limits (sc_limits config) = Inr ()"
    "new_server t (sc_limits config) v = Inr s"
    and fin: "(case server_handshake p sha verify config entropy s now1 now2 of
       (Inl e, s') \<Rightarrow> (Inl e, ss_transport s')
     | (Inr granted, s') \<Rightarrow>
         (Inr \<lparr>sr_session = s', sr_granted_capabilities = granted\<rparr>, ss_transport s')) = (Inr c, t')"
    unfolding accept_inner_def tryE_eq_Inr ok_or_eq_Inr by (elim exE conjE) (simp add: that)
  from fin obtain g u where "server_handshake p sha verify config entropy s now1 now2 = (Inr g, u)"
    "c = \<lparr>sr_session = u, sr_granted_capabilities = g\<rparr>" "t' = ss_transport u"
    by (rule finish_Inr)
  with * new_session_fields [OF *(2) [unfolded new_server_def]] show thesis by (intro that) auto
qed

text \<open>What the client session is after its rounds, and what the server session is.\<close>

lemma client_final:
  assumes s1: "sent p s b bs s1" and s2: "received p s1 f s2"
    and s3: "configure_negotiated s2 (client_parameters config sh sel) = (Inr (), s3)"
    and s4: "sent p s3 b' bs' s4" and s5: "received p s4 f' s5"
    and t: "t = s5\<lparr>ss_enabled_capabilities := X, ss_phase := Active\<rparr>"
    and new: "new_client t0 (cc_limits config) v = Inr s"
  shows "ss_phase t = Active" "ss_local_role t = RoleClient" "ss_enabled_capabilities t = X"
    "ss_selected_version t = Some sel" "ss_outbound_version t = sel"
    "ss_session_id t = sh_ephemeral_session_id sh"
    "ss_maximum_frame_size t = np_maximum_frame_size (client_parameters config sh sel)"
    "ss_next_send_sequence t = 3" "ss_next_receive_sequence t = 3"
    "ss_enabled_critical_extensions t = {||}"
    "tr_output (ss_transport t) = tr_output t0 @ bs @ bs'"
    "\<exists>g m. ss_flow t = Some g \<and> flow_new (sh_initial_connection_receive_window sh)
       (lim_initial_connection_window (cc_limits config)) m = Inr g"
  using configured_fields(13) [OF s3]
  by (auto simp: t sent_fields [OF s1] sent_fields [OF s4] received_fields [OF s2]
      received_fields [OF s5] configured_fields [OF s3] client_parameters_def
      new_session_fields [OF new [unfolded new_client_def]])

lemma server_final:
  assumes s1: "received p s f s1"
    and s2: "configure_negotiated s1 (server_parameters config ch sel enabled sid) = (Inr (), s2)"
    and s3: "sent p s2 b bs s3" and s4: "received p s3 f' s4" and s5: "sent p s4 b' bs' s5"
    and t: "t = s5\<lparr>ss_enabled_capabilities := X, ss_phase := Active\<rparr>"
    and new: "new_server t0 (sc_limits config) v = Inr s"
  shows "ss_phase t = Active" "ss_local_role t = RoleServer" "ss_enabled_capabilities t = X"
    "ss_selected_version t = Some sel" "ss_outbound_version t = sel" "ss_session_id t = sid"
    "ss_maximum_frame_size t = server_maximum_frame_size config ch"
    "ss_next_send_sequence t = 3" "ss_next_receive_sequence t = 3"
    "ss_enabled_critical_extensions t = {||}"
    "tr_output (ss_transport t) = tr_output t0 @ bs @ bs'"
    "\<exists>g m. ss_flow t = Some g \<and> flow_new (ch_initial_connection_receive_window ch)
       (lim_initial_connection_window (sc_limits config)) m = Inr g"
  using configured_fields(13) [OF s2]
  by (auto simp: t sent_fields [OF s3] sent_fields [OF s5] received_fields [OF s1]
      received_fields [OF s4] configured_fields [OF s2] server_parameters_def
      new_session_fields [OF new [unfolded new_server_def]])

lemma negotiated_frame_size:
  assumes "validate_limits (cc_limits config) = Inr ()" "validate_limits (sc_limits config') = Inr ()"
  shows "np_maximum_frame_size (client_parameters config
      (server_hello_of config' (client_hello_of config cn) sel enabled sn sid idle) sel') =
    server_maximum_frame_size config' (client_hello_of config cn)"
proof -
  let ?c = "lim_maximum_frame_size (cc_limits config)" and ?s = "lim_maximum_frame_size (sc_limits config')"
  have "?c < 2 ^ 32" "?s < 2 ^ 32"
    using assms by (auto simp: validate_limits_def result_simps ABSOLUTE_MAX_FRAME_SIZE_def)
  then show ?thesis
    by (simp add: client_parameters_def server_hello_of_def server_maximum_frame_size_def
        client_hello_of_def unat_of_nat min_def)
qed

text \<open>The whole run of a successful client, and of a successful server.\<close>

lemma client_rounds:
  assumes C: "connect_inner p sha auth nonce t config now1 now2 = (Inr c, t')"
  obtains v cn s0 s1 s2 s3 s4 s5 bs1 bs3 f2 f4 sh sel bd mat res where
    "validate_limits (cc_limits config) = Inr ()" "new_client t (cc_limits config) v = Inr s0"
    "sent p s0 (ClientHello (client_hello_of config cn)) bs1 s1" "received p s1 f2 s2"
    "gf_body f2 = Some (ServerHello sh)" "client_check_hello config cn sh = Inr sel"
    "configure_negotiated s2 (client_parameters config sh sel) = (Inr (), s3)"
    "session_nonce_binding sha cn (sh_server_nonce sh) (sh_ephemeral_session_id sh) sel = Inr bd"
    "auth bd = Inr mat" "sent p s3 (authenticate_message bd mat) bs3 s4" "received p s4 f4 s5"
    "gf_body f4 = Some (AuthenticationResult res)" "ar_accepted res"
    "cr_granted_capabilities c = ar_granted_capabilities res"
    "fset_of_list (cr_granted_capabilities c) |\<subseteq>| ss_enabled_capabilities s5"
    "cr_session c = s5\<lparr>ss_enabled_capabilities := fset_of_list (cr_granted_capabilities c),
      ss_phase := Active\<rparr>" "t' = ss_transport (cr_session c)"
proof -
  from C obtain v cn s0 where 1: "validate_limits (cc_limits config) = Inr ()"
      "new_client t (cc_limits config) v = Inr s0" "t' = ss_transport (cr_session c)"
    and h: "client_handshake p sha auth config cn s0 now1 now2 =
      (Inr (cr_granted_capabilities c), cr_session c)" "quiet s0" "ss_phase s0 = AwaitingServerHello"
    by (rule connect_inner_run)
  from h obtain bs1 s1 f2 s2 sh sel s3 where
    2: "sent p s0 (ClientHello (client_hello_of config cn)) bs1 s1" "received p s1 f2 s2"
      "gf_body f2 = Some (ServerHello sh)" "client_check_hello config cn sh = Inr sel"
      "configure_negotiated s2 (client_parameters config sh sel) = (Inr (), s3)"
    and a: "client_authenticate p sha auth s3 now2 cn sh sel =
      (Inr (cr_granted_capabilities c), cr_session c)"
      "quiet s3" "ss_phase s3 = AwaitingAuthenticationResult"
    by (rule client_handshake_run)
  from a show thesis by (rule client_authenticate_run) (rule that [OF 1(1,2) 2 _ _ _ _ _ _ _ _ _ 1(3)])
qed

lemma server_rounds:
  assumes S: "accept_inner p sha verify entropy t config now1 now2 = (Inr s, t')"
  obtains v r0 r1 r2 r3 r4 r5 cs2 cs4 g1 g3 hello range sel enabled sn sid idle au bd decision where
    "validate_limits (sc_limits config) = Inr ()" "new_server t (sc_limits config) v = Inr r0"
    "received p r0 g1 r1" "gf_body g1 = Some (ClientHello hello)"
    "ch_supported_versions hello = Some range"
    "select_version range (sc_supported_versions config) = Inr sel"
    "negotiate_capabilities (ch_client_capabilities hello) (sc_supported_capabilities config) = Inr enabled"
    "se_server_nonce entropy = Some sn" "se_session_id entropy = Some sid"
    "configure_negotiated r1 (server_parameters config hello sel enabled sid) = (Inr (), r2)"
    "sent p r2 (ServerHello (server_hello_of config hello sel enabled sn sid idle)) cs2 r3"
    "received p r3 g3 r4" "gf_body g3 = Some (Authenticate au)"
    "session_nonce_binding sha (ch_session_nonce hello) sn sid sel = Inr bd"
    "au_session_nonce_binding au = bd"
    "verify (au_anonymous_capability_token au) (au_proof_of_possession au) bd = Inr decision"
    "ad_accepted decision" "0 < ad_expires_at_unix_seconds decision"
    "sent p r4 (result_message decision) cs4 r5"
    "sr_granted_capabilities s = ad_granted_capabilities decision"
    "fset_of_list (sr_granted_capabilities s) |\<subseteq>| ss_enabled_capabilities r5"
    "sr_session s = r5\<lparr>ss_enabled_capabilities := fset_of_list (sr_granted_capabilities s),
      ss_phase := Active\<rparr>" "t' = ss_transport (sr_session s)"
proof -
  from S obtain v r0 where 1: "validate_limits (sc_limits config) = Inr ()"
      "new_server t (sc_limits config) v = Inr r0" "t' = ss_transport (sr_session s)"
    and h: "server_handshake p sha verify config entropy r0 now1 now2 =
      (Inr (sr_granted_capabilities s), sr_session s)" "quiet r0" "ss_phase r0 = AwaitingClientHello"
    by (rule accept_inner_run)
  from h obtain g1 r1 hello range sel enabled sn sid idle r2 cs2 r3 where
    2: "received p r0 g1 r1" "gf_body g1 = Some (ClientHello hello)"
      "ch_supported_versions hello = Some range"
      "select_version range (sc_supported_versions config) = Inr sel"
      "negotiate_capabilities (ch_client_capabilities hello) (sc_supported_capabilities config) = Inr enabled"
      "se_server_nonce entropy = Some sn" "se_session_id entropy = Some sid"
      "configure_negotiated r1 (server_parameters config hello sel enabled sid) = (Inr (), r2)"
      "sent p r2 (ServerHello (server_hello_of config hello sel enabled sn sid idle)) cs2 r3"
    and a: "server_authenticate p sha verify r3 now2 hello sel enabled sn sid =
      (Inr (sr_granted_capabilities s), sr_session s)" "quiet r3" "ss_phase r3 = AwaitingAuthentication"
    by (rule server_handshake_run)
  from a show thesis
    by (rule server_authenticate_run) (rule that [OF 1(1,2) 2 _ _ _ _ _ _ _ _ _ _ _ 1(3)])
qed

text \<open>With the wires crossed, each side receives the bodies the other side sent.\<close>

lemma crossing:
  assumes faithful: "prost_faithful p"
    and c: "sent p s0 b1 bs1 s1" "received p s1 f2 s2" "sent p s3 b3 bs3 s4" "received p s4 f4 s5"
    and d: "received p r0 g1 r1" "sent p r2 b2 cs2 r3" "received p r3 g3 r4" "sent p r4 b4 cs4 r5"
    and between: "ss_transport s3 = ss_transport s2" "ss_transport r2 = ss_transport r1"
    and ext: "ss_enabled_critical_extensions s0 = {||}" "ss_enabled_critical_extensions s3 = {||}"
      "ss_enabled_critical_extensions r2 = {||}"
    and wire: "tr_input (ss_transport r0) = bs1 @ bs3" "tr_input (ss_transport s0) = cs2 @ cs4"
  shows "gf_body g1 = Some b1" "gf_body f2 = Some b2" "gf_body g3 = Some b3" "gf_body f4 = Some b4"
proof -
  note 1 = sent_received [OF faithful c(1) d(1) ext(1) wire(1)]
  have "tr_input (ss_transport s1) = cs2 @ cs4" using wire(2) by (simp add: sent_fields [OF c(1)])
  note 2 = sent_received [OF faithful d(2) c(2) ext(3) this]
  have "tr_input (ss_transport r3) = bs3 @ []" using 1 between by (simp add: sent_fields [OF d(2)])
  note 3 = sent_received [OF faithful c(3) d(3) ext(2) this]
  have "tr_input (ss_transport s4) = cs4 @ []" using 2 between by (simp add: sent_fields [OF c(3)])
  moreover have "ss_enabled_critical_extensions r4 = {||}"
    by (simp add: received_fields [OF d(3)] sent_fields [OF d(2)] ext)
  ultimately have 4: "f4 = handshake_frame r4 b4"
    using sent_received [OF faithful d(4) c(4)] by blast
  from 1 2 3 4
  show "gf_body g1 = Some b1" "gf_body f2 = Some b2" "gf_body g3 = Some b3" "gf_body f4 = Some b4"
    by (simp_all add: handshake_frame_def)
qed

lemma agreement:
  assumes faithful: "prost_faithful p"
    and C: "connect_inner p sha auth nonce tc config now1 now2 = (Inr c, tc')"
    and S: "accept_inner p sha verify entropy ts config' now3 now4 = (Inr s, ts')"
    and out: "tr_output tc = []" "tr_output ts = []"
    and wire: "tr_input tc = tr_output ts'" "tr_input ts = tr_output tc'"
  shows "mirrored (cr_session c) (sr_session s) \<and>
    cr_granted_capabilities c = sr_granted_capabilities s \<and>
    (\<exists>binding material decision. auth binding = Inr material \<and>
       verify (am_anonymous_capability_token material) (am_proof_of_possession material) binding =
         Inr decision \<and> ad_accepted decision)"
  using C
proof (rule client_rounds)
  fix v cn s0 s1 s2 s3 s4 s5 bs1 bs3 f2 f4 sh sel bd mat res
  assume c: "validate_limits (cc_limits config) = Inr ()" "new_client tc (cc_limits config) v = Inr s0"
    "sent p s0 (ClientHello (client_hello_of config cn)) bs1 s1" "received p s1 f2 s2"
    "configure_negotiated s2 (client_parameters config sh sel) = (Inr (), s3)"
    "sent p s3 (authenticate_message bd mat) bs3 s4" "received p s4 f4 s5"
    "cr_session c = s5\<lparr>ss_enabled_capabilities := fset_of_list (cr_granted_capabilities c), ss_phase := Active\<rparr>"
    "tc' = ss_transport (cr_session c)"
    and cm: "gf_body f2 = Some (ServerHello sh)" "client_check_hello config cn sh = Inr sel"
      "auth bd = Inr mat" "gf_body f4 = Some (AuthenticationResult res)"
      "cr_granted_capabilities c = ar_granted_capabilities res"
  from S show ?thesis
  proof (rule server_rounds)
    fix v' r0 r1 r2 r3 r4 r5 cs2 cs4 g1 g3 hello range sel' enabled sn sid idle au bd' decision
    assume d: "validate_limits (sc_limits config') = Inr ()" "new_server ts (sc_limits config') v' = Inr r0"
      "received p r0 g1 r1"
      "configure_negotiated r1 (server_parameters config' hello sel' enabled sid) = (Inr (), r2)"
      "sent p r2 (ServerHello (server_hello_of config' hello sel' enabled sn sid idle)) cs2 r3"
      "received p r3 g3 r4" "sent p r4 (result_message decision) cs4 r5"
      "sr_session s = r5\<lparr>ss_enabled_capabilities := fset_of_list (sr_granted_capabilities s), ss_phase := Active\<rparr>"
      "ts' = ss_transport (sr_session s)"
      and dm: "gf_body g1 = Some (ClientHello hello)" "gf_body g3 = Some (Authenticate au)"
        "au_session_nonce_binding au = bd'"
        "verify (au_anonymous_capability_token au) (au_proof_of_possession au) bd' = Inr decision"
        "ad_accepted decision" "sr_granted_capabilities s = ad_granted_capabilities decision"
    note cf = client_final [OF c(3-8,2)] and sf = server_final [OF d(3-8,2)]
      and cn = new_session_fields [OF c(2) [unfolded new_client_def]]
      and sn = new_session_fields [OF d(2) [unfolded new_server_def]]
    have w: "tr_input (ss_transport r0) = bs1 @ bs3" "tr_input (ss_transport s0) = cs2 @ cs4"
      using wire out cf(11) sf(11) c(9) d(9) by (simp_all add: cn sn)
    have x: "ss_transport s3 = ss_transport s2" "ss_transport r2 = ss_transport r1"
      "ss_enabled_critical_extensions s0 = {||}" "ss_enabled_critical_extensions s3 = {||}"
      "ss_enabled_critical_extensions r2 = {||}"
      by (simp_all add: cn sn configured_fields [OF c(5)] received_fields [OF c(4)]
          sent_fields [OF c(3)] configured_fields [OF d(4)] received_fields [OF d(3)])
    note b = crossing [OF faithful c(3,4,6,7) d(3,5,6,7) x w]
    have eqs: "hello = client_hello_of config cn" "Authenticate au = authenticate_message bd mat"
      "sh = server_hello_of config' hello sel' enabled sn sid idle"
      "AuthenticationResult res = result_message decision"
      using b cm dm by simp_all
    have sel: "sel = sel'"
      using cm(2) eqs(3) by (auto simp: client_check_hello_def result_simps server_hello_of_def)
    have granted: "cr_granted_capabilities c = sr_granted_capabilities s"
      using cm(5) dm(6) eqs(4) by (simp add: result_message_def)
    have "ss_maximum_frame_size (cr_session c) = ss_maximum_frame_size (sr_session s)"
      using negotiated_frame_size [OF c(1) d(1)] cf(7) sf(7) by (simp add: eqs(1,3))
    then have "mirrored (cr_session c) (sr_session s)"
      using cf sf granted sel eqs(1,3)
      by (auto simp: mirrored_def in_step_def server_hello_of_def client_hello_of_def flow_new_fields)
    with granted cm(3) dm eqs(2) show ?thesis by (auto simp: authenticate_message_def)
  qed
qed

section \<open>Honest peers complete the handshake\<close>

text \<open>The message fits the outbound queue of a session with the given limits.\<close>

definition fits :: "prost \<Rightarrow> protocol_limits \<Rightarrow> body \<Rightarrow> bool" where
  "fits p l b \<longleftrightarrow>
     (\<exists>n. accounted_body_size p b = Inr n \<and> n \<le> lim_maximum_queued_bytes l \<and> n \<le> usize_max)"

lemma quiet_can_enqueue:
  assumes "session_inv s" "quiet s" "n \<le> lim_maximum_queued_bytes (ss_limits s)" "n \<le> usize_max"
  shows "can_enqueue_control (ss_scheduler s) n = Inr ()"
proof -
  from assms(1) have ok: "scheduler_ok (ss_limits s) (ss_scheduler s)"
    and l: "lim_maximum_control_frames (ss_limits s) \<noteq> 0"
    by (auto simp: session_inv_def validate_limits_def result_simps)
  with assms(2) have "fs_queued_bytes (ss_scheduler s) = 0"
    by (simp add: scheduler_ok_def fs_inv_def quiet_def ring_bytes_def)
  with ok l assms show ?thesis
    by (auto simp: can_enqueue_control_Inr scheduler_ok_def quiet_def)
qed

lemma checked_increment_forward:
  "unat w < 2 ^ 64 - 1 \<Longrightarrow> checked_add_u64 w 1 = Some (w + 1)"
  by (simp add: checked_add_u64_def)

lemma flush_single_forward:
  assumes "fs_control (ss_scheduler s) = [x]" "fs_active (ss_scheduler s) = []"
    and "ss_phase s \<noteq> PhaseClosed" "unat (ss_next_send_sequence s) < 2 ^ 64 - 1"
    and "validate_frame (outbound_frame s x) (ss_enabled_critical_extensions s) = Inr ()"
    and "encode_frame p (outbound_frame s x) (ss_maximum_frame_size s) = Inr bs"
    and "tr_write_ok (ss_transport s)"
  obtains g where "flush_all p s = (Inr (), s\<lparr>ss_scheduler := g,
      ss_next_send_sequence := ss_next_send_sequence s + 1,
      ss_transport := (ss_transport s)\<lparr>tr_output := tr_output (ss_transport s) @ bs\<rparr>\<rparr>)"
    "fs_control g = []" "fs_active g = []"
proof -
  obtain g where g: "pop_next (ss_scheduler s) = (Some x, g)" "fs_control g = []" "fs_active g = []"
    using assms(1,2) by (simp add: pop_next_def pop_control_def)
  let ?t = "s\<lparr>ss_scheduler := g, ss_next_send_sequence := ss_next_send_sequence s + 1,
      ss_transport := (ss_transport s)\<lparr>tr_output := tr_output (ss_transport s) @ bs\<rparr>\<rparr>"
  have "flush_one p s = (Inr True, ?t)"
    using assms(3-7) g(1) checked_increment_forward [OF assms(4)]
    by (simp add: flush_one_def flush_one_inner_def Let_def outbound_frame_def write_frame_def
        write_all_def close_on_error_def)
  moreover have "flush_all p ?t = (Inr (), ?t)"
    using g assms(3) by (intro flush_all_quiet) (simp_all add: quiet_def)
  ultimately have "flush_all p s = (Inr (), ?t)" by (simp add: flush_all.simps [of p s])
  with g show thesis by (intro that)
qed

lemma send_handshake_forward:
  assumes inv: "session_inv s" and ph: "handshake_phase (ss_phase s)" and q: "quiet s"
    and fits: "fits p (ss_limits s) b" and seq: "unat (ss_next_send_sequence s) < 2 ^ 64 - 1"
    and valid: "validate_frame (handshake_frame s b) {||} = Inr ()"
    and enc: "encode_frame p (handshake_frame s b) (ss_maximum_frame_size s) = Inr bs"
    and wr: "tr_write_ok (ss_transport s)"
  shows "\<exists>t. send_handshake p s b = (Inr (), t) \<and> sent p s b bs t"
proof -
  from fits obtain n where n: "accounted_body_size p b = Inr n"
      "n \<le> lim_maximum_queued_bytes (ss_limits s)" "n \<le> usize_max"
    by (auto simp: fits_def)
  let ?x = "\<lparr>oi_body = b, oi_accounted_bytes = n\<rparr>"
  let ?u = "s\<lparr>ss_scheduler := (ss_scheduler s)
      \<lparr>fs_queued_bytes := fs_queued_bytes (ss_scheduler s) + n,
       fs_control := fs_control (ss_scheduler s) @ [?x]\<rparr>\<rparr>"
  have "enqueue_control (ss_scheduler s) ?x = (Inr (), ss_scheduler ?u)"
    using quiet_can_enqueue [OF inv q n(2,3)] by (simp add: enqueue_control_Inr)
  then have u: "queue_handshake p s b = (Inr (), ?u)"
    using ph n(1)
    by (auto simp: queue_handshake_def handshake_phase_def queue_control_body_def with_scheduler_def)
  have f: "outbound_frame ?u ?x = handshake_frame s b"
    by (simp add: outbound_frame_def handshake_frame_def)
  have ext: "ss_enabled_critical_extensions s = {||}" by (rule session_inv_parts(5) [OF inv])
  obtain g where g: "flush_all p ?u = (Inr (), ?u\<lparr>ss_scheduler := g,
      ss_next_send_sequence := ss_next_send_sequence ?u + 1,
      ss_transport := (ss_transport ?u)\<lparr>tr_output := tr_output (ss_transport ?u) @ bs\<rparr>\<rparr>)"
    "fs_control g = []" "fs_active g = []"
  proof (rule flush_single_forward [of ?u ?x p bs])
    show "fs_control (ss_scheduler ?u) = [?x]" "fs_active (ss_scheduler ?u) = []"
      "ss_phase ?u \<noteq> PhaseClosed" "unat (ss_next_send_sequence ?u) < 2 ^ 64 - 1"
      "tr_write_ok (ss_transport ?u)"
      using q ph seq wr by (auto simp: quiet_def handshake_phase_def)
    show "validate_frame (outbound_frame ?u ?x) (ss_enabled_critical_extensions ?u) = Inr ()"
      "encode_frame p (outbound_frame ?u ?x) (ss_maximum_frame_size ?u) = Inr bs"
      using valid enc ext by (simp_all add: f)
  qed
  have "send_handshake p s b = (Inr (), s\<lparr>ss_scheduler := g,
      ss_next_send_sequence := ss_next_send_sequence s + 1,
      ss_transport := (ss_transport s)\<lparr>tr_output := tr_output (ss_transport s) @ bs\<rparr>\<rparr>)"
    using u g(1) by (simp add: send_handshake_def)
  with enc valid ext g(2,3) show ?thesis by (auto simp: sent_def quiet_def)
qed

lemma read_frame_forward:
  assumes "prost_conforms p f" "gf_body f \<noteq> None" "encode_frame p f m = Inr bs"
    and "tr_input t = bs @ rest" "m \<le> m'" "m' \<le> ABSOLUTE_MAX_FRAME_SIZE"
  shows "read_frame p t m' = (Inr f, t\<lparr>tr_input := rest\<rparr>)"
proof -
  from assms(3,5,6) have "validate_maximum m' = Inr ()" "encode_frame p f m' = Inr bs"
    by (auto simp: encode_frame_def validate_maximum_def result_simps Let_def split: if_splits)
  then obtain d where "decoder_new m' = Inr d" by (auto simp: decoder_new_def)
  from encoded_frame_read_back [OF assms(1,2) \<open>encode_frame p f m' = Inr bs\<close> this assms(4)]
  show ?thesis by simp
qed

lemma receive_handshake_forward:
  assumes inv: "session_inv s" and ph: "handshake_phase (ss_phase s)"
    and read: "read_frame p (ss_transport s) (ss_maximum_frame_size s) = (Inr f, tr)"
    and f: "validate_frame f {||} = Inr ()" "gf_sequence f = ss_next_receive_sequence s"
      "gf_body f = Some b" "validate_frame_context s f = Inr ()"
    and app: "\<And>s'. ss_phase s' = ss_phase s \<Longrightarrow> apply_inbound s' now b = (Inr (), s')"
    and seq: "unat (ss_next_receive_sequence s) < 2 ^ 64 - 1"
  shows "\<exists>t. receive p s now = (Inr b, t) \<and> received p s f t"
proof -
  have ext: "ss_enabled_critical_extensions s = {||}" by (rule session_inv_parts(5) [OF inv])
  let ?t = "s\<lparr>ss_transport := tr, ss_next_receive_sequence := ss_next_receive_sequence s + 1\<rparr>"
  have "validate_frame_context ?t f = Inr ()"
    using f(4) by (simp add: validate_frame_context_def cong: session_phase.case_cong)
  then have "process_frame (s\<lparr>ss_transport := tr\<rparr>) now f = (Inr b, ?t)"
    using f ext checked_increment_forward [OF seq] app [of ?t]
    by (simp add: process_frame_def Let_def)
  moreover have "ss_phase s \<noteq> PhaseClosed" using ph by (auto simp: handshake_phase_def)
  ultimately have "receive p s now = (Inr b, ?t)"
    using read by (simp add: receive_def receive_inner_def close_on_error_def)
  with read f(1) ext show ?thesis by (auto simp: received_def)
qed

text \<open>
  The script of a handshake between two honest peers: their configurations, the random
  values drawn, and what the negotiation, the authenticator and the verifier answer.
\<close>

record handshake_script =
  hx_client :: client_config
  hx_server :: server_config
  hx_version :: protocol_version
  hx_client_nonce :: bytes
  hx_server_nonce :: bytes
  hx_session_id :: bytes
  hx_selected :: protocol_version
  hx_enabled :: "string list"
  hx_idle :: u32
  hx_binding :: bytes
  hx_material :: authentication_material
  hx_decision :: authentication_decision

definition script_hello :: "handshake_script \<Rightarrow> client_hello" where
  "script_hello x = client_hello_of (hx_client x) (hx_client_nonce x)"

definition script_server_hello :: "handshake_script \<Rightarrow> server_hello" where
  "script_server_hello x = server_hello_of (hx_server x) (script_hello x) (hx_selected x)
     (hx_enabled x) (hx_server_nonce x) (hx_session_id x) (hx_idle x)"

text \<open>The four messages of the script and their frames.\<close>

definition script_body :: "handshake_script \<Rightarrow> nat \<Rightarrow> body" where
  "script_body x i =
     [ClientHello (script_hello x), ServerHello (script_server_hello x),
      authenticate_message (hx_binding x) (hx_material x), result_message (hx_decision x)] ! i"

definition script_frame :: "handshake_script \<Rightarrow> nat \<Rightarrow> gateway_frame" where
  "script_frame x i =
     \<lparr>gf_sequence = [1, 1, 2, 2] ! i,
      gf_version = Some (if i = 0 then hx_version x else hx_selected x),
      gf_critical_extension_ids = [], gf_session_id = (if i = 0 then [] else hx_session_id x),
      gf_body = Some (script_body x i)\<rparr>"

definition script_maximum :: "handshake_script \<Rightarrow> nat" where
  "script_maximum x = server_maximum_frame_size (hx_server x) (script_hello x)"

definition honest :: "(bytes \<Rightarrow> bytes) \<Rightarrow> authenticator \<Rightarrow> verifier \<Rightarrow> handshake_script \<Rightarrow> bool" where
  "honest sha256 authenticator verify x \<longleftrightarrow>
     validate_limits (cc_limits (hx_client x)) = Inr () \<and>
     validate_limits (sc_limits (hx_server x)) = Inr () \<and>
     sc_session_ttl_seconds (hx_server x) \<noteq> 0 \<and>
     sc_session_ttl_seconds (hx_server x) \<le> MAX_SESSION_TTL_SECONDS \<and>
     vr_maximum (cc_supported_versions (hx_client x)) = Some (hx_version x) \<and>
     select_version (cc_supported_versions (hx_client x)) (sc_supported_versions (hx_server x)) =
       Inr (hx_selected x) \<and>
     negotiate_capabilities (cc_capabilities (hx_client x)) (sc_supported_capabilities (hx_server x)) =
       Inr (hx_enabled x) \<and>
     verify_enabled_capabilities (cc_capabilities (hx_client x)) (hx_enabled x) = Inr () \<and>
     checked_u32 (lim_idle_stream_timeout (sc_limits (hx_server x)) div 1000000) = Some (hx_idle x) \<and>
     session_nonce_binding sha256 (hx_client_nonce x) (hx_server_nonce x) (hx_session_id x)
       (hx_selected x) = Inr (hx_binding x) \<and>
     authenticator (hx_binding x) = Inr (hx_material x) \<and>
     verify (am_anonymous_capability_token (hx_material x)) (am_proof_of_possession (hx_material x))
       (hx_binding x) = Inr (hx_decision x) \<and>
     ad_accepted (hx_decision x) \<and> 0 < ad_expires_at_unix_seconds (hx_decision x) \<and>
     verify_enabled_capabilities (hx_enabled x) (ad_granted_capabilities (hx_decision x)) = Inr () \<and>
     set (ad_granted_capabilities (hx_decision x)) \<subseteq> set (hx_enabled x) \<and>
     (\<forall>i<4. validate_body (script_body x i) = Inr ())"

text \<open>
  The generated code encodes the four frames within the frame size both peers accept, and
  each message fits the outbound queue of both.
\<close>

definition script_encoded :: "prost \<Rightarrow> handshake_script \<Rightarrow> bytes list \<Rightarrow> bool" where
  "script_encoded p x bss \<longleftrightarrow> length bss = 4 \<and>
     (\<forall>i<4. encode_frame p (script_frame x i) (script_maximum x) = Inr (bss ! i) \<and>
        prost_conforms p (script_frame x i) \<and>
        fits p (cc_limits (hx_client x)) (script_body x i) \<and>
        fits p (sc_limits (hx_server x)) (script_body x i))"

lemma script_maximum_eq:
  assumes "validate_limits (cc_limits (hx_client x)) = Inr ()"
  shows "script_maximum x = min (lim_maximum_frame_size (sc_limits (hx_server x)))
      (lim_maximum_frame_size (cc_limits (hx_client x)))"
  using validated_client_frame_size [OF assms]
  by (simp add: script_maximum_def server_maximum_frame_size_def script_hello_def client_hello_of_def)

lemma encode_frame_larger:
  assumes "encode_frame p f m = Inr bs" "m \<le> m'" "m' \<le> ABSOLUTE_MAX_FRAME_SIZE"
  shows "encode_frame p f m' = Inr bs"
  using assms by (auto simp: encode_frame_def validate_maximum_def result_simps Let_def split: if_splits)

lemma select_version_major: "select_version c s = Inr v \<Longrightarrow> pv_major v \<noteq> 0"
  by (auto simp: select_version_Inr dest: validate_version_range_ordered)

lemma range_maximum:
  assumes "validate_version_range r = Inr u"
  shows "\<exists>v. vr_maximum r = Some v \<and> pv_major v \<noteq> 0"
  using assms by (auto simp: validate_version_range_def result_simps)

lemma honest_versions:
  assumes "honest sha auth verify x"
  shows "pv_major (hx_version x) \<noteq> 0" "pv_major (hx_selected x) \<noteq> 0"
    "\<exists>v. vr_maximum (sc_supported_versions (hx_server x)) = Some v \<and> pv_major v \<noteq> 0"
proof -
  from assms have sel: "select_version (cc_supported_versions (hx_client x))
      (sc_supported_versions (hx_server x)) = Inr (hx_selected x)"
    and v: "vr_maximum (cc_supported_versions (hx_client x)) = Some (hx_version x)"
    by (auto simp: honest_def)
  from sel show "pv_major (hx_selected x) \<noteq> 0" by (rule select_version_major)
  from sel obtain u w where u: "validate_version_range (cc_supported_versions (hx_client x)) = Inr u"
    and w: "validate_version_range (sc_supported_versions (hx_server x)) = Inr w"
    by (auto simp: select_version_Inr)
  from range_maximum [OF u] v show "pv_major (hx_version x) \<noteq> 0" by simp
  show "\<exists>v. vr_maximum (sc_supported_versions (hx_server x)) = Some v \<and> pv_major v \<noteq> 0"
    by (rule range_maximum [OF w])
qed

lemma script_frame_valid:
  assumes "honest sha auth verify x" "i < 4"
  shows "validate_frame (script_frame x i) {||} = Inr ()"
proof -
  have "[1, 1, 2, 2 :: u64] ! i \<noteq> 0" using assms(2) by (auto simp: less_Suc_eq numeral_eq_Suc)
  with honest_versions [OF assms(1)] assms show ?thesis
    by (auto simp: validate_frame_v1 script_frame_def honest_def)
qed

lemma session_inv_sent_handshake:
  "session_inv s \<Longrightarrow> send_handshake p s b = (r, t) \<Longrightarrow> session_inv t"
  unfolding send_handshake_def
  by (erule keepsD [rotated]) (auto intro!: keeps_bindS keeps_queue_handshake keeps_flush_all)

lemma session_inv_receive: "session_inv s \<Longrightarrow> receive p s now = (r, t) \<Longrightarrow> session_inv t"
  by (rule keepsD [OF keeps_receive])

lemma session_inv_configure: "session_inv s \<Longrightarrow> configure_negotiated s q = (r, t) \<Longrightarrow> session_inv t"
  by (rule keepsD [OF keeps_configure])

lemma validate_enabled_set:
  assumes "validate_capabilities enabled = Inr ()"
  shows "validate_capabilities (sorted_list_of_fset (fset_of_list enabled)) = Inr ()"
proof -
  have "card (set enabled) \<le> length enabled" by (rule card_length)
  with assms show ?thesis
    unfolding validate_capabilities_fset
    by (auto simp: validate_capabilities_def result_simps for_all_eq_Inr fcard.rep_eq
        fset_of_list.rep_eq fset_of_list_elem)
qed

lemma configure_forward:
  assumes "pv_major (np_selected_version q) \<noteq> 0" "length (np_session_id q) = 16"
    and "0 < np_maximum_frame_size q" "np_maximum_frame_size q \<le> lim_maximum_frame_size (ss_limits s)"
    and "validate_connection_window (np_peer_connection_receive_window q) = Inr ()"
    and "validate_connection_window (np_local_connection_receive_window q) = Inr ()"
    and "np_maximum_concurrent_streams q \<noteq> 0" "lim_maximum_concurrent_streams (ss_limits s) \<noteq> 0"
    and "validate_capabilities (sorted_list_of_fset (np_enabled_capabilities q)) = Inr ()"
    and "np_idle_stream_timeout q \<noteq> 0"
  shows "\<exists>t. configure_negotiated s q = (Inr (), t)"
  using assms
  by (simp add: configure_negotiated_def flow_new_def validate_connection_window_def)

lemma validate_limits_facts:
  assumes "validate_limits l = Inr ()"
  shows "MIN_NEGOTIABLE_FRAME_SIZE \<le> lim_maximum_frame_size l"
    "lim_maximum_frame_size l \<le> ABSOLUTE_MAX_FRAME_SIZE"
    "validate_connection_window (lim_initial_connection_window l) = Inr ()"
    "lim_maximum_concurrent_streams l \<noteq> 0" "lim_idle_stream_timeout l \<noteq> 0"
  using assms by (auto simp: validate_limits_def result_simps validate_connection_window_def)

lemma server_hello_facts:
  assumes "validate_server_hello sh = Inr ()"
  shows "validate_connection_window (sh_initial_connection_receive_window sh) = Inr ()"
    "validate_frame_limit (sh_maximum_frame_size sh) = Inr ()"
    "sh_maximum_concurrent_streams sh \<noteq> 0" "sh_idle_stream_timeout_ms sh \<noteq> 0"
    "validate_capabilities (sh_enabled_capabilities sh) = Inr ()"
    "length (sh_ephemeral_session_id sh) = 16"
  using assms by (auto simp: validate_server_hello_def result_simps exact_length_def split: if_splits)

lemma client_configures:
  assumes h: "honest sha auth verify x" and l: "ss_limits s = cc_limits (hx_client x)"
  shows "\<exists>t. configure_negotiated s
    (client_parameters (hx_client x) (script_server_hello x) (hx_selected x)) = (Inr (), t)"
proof -
  let ?sh = "script_server_hello x"
  have lim: "validate_limits (cc_limits (hx_client x)) = Inr ()" using h by (simp add: honest_def)
  have "validate_body (script_body x 1) = Inr ()" using h by (simp add: honest_def)
  then have sh: "validate_server_hello ?sh = Inr ()" by (simp add: script_body_def)
  note a = validate_limits_facts [OF lim] and b = server_hello_facts [OF sh]
  have "0 < unat (sh_maximum_frame_size ?sh)" "0 < unat (sh_maximum_concurrent_streams ?sh)"
    "0 < unat (sh_idle_stream_timeout_ms ?sh)"
    using b(2) b(3,4) [folded unat_gt_0]
    by (auto simp: validate_frame_limit_def MIN_NEGOTIABLE_FRAME_SIZE_def)
  with a b honest_versions(2) [OF h] show ?thesis
    by (intro configure_forward)
      (simp_all add: client_parameters_def l validate_enabled_set MIN_NEGOTIABLE_FRAME_SIZE_def)
qed

lemma server_configures:
  assumes h: "honest sha auth verify x" and l: "ss_limits s = sc_limits (hx_server x)"
  shows "\<exists>t. configure_negotiated s (server_parameters (hx_server x) (script_hello x)
    (hx_selected x) (hx_enabled x) (hx_session_id x)) = (Inr (), t)"
proof -
  have lim: "validate_limits (cc_limits (hx_client x)) = Inr ()"
    "validate_limits (sc_limits (hx_server x)) = Inr ()" using h by (simp_all add: honest_def)
  have "validate_body (script_body x 1) = Inr ()" using h by (simp add: honest_def)
  then have sh: "validate_server_hello (script_server_hello x) = Inr ()" by (simp add: script_body_def)
  note a = validate_limits_facts [OF lim(1)] and b = validate_limits_facts [OF lim(2)]
    and c = server_hello_facts(5,6) [OF sh]
  have m: "server_maximum_frame_size (hx_server x) (script_hello x) =
      min (lim_maximum_frame_size (sc_limits (hx_server x)))
        (lim_maximum_frame_size (cc_limits (hx_client x)))"
    using script_maximum_eq [OF lim(1)] by (simp add: script_maximum_def)
  from a b c honest_versions(2) [OF h] m show ?thesis
    by (intro configure_forward)
      (simp_all add: server_parameters_def l validate_enabled_set MIN_NEGOTIABLE_FRAME_SIZE_def
        script_server_hello_def server_hello_of_def script_hello_def client_hello_of_def)
qed

lemma grant_forward:
  assumes "verify_enabled_capabilities enabled granted = Inr ()"
    and "ss_enabled_capabilities s = fset_of_list enabled"
    and "ss_phase s = AwaitingAuthentication \<or> ss_phase s = AwaitingAuthenticationResult"
    and "set granted \<subseteq> set enabled"
  shows "bindS (set_granted_capabilities s granted) (\<lambda>_ s. bindS (mark_active s) (\<lambda>_ s. (Inr granted, s))) =
    (Inr granted, s\<lparr>ss_enabled_capabilities := fset_of_list granted, ss_phase := Active\<rparr>)"
proof -
  from assms(1) have g: "validate_capabilities granted = Inr ()" "distinct granted"
    by (auto simp: verify_enabled_Inr)
  with assms(2,4) have "set_granted_capabilities s granted =
      (Inr (), s\<lparr>ss_enabled_capabilities := fset_of_list granted\<rparr>)"
    by (auto simp: set_granted_capabilities_def fcard_fset_of_list_distinct Let_def
        less_eq_fset.rep_eq fset_of_list.rep_eq)
  with assms(3) show ?thesis by (auto simp: mark_active_def)
qed

lemma fits_idle [simp]: "fits p (l\<lparr>lim_idle_stream_timeout := d\<rparr>) b = fits p l b"
  by (simp add: fits_def)

text \<open>Sending and receiving the messages of the script.\<close>

lemma script_send:
  assumes h: "honest sha auth verify x" and e: "script_encoded p x bss" and i: "i < 4"
    and s: "session_inv s" "handshake_phase (ss_phase s)" "quiet s" "tr_write_ok (ss_transport s)"
    and f: "handshake_frame s (script_body x i) = script_frame x i"
    and l: "fits p (ss_limits s) (script_body x i)"
    and m: "script_maximum x \<le> ss_maximum_frame_size s" "ss_maximum_frame_size s \<le> ABSOLUTE_MAX_FRAME_SIZE"
  obtains t where "send_handshake p s (script_body x i) = (Inr (), t)"
    "sent p s (script_body x i) (bss ! i) t" "session_inv t"
proof -
  have "ss_next_send_sequence s = gf_sequence (handshake_frame s (script_body x i))"
    by (simp add: handshake_frame_def)
  also have "\<dots> \<le> 2" unfolding f script_frame_def using i by (auto simp: less_Suc_eq numeral_eq_Suc)
  finally have seq: "unat (ss_next_send_sequence s) < 2 ^ 64 - 1" by (simp add: word_le_nat_alt)
  have valid: "validate_frame (handshake_frame s (script_body x i)) {||} = Inr ()"
    unfolding f by (rule script_frame_valid [OF h i])
  have enc: "encode_frame p (handshake_frame s (script_body x i)) (ss_maximum_frame_size s) = Inr (bss ! i)"
    unfolding f by (rule encode_frame_larger [OF _ m]) (use e i in \<open>simp add: script_encoded_def\<close>)
  from send_handshake_forward [OF s(1-3) l seq valid enc s(4)] obtain t where
    t: "send_handshake p s (script_body x i) = (Inr (), t)" "sent p s (script_body x i) (bss ! i) t"
    by blast
  with session_inv_sent_handshake [OF s(1) t(1)] show thesis by (intro that)
qed

lemma script_receive:
  assumes h: "honest sha auth verify x" and e: "script_encoded p x bss" and i: "i < 4"
    and s: "session_inv s" "handshake_phase (ss_phase s)" "tr_input (ss_transport s) = bss ! i @ rest"
    and f: "ss_next_receive_sequence s = gf_sequence (script_frame x i)"
      "validate_frame_context s (script_frame x i) = Inr ()"
      "\<And>s'. ss_phase s' = ss_phase s \<Longrightarrow> apply_inbound s' now (script_body x i) = (Inr (), s')"
    and m: "script_maximum x \<le> ss_maximum_frame_size s" "ss_maximum_frame_size s \<le> ABSOLUTE_MAX_FRAME_SIZE"
  obtains t where "receive p s now = (Inr (script_body x i), t)" "received p s (script_frame x i) t"
    "session_inv t" "tr_input (ss_transport t) = rest" "tr_write_ok (ss_transport t) = tr_write_ok (ss_transport s)"
proof -
  have "ss_next_receive_sequence s \<le> 2"
    unfolding f(1) script_frame_def using i by (auto simp: less_Suc_eq numeral_eq_Suc)
  then have seq: "unat (ss_next_receive_sequence s) < 2 ^ 64 - 1" by (simp add: word_le_nat_alt)
  have read: "read_frame p (ss_transport s) (ss_maximum_frame_size s) =
      (Inr (script_frame x i), (ss_transport s)\<lparr>tr_input := rest\<rparr>)"
    using e i m s(3)
    by (intro read_frame_forward [of p _ "script_maximum x" "bss ! i"])
      (auto simp: script_encoded_def script_frame_def)
  have b: "gf_body (script_frame x i) = Some (script_body x i)" by (simp add: script_frame_def)
  from receive_handshake_forward [OF s(1,2) read script_frame_valid [OF h i] f(1) [symmetric] b f(2,3) seq]
  obtain t where t: "receive p s now = (Inr (script_body x i), t)" "received p s (script_frame x i) t"
    by blast
  moreover have "ss_transport t = (ss_transport s)\<lparr>tr_input := rest\<rparr>"
    using t(2) read by (auto simp: received_def)
  ultimately show thesis using session_inv_receive [OF s(1) t(1)] by (intro that [of t]) auto
qed

lemma client_checks_hello:
  assumes "honest sha auth verify x"
  shows "client_check_hello (hx_client x) (hx_client_nonce x) (script_server_hello x) = Inr (hx_selected x)"
  using assms
  by (simp add: client_check_hello_def script_server_hello_def server_hello_of_def script_hello_def
      client_hello_of_def honest_def verify_server_selection_def)

lemma script_maximum_bounds:
  assumes "honest sha auth verify x"
  shows "script_maximum x \<le> lim_maximum_frame_size (cc_limits (hx_client x))"
    "script_maximum x \<le> lim_maximum_frame_size (sc_limits (hx_server x))"
    "script_maximum x \<le> ABSOLUTE_MAX_FRAME_SIZE"
    "lim_maximum_frame_size (cc_limits (hx_client x)) \<le> ABSOLUTE_MAX_FRAME_SIZE"
    "lim_maximum_frame_size (sc_limits (hx_server x)) \<le> ABSOLUTE_MAX_FRAME_SIZE"
proof -
  have lim: "validate_limits (cc_limits (hx_client x)) = Inr ()"
    "validate_limits (sc_limits (hx_server x)) = Inr ()" using assms by (simp_all add: honest_def)
  note script_maximum_eq [OF lim(1)] validate_limits_facts(2) [OF lim(1)] validate_limits_facts(2) [OF lim(2)]
  then show "script_maximum x \<le> lim_maximum_frame_size (cc_limits (hx_client x))"
    "script_maximum x \<le> lim_maximum_frame_size (sc_limits (hx_server x))"
    "script_maximum x \<le> ABSOLUTE_MAX_FRAME_SIZE"
    "lim_maximum_frame_size (cc_limits (hx_client x)) \<le> ABSOLUTE_MAX_FRAME_SIZE"
    "lim_maximum_frame_size (sc_limits (hx_server x)) \<le> ABSOLUTE_MAX_FRAME_SIZE"
    by simp_all
qed

lemma script_bodies [simp]:
  "script_body x 0 = ClientHello (script_hello x)" "script_body x (Suc 0) = ServerHello (script_server_hello x)"
  "script_body x 2 = authenticate_message (hx_binding x) (hx_material x)"
  "script_body x 3 = result_message (hx_decision x)"
  by (simp_all add: script_body_def)

lemma expect_simps [simp]:
  "expect_server_hello (ServerHello sh) = Inr sh"
  "expect_authentication_result (AuthenticationResult res) = Inr res"
  "expect_client_hello (ClientHello ch) = Inr ch"
  "expect_authenticate (Authenticate au) = Inr au"
  by (simp_all add: expect_Inr)

lemma client_authenticates:
  assumes h: "honest sha auth verify x" and e: "script_encoded p x bss"
    and s: "session_inv s" "ss_phase s = AwaitingAuthenticationResult" "quiet s"
      "tr_write_ok (ss_transport s)" "tr_input (ss_transport s) = bss ! 3 @ rest"
      "ss_next_send_sequence s = 2" "ss_next_receive_sequence s = 2"
      "ss_outbound_version s = hx_selected x" "ss_selected_version s = Some (hx_selected x)"
      "ss_session_id s = hx_session_id x" "ss_maximum_frame_size s = script_maximum x"
      "ss_enabled_capabilities s = fset_of_list (hx_enabled x)"
      "fits p (ss_limits s) (script_body x 2)"
  shows "\<exists>t. client_authenticate p sha auth s now (hx_client_nonce x) (script_server_hello x)
      (hx_selected x) = (Inr (ad_granted_capabilities (hx_decision x)), t) \<and>
    tr_output (ss_transport t) = tr_output (ss_transport s) @ bss ! 2"
proof -
  have two: "2 < (4 :: nat)" and three: "3 < (4 :: nat)" by simp_all
  have max: "script_maximum x \<le> ss_maximum_frame_size s" "ss_maximum_frame_size s \<le> ABSOLUTE_MAX_FRAME_SIZE"
    using script_maximum_bounds [OF h] by (simp_all add: s)
  have ph: "handshake_phase (ss_phase s)" using s(2) by (simp add: handshake_phase_def)
  have f: "handshake_frame s (script_body x 2) = script_frame x 2"
    by (simp add: handshake_frame_def script_frame_def s)
  obtain t where t: "send_handshake p s (script_body x 2) = (Inr (), t)"
    "sent p s (script_body x 2) (bss ! 2) t" "session_inv t"
    by (rule script_send [OF h e two s(1) ph s(3,4) f s(13) max])
  note tf = sent_fields [OF t(2)]
  have ph': "handshake_phase (ss_phase t)" "tr_input (ss_transport t) = bss ! 3 @ rest"
    "ss_next_receive_sequence t = gf_sequence (script_frame x 3)"
    "validate_frame_context t (script_frame x 3) = Inr ()"
    "script_maximum x \<le> ss_maximum_frame_size t" "ss_maximum_frame_size t \<le> ABSOLUTE_MAX_FRAME_SIZE"
    using ph max by (simp_all add: tf s script_frame_def validate_frame_context_def)
  have app: "apply_inbound s' now (script_body x 3) = (Inr (), s')" if "ss_phase s' = ss_phase t" for s'
    using that by (simp add: tf s apply_inbound_def result_message_def)
  obtain u where u: "receive p t now = (Inr (script_body x 3), u)" "received p t (script_frame x 3) u"
    by (rule script_receive [OF h e three t(3) ph'(1-4) app ph'(5,6)])
  note uf = received_fields [OF u(2)]
  have caps: "ss_enabled_capabilities u = fset_of_list (hx_enabled x)"
    by (simp add: uf tf s)
  have v: "verify_enabled_capabilities (hx_enabled x) (ad_granted_capabilities (hx_decision x)) = Inr ()"
    "set (ad_granted_capabilities (hx_decision x)) \<subseteq> set (hx_enabled x)"
    using h by (simp_all add: honest_def)
  have ph: "ss_phase u = AwaitingAuthentication \<or> ss_phase u = AwaitingAuthenticationResult"
    by (simp add: uf tf s)
  note g = grant_forward [OF v(1) caps ph v(2)]
  have a: "session_nonce_binding sha (hx_client_nonce x) (hx_server_nonce x) (hx_session_id x)
      (hx_selected x) = Inr (hx_binding x)" "auth (hx_binding x) = Inr (hx_material x)"
      "ad_accepted (hx_decision x)"
    using h by (simp_all add: honest_def)
  have "client_authenticate p sha auth s now (hx_client_nonce x) (script_server_hello x)
      (hx_selected x) = (Inr (ad_granted_capabilities (hx_decision x)),
      u\<lparr>ss_enabled_capabilities := fset_of_list (ad_granted_capabilities (hx_decision x)),
        ss_phase := Active\<rparr>)"
    using t(1) u(1) g v(1) a
    by (simp add: client_authenticate_def script_server_hello_def server_hello_of_def
        authenticate_message_def result_message_def)
  then show ?thesis by (simp add: uf tf)
qed

lemma session_new_forward:
  assumes "validate_limits l = Inr ()" "pv_major v \<noteq> 0"
  obtains s where "session_new t role phase l v = Inr s"
proof -
  from assms(1) have "\<exists>f. scheduler_new (lim_maximum_queued_bytes l)
      (lim_maximum_queued_bytes_per_stream l) (lim_maximum_control_frames l) = Inr f"
    by (auto simp: validate_limits_def result_simps scheduler_new_def)
  with assms show thesis by (auto simp: session_new_def intro: that)
qed

lemma honest_body: "honest sha auth verify x \<Longrightarrow> i < 4 \<Longrightarrow> validate_body (script_body x i) = Inr ()"
  by (simp add: honest_def)

lemma script_fits:
  assumes "script_encoded p x bss" "i < 4"
  shows "fits p (cc_limits (hx_client x)) (script_body x i)" "fits p (sc_limits (hx_server x)) (script_body x i)"
  using assms by (simp_all add: script_encoded_def)

text \<open>The hellos, as the client sees them.\<close>

lemma client_first_round:
  assumes h: "honest sha auth verify x" and e: "script_encoded p x bss"
    and t: "tr_write_ok tc" "tr_input tc = bss ! Suc 0 @ rest"
    and new: "session_new tc RoleClient AwaitingServerHello (cc_limits (hx_client x)) (hx_version x) = Inr s"
  obtains s1 s2 where "send_handshake p s (script_body x 0) = (Inr (), s1)"
    "receive p s1 now = (Inr (script_body x (Suc 0)), s2)" "session_inv s2"
    "sent p s (script_body x 0) (bss ! 0) s1" "received p s1 (script_frame x (Suc 0)) s2"
    "tr_input (ss_transport s2) = rest" "tr_write_ok (ss_transport s2)"
proof -
  have i: "0 < (4 :: nat)" "Suc 0 < (4 :: nat)" by simp_all
  note sf = new_session_fields [OF new] and mb = script_maximum_bounds [OF h]
  have inv: "session_inv s" by (rule session_new_inv [OF new]) (simp add: negotiated_phase_def)
  have c1: "handshake_phase (ss_phase s)" "tr_write_ok (ss_transport s)"
    "handshake_frame s (script_body x 0) = script_frame x 0" "fits p (ss_limits s) (script_body x 0)"
    "script_maximum x \<le> ss_maximum_frame_size s" "ss_maximum_frame_size s \<le> ABSOLUTE_MAX_FRAME_SIZE"
    using script_fits(1) [OF e i(1)] t(1) mb
    by (simp_all add: sf handshake_phase_def handshake_frame_def script_frame_def)
  obtain s1 where s1: "send_handshake p s (script_body x 0) = (Inr (), s1)"
    "sent p s (script_body x 0) (bss ! 0) s1" "session_inv s1"
    by (rule script_send [OF h e i(1) inv c1(1) sf(1) c1(2-6)])
  note f1 = sent_fields [OF s1(2)]
  have c2: "handshake_phase (ss_phase s1)" "tr_input (ss_transport s1) = bss ! Suc 0 @ rest"
    "ss_next_receive_sequence s1 = gf_sequence (script_frame x (Suc 0))"
    "validate_frame_context s1 (script_frame x (Suc 0)) = Inr ()"
    "script_maximum x \<le> ss_maximum_frame_size s1" "ss_maximum_frame_size s1 \<le> ABSOLUTE_MAX_FRAME_SIZE"
    using c1 t by (simp_all add: f1 sf script_frame_def validate_frame_context_def
        script_server_hello_def server_hello_of_def)
  have app: "apply_inbound s' now (script_body x (Suc 0)) = (Inr (), s')" if "ss_phase s' = ss_phase s1" for s'
    using that by (simp add: f1 sf apply_inbound_def)
  obtain s2 where s2: "receive p s1 now = (Inr (script_body x (Suc 0)), s2)"
    "received p s1 (script_frame x (Suc 0)) s2" "session_inv s2"
    "tr_input (ss_transport s2) = rest" "tr_write_ok (ss_transport s2) = tr_write_ok (ss_transport s1)"
    by (rule script_receive [OF h e i(2) s1(3) c2(1-4) app c2(5,6)])
  show thesis by (rule that [OF s1(1) s2(1,3) s1(2) s2(2,4)]) (use s2(5) c1(2) f1 in simp)
qed

lemma client_completes:
  assumes h: "honest sha auth verify x" and e: "script_encoded p x bss"
    and t: "tr_write_ok tc" "tr_input tc = bss ! 1 @ bss ! 3 @ rest"
  shows "\<exists>c t'. connect_inner p sha auth (Some (hx_client_nonce x)) tc (hx_client x) now1 now2 =
      (Inr c, t') \<and> tr_output t' = tr_output tc @ bss ! 0 @ bss ! 2"
proof -
  have lim: "validate_limits (cc_limits (hx_client x)) = Inr ()"
    "validate_limits (sc_limits (hx_server x)) = Inr ()"
    and ver: "vr_maximum (cc_supported_versions (hx_client x)) = Some (hx_version x)"
    using h by (auto simp: honest_def)
  have hello: "validate_client_hello (client_hello_of (hx_client x) (hx_client_nonce x)) = Inr ()"
    using honest_body [OF h, of 0] by (simp add: script_hello_def)
  from lim(1) honest_versions(1) [OF h] obtain s where
    new: "session_new tc RoleClient AwaitingServerHello (cc_limits (hx_client x)) (hx_version x) = Inr s"
    by (rule session_new_forward)
  have t': "tr_input tc = bss ! Suc 0 @ bss ! 3 @ rest" using t(2) by simp
  obtain s1 s2 where s1: "send_handshake p s (script_body x 0) = (Inr (), s1)"
    and s2: "receive p s1 now1 = (Inr (script_body x (Suc 0)), s2)" "session_inv s2"
    and r: "sent p s (script_body x 0) (bss ! 0) s1" "received p s1 (script_frame x (Suc 0)) s2"
      "tr_input (ss_transport s2) = bss ! 3 @ rest" "tr_write_ok (ss_transport s2)"
    by (rule client_first_round [OF h e t(1) t' new])
  note sf = new_session_fields [OF new] and f1 = sent_fields [OF r(1)] and f2 = received_fields [OF r(2)]
  let ?q = "client_parameters (hx_client x) (script_server_hello x) (hx_selected x)"
  obtain s3 where s3: "configure_negotiated s2 ?q = (Inr (), s3)"
    using client_configures [OF h, of s2] by (auto simp: f2 f1 sf)
  note f3 = configured_fields [OF s3]
  have lims: "fits p (ss_limits s3) (script_body x 2)"
    using s3 script_fits(1) [OF e, of 2] by (auto elim!: configure_negotiated_Inr simp: f2 f1 sf)
  have max: "np_maximum_frame_size ?q = script_maximum x"
    using negotiated_frame_size [OF lim]
    by (simp add: script_server_hello_def script_hello_def script_maximum_def)
  obtain u where u: "client_authenticate p sha auth s3 now2 (hx_client_nonce x) (script_server_hello x)
      (hx_selected x) = (Inr (ad_granted_capabilities (hx_decision x)), u)"
    "tr_output (ss_transport u) = tr_output (ss_transport s3) @ bss ! 2"
    using client_authenticates [OF h e session_inv_configure [OF s2(2) s3], of rest now2] max lims r(3,4)
    by (auto simp: f3 f2 f1 sf client_parameters_def script_server_hello_def server_hello_of_def)
  have "client_handshake p sha auth (hx_client x) (hx_client_nonce x) s now1 now2 =
      (Inr (ad_granted_capabilities (hx_decision x)), u)"
    using s1 s2(1) s3 u(1) client_checks_hello [OF h]
    by (simp add: client_handshake_def script_hello_def)
  with u(2) lim ver hello new show ?thesis
    by (simp add: connect_inner_def new_client_def f3 f2 f1 sf)
qed

text \<open>The hellos and the authentication, as the server sees them.\<close>

lemma server_first_round:
  assumes h: "honest sha auth verify x" and e: "script_encoded p x bss"
    and t: "tr_write_ok ts" "tr_input ts = bss ! 0 @ rest"
    and new: "session_new ts RoleServer AwaitingClientHello (sc_limits (hx_server x)) v = Inr s"
  obtains s1 where "receive p s now = (Inr (script_body x 0), s1)" "session_inv s1"
    "received p s (script_frame x 0) s1" "tr_input (ss_transport s1) = rest" "tr_write_ok (ss_transport s1)"
proof -
  have i: "0 < (4 :: nat)" by simp
  note sf = new_session_fields [OF new] and mb = script_maximum_bounds [OF h]
  have inv: "session_inv s" by (rule session_new_inv [OF new]) (simp add: negotiated_phase_def)
  have v: "vr_maximum (cc_supported_versions (hx_client x)) = Some (hx_version x)"
    using h by (simp add: honest_def)
  have c: "handshake_phase (ss_phase s)" "tr_input (ss_transport s) = bss ! 0 @ rest"
    "ss_next_receive_sequence s = gf_sequence (script_frame x 0)"
    "validate_frame_context s (script_frame x 0) = Inr ()"
    "script_maximum x \<le> ss_maximum_frame_size s" "ss_maximum_frame_size s \<le> ABSOLUTE_MAX_FRAME_SIZE"
    using t mb v by (simp_all add: sf handshake_phase_def script_frame_def validate_frame_context_def
        script_hello_def client_hello_of_def)
  have app: "apply_inbound s' now (script_body x 0) = (Inr (), s')" if "ss_phase s' = ss_phase s" for s'
    using that by (simp add: sf apply_inbound_def)
  obtain s1 where s1: "receive p s now = (Inr (script_body x 0), s1)"
    "received p s (script_frame x 0) s1" "session_inv s1"
    "tr_input (ss_transport s1) = rest" "tr_write_ok (ss_transport s1) = tr_write_ok (ss_transport s)"
    by (rule script_receive [OF h e i inv c(1-4) app c(5,6)])
  show thesis by (rule that [OF s1(1,3,2,4)]) (use s1(5) t(1) sf in simp)
qed

lemma server_authenticates:
  assumes h: "honest sha auth verify x" and e: "script_encoded p x bss"
    and s: "session_inv s" "ss_phase s = AwaitingAuthentication" "quiet s"
      "tr_write_ok (ss_transport s)" "tr_input (ss_transport s) = bss ! 2 @ rest"
      "ss_next_send_sequence s = 2" "ss_next_receive_sequence s = 2"
      "ss_outbound_version s = hx_selected x" "ss_selected_version s = Some (hx_selected x)"
      "ss_session_id s = hx_session_id x" "ss_maximum_frame_size s = script_maximum x"
      "ss_enabled_capabilities s = fset_of_list (hx_enabled x)"
      "fits p (ss_limits s) (script_body x 3)"
  shows "\<exists>t. server_authenticate p sha verify s now (script_hello x) (hx_selected x) (hx_enabled x)
      (hx_server_nonce x) (hx_session_id x) = (Inr (ad_granted_capabilities (hx_decision x)), t) \<and>
    tr_output (ss_transport t) = tr_output (ss_transport s) @ bss ! 3"
proof -
  have i: "2 < (4 :: nat)" "3 < (4 :: nat)" by simp_all
  note mb = script_maximum_bounds [OF h]
  have c: "handshake_phase (ss_phase s)"
    "ss_next_receive_sequence s = gf_sequence (script_frame x 2)"
    "validate_frame_context s (script_frame x 2) = Inr ()"
    "script_maximum x \<le> ss_maximum_frame_size s" "ss_maximum_frame_size s \<le> ABSOLUTE_MAX_FRAME_SIZE"
    using mb by (simp_all add: s handshake_phase_def script_frame_def validate_frame_context_def)
  have app: "apply_inbound s' now (script_body x 2) = (Inr (), s')" if "ss_phase s' = ss_phase s" for s'
    using that by (simp add: s apply_inbound_def authenticate_message_def)
  obtain t where t: "receive p s now = (Inr (script_body x 2), t)" "received p s (script_frame x 2) t"
    "session_inv t" "tr_write_ok (ss_transport t) = tr_write_ok (ss_transport s)"
    by (rule script_receive [OF h e i(1) s(1) c(1) s(5) c(2,3) app c(4,5)])
  note tf = received_fields [OF t(2)]
  have d: "handshake_phase (ss_phase t)" "quiet t" "tr_write_ok (ss_transport t)"
    "handshake_frame t (script_body x 3) = script_frame x 3" "fits p (ss_limits t) (script_body x 3)"
    "script_maximum x \<le> ss_maximum_frame_size t" "ss_maximum_frame_size t \<le> ABSOLUTE_MAX_FRAME_SIZE"
    using c t(4) s(13) by (simp_all add: tf s handshake_frame_def script_frame_def)
  obtain u where u: "send_handshake p t (script_body x 3) = (Inr (), u)"
    "sent p t (script_body x 3) (bss ! 3) u"
    by (rule script_send [OF h e i(2) t(3) d])
  note uf = sent_fields [OF u(2)]
  have v: "verify_enabled_capabilities (hx_enabled x) (ad_granted_capabilities (hx_decision x)) = Inr ()"
    "set (ad_granted_capabilities (hx_decision x)) \<subseteq> set (hx_enabled x)"
    using h by (simp_all add: honest_def)
  have caps: "ss_enabled_capabilities u = fset_of_list (hx_enabled x)"
    "ss_phase u = AwaitingAuthentication \<or> ss_phase u = AwaitingAuthenticationResult"
    by (simp_all add: uf tf s)
  note g = grant_forward [OF v(1) caps v(2)]
  have a: "session_nonce_binding sha (ch_session_nonce (script_hello x)) (hx_server_nonce x)
      (hx_session_id x) (hx_selected x) = Inr (hx_binding x)"
    "verify (am_anonymous_capability_token (hx_material x)) (am_proof_of_possession (hx_material x))
       (hx_binding x) = Inr (hx_decision x)"
    "ad_accepted (hx_decision x)" "0 < ad_expires_at_unix_seconds (hx_decision x)"
    using h by (simp_all add: honest_def script_hello_def client_hello_of_def)
  have "server_authenticate p sha verify s now (script_hello x) (hx_selected x) (hx_enabled x)
      (hx_server_nonce x) (hx_session_id x) = (Inr (ad_granted_capabilities (hx_decision x)),
      u\<lparr>ss_enabled_capabilities := fset_of_list (ad_granted_capabilities (hx_decision x)),
        ss_phase := Active\<rparr>)"
    using t(1) u(1) g v(1) a
    by (simp add: server_authenticate_def send_authentication_result_def authenticate_message_def
        result_message_def)
  then show ?thesis by (simp add: uf tf)
qed

lemma server_completes:
  assumes h: "honest sha auth verify x" and e: "script_encoded p x bss"
    and t: "tr_write_ok ts" "tr_input ts = bss ! 0 @ bss ! 2 @ rest"
    and ent: "se_server_nonce entropy = Some (hx_server_nonce x)" "se_session_id entropy = Some (hx_session_id x)"
  shows "\<exists>c t'. accept_inner p sha verify entropy ts (hx_server x) now1 now2 = (Inr c, t') \<and>
      tr_output t' = tr_output ts @ bss ! 1 @ bss ! 3"
proof -
  have i: "Suc 0 < (4 :: nat)" by simp
  note mb = script_maximum_bounds [OF h]
  have lim: "validate_limits (sc_limits (hx_server x)) = Inr ()"
    and ttl: "sc_session_ttl_seconds (hx_server x) \<noteq> 0" "sc_session_ttl_seconds (hx_server x) \<le> MAX_SESSION_TTL_SECONDS"
    and neg: "select_version (cc_supported_versions (hx_client x)) (sc_supported_versions (hx_server x)) =
       Inr (hx_selected x)"
      "negotiate_capabilities (cc_capabilities (hx_client x)) (sc_supported_capabilities (hx_server x)) =
       Inr (hx_enabled x)"
      "checked_u32 (lim_idle_stream_timeout (sc_limits (hx_server x)) div 1000000) = Some (hx_idle x)"
    using h by (simp_all add: honest_def)
  obtain v where v: "vr_maximum (sc_supported_versions (hx_server x)) = Some v" "pv_major v \<noteq> 0"
    using honest_versions(3) [OF h] by blast
  from lim v(2) obtain s where
    new: "session_new ts RoleServer AwaitingClientHello (sc_limits (hx_server x)) v = Inr s"
    by (rule session_new_forward)
  obtain s1 where s1: "receive p s now1 = (Inr (script_body x 0), s1)" "session_inv s1"
    "received p s (script_frame x 0) s1" "tr_input (ss_transport s1) = bss ! 2 @ rest" "tr_write_ok (ss_transport s1)"
    by (rule server_first_round [OF h e t new])
  note sf = new_session_fields [OF new] and f1 = received_fields [OF s1(3)]
  let ?q = "server_parameters (hx_server x) (script_hello x) (hx_selected x) (hx_enabled x) (hx_session_id x)"
  obtain s2 where s2: "configure_negotiated s1 ?q = (Inr (), s2)"
    using server_configures [OF h, of s1] by (auto simp: f1 sf)
  note f2 = configured_fields [OF s2]
  have fit: "fits p (ss_limits s2) (script_body x j)" if "j < 4" for j
    using s2 script_fits(2) [OF e that] by (auto elim!: configure_negotiated_Inr simp: f1 sf)
  have d: "handshake_phase (ss_phase s2)" "quiet s2" "tr_write_ok (ss_transport s2)"
    "handshake_frame s2 (script_body x (Suc 0)) = script_frame x (Suc 0)"
    "script_maximum x \<le> ss_maximum_frame_size s2" "ss_maximum_frame_size s2 \<le> ABSOLUTE_MAX_FRAME_SIZE"
    using s1(5) mb by (simp_all add: f2 f1 sf server_parameters_def handshake_phase_def
        handshake_frame_def script_frame_def script_maximum_def)
  obtain s3 where s3: "send_handshake p s2 (script_body x (Suc 0)) = (Inr (), s3)"
    "sent p s2 (script_body x (Suc 0)) (bss ! Suc 0) s3" "session_inv s3"
    by (rule script_send [OF h e i session_inv_configure [OF s1(2) s2] d(1-4) fit [OF i] d(5,6)])
  note f3 = sent_fields [OF s3(2)]
  obtain u where u: "server_authenticate p sha verify s3 now2 (script_hello x) (hx_selected x)
      (hx_enabled x) (hx_server_nonce x) (hx_session_id x) =
      (Inr (ad_granted_capabilities (hx_decision x)), u)"
    "tr_output (ss_transport u) = tr_output (ss_transport s3) @ bss ! 3"
    using server_authenticates [OF h e s3(3), of rest now2] fit [of 3] s1(4,5)
    by (auto simp: f3 f2 f1 sf server_parameters_def script_maximum_def)
  have "server_handshake p sha verify (hx_server x) entropy s now1 now2 =
      (Inr (ad_granted_capabilities (hx_decision x)), u)"
    using s1(1) s2 s3(1) u(1) neg ent
    by (simp add: server_handshake_def or_incompatible_def script_hello_def client_hello_of_def
        script_server_hello_def)
  with u(2) lim ttl v(1) new show ?thesis
    by (simp add: accept_inner_def new_server_def f3 f2 f1 sf not_less)
qed

section \<open>An example handshake\<close>

text \<open>Generated code that knows the four frames of one script only.\<close>

definition table_prost :: "handshake_script \<Rightarrow> prost" where
  "table_prost x = \<lparr>
     p_encode = (\<lambda>f. if f = script_frame x 0 then [8, 1] else if f = script_frame x 1 then [8, 2]
                     else if f = script_frame x 2 then [8, 3] else if f = script_frame x 3 then [8, 4] else []),
     p_encoded_len = (\<lambda>f. if f = script_frame x 0 \<or> f = script_frame x 1 \<or> f = script_frame x 2 \<or>
                             f = script_frame x 3 then 2 else 0),
     p_decode = (\<lambda>bs. if bs = [8, 1] then Some (script_frame x 0)
                      else if bs = [8, 2] then Some (script_frame x 1)
                      else if bs = [8, 3] then Some (script_frame x 2)
                      else if bs = [8, 4] then Some (script_frame x 3) else None)\<rparr>"

lemma script_frames_distinct:
  "script_frame x 0 \<noteq> script_frame x (Suc 0)" "script_frame x 0 \<noteq> script_frame x 2"
  "script_frame x 0 \<noteq> script_frame x 3" "script_frame x (Suc 0) \<noteq> script_frame x 2"
  "script_frame x (Suc 0) \<noteq> script_frame x 3" "script_frame x 2 \<noteq> script_frame x 3"
  by (simp_all add: script_frame_def authenticate_message_def result_message_def)

lemma one_field_envelope:
  assumes "0 < k" "k < 128"
  shows "\<exists>fs. [8, word_of_nat k] = concat (map encode_field fs) \<and> envelope_ok fs"
  using assms
  by (intro exI [of _ "[(1, WVarint k)]"])
    (simp add: encode_field_def wire_varint.simps envelope_ok_def field_ok_def is_single_tag_def
      is_body_tag_def)

lemma table_conforms:
  assumes "f \<in> {script_frame x 0, script_frame x 1, script_frame x 2, script_frame x 3}"
  shows "prost_conforms (table_prost x) f"
  using assms one_field_envelope [of 1] one_field_envelope [of 2] one_field_envelope [of 3]
    one_field_envelope [of 4] script_frames_distinct [of x]
  by (auto simp: prost_conforms_def table_prost_def)

lemma table_faithful: "prost_faithful (table_prost x)"
proof -
  have "f \<in> {script_frame x 0, script_frame x 1, script_frame x 2, script_frame x 3}"
    if "encode_frame (table_prost x) f m = Inr bs" for f m bs
    using that by (auto simp: encode_frame_def table_prost_def result_simps Let_def split: if_splits)
  then show ?thesis unfolding prost_faithful_def by (blast intro: table_conforms)
qed

definition example_bytes :: "bytes list" where
  "example_bytes = [[2, 8, 1], [2, 8, 2], [2, 8, 3], [2, 8, 4]]"

definition example_sha256 :: "bytes \<Rightarrow> bytes" where "example_sha256 bs = replicate 32 9"

definition example_material :: authentication_material where
  "example_material = \<lparr>am_anonymous_capability_token = [1], am_proof_of_possession = [2]\<rparr>"

definition example_decision :: authentication_decision where
  "example_decision = \<lparr>ad_accepted = True, ad_expires_at_unix_seconds = 1000,
     ad_granted_capabilities = [TCP_CONNECT_V1]\<rparr>"

definition example_script :: handshake_script where
  "example_script =
     \<lparr>hx_client = default_client_config, hx_server = default_server_config, hx_version = version 1 0,
      hx_client_nonce = replicate 32 1, hx_server_nonce = replicate 32 2,
      hx_session_id = replicate 16 3, hx_selected = version 1 0,
      hx_enabled = [TCP_CONNECT_V1, FLOW_CONTROL_V1], hx_idle = 120000,
      hx_binding = replicate 32 9, hx_material = example_material, hx_decision = example_decision\<rparr>"

lemmas capability_evaluation =
  validate_capabilities_def validate_capability_def capability_name_def strip_prefix_def
  capability_byte_def ascii_defs starts_with_char_def ends_with_char_def capability_name_defs

lemma example_requested:
  "validate_capabilities [required_prefix @ TCP_CONNECT_V1, required_prefix @ FLOW_CONTROL_V1] = Inr ()"
  "validate_capabilities [TCP_CONNECT_V1, FLOW_CONTROL_V1] = Inr ()"
  "validate_capabilities [TCP_CONNECT_V1] = Inr ()"
  by (simp_all add: capability_evaluation limit_defs)

lemma example_negotiation:
  "negotiate_capabilities [required_prefix @ TCP_CONNECT_V1, required_prefix @ FLOW_CONTROL_V1]
     {|TCP_CONNECT_V1, FLOW_CONTROL_V1|} = Inr [TCP_CONNECT_V1, FLOW_CONTROL_V1]"
  "verify_enabled_capabilities [required_prefix @ TCP_CONNECT_V1, required_prefix @ FLOW_CONTROL_V1]
     [TCP_CONNECT_V1, FLOW_CONTROL_V1] = Inr ()"
  "verify_enabled_capabilities [TCP_CONNECT_V1, FLOW_CONTROL_V1] [TCP_CONNECT_V1] = Inr ()"
  using example_requested
  by (simp_all add: negotiate_capabilities_Inr verify_enabled_Inr)
    (simp_all add: capability_name_def strip_prefix_def capability_name_defs)

lemma example_bodies:
  "i < 4 \<Longrightarrow> validate_body (script_body example_script i) = Inr ()"
proof -
  have 0: "validate_body (script_body example_script 0) = Inr ()"
    using example_requested(1)
    by (simp add: script_hello_def client_hello_of_def example_script_def default_client_config_def
        validate_client_hello_def validate_version_range_def version_range_def known_nonzero_enum_def
        known_enum_def enum_defs anonymity_mode_standard_def validate_country_def exact_length_def
        validate_frame_limit_def validate_connection_window_def validate_stream_window_def
        default_limits_def limit_defs)
  have 1: "validate_body (script_body example_script (Suc 0)) = Inr ()"
    using example_requested(2)
    by (simp add: script_server_hello_def server_hello_of_def script_hello_def client_hello_of_def
        example_script_def default_client_config_def default_server_config_def
        server_maximum_frame_size_def validate_server_hello_def validate_version_range_def
        version_range_def exact_length_def validate_frame_limit_def validate_connection_window_def
        validate_stream_window_def default_limits_def limit_defs)
  have 2: "validate_body (script_body example_script 2) = Inr ()"
    by (simp add: example_script_def authenticate_message_def example_material_def
        validate_authenticate_def bounded_nonempty_def bounded_range_def exact_length_def limit_defs)
  have 3: "validate_body (script_body example_script 3) = Inr ()"
    using example_requested(3)
    by (simp add: example_script_def result_message_def example_decision_def
        validate_authentication_result_def known_enum_def enum_defs)
  assume "i < 4"
  then have "i = 0 \<or> i = Suc 0 \<or> i = 2 \<or> i = 3" by auto
  with 0 1 2 3 show ?thesis by auto
qed

definition example_authenticator :: authenticator where
  "example_authenticator b = Inr example_material"

definition example_verifier :: verifier where
  "example_verifier token pop b = Inr example_decision"

lemma example_honest: "honest example_sha256 example_authenticator example_verifier example_script"
proof -
  have "select_version (version_range 1 0 0) (version_range 1 0 0) = Inr (version 1 0)"
    by (simp add: select_version_def validate_version_range_def version_range_def)
  moreover have "session_nonce_binding example_sha256 (replicate 32 1) (replicate 32 2) (replicate 16 3)
      (version 1 0) = Inr (replicate 32 9)"
    by (simp add: session_nonce_binding_def example_sha256_def)
  ultimately show ?thesis
    using validate_default_limits example_negotiation example_bodies
    unfolding honest_def
    by (simp add: example_script_def default_client_config_def default_server_config_def
        example_authenticator_def example_verifier_def example_decision_def version_range_def
        checked_u32_def limit_defs)
      (simp add: default_limits_def)
qed

lemma example_encoded: "script_encoded (table_prost example_script) example_script example_bytes"
proof -
  let ?p = "table_prost example_script" and ?x = "example_script"
  have max: "script_maximum ?x = 65536"
    by (simp add: script_maximum_def server_maximum_frame_size_def script_hello_def client_hello_of_def
        example_script_def default_client_config_def default_server_config_def default_limits_def limit_defs)
  have enc: "encode_frame ?p f 65536 = Inr (2 # p_encode ?p f)"
    if "f \<in> {script_frame ?x 0, script_frame ?x 1, script_frame ?x 2, script_frame ?x 3}" for f
    using that by (auto simp: encode_frame_def validate_maximum_def limit_defs table_prost_def
        encode_u32_varint.simps)
  have fit: "fits ?p default_limits (script_body ?x i)" if "i < 4" for i
  proof -
    have "accounted_body_size ?p (script_body ?x i) = Inr 128"
      using example_bodies [OF that]
      by (simp add: accounted_body_size_def validate_frame_def table_prost_def script_frame_def
          FRAME_ACCOUNTING_OVERHEAD_def checked_add_usize_def)
    then show ?thesis by (simp add: fits_def default_limits_def)
  qed
  have "cc_limits (hx_client ?x) = default_limits" "sc_limits (hx_server ?x) = default_limits"
    by (simp_all add: example_script_def default_client_config_def default_server_config_def)
  moreover have "encode_frame ?p (script_frame ?x i) 65536 = Inr (example_bytes ! i) \<and>
      prost_conforms ?p (script_frame ?x i)" if "i < 4" for i
  proof -
    have "i = 0 \<or> i = Suc 0 \<or> i = 2 \<or> i = 3" using that by auto
    then show ?thesis
      using script_frames_distinct [of ?x]
      by (elim disjE) (simp_all add: enc table_conforms, simp_all add: table_prost_def example_bytes_def)
  qed
  ultimately show ?thesis using fit by (simp add: script_encoded_def max example_bytes_def)
qed

section \<open>Properties\<close>

text \<open>
  C2. Agreement. When a client and a server have both completed the handshake, each having
  read what the other wrote, the two sessions are mirror images: both active, with the same
  version, session identifier, frame limit and granted capabilities, each expecting the
  sequence number the other sends next, each send window equal to the other's receive
  window; and the verifier has accepted the material the authenticator made for the binding.
\<close>

theorem handshake_agreement:
  assumes "prost_faithful p"
    and "connect_inner p sha256 authenticator nonce tc config now1 now2 = (Inr c, tc')"
    and "accept_inner p sha256 verify entropy ts config' now3 now4 = (Inr s, ts')"
    and "tr_output tc = []" "tr_output ts = []"
    and "tr_input tc = tr_output ts'" "tr_input ts = tr_output tc'"
  shows "mirrored (cr_session c) (sr_session s) \<and>
    cr_granted_capabilities c = sr_granted_capabilities s \<and>
    (\<exists>binding material decision. authenticator binding = Inr material \<and>
       verify (am_anonymous_capability_token material) (am_proof_of_possession material) binding =
         Inr decision \<and> ad_accepted decision)"
  using assms by (rule agreement)

text \<open>
  C3. Honest peers complete the handshake. When the two configurations have a version and the
  required capabilities in common, the authenticator and the verifier cooperate, and the four
  messages fit the frame size both accept, then the client, reading what the server writes,
  and the server, reading what the client writes, both return an active session.
\<close>

theorem handshake_completes:
  assumes "honest sha256 authenticator verify x" "script_encoded p x bss"
    and "tc = \<lparr>tr_input = bss ! 1 @ bss ! 3, tr_output = [], tr_write_ok = True\<rparr>"
    and "ts = \<lparr>tr_input = bss ! 0 @ bss ! 2, tr_output = [], tr_write_ok = True\<rparr>"
    and "entropy = \<lparr>se_server_nonce = Some (hx_server_nonce x),
      se_session_id = Some (hx_session_id x), se_correlation_id = None\<rparr>"
  shows "\<exists>c s tc' ts'.
    connect_inner p sha256 authenticator (Some (hx_client_nonce x)) tc (hx_client x) now1 now2 =
      (Inr c, tc') \<and>
    accept_inner p sha256 verify entropy ts (hx_server x) now3 now4 = (Inr s, ts') \<and>
    tr_input tc = tr_output ts' \<and> tr_input ts = tr_output tc'"
  using client_completes [OF assms(1,2), of tc "[]" now1 now2]
    server_completes [OF assms(1,2), of ts "[]" entropy now3 now4] assms(3-5)
  by fastforce

lemma example_run:
  "\<exists>tc ts entropy c s tc' ts'.
     connect_inner (table_prost example_script) example_sha256 example_authenticator
       (Some (replicate 32 1)) tc default_client_config 0 1 = (Inr c, tc') \<and>
     accept_inner (table_prost example_script) example_sha256 example_verifier entropy ts
       default_server_config 0 1 = (Inr s, ts') \<and>
     tr_output tc = [] \<and> tr_output ts = [] \<and>
     tr_input tc = tr_output ts' \<and> tr_input ts = tr_output tc'"
proof -
  let ?p = "table_prost example_script"
  let ?tc = "\<lparr>tr_input = [2, 8, 2, 2, 8, 4], tr_output = [], tr_write_ok = True\<rparr>"
  let ?ts = "\<lparr>tr_input = [2, 8, 1, 2, 8, 3], tr_output = [], tr_write_ok = True\<rparr>"
  let ?e = "\<lparr>se_server_nonce = Some (replicate 32 2), se_session_id = Some (replicate 16 3),
    se_correlation_id = None\<rparr>"
  have "\<exists>c t'. connect_inner ?p example_sha256 example_authenticator (Some (replicate 32 1)) ?tc
      default_client_config 0 1 = (Inr c, t') \<and> tr_output t' = [2, 8, 1, 2, 8, 3]"
    using client_completes [OF example_honest example_encoded, of ?tc "[]" 0 1]
    by (simp add: example_bytes_def example_script_def)
  moreover have "\<exists>s t'. accept_inner ?p example_sha256 example_verifier ?e ?ts
      default_server_config 0 1 = (Inr s, t') \<and> tr_output t' = [2, 8, 2, 2, 8, 4]"
    using server_completes [OF example_honest example_encoded, of ?ts "[]" ?e 0 1]
    by (simp add: example_bytes_def example_script_def)
  ultimately show ?thesis by fastforce
qed

theorem handshake_completes_witness:
  "\<exists>c s tc' ts'. connect_inner (table_prost example_script) example_sha256 example_authenticator
      (Some (replicate 32 1)) \<lparr>tr_input = [2, 8, 2, 2, 8, 4], tr_output = [], tr_write_ok = True\<rparr>
      default_client_config 0 1 = (Inr c, tc') \<and>
    accept_inner (table_prost example_script) example_sha256 example_verifier
      \<lparr>se_server_nonce = Some (replicate 32 2), se_session_id = Some (replicate 16 3),
       se_correlation_id = None\<rparr>
      \<lparr>tr_input = [2, 8, 1, 2, 8, 3], tr_output = [], tr_write_ok = True\<rparr>
      default_server_config 0 1 = (Inr s, ts') \<and>
    tr_output ts' = [2, 8, 2, 2, 8, 4] \<and> tr_output tc' = [2, 8, 1, 2, 8, 3]"
  using handshake_completes [OF example_honest example_encoded refl refl refl, of 0 1 0 1]
  by (simp add: example_bytes_def example_script_def eq_commute)

theorem handshake_agreement_witness:
  "\<exists>tc ts entropy c s tc' ts'.
     connect_inner (table_prost example_script) example_sha256 example_authenticator
       (Some (replicate 32 1)) tc default_client_config 0 1 = (Inr c, tc') \<and>
     accept_inner (table_prost example_script) example_sha256 example_verifier entropy ts
       default_server_config 0 1 = (Inr s, ts') \<and>
     mirrored (cr_session c) (sr_session s)"
proof -
  obtain tc ts entropy c s tc' ts' where
    r: "connect_inner (table_prost example_script) example_sha256 example_authenticator
       (Some (replicate 32 1)) tc default_client_config 0 1 = (Inr c, tc')"
     "accept_inner (table_prost example_script) example_sha256 example_verifier entropy ts
       default_server_config 0 1 = (Inr s, ts')"
     "tr_output tc = []" "tr_output ts = []"
     "tr_input tc = tr_output ts'" "tr_input ts = tr_output tc'"
    using example_run by blast
  from handshake_agreement [OF table_faithful r] r show ?thesis by blast
qed

text \<open>
  C4. No session without authentication. The server returns an active session only after its
  verifier accepted, with an expiry in the future of the epoch, the token presented for the
  binding of this connection: the digest over the domain tag, the client's nonce, the fresh
  server nonce, the fresh session identifier and the selected version. Granted are what the
  verifier granted, and only capabilities the server supports.
\<close>

theorem server_requires_authentication:
  assumes "accept_inner p sha256 verify entropy t config now1 now2 = (Inr s, t')"
  shows "\<exists>token pop client_nonce server_nonce decision.
    se_server_nonce entropy = Some server_nonce \<and>
    se_session_id entropy = Some (ss_session_id (sr_session s)) \<and>
    verify token pop (sha256 (transcript client_nonce server_nonce (ss_session_id (sr_session s))
      (ss_outbound_version (sr_session s)))) = Inr decision \<and>
    ad_accepted decision \<and> 0 < ad_expires_at_unix_seconds decision \<and>
    sr_granted_capabilities s = ad_granted_capabilities decision \<and>
    ss_enabled_capabilities (sr_session s) = fset_of_list (ad_granted_capabilities decision) \<and>
    ss_enabled_capabilities (sr_session s) |\<subseteq>| sc_supported_capabilities config"
  using assms
proof (rule server_rounds)
  fix v r0 r1 r2 r3 r4 r5 cs2 cs4 g1 g3 hello range sel enabled sn sid idle au bd decision
  assume d: "new_server t (sc_limits config) v = Inr r0" "received p r0 g1 r1"
      "configure_negotiated r1 (server_parameters config hello sel enabled sid) = (Inr (), r2)"
      "sent p r2 (ServerHello (server_hello_of config hello sel enabled sn sid idle)) cs2 r3"
      "received p r3 g3 r4" "sent p r4 (result_message decision) cs4 r5"
      "sr_session s = r5\<lparr>ss_enabled_capabilities := fset_of_list (sr_granted_capabilities s), ss_phase := Active\<rparr>"
    and neg: "negotiate_capabilities (ch_client_capabilities hello) (sc_supported_capabilities config) = Inr enabled"
    and ent: "se_server_nonce entropy = Some sn" "se_session_id entropy = Some sid"
    and auth: "session_nonce_binding sha256 (ch_session_nonce hello) sn sid sel = Inr bd"
      "verify (au_anonymous_capability_token au) (au_proof_of_possession au) bd = Inr decision"
      "ad_accepted decision" "0 < ad_expires_at_unix_seconds decision"
      "sr_granted_capabilities s = ad_granted_capabilities decision"
      "fset_of_list (sr_granted_capabilities s) |\<subseteq>| ss_enabled_capabilities r5"
  note f = server_final [OF d(2-7,1)]
  have "ss_enabled_capabilities r5 = fset_of_list enabled"
    by (simp add: sent_fields [OF d(6)] received_fields [OF d(5)] sent_fields [OF d(4)]
        configured_fields [OF d(3)] server_parameters_def)
  moreover have "fset_of_list enabled |\<subseteq>| sc_supported_capabilities config"
    using neg by (auto simp: negotiate_capabilities_Inr less_eq_fset.rep_eq fset_of_list.rep_eq)
  ultimately have "fset_of_list (sr_granted_capabilities s) |\<subseteq>| sc_supported_capabilities config"
    using auth(6) by (metis fsubset_trans)
  moreover have "bd = sha256 (transcript (ch_session_nonce hello) sn sid sel)"
    using auth(1) by (auto simp: session_nonce_binding_def result_simps)
  ultimately show ?thesis
    unfolding f(3,5,6)
    using auth ent by (intro exI [of _ "au_anonymous_capability_token au"]
        exI [of _ "au_proof_of_possession au"] exI [of _ "ch_session_nonce hello"] exI [of _ sn]
        exI [of _ decision]) simp
qed

theorem server_requires_authentication_witness:
  "\<exists>entropy s t t' token pop binding decision.
     accept_inner (table_prost example_script) example_sha256 example_verifier entropy t
       default_server_config 0 1 = (Inr s, t') \<and>
     example_verifier token pop binding = Inr decision \<and> ad_accepted decision"
proof -
  obtain entropy ts s ts' where
    "accept_inner (table_prost example_script) example_sha256 example_verifier entropy ts
       default_server_config 0 1 = (Inr s, ts')"
    using example_run by blast
  from server_requires_authentication [OF this] this show ?thesis by blast
qed



end
