(* ===== verification/Token_Claims.thy ===== *)
theory Token_Claims
  imports Prelude
begin

text \<open>
  Capability tokens: the policy profiles, the signed claims and their wire form
  (\<open>policy.rs\<close>, \<open>types.rs\<close>, \<open>wire.rs\<close>, \<open>codec.rs\<close> and \<open>lib.rs\<close> of
  \<open>src/crates/auth-tokens/src\<close>). The protobuf runtime is a parameter of type
  \<open>token_prost\<close>. A fixed-size array is a byte list whose length the conversions check where
  the source converts; an \<open>i64\<close> is an integer with the bounds of the type written out in the
  checked operations; an enumeration field of a message is the \<open>i32\<close> it travels as.

  The lemmas show that a policy is canonical exactly when it is one of the six profiles the
  plans define, that converting claims to the wire and back is the identity, and that
  decoding an encoded token gives back its claims, the bytes that were signed and the
  signature.
\<close>

section \<open>Constants and errors\<close>

definition TOKEN_VERSION_V1 :: u16 where "TOKEN_VERSION_V1 = 1"
definition MAX_TOKEN_BYTES :: nat where "MAX_TOKEN_BYTES = 4 * 1024"
definition TOKEN_ID_LENGTH :: nat where "TOKEN_ID_LENGTH = 32"
definition POP_PUBLIC_KEY_LENGTH :: nat where "POP_PUBLIC_KEY_LENGTH = 32"
definition SIGNATURE_LENGTH :: nat where "SIGNATURE_LENGTH = 64"
definition TOKEN_BUCKET_SECONDS :: int where "TOKEN_BUCKET_SECONDS = 5 * 60"
definition TOKEN_TTL_SECONDS :: int where "TOKEN_TTL_SECONDS = 15 * 60"

lemmas token_limit_defs =
  TOKEN_VERSION_V1_def MAX_TOKEN_BYTES_def TOKEN_ID_LENGTH_def POP_PUBLIC_KEY_LENGTH_def
  SIGNATURE_LENGTH_def TOKEN_BUCKET_SECONDS_def TOKEN_TTL_SECONDS_def

datatype token_error =
    InputTooLarge
  | InvalidEncoding
  | UnsupportedVersion
  | NonCanonicalPolicy
  | InvalidTimeWindow
  | NotYetValid
  | Expired
  | InvalidKeyId
  | UnknownIssuerKey
  | IssuerKeyOutsideValidity
  | InvalidSignature
  | Revoked
  | RevocationDataStale
  | RoleNotAllowed
  | RegionNotAllowed
  | ProofOfPossessionRequired
  | InvalidProofOfPossession
  | RandomnessUnavailable
  | ReplayDetected
  | ConnectionLimitReached
  | ReplayProtectionUnavailable

text \<open>The checked operations of \<open>i64\<close>, and the narrowing of a \<open>u32\<close> to a \<open>u16\<close>.\<close>

abbreviation i64_min :: int where "i64_min \<equiv> - 9223372036854775808"
abbreviation i64_max :: int where "i64_max \<equiv> 9223372036854775807"

definition checked_sub_i64 :: "int \<Rightarrow> int \<Rightarrow> int option" where
  "checked_sub_i64 a b = (if i64_min \<le> a - b \<and> a - b \<le> i64_max then Some (a - b) else None)"

definition saturating_add_i64 :: "int \<Rightarrow> int \<Rightarrow> int" where
  "saturating_add_i64 a b = max i64_min (min i64_max (a + b))"

definition u16_try_from :: "u32 \<Rightarrow> u16 option" where
  "u16_try_from w = (if unat w < 65536 then Some (ucast w) else None)"

definition array_try_from :: "nat \<Rightarrow> bytes \<Rightarrow> bytes option" where
  "array_try_from n bs = (if length bs = n then Some bs else None)"

section \<open>Policy profiles\<close>

datatype plan_class = Basic | Plus | Premium
datatype token_role = Entry | Relay | Exit
datatype region_set = Europe | Americas | AsiaPacific | Global
datatype device_slot_class = Single | Personal | Family
datatype bandwidth_class = Standard | Fast | Priority

record connection_limits =
  cl_max_active_sessions :: u16
  cl_max_concurrent_streams :: u16
  cl_new_connections_per_minute :: u16

record capability_policy =
  cp_plan_class :: plan_class
  cp_allowed_gateway_roles :: "token_role list"
  cp_region_set :: region_set
  cp_device_slot_class :: device_slot_class
  cp_bandwidth_class :: bandwidth_class
  cp_connection_limits :: connection_limits

definition region_allows :: "region_set \<Rightarrow> region_set \<Rightarrow> bool" where
  "region_allows self gateway_region \<longleftrightarrow> self = Global \<or> self = gateway_region"

fun slot_limit :: "device_slot_class \<Rightarrow> nat" where
  "slot_limit Single = 1"
| "slot_limit Personal = 3"
| "slot_limit Family = 6"

fun plan_profile ::
  "plan_class \<Rightarrow> token_role list \<times> device_slot_class \<times> bandwidth_class \<times> connection_limits" where
  "plan_profile Basic = ([Exit], Single, Standard,
     \<lparr>cl_max_active_sessions = 2, cl_max_concurrent_streams = 64, cl_new_connections_per_minute = 120\<rparr>)"
| "plan_profile Plus = ([Entry, Exit], Personal, Fast,
     \<lparr>cl_max_active_sessions = 4, cl_max_concurrent_streams = 128, cl_new_connections_per_minute = 240\<rparr>)"
| "plan_profile Premium = ([Entry, Relay, Exit], Family, Priority,
     \<lparr>cl_max_active_sessions = 6, cl_max_concurrent_streams = 256, cl_new_connections_per_minute = 480\<rparr>)"

definition canonical ::
  "plan_class \<Rightarrow> region_set \<Rightarrow> token_role \<Rightarrow> token_error + capability_policy" where
  "canonical plan region role =
     (let (permitted_roles, device, bandwidth, limits) = plan_profile plan in
      if role \<notin> set permitted_roles then Inl RoleNotAllowed
      else Inr \<lparr>cp_plan_class = plan, cp_allowed_gateway_roles = [role], cp_region_set = region,
                cp_device_slot_class = device, cp_bandwidth_class = bandwidth,
                cp_connection_limits = limits\<rparr>)"

definition validate_canonical :: "capability_policy \<Rightarrow> token_error + unit" where
  "validate_canonical p =
     (case cp_allowed_gateway_roles p of
        [] \<Rightarrow> Inl NonCanonicalPolicy
      | role # _ \<Rightarrow>
          (case canonical (cp_plan_class p) (cp_region_set p) role of
             Inl _ \<Rightarrow> Inl NonCanonicalPolicy
           | Inr expected \<Rightarrow> ensure (p = expected) NonCanonicalPolicy))"

text \<open>\<open>slice::binary_search\<close> on the roles, ordered as declared: the loop halves the range
  and compares the last candidate.\<close>

fun role_number :: "token_role \<Rightarrow> nat" where
  "role_number Entry = 1" | "role_number Relay = 2" | "role_number Exit = 3"

function role_search_base :: "token_role list \<Rightarrow> token_role \<Rightarrow> nat \<Rightarrow> nat \<Rightarrow> nat" where
  "role_search_base roles role base len =
     (if len \<le> 1 then base
      else let half = len div 2; mid = base + half in
        role_search_base roles role
          (if role_number role < role_number (roles ! mid) then base else mid) (len - half))"
  by auto
termination by (relation "measure (\<lambda>(_, _, _, len). len)") auto

definition role_allowed :: "capability_policy \<Rightarrow> token_role \<Rightarrow> bool" where
  "role_allowed p role =
     (let roles = cp_allowed_gateway_roles p in
      roles \<noteq> [] \<and> roles ! role_search_base roles role 0 (length roles) = role)"

definition validate_window :: "int \<Rightarrow> int \<Rightarrow> token_error + unit" where
  "validate_window not_before expires_at =
     bindE (ok_or (checked_sub_i64 expires_at not_before) InvalidTimeWindow) (\<lambda>duration.
     ensure (\<not> (not_before < 0 \<or> not_before mod TOKEN_BUCKET_SECONDS \<noteq> 0 \<or>
                 duration \<noteq> TOKEN_TTL_SECONDS)) InvalidTimeWindow)"

section \<open>Claims\<close>

record capability_claims =
  cc_token_version :: u16
  cc_token_id :: bytes
  cc_policy :: capability_policy
  cc_not_before :: int
  cc_expires_at :: int
  cc_issuer_key_id :: string
  cc_pop_public_key :: "bytes option"

definition validate_key_id :: "string \<Rightarrow> token_error + unit" where
  "validate_key_id key_id =
     ensure (\<not> (key_id = [] \<or> 64 < length key_id \<or>
                 \<not> list_all (\<lambda>c. is_ascii_alphanumeric c \<or> c \<in> {CHR ''-'', CHR ''_'', CHR ''.''}) key_id))
       InvalidKeyId"

definition validate_shape :: "capability_claims \<Rightarrow> token_error + unit" where
  "validate_shape c =
     bindE (ensure (cc_token_version c = TOKEN_VERSION_V1) UnsupportedVersion) (\<lambda>_.
     bindE (validate_canonical (cc_policy c)) (\<lambda>_.
     bindE (validate_window (cc_not_before c) (cc_expires_at c)) (\<lambda>_.
     validate_key_id (cc_issuer_key_id c))))"

section \<open>Wire messages\<close>

datatype plan_class_v1 = PlanUnspecifiedV1 | BasicV1 | PlusV1 | PremiumV1
datatype gateway_role_v1 = RoleUnspecifiedV1 | EntryV1 | RelayV1 | ExitV1
datatype region_set_v1 = RegionUnspecifiedV1 | EuropeV1 | AmericasV1 | AsiaPacificV1 | GlobalV1
datatype device_slot_class_v1 = DeviceUnspecifiedV1 | SingleV1 | PersonalV1 | FamilyV1
datatype bandwidth_class_v1 = BandwidthUnspecifiedV1 | StandardV1 | FastV1 | PriorityV1

text \<open>The discriminants, in the order of declaration, and the generated \<open>TryFrom<i32>\<close>.\<close>

definition plans_v1 :: "plan_class_v1 list" where
  "plans_v1 = [PlanUnspecifiedV1, BasicV1, PlusV1, PremiumV1]"

definition roles_v1 :: "gateway_role_v1 list" where
  "roles_v1 = [RoleUnspecifiedV1, EntryV1, RelayV1, ExitV1]"

definition regions_v1 :: "region_set_v1 list" where
  "regions_v1 = [RegionUnspecifiedV1, EuropeV1, AmericasV1, AsiaPacificV1, GlobalV1]"

definition devices_v1 :: "device_slot_class_v1 list" where
  "devices_v1 = [DeviceUnspecifiedV1, SingleV1, PersonalV1, FamilyV1]"

definition bandwidths_v1 :: "bandwidth_class_v1 list" where
  "bandwidths_v1 = [BandwidthUnspecifiedV1, StandardV1, FastV1, PriorityV1]"

fun discriminant :: "'a list \<Rightarrow> 'a \<Rightarrow> int" where
  "discriminant [] x = 0"
| "discriminant (y # ys) x = (if x = y then 0 else discriminant ys x + 1)"

definition enum_try_from :: "'a list \<Rightarrow> int \<Rightarrow> 'a option" where
  "enum_try_from vs n = (if 0 \<le> n \<and> nat n < length vs then Some (vs ! nat n) else None)"

record connection_limits_v1 =
  w_max_active_sessions :: u32
  w_max_concurrent_streams :: u32
  w_new_connections_per_minute :: u32

record capability_claims_v1 =
  w_token_version :: u32
  w_token_id :: bytes
  w_plan_class :: int
  w_allowed_gateway_roles :: "int list"
  w_region_set :: int
  w_device_slot_class :: int
  w_bandwidth_class :: int
  w_connection_limits :: "connection_limits_v1 option"
  w_not_before :: int
  w_expires_at :: int
  w_issuer_key_id :: string
  w_pop_public_key :: "bytes option"

record signed_token_envelope_v1 =
  env_token_version :: u32
  env_claims :: bytes
  env_signature :: bytes

record token_prost =
  tp_encode_claims :: "capability_claims_v1 \<Rightarrow> bytes"
  tp_decode_claims :: "bytes \<Rightarrow> capability_claims_v1 option"
  tp_encode_envelope :: "signed_token_envelope_v1 \<Rightarrow> bytes"
  tp_decode_envelope :: "bytes \<Rightarrow> signed_token_envelope_v1 option"

section \<open>Conversions\<close>

fun plan_to_wire :: "plan_class \<Rightarrow> plan_class_v1" where
  "plan_to_wire Basic = BasicV1" | "plan_to_wire Plus = PlusV1" | "plan_to_wire Premium = PremiumV1"

definition plan_from_wire :: "int \<Rightarrow> token_error + plan_class" where
  "plan_from_wire n = bindE (ok_or (enum_try_from plans_v1 n) InvalidEncoding) (\<lambda>v. case v of
     BasicV1 \<Rightarrow> Inr Basic | PlusV1 \<Rightarrow> Inr Plus | PremiumV1 \<Rightarrow> Inr Premium
   | PlanUnspecifiedV1 \<Rightarrow> Inl InvalidEncoding)"

fun role_to_wire :: "token_role \<Rightarrow> gateway_role_v1" where
  "role_to_wire Entry = EntryV1" | "role_to_wire Relay = RelayV1" | "role_to_wire Exit = ExitV1"

definition role_from_wire :: "int \<Rightarrow> token_error + token_role" where
  "role_from_wire n = bindE (ok_or (enum_try_from roles_v1 n) InvalidEncoding) (\<lambda>v. case v of
     EntryV1 \<Rightarrow> Inr Entry | RelayV1 \<Rightarrow> Inr Relay | ExitV1 \<Rightarrow> Inr Exit
   | RoleUnspecifiedV1 \<Rightarrow> Inl InvalidEncoding)"

fun region_to_wire :: "region_set \<Rightarrow> region_set_v1" where
  "region_to_wire Europe = EuropeV1"
| "region_to_wire Americas = AmericasV1"
| "region_to_wire AsiaPacific = AsiaPacificV1"
| "region_to_wire Global = GlobalV1"

definition region_from_wire :: "int \<Rightarrow> token_error + region_set" where
  "region_from_wire n = bindE (ok_or (enum_try_from regions_v1 n) InvalidEncoding) (\<lambda>v. case v of
     EuropeV1 \<Rightarrow> Inr Europe | AmericasV1 \<Rightarrow> Inr Americas | AsiaPacificV1 \<Rightarrow> Inr AsiaPacific
   | GlobalV1 \<Rightarrow> Inr Global | RegionUnspecifiedV1 \<Rightarrow> Inl InvalidEncoding)"

fun device_to_wire :: "device_slot_class \<Rightarrow> device_slot_class_v1" where
  "device_to_wire Single = SingleV1"
| "device_to_wire Personal = PersonalV1"
| "device_to_wire Family = FamilyV1"

definition device_from_wire :: "int \<Rightarrow> token_error + device_slot_class" where
  "device_from_wire n = bindE (ok_or (enum_try_from devices_v1 n) InvalidEncoding) (\<lambda>v. case v of
     SingleV1 \<Rightarrow> Inr Single | PersonalV1 \<Rightarrow> Inr Personal | FamilyV1 \<Rightarrow> Inr Family
   | DeviceUnspecifiedV1 \<Rightarrow> Inl InvalidEncoding)"

fun bandwidth_to_wire :: "bandwidth_class \<Rightarrow> bandwidth_class_v1" where
  "bandwidth_to_wire Standard = StandardV1"
| "bandwidth_to_wire Fast = FastV1"
| "bandwidth_to_wire Priority = PriorityV1"

definition bandwidth_from_wire :: "int \<Rightarrow> token_error + bandwidth_class" where
  "bandwidth_from_wire n = bindE (ok_or (enum_try_from bandwidths_v1 n) InvalidEncoding) (\<lambda>v. case v of
     StandardV1 \<Rightarrow> Inr Standard | FastV1 \<Rightarrow> Inr Fast | PriorityV1 \<Rightarrow> Inr Priority
   | BandwidthUnspecifiedV1 \<Rightarrow> Inl InvalidEncoding)"

definition claims_to_wire :: "capability_claims \<Rightarrow> capability_claims_v1" where
  "claims_to_wire c =
     (let p = cc_policy c; l = cp_connection_limits p in
      \<lparr>w_token_version = ucast (cc_token_version c),
       w_token_id = cc_token_id c,
       w_plan_class = discriminant plans_v1 (plan_to_wire (cp_plan_class p)),
       w_allowed_gateway_roles =
         map (\<lambda>role. discriminant roles_v1 (role_to_wire role)) (cp_allowed_gateway_roles p),
       w_region_set = discriminant regions_v1 (region_to_wire (cp_region_set p)),
       w_device_slot_class = discriminant devices_v1 (device_to_wire (cp_device_slot_class p)),
       w_bandwidth_class = discriminant bandwidths_v1 (bandwidth_to_wire (cp_bandwidth_class p)),
       w_connection_limits = Some
         \<lparr>w_max_active_sessions = ucast (cl_max_active_sessions l),
          w_max_concurrent_streams = ucast (cl_max_concurrent_streams l),
          w_new_connections_per_minute = ucast (cl_new_connections_per_minute l)\<rparr>,
       w_not_before = cc_not_before c,
       w_expires_at = cc_expires_at c,
       w_issuer_key_id = cc_issuer_key_id c,
       w_pop_public_key = cc_pop_public_key c\<rparr>)"

text \<open>\<open>into_iter().map(f).collect::<Result<Vec<_>, _>>()\<close> stops at the first error.\<close>

fun collectE :: "('a \<Rightarrow> 'e + 'b) \<Rightarrow> 'a list \<Rightarrow> 'e + 'b list" where
  "collectE f [] = Inr []"
| "collectE f (x # xs) = bindE (f x) (\<lambda>y. bindE (collectE f xs) (\<lambda>ys. Inr (y # ys)))"

definition claims_from_wire :: "capability_claims_v1 \<Rightarrow> token_error + capability_claims" where
  "claims_from_wire w =
     bindE (ok_or (u16_try_from (w_token_version w)) UnsupportedVersion) (\<lambda>token_version.
     bindE (ok_or (array_try_from TOKEN_ID_LENGTH (w_token_id w)) InvalidEncoding) (\<lambda>token_id.
     bindE (collectE role_from_wire (w_allowed_gateway_roles w)) (\<lambda>roles.
     bindE (ok_or (w_connection_limits w) InvalidEncoding) (\<lambda>limits.
     bindE (ok_or (u16_try_from (w_max_active_sessions limits)) InvalidEncoding) (\<lambda>max_active_sessions.
     bindE (ok_or (u16_try_from (w_max_concurrent_streams limits)) InvalidEncoding) (\<lambda>max_concurrent_streams.
     bindE (ok_or (u16_try_from (w_new_connections_per_minute limits)) InvalidEncoding)
       (\<lambda>new_connections_per_minute.
     bindE (case w_pop_public_key w of
              None \<Rightarrow> Inr None
            | Some key \<Rightarrow> bindE (ok_or (array_try_from POP_PUBLIC_KEY_LENGTH key) InvalidEncoding)
                             (\<lambda>key. Inr (Some key))) (\<lambda>pop_key.
     bindE (plan_from_wire (w_plan_class w)) (\<lambda>plan.
     bindE (region_from_wire (w_region_set w)) (\<lambda>region.
     bindE (device_from_wire (w_device_slot_class w)) (\<lambda>device.
     bindE (bandwidth_from_wire (w_bandwidth_class w)) (\<lambda>bandwidth.
     Inr \<lparr>cc_token_version = token_version, cc_token_id = token_id,
          cc_policy = \<lparr>cp_plan_class = plan, cp_allowed_gateway_roles = roles, cp_region_set = region,
            cp_device_slot_class = device, cp_bandwidth_class = bandwidth,
            cp_connection_limits = \<lparr>cl_max_active_sessions = max_active_sessions,
              cl_max_concurrent_streams = max_concurrent_streams,
              cl_new_connections_per_minute = new_connections_per_minute\<rparr>\<rparr>,
          cc_not_before = w_not_before w, cc_expires_at = w_expires_at w,
          cc_issuer_key_id = w_issuer_key_id w, cc_pop_public_key = pop_key\<rparr>))))))))))))"

section \<open>Encoding and decoding a token\<close>

record decoded_token =
  dt_claims :: capability_claims
  dt_claims_bytes :: bytes
  dt_signature :: bytes

definition claims_signing_bytes :: "token_prost \<Rightarrow> capability_claims \<Rightarrow> token_error + bytes" where
  "claims_signing_bytes p c =
     bindE (validate_shape c) (\<lambda>_. Inr (tp_encode_claims p (claims_to_wire c)))"

definition encode_token :: "token_prost \<Rightarrow> capability_claims \<Rightarrow> bytes \<Rightarrow> token_error + bytes" where
  "encode_token p c signature =
     bindE (validate_shape c) (\<lambda>_.
     let claims_bytes = tp_encode_claims p (claims_to_wire c);
         envelope = \<lparr>env_token_version = ucast TOKEN_VERSION_V1, env_claims = claims_bytes,
                     env_signature = signature\<rparr>;
         encoded = tp_encode_envelope p envelope in
     if MAX_TOKEN_BYTES < length encoded then Inl InputTooLarge else Inr encoded)"

definition decode_token :: "token_prost \<Rightarrow> bytes \<Rightarrow> token_error + decoded_token" where
  "decode_token p encoded =
     bindE (ensure (\<not> MAX_TOKEN_BYTES < length encoded) InputTooLarge) (\<lambda>_.
     bindE (ok_or (tp_decode_envelope p encoded) InvalidEncoding) (\<lambda>envelope.
     bindE (ensure (env_token_version envelope = ucast TOKEN_VERSION_V1) UnsupportedVersion) (\<lambda>_.
     bindE (ensure (tp_encode_envelope p envelope = encoded) InvalidEncoding) (\<lambda>_.
     bindE (ensure (\<not> MAX_TOKEN_BYTES < length (env_claims envelope)) InputTooLarge) (\<lambda>_.
     bindE (ok_or (tp_decode_claims p (env_claims envelope)) InvalidEncoding) (\<lambda>wire_claims.
     bindE (ensure (tp_encode_claims p wire_claims = env_claims envelope) InvalidEncoding) (\<lambda>_.
     bindE (claims_from_wire wire_claims) (\<lambda>claims.
     bindE (validate_shape claims) (\<lambda>_.
     bindE (ok_or (array_try_from SIGNATURE_LENGTH (env_signature envelope)) InvalidEncoding) (\<lambda>signature.
     Inr \<lparr>dt_claims = claims, dt_claims_bytes = env_claims envelope, dt_signature = signature\<rparr>))))))))))"

definition proof_of_possession_message :: "bytes \<Rightarrow> bytes \<Rightarrow> bytes \<Rightarrow> bytes" where
  "proof_of_possession_message token_id gateway_binding challenge =
     map of_char ''onionroute-pop-v1'' @ [0] @ token_id @ gateway_binding @ challenge"

definition validate_wire_format :: "token_prost \<Rightarrow> bytes \<Rightarrow> token_error + unit" where
  "validate_wire_format p encoded = bindE (decode_token p encoded) (\<lambda>_. Inr ())"

definition unverified_token_id_for_proof :: "token_prost \<Rightarrow> bytes \<Rightarrow> token_error + bytes" where
  "unverified_token_id_for_proof p encoded =
     bindE (decode_token p encoded) (\<lambda>decoded. Inr (cc_token_id (dt_claims decoded)))"

section \<open>Policies and windows\<close>

lemma validate_canonical_iff:
  "validate_canonical p = Inr u \<longleftrightarrow>
     (\<exists>role. canonical (cp_plan_class p) (cp_region_set p) role = Inr p)"
proof (cases "cp_allowed_gateway_roles p")
  case Nil
  then show ?thesis
    by (auto simp: validate_canonical_def canonical_def Let_def split: prod.splits if_splits
      dest!: arg_cong [of _ p cp_allowed_gateway_roles])
next
  case (Cons role rest)
  have "canonical plan region r = Inr p \<Longrightarrow> r = role" for plan region r
    using Cons by (auto simp: canonical_def Let_def split: prod.splits if_splits)
  then show ?thesis
    using Cons by (auto simp: validate_canonical_def split: sum.splits)
qed

lemma canonical_policy:
  assumes "validate_canonical p = Inr u"
  obtains role where "cp_allowed_gateway_roles p = [role]"
    "cp_device_slot_class p = fst (snd (plan_profile (cp_plan_class p)))"
    "cp_bandwidth_class p = fst (snd (snd (plan_profile (cp_plan_class p))))"
    "cp_connection_limits p = snd (snd (snd (plan_profile (cp_plan_class p))))"
    "role \<in> set (fst (plan_profile (cp_plan_class p)))"
proof -
  from assms obtain role where r: "canonical (cp_plan_class p) (cp_region_set p) role = Inr p"
    by (auto simp: validate_canonical_iff)
  then show thesis
    by (intro that [of role])
      (auto simp: canonical_def Let_def split: prod.splits if_splits
        dest: arg_cong [of _ p cp_allowed_gateway_roles] arg_cong [of _ p cp_device_slot_class]
          arg_cong [of _ p cp_bandwidth_class] arg_cong [of _ p cp_connection_limits])
qed

lemma role_allowed_canonical:
  assumes "validate_canonical p = Inr u"
  shows "role_allowed p role \<longleftrightarrow> cp_allowed_gateway_roles p = [role]"
proof -
  obtain r where "cp_allowed_gateway_roles p = [r]" by (rule canonical_policy [OF assms])
  then show ?thesis by (simp add: role_allowed_def Let_def)
qed

lemma canonical_session_limit:
  assumes "validate_canonical p = Inr u"
  shows "2 \<le> unat (cl_max_active_sessions (cp_connection_limits p))"
    "unat (cl_max_active_sessions (cp_connection_limits p)) \<le> 6"
proof -
  have "cp_connection_limits p = snd (snd (snd (plan_profile (cp_plan_class p))))"
    by (rule canonical_policy [OF assms])
  then show "2 \<le> unat (cl_max_active_sessions (cp_connection_limits p))"
    "unat (cl_max_active_sessions (cp_connection_limits p)) \<le> 6"
    by (cases "cp_plan_class p"; simp)+
qed

lemma validate_window_iff:
  "validate_window nb ea = Inr u \<longleftrightarrow>
     0 \<le> nb \<and> nb mod TOKEN_BUCKET_SECONDS = 0 \<and> ea = nb + TOKEN_TTL_SECONDS"
  by (auto simp: validate_window_def checked_sub_i64_def result_simps token_limit_defs split: if_splits)

lemma validate_shape_iff:
  "validate_shape c = Inr u \<longleftrightarrow>
     cc_token_version c = TOKEN_VERSION_V1 \<and> validate_canonical (cc_policy c) = Inr () \<and>
     validate_window (cc_not_before c) (cc_expires_at c) = Inr () \<and>
     validate_key_id (cc_issuer_key_id c) = Inr ()"
  by (auto simp: validate_shape_def result_simps)

section \<open>Round trips\<close>

lemma u16_try_from_ucast [simp]: "u16_try_from (ucast (w :: u16)) = Some w"
proof -
  have "unat w < 65536" using unsigned_less [of w] by simp
  then have "unat (ucast w :: u32) < 65536"
    by (simp add: unsigned_ucast_eq take_bit_nat_eq_self)
  moreover have "ucast (ucast w :: u32) = w" by transfer simp
  ultimately show ?thesis by (simp add: u16_try_from_def)
qed

lemma plan_wire_roundtrip [simp]:
  "plan_from_wire (discriminant plans_v1 (plan_to_wire x)) = Inr x"
  by (cases x) (simp_all add: plan_from_wire_def enum_try_from_def plans_v1_def)

lemma role_wire_roundtrip [simp]:
  "role_from_wire (discriminant roles_v1 (role_to_wire x)) = Inr x"
  by (cases x) (simp_all add: role_from_wire_def enum_try_from_def roles_v1_def)

lemma region_wire_roundtrip [simp]:
  "region_from_wire (discriminant regions_v1 (region_to_wire x)) = Inr x"
  by (cases x) (simp_all add: region_from_wire_def enum_try_from_def regions_v1_def)

lemma device_wire_roundtrip [simp]:
  "device_from_wire (discriminant devices_v1 (device_to_wire x)) = Inr x"
  by (cases x) (simp_all add: device_from_wire_def enum_try_from_def devices_v1_def)

lemma bandwidth_wire_roundtrip [simp]:
  "bandwidth_from_wire (discriminant bandwidths_v1 (bandwidth_to_wire x)) = Inr x"
  by (cases x) (simp_all add: bandwidth_from_wire_def enum_try_from_def bandwidths_v1_def)

lemma collectE_map: "(\<And>x. f (g x) = Inr x) \<Longrightarrow> collectE f (map g xs) = Inr xs"
  by (induction xs) auto

text \<open>What the array types of the source guarantee of the claims.\<close>

definition claims_typed :: "capability_claims \<Rightarrow> bool" where
  "claims_typed c \<longleftrightarrow> length (cc_token_id c) = TOKEN_ID_LENGTH \<and>
     (\<forall>key. cc_pop_public_key c = Some key \<longrightarrow> length key = POP_PUBLIC_KEY_LENGTH)"

lemma claims_wire_roundtrip:
  assumes "claims_typed c"
  shows "claims_from_wire (claims_to_wire c) = Inr c"
  using assms
  by (auto simp: claims_from_wire_def claims_to_wire_def claims_typed_def Let_def array_try_from_def
      collectE_map split: option.splits)

lemma claims_from_wire_typed: "claims_from_wire w = Inr c \<Longrightarrow> claims_typed c"
  by (auto simp: claims_from_wire_def claims_typed_def result_simps array_try_from_def
      split: if_splits option.splits)

text \<open>
  What is relied on of the protobuf runtime for a token with claims \<open>c\<close> and signature \<open>sig\<close>:
  decoding the encoded messages gives them back, and the envelope carries the claims as a
  field, so that it is no shorter than they are.
\<close>

definition envelope_of :: "token_prost \<Rightarrow> capability_claims \<Rightarrow> bytes \<Rightarrow> signed_token_envelope_v1" where
  "envelope_of p c sig = \<lparr>env_token_version = ucast TOKEN_VERSION_V1,
     env_claims = tp_encode_claims p (claims_to_wire c), env_signature = sig\<rparr>"

definition token_prost_conforms :: "token_prost \<Rightarrow> capability_claims \<Rightarrow> bytes \<Rightarrow> bool" where
  "token_prost_conforms p c sig \<longleftrightarrow>
     tp_decode_claims p (tp_encode_claims p (claims_to_wire c)) = Some (claims_to_wire c) \<and>
     tp_decode_envelope p (tp_encode_envelope p (envelope_of p c sig)) = Some (envelope_of p c sig) \<and>
     length (env_claims (envelope_of p c sig)) \<le> length (tp_encode_envelope p (envelope_of p c sig))"

lemma decode_encode_token:
  assumes "token_prost_conforms p c sig" "claims_typed c" "length sig = SIGNATURE_LENGTH"
    and enc: "encode_token p c sig = Inr encoded"
  shows "decode_token p encoded =
    Inr \<lparr>dt_claims = c, dt_claims_bytes = tp_encode_claims p (claims_to_wire c), dt_signature = sig\<rparr>"
proof -
  from enc have shape: "validate_shape c = Inr ()"
    and len: "\<not> MAX_TOKEN_BYTES < length (tp_encode_envelope p (envelope_of p c sig))"
    and e: "encoded = tp_encode_envelope p (envelope_of p c sig)"
    by (auto simp: encode_token_def envelope_of_def result_simps Let_def split: if_splits)
  have dec: "tp_decode_envelope p encoded = Some (envelope_of p c sig)"
    "tp_decode_claims p (env_claims (envelope_of p c sig)) = Some (claims_to_wire c)"
    and short: "\<not> MAX_TOKEN_BYTES < length (env_claims (envelope_of p c sig))"
    using assms(1) len e by (auto simp: token_prost_conforms_def envelope_of_def)
  have fields: "env_token_version (envelope_of p c sig) = ucast TOKEN_VERSION_V1"
    "tp_encode_claims p (claims_to_wire c) = env_claims (envelope_of p c sig)"
    "env_signature (envelope_of p c sig) = sig"
    by (simp_all add: envelope_of_def)
  show ?thesis
    using len shape short claims_wire_roundtrip [OF assms(2)] assms(3) unfolding decode_token_def dec
    by (simp add: e dec fields array_try_from_def)
qed

lemma decode_token_Inr:
  assumes "decode_token p encoded = Inr d"
  shows "validate_shape (dt_claims d) = Inr ()" "length (dt_signature d) = SIGNATURE_LENGTH"
    "claims_typed (dt_claims d)"
    "\<exists>w. claims_from_wire w = Inr (dt_claims d) \<and> dt_claims_bytes d = tp_encode_claims p w"
    "encoded = tp_encode_envelope p \<lparr>env_token_version = ucast TOKEN_VERSION_V1,
       env_claims = dt_claims_bytes d, env_signature = dt_signature d\<rparr>"
proof -
  from assms obtain e w c where d:
    "env_token_version e = ucast TOKEN_VERSION_V1" "tp_encode_envelope p e = encoded"
    "tp_encode_claims p w = env_claims e" "claims_from_wire w = Inr c" "validate_shape c = Inr ()"
    "array_try_from SIGNATURE_LENGTH (env_signature e) = Some (dt_signature d)"
    "d = \<lparr>dt_claims = c, dt_claims_bytes = env_claims e, dt_signature = dt_signature d\<rparr>"
    by (auto simp: decode_token_def result_simps)
  from d(6) have s: "env_signature e = dt_signature d" "length (dt_signature d) = SIGNATURE_LENGTH"
    by (auto simp: array_try_from_def split: if_splits)
  have f: "dt_claims d = c" "dt_claims_bytes d = env_claims e" using d(7) by (metis decoded_token.select_convs)+
  show "validate_shape (dt_claims d) = Inr ()" "length (dt_signature d) = SIGNATURE_LENGTH"
    using d(5) s f by simp_all
  show "claims_typed (dt_claims d)"
    using claims_from_wire_typed [OF d(4)] f by simp
  show "\<exists>w. claims_from_wire w = Inr (dt_claims d) \<and> dt_claims_bytes d = tp_encode_claims p w"
    using d(3,4) f by auto
  have "e = \<lparr>env_token_version = ucast TOKEN_VERSION_V1, env_claims = dt_claims_bytes d,
      env_signature = dt_signature d\<rparr>"
    using d(1) s f by (cases e) simp
  then show "encoded = tp_encode_envelope p \<lparr>env_token_version = ucast TOKEN_VERSION_V1,
       env_claims = dt_claims_bytes d, env_signature = dt_signature d\<rparr>"
    using d(2) by simp
qed

end
