(* ===== verification/Token_Store.thy ===== *)
theory Token_Store
  imports Token_Claims
begin

text \<open>
  The two services a token verifier relies on (\<open>replay.rs\<close> and \<open>revocation.rs\<close> of
  \<open>src/crates/auth-tokens/src\<close>): the replay store behind the trait \<open>TokenStore\<close>, with its
  in-memory implementation, and the revocation snapshot behind \<open>RevocationProvider\<close>. The
  mutex of the store is never poisoned, since no operation panics while it holds it, so each
  operation is one step on the map of token sessions.

  The locale \<open>token_store\<close> is the contract of the trait: what was reserved stays reserved
  until it is released or its token expires, and is refused until then. It is interpreted on
  \<open>InMemoryTokenStore\<close>.
\<close>

section \<open>Reservations\<close>

datatype token_store_error = AlreadyReserved | LimitReached | StoreUnavailable

record token_reservation =
  rv_token_id :: bytes
  rv_session_id :: bytes
  rv_now :: int
  rv_expires_at :: int
  rv_max_active_sessions :: u16

record session_lease =
  sl_token_id :: bytes
  sl_session_id :: bytes

record token_sessions =
  tk_expires_at :: int
  tk_sessions :: "bytes fset"

type_synonym in_memory_token_store = "(bytes, token_sessions) fmap"

definition retain_unexpired :: "int \<Rightarrow> in_memory_token_store \<Rightarrow> in_memory_token_store" where
  "retain_unexpired now entries =
     fmfilter (\<lambda>k. case fmlookup entries k of None \<Rightarrow> False | Some st \<Rightarrow> now < tk_expires_at st) entries"

definition store_reserve ::
  "token_reservation \<Rightarrow> in_memory_token_store \<Rightarrow>
     (token_store_error + session_lease) \<times> in_memory_token_store" where
  "store_reserve r entries =
     (let entries = retain_unexpired (rv_now r) entries;
          st = fm_get_or \<lparr>tk_expires_at = rv_expires_at r, tk_sessions = {||}\<rparr> entries (rv_token_id r);
          st = st\<lparr>tk_expires_at := min (tk_expires_at st) (rv_expires_at r)\<rparr>;
          entries = fmupd (rv_token_id r) st entries in
      if rv_session_id r |\<in>| tk_sessions st then (Inl AlreadyReserved, entries)
      else if unat (rv_max_active_sessions r) \<le> fcard (tk_sessions st) then (Inl LimitReached, entries)
      else
        (Inr \<lparr>sl_token_id = rv_token_id r, sl_session_id = rv_session_id r\<rparr>,
         fmupd (rv_token_id r) (st\<lparr>tk_sessions := finsert (rv_session_id r) (tk_sessions st)\<rparr>) entries))"

definition store_release ::
  "session_lease \<Rightarrow> in_memory_token_store \<Rightarrow> (token_store_error + unit) \<times> in_memory_token_store" where
  "store_release l entries =
     (case fmlookup entries (sl_token_id l) of
        None \<Rightarrow> (Inr (), entries)
      | Some st \<Rightarrow>
          let st = st\<lparr>tk_sessions := tk_sessions st |-| {|sl_session_id l|}\<rparr> in
          if tk_sessions st = {||} then (Inr (), fmdrop (sl_token_id l) entries)
          else (Inr (), fmupd (sl_token_id l) st entries))"

section \<open>Revocation\<close>

datatype revocation_status = RevocationActive | RevocationRevoked | SnapshotStale

record revocation_snapshot =
  rs_valid_until :: int
  rs_revoked_key_ids :: "string fset"
  rs_revoked_token_ids :: "bytes fset"

definition empty_snapshot :: "int \<Rightarrow> revocation_snapshot" where
  "empty_snapshot valid_until =
     \<lparr>rs_valid_until = valid_until, rs_revoked_key_ids = {||}, rs_revoked_token_ids = {||}\<rparr>"

text \<open>\<open>InMemoryRevocationProvider\<close> holds one snapshot, which \<open>replace\<close> exchanges.\<close>

definition revocation_replace :: "revocation_snapshot \<Rightarrow> revocation_snapshot \<Rightarrow> revocation_snapshot" where
  "revocation_replace snapshot old = snapshot"

definition revocation_status_of ::
  "revocation_snapshot \<Rightarrow> string \<Rightarrow> bytes \<Rightarrow> int \<Rightarrow> revocation_status" where
  "revocation_status_of snapshot key_id token_id now =
     (if rs_valid_until snapshot < now then SnapshotStale
      else if key_id |\<in>| rs_revoked_key_ids snapshot \<or> token_id |\<in>| rs_revoked_token_ids snapshot
      then RevocationRevoked else RevocationActive)"

section \<open>The contract of a token store\<close>

text \<open>
  \<open>holds s tok sid\<close>: the store remembers session \<open>sid\<close> of token \<open>tok\<close>. Token identifiers are
  256 random bits, so one identifier has one expiry; \<open>expiry\<close> is that function, and the laws
  are about reservations that carry it.
\<close>

definition reservation_ok :: "(bytes \<Rightarrow> int) \<Rightarrow> token_reservation \<Rightarrow> bool" where
  "reservation_ok expiry r \<longleftrightarrow> rv_expires_at r = expiry (rv_token_id r)"

text \<open>
  The steps that may happen while a lease is active: reservations of any token before the
  expiry of the lease's own, and releases of other leases.
\<close>

inductive other_step ::
  "(token_reservation \<Rightarrow> 's \<Rightarrow> (token_store_error + session_lease) \<times> 's) \<Rightarrow>
   (session_lease \<Rightarrow> 's \<Rightarrow> (token_store_error + unit) \<times> 's) \<Rightarrow>
   (bytes \<Rightarrow> int) \<Rightarrow> bytes \<Rightarrow> bytes \<Rightarrow> 's \<Rightarrow> 's \<Rightarrow> bool"
  for reserve release expiry tok sid where
  other_reserve: "reservation_ok expiry r \<Longrightarrow> rv_now r < expiry tok \<Longrightarrow>
     other_step reserve release expiry tok sid s (snd (reserve r s))"
| other_release: "l \<noteq> \<lparr>sl_token_id = tok, sl_session_id = sid\<rparr> \<Longrightarrow>
     other_step reserve release expiry tok sid s (snd (release l s))"

locale token_store =
  fixes reserve :: "token_reservation \<Rightarrow> 's \<Rightarrow> (token_store_error + session_lease) \<times> 's"
    and release :: "session_lease \<Rightarrow> 's \<Rightarrow> (token_store_error + unit) \<times> 's"
    and holds :: "'s \<Rightarrow> bytes \<Rightarrow> bytes \<Rightarrow> bool"
    and inv :: "(bytes \<Rightarrow> int) \<Rightarrow> 's \<Rightarrow> bool"
  assumes reserve_granted: "reserve r s = (Inr l, t) \<Longrightarrow>
      l = \<lparr>sl_token_id = rv_token_id r, sl_session_id = rv_session_id r\<rparr> \<and>
      holds t (rv_token_id r) (rv_session_id r)"
    and reserve_refused: "inv expiry s \<Longrightarrow> holds s (rv_token_id r) (rv_session_id r) \<Longrightarrow>
      rv_now r < expiry (rv_token_id r) \<Longrightarrow> fst (reserve r s) = Inl AlreadyReserved"
    and reserve_keeps: "inv expiry s \<Longrightarrow> holds s tok sid \<Longrightarrow> rv_now r < expiry tok \<Longrightarrow>
      holds (snd (reserve r s)) tok sid"
    and release_keeps: "holds s tok sid \<Longrightarrow> l \<noteq> \<lparr>sl_token_id = tok, sl_session_id = sid\<rparr> \<Longrightarrow>
      holds (snd (release l s)) tok sid"
    and inv_reserve: "inv expiry s \<Longrightarrow> reservation_ok expiry r \<Longrightarrow> inv expiry (snd (reserve r s))"
    and inv_release: "inv expiry s \<Longrightarrow> inv expiry (snd (release l s))"
begin

lemma other_steps_keep:
  assumes "(other_step reserve release expiry tok sid)\<^sup>*\<^sup>* s t" "inv expiry s" "holds s tok sid"
  shows "inv expiry t \<and> holds t tok sid"
  using assms
proof (induction rule: rtranclp_induct)
  case (step t u)
  then have ih: "inv expiry t" "holds t tok sid" by simp_all
  from step.hyps(2) show ?case
  proof cases
    case (other_reserve r)
    then show ?thesis using inv_reserve [OF ih(1)] reserve_keeps [OF ih] by simp
  next
    case (other_release l)
    then show ?thesis using inv_release [OF ih(1)] release_keeps [OF ih(2)] by simp
  qed
qed simp

lemma replay_refused:
  assumes "reserve r s = (Inr l, t)" "inv expiry s" "reservation_ok expiry r"
    and "(other_step reserve release expiry (rv_token_id r) (rv_session_id r))\<^sup>*\<^sup>* t u"
    and "rv_token_id r' = rv_token_id r" "rv_session_id r' = rv_session_id r"
    and "rv_now r' < expiry (rv_token_id r)"
  shows "fst (reserve r' u) = Inl AlreadyReserved"
proof -
  have "holds t (rv_token_id r) (rv_session_id r)" using reserve_granted [OF assms(1)] by simp
  moreover have "inv expiry t" using inv_reserve [OF assms(2,3)] assms(1) by simp
  ultimately have "inv expiry u" "holds u (rv_token_id r) (rv_session_id r)"
    using other_steps_keep [OF assms(4)] by blast+
  then show ?thesis using reserve_refused [of expiry u r'] assms(5-7) by simp
qed

end

section \<open>The in-memory store keeps the contract\<close>

definition store_holds :: "in_memory_token_store \<Rightarrow> bytes \<Rightarrow> bytes \<Rightarrow> bool" where
  "store_holds s tok sid \<longleftrightarrow> (\<exists>st. fmlookup s tok = Some st \<and> sid |\<in>| tk_sessions st)"

definition store_inv :: "(bytes \<Rightarrow> int) \<Rightarrow> in_memory_token_store \<Rightarrow> bool" where
  "store_inv expiry s \<longleftrightarrow> (\<forall>tok st. fmlookup s tok = Some st \<longrightarrow> tk_expires_at st = expiry tok)"

lemma fmlookup_retain:
  "fmlookup (retain_unexpired now s) k =
     (case fmlookup s k of Some st \<Rightarrow> if now < tk_expires_at st then Some st else None | None \<Rightarrow> None)"
  by (auto simp: retain_unexpired_def split: option.splits)

text \<open>What \<open>reserve\<close> leaves behind, in one equation per outcome.\<close>

definition reserved_entry :: "token_reservation \<Rightarrow> in_memory_token_store \<Rightarrow> token_sessions" where
  "reserved_entry r s =
     (let st = fm_get_or \<lparr>tk_expires_at = rv_expires_at r, tk_sessions = {||}\<rparr>
                 (retain_unexpired (rv_now r) s) (rv_token_id r)
      in st\<lparr>tk_expires_at := min (tk_expires_at st) (rv_expires_at r)\<rparr>)"

lemma store_reserve_alt:
  "store_reserve r s =
     (if rv_session_id r |\<in>| tk_sessions (reserved_entry r s)
      then (Inl AlreadyReserved, fmupd (rv_token_id r) (reserved_entry r s) (retain_unexpired (rv_now r) s))
      else if unat (rv_max_active_sessions r) \<le> fcard (tk_sessions (reserved_entry r s))
      then (Inl LimitReached, fmupd (rv_token_id r) (reserved_entry r s) (retain_unexpired (rv_now r) s))
      else (Inr \<lparr>sl_token_id = rv_token_id r, sl_session_id = rv_session_id r\<rparr>,
        fmupd (rv_token_id r)
          ((reserved_entry r s)\<lparr>tk_sessions := finsert (rv_session_id r) (tk_sessions (reserved_entry r s))\<rparr>)
          (retain_unexpired (rv_now r) s)))"
proof -
  have "fmupd k x (fmupd k y m) = fmupd k x m" for k and x y :: token_sessions and m
    by (rule fmap_ext) simp
  then show ?thesis by (simp add: store_reserve_def reserved_entry_def Let_def)
qed

lemma reserved_entry_sessions:
  "tk_sessions (reserved_entry r s) =
     (case fmlookup s (rv_token_id r) of
        Some st \<Rightarrow> if rv_now r < tk_expires_at st then tk_sessions st else {||} | None \<Rightarrow> {||})"
  by (auto simp: reserved_entry_def fm_get_or_def fmlookup_retain Let_def split: option.splits)

lemma reserved_entry_expiry:
  assumes "store_inv expiry s" "reservation_ok expiry r"
  shows "tk_expires_at (reserved_entry r s) = expiry (rv_token_id r)"
  using assms by (auto simp: reserved_entry_def fm_get_or_def fmlookup_retain Let_def store_inv_def
      reservation_ok_def split: option.splits)

lemma store_lookup_reserve:
  "fmlookup (snd (store_reserve r s)) k =
     (if k = rv_token_id r
      then Some (if isl (fst (store_reserve r s)) then reserved_entry r s
        else (reserved_entry r s)\<lparr>tk_sessions := finsert (rv_session_id r) (tk_sessions (reserved_entry r s))\<rparr>)
      else fmlookup (retain_unexpired (rv_now r) s) k)"
  by (auto simp: store_reserve_alt)

lemma store_lookup_release:
  "fmlookup (snd (store_release l s)) k =
     (if k = sl_token_id l
      then (case fmlookup s k of None \<Rightarrow> None | Some st \<Rightarrow>
        if tk_sessions st |-| {|sl_session_id l|} = {||} then None
        else Some (st\<lparr>tk_sessions := tk_sessions st |-| {|sl_session_id l|}\<rparr>))
      else fmlookup s k)"
  by (auto simp: store_release_def Let_def split: option.splits)

interpretation memory_store: token_store store_reserve store_release store_holds store_inv
proof unfold_locales
  fix r :: token_reservation and s t l
  assume "store_reserve r s = (Inr l, t)"
  then show "l = \<lparr>sl_token_id = rv_token_id r, sl_session_id = rv_session_id r\<rparr> \<and>
      store_holds t (rv_token_id r) (rv_session_id r)"
    by (auto simp: store_reserve_alt store_holds_def split: if_splits)
next
  fix expiry s and r :: token_reservation
  assume "store_inv expiry s" "store_holds s (rv_token_id r) (rv_session_id r)"
    "rv_now r < expiry (rv_token_id r)"
  then have "rv_session_id r |\<in>| tk_sessions (reserved_entry r s)"
    by (auto simp: reserved_entry_sessions store_holds_def store_inv_def)
  then show "fst (store_reserve r s) = Inl AlreadyReserved" by (simp add: store_reserve_alt)
next
  fix expiry s tok sid and r :: token_reservation
  assume "store_inv expiry s" "store_holds s tok sid" "rv_now r < expiry tok"
  then obtain st where st: "fmlookup s tok = Some st" "sid |\<in>| tk_sessions st" "rv_now r < tk_expires_at st"
    by (auto simp: store_holds_def store_inv_def)
  then show "store_holds (snd (store_reserve r s)) tok sid"
    by (auto simp: store_holds_def store_lookup_reserve reserved_entry_sessions fmlookup_retain)
next
  fix s tok sid and l :: session_lease
  assume "store_holds s tok sid" "l \<noteq> \<lparr>sl_token_id = tok, sl_session_id = sid\<rparr>"
  then obtain st where st: "fmlookup s tok = Some st" "sid |\<in>| tk_sessions st" and
    "sl_token_id l \<noteq> tok \<or> sl_session_id l \<noteq> sid"
    by (cases l) (auto simp: store_holds_def)
  then show "store_holds (snd (store_release l s)) tok sid"
    by (auto simp: store_holds_def store_lookup_release)
next
  fix expiry s and r :: token_reservation
  assume "store_inv expiry s" "reservation_ok expiry r"
  then show "store_inv expiry (snd (store_reserve r s))"
    by (auto simp: store_inv_def store_lookup_reserve fmlookup_retain reserved_entry_expiry
        split: option.splits if_splits dest: reserved_entry_expiry)
next
  fix expiry s and l :: session_lease
  assume "store_inv expiry s"
  then show "store_inv expiry (snd (store_release l s))"
    by (auto simp: store_inv_def store_lookup_release split: option.splits if_splits)
qed

section \<open>Sessions per token\<close>

text \<open>
  When every token allows at least one and at most \<open>limit\<close> of it sessions, no entry is ever
  empty or holds more sessions than its limit.
\<close>

definition store_bounded :: "(bytes \<Rightarrow> nat) \<Rightarrow> in_memory_token_store \<Rightarrow> bool" where
  "store_bounded limit s \<longleftrightarrow>
     (\<forall>tok st. fmlookup s tok = Some st \<longrightarrow> tk_sessions st \<noteq> {||} \<and> fcard (tk_sessions st) \<le> limit tok)"

lemma fcard_reserved_entry:
  "store_bounded limit s \<Longrightarrow> fcard (tk_sessions (reserved_entry r s)) \<le> limit (rv_token_id r)"
  by (auto simp: reserved_entry_sessions store_bounded_def fcard_fempty split: option.splits)

lemma store_bounded_reserve:
  assumes "store_bounded limit s" "0 < unat (rv_max_active_sessions r)" "unat (rv_max_active_sessions r) \<le> limit (rv_token_id r)"
  shows "store_bounded limit (snd (store_reserve r s))"
proof -
  let ?e = "tk_sessions (reserved_entry r s)"
  have e: "fcard ?e \<le> limit (rv_token_id r)" by (rule fcard_reserved_entry [OF assms(1)])
  have "isl (fst (store_reserve r s)) \<Longrightarrow> ?e \<noteq> {||}"
    using assms(2) by (auto simp: store_reserve_alt fcard_fempty split: if_splits)
  moreover have "\<not> isl (fst (store_reserve r s)) \<Longrightarrow> fcard (finsert (rv_session_id r) ?e) \<le> limit (rv_token_id r)"
    using assms(3) by (auto simp: store_reserve_alt fcard_finsert_new split: if_splits)
  moreover have "store_bounded limit (retain_unexpired (rv_now r) s)"
    using assms(1) by (auto simp: store_bounded_def fmlookup_retain split: option.splits if_splits)
  ultimately show ?thesis
    using e unfolding store_bounded_def by (auto simp: store_lookup_reserve)
qed

lemma store_bounded_release:
  assumes "store_bounded limit s"
  shows "store_bounded limit (snd (store_release l s))"
proof -
  have "fcard (A |-| B) \<le> fcard A" for A B :: "bytes fset"
    by (rule fcard_mono) blast
  then have "fcard (tk_sessions st |-| B) \<le> limit tok" if "fmlookup s tok = Some st" for tok st B
    using assms that unfolding store_bounded_def by (meson le_trans)
  then show ?thesis
    using assms unfolding store_bounded_def
    by (auto simp: store_lookup_release split: option.splits if_splits)
qed

end
