(* ===== verification/Token_Verifier.thy ===== *)
theory Token_Verifier
  imports Token_Store
begin

text \<open>
  Issuing and verifying capability tokens (\<open>issuer.rs\<close>, \<open>verifier.rs\<close> and the request types
  of \<open>types.rs\<close> in \<open>src/crates/auth-tokens/src\<close>). Ed25519, SHA-256 and the random source are
  parameters: a record of the operations of the signature scheme the code calls, the hash as
  a function on byte strings, and the outcome of \<open>getrandom\<close>. The verifier is generic in its
  token store and its revocation provider, which are arguments of \<open>verify\<close>; the theorems are
  about the in-memory store.

  The theorems are that a token the issuer issues is accepted within its window with the
  policy that was asked for, that an accepted token was signed by a known issuer key over
  exactly the accepted claims and satisfies every scope condition, proof of possession
  included, that a redemption cannot be replayed while its lease is active, and that no token
  ever holds more sessions than its plan allows.
\<close>

section \<open>Parameters\<close>

record signature_scheme =
  sg_verifying_key :: "bytes \<Rightarrow> bytes"
  sg_sign :: "bytes \<Rightarrow> bytes \<Rightarrow> bytes"
  sg_key_valid :: "bytes \<Rightarrow> bool"
  sg_verify_strict :: "bytes \<Rightarrow> bytes \<Rightarrow> bytes \<Rightarrow> bool"

section \<open>Issuing\<close>

record issuer_public_key =
  ik_key_id :: string
  ik_public_key :: bytes
  ik_not_before :: int
  ik_not_after :: int

record issue_token_request =
  iq_policy :: capability_policy
  iq_not_before :: int
  iq_expires_at :: int
  iq_pop_public_key :: "bytes option"

record issued_token =
  it_encoded :: bytes
  it_not_before :: int
  it_expires_at :: int

record local_issuer =
  li_key_id :: string
  li_secret :: bytes
  li_key_not_before :: int
  li_key_not_after :: int

definition issuer_from_secret_bytes ::
  "string \<Rightarrow> bytes \<Rightarrow> int \<Rightarrow> int \<Rightarrow> token_error + local_issuer" where
  "issuer_from_secret_bytes key_id secret_key key_not_before key_not_after =
     bindE (canonical Basic Europe Exit) (\<lambda>policy.
     let probe = \<lparr>cc_token_version = TOKEN_VERSION_V1, cc_token_id = replicate TOKEN_ID_LENGTH 0,
                  cc_policy = policy, cc_not_before = 0, cc_expires_at = TOKEN_TTL_SECONDS,
                  cc_issuer_key_id = key_id, cc_pop_public_key = None\<rparr> in
     bindE (validate_shape probe) (\<lambda>_.
     bindE (ensure (\<not> (key_not_before < 0 \<or> key_not_after \<le> key_not_before)) IssuerKeyOutsideValidity) (\<lambda>_.
     Inr \<lparr>li_key_id = key_id, li_secret = secret_key, li_key_not_before = key_not_before,
          li_key_not_after = key_not_after\<rparr>)))"

definition issuer_public_key_of :: "signature_scheme \<Rightarrow> local_issuer \<Rightarrow> issuer_public_key" where
  "issuer_public_key_of sg i =
     \<lparr>ik_key_id = li_key_id i, ik_public_key = sg_verifying_key sg (li_secret i),
      ik_not_before = li_key_not_before i, ik_not_after = li_key_not_after i\<rparr>"

definition issued_claims :: "local_issuer \<Rightarrow> issue_token_request \<Rightarrow> bytes \<Rightarrow> capability_claims" where
  "issued_claims i request token_id =
     \<lparr>cc_token_version = TOKEN_VERSION_V1, cc_token_id = token_id, cc_policy = iq_policy request,
      cc_not_before = iq_not_before request, cc_expires_at = iq_expires_at request,
      cc_issuer_key_id = li_key_id i, cc_pop_public_key = iq_pop_public_key request\<rparr>"

definition issue ::
  "token_prost \<Rightarrow> signature_scheme \<Rightarrow> local_issuer \<Rightarrow> issue_token_request \<Rightarrow> bytes option \<Rightarrow>
     token_error + issued_token" where
  "issue p sg i request randomness =
     bindE (validate_canonical (iq_policy request)) (\<lambda>_.
     bindE (validate_window (iq_not_before request) (iq_expires_at request)) (\<lambda>_.
     bindE (ensure (\<not> (iq_not_before request < li_key_not_before i \<or>
                       li_key_not_after i < iq_expires_at request)) IssuerKeyOutsideValidity) (\<lambda>_.
     bindE (case iq_pop_public_key request of
              None \<Rightarrow> Inr ()
            | Some public_key \<Rightarrow> ensure (sg_key_valid sg public_key) InvalidProofOfPossession) (\<lambda>_.
     bindE (ok_or randomness RandomnessUnavailable) (\<lambda>token_id.
     let claims = issued_claims i request token_id in
     bindE (claims_signing_bytes p claims) (\<lambda>signing_bytes.
     let signature = sg_sign sg (li_secret i) signing_bytes in
     bindE (encode_token p claims signature) (\<lambda>encoded.
     Inr \<lparr>it_encoded = encoded, it_not_before = cc_not_before claims,
          it_expires_at = cc_expires_at claims\<rparr>)))))))"

section \<open>Verifying\<close>

record verifier_config =
  vf_require_proof_of_possession :: bool
  vf_maximum_clock_skew_seconds :: int

definition default_verifier_config :: verifier_config where
  "default_verifier_config =
     \<lparr>vf_require_proof_of_possession = True, vf_maximum_clock_skew_seconds = 30\<rparr>"

record verification_request =
  vq_encoded_token :: bytes
  vq_required_role :: token_role
  vq_gateway_region :: region_set
  vq_now :: int
  vq_gateway_binding :: bytes
  vq_challenge :: bytes
  vq_proof_of_possession :: "bytes option"

record verified_capability =
  vc_policy :: capability_policy
  vc_expires_at :: int
  vc_lease :: session_lease

record local_token_verifier =
  lv_keys :: "(string, issuer_public_key) fmap"
  lv_config :: verifier_config

fun insert_issuer_keys ::
  "issuer_public_key list \<Rightarrow> (string, issuer_public_key) fmap \<Rightarrow>
     token_error + (string, issuer_public_key) fmap" where
  "insert_issuer_keys [] key_map = Inr key_map"
| "insert_issuer_keys (key # keys) key_map =
     (if ik_key_id key = [] \<or> ik_key_id key |\<in>| fmdom key_map then Inl InvalidKeyId
      else insert_issuer_keys keys (fmupd (ik_key_id key) key key_map))"

definition verifier_new ::
  "issuer_public_key list \<Rightarrow> verifier_config \<Rightarrow> token_error + local_token_verifier" where
  "verifier_new keys config =
     bindE (ensure (\<not> (vf_maximum_clock_skew_seconds config < 0 \<or>
                       120 < vf_maximum_clock_skew_seconds config)) InvalidTimeWindow) (\<lambda>_.
     bindE (insert_issuer_keys keys fmempty) (\<lambda>key_map.
     Inr \<lparr>lv_keys = key_map, lv_config = config\<rparr>))"

fun map_store_error :: "token_store_error \<Rightarrow> token_error" where
  "map_store_error AlreadyReserved = ReplayDetected"
| "map_store_error LimitReached = ConnectionLimitReached"
| "map_store_error StoreUnavailable = ReplayProtectionUnavailable"

text \<open>The match on the public key of the claims and the proof of the request.\<close>

definition check_proof_of_possession ::
  "signature_scheme \<Rightarrow> verifier_config \<Rightarrow> capability_claims \<Rightarrow> verification_request \<Rightarrow>
     token_error + unit" where
  "check_proof_of_possession sg config claims request =
     (case (cc_pop_public_key claims, vq_proof_of_possession request) of
        (Some public_key, Some proof) \<Rightarrow>
          bindE (ensure (length proof = SIGNATURE_LENGTH) InvalidProofOfPossession) (\<lambda>_.
          bindE (ensure (sg_key_valid sg public_key) InvalidProofOfPossession) (\<lambda>_.
          ensure (sg_verify_strict sg public_key
            (proof_of_possession_message (cc_token_id claims) (vq_gateway_binding request)
              (vq_challenge request)) proof) InvalidProofOfPossession))
      | _ \<Rightarrow> ensure (\<not> vf_require_proof_of_possession config) ProofOfPossessionRequired)"

text \<open>Everything \<open>verify\<close> checks before it reserves the session.\<close>

definition authorize ::
  "token_prost \<Rightarrow> signature_scheme \<Rightarrow> (string \<Rightarrow> bytes \<Rightarrow> int \<Rightarrow> revocation_status) \<Rightarrow>
     local_token_verifier \<Rightarrow> verification_request \<Rightarrow> token_error + capability_claims" where
  "authorize p sg status v request =
     bindE (decode_token p (vq_encoded_token request)) (\<lambda>decoded.
     let claims = dt_claims decoded;
         clock_skew = vf_maximum_clock_skew_seconds (lv_config v) in
     bindE (ensure (\<not> saturating_add_i64 (vq_now request) clock_skew < cc_not_before claims) NotYetValid) (\<lambda>_.
     bindE (ensure (\<not> cc_expires_at claims \<le> vq_now request) Expired) (\<lambda>_.
     bindE (ok_or (fmlookup (lv_keys v) (cc_issuer_key_id claims)) UnknownIssuerKey) (\<lambda>key.
     bindE (ensure (\<not> (cc_not_before claims < ik_not_before key \<or> ik_not_after key < cc_expires_at claims))
              IssuerKeyOutsideValidity) (\<lambda>_.
     bindE (ensure (sg_key_valid sg (ik_public_key key)) InvalidSignature) (\<lambda>_.
     bindE (ensure (sg_verify_strict sg (ik_public_key key) (dt_claims_bytes decoded) (dt_signature decoded))
              InvalidSignature) (\<lambda>_.
     bindE (case status (cc_issuer_key_id claims) (cc_token_id claims) (vq_now request) of
              RevocationActive \<Rightarrow> Inr ()
            | RevocationRevoked \<Rightarrow> Inl Revoked
            | SnapshotStale \<Rightarrow> Inl RevocationDataStale) (\<lambda>_.
     bindE (ensure (role_allowed (cc_policy claims) (vq_required_role request)) RoleNotAllowed) (\<lambda>_.
     bindE (ensure (region_allows (cp_region_set (cc_policy claims)) (vq_gateway_region request))
              RegionNotAllowed) (\<lambda>_.
     bindE (check_proof_of_possession sg (lv_config v) claims request) (\<lambda>_.
     Inr claims)))))))))))"

definition lease_session_id :: "(bytes \<Rightarrow> bytes) \<Rightarrow> bytes \<Rightarrow> bytes \<Rightarrow> bytes \<Rightarrow> bytes" where
  "lease_session_id sha256 token_id gateway_binding challenge =
     sha256 (map of_char ''onionroute-session-lease-v1'' @ [0] @ token_id @ gateway_binding @ challenge)"

definition reservation_of ::
  "(bytes \<Rightarrow> bytes) \<Rightarrow> capability_claims \<Rightarrow> verification_request \<Rightarrow> token_reservation" where
  "reservation_of sha256 claims request =
     \<lparr>rv_token_id = cc_token_id claims,
      rv_session_id = lease_session_id sha256 (cc_token_id claims) (vq_gateway_binding request)
        (vq_challenge request),
      rv_now = vq_now request, rv_expires_at = cc_expires_at claims,
      rv_max_active_sessions = cl_max_active_sessions (cp_connection_limits (cc_policy claims))\<rparr>"

definition verify ::
  "token_prost \<Rightarrow> signature_scheme \<Rightarrow> (bytes \<Rightarrow> bytes) \<Rightarrow>
   (token_reservation \<Rightarrow> 's \<Rightarrow> (token_store_error + session_lease) \<times> 's) \<Rightarrow>
   (string \<Rightarrow> bytes \<Rightarrow> int \<Rightarrow> revocation_status) \<Rightarrow> local_token_verifier \<Rightarrow> verification_request \<Rightarrow> 's \<Rightarrow>
     (token_error + verified_capability) \<times> 's" where
  "verify p sg sha256 reserve status v request store =
     tryE (authorize p sg status v request) store (\<lambda>claims.
       (case reserve (reservation_of sha256 claims request) store of
          (Inl e, store) \<Rightarrow> (Inl (map_store_error e), store)
        | (Inr lease, store) \<Rightarrow>
            (Inr \<lparr>vc_policy = cc_policy claims, vc_expires_at = cc_expires_at claims,
                  vc_lease = lease\<rparr>, store)))"

definition token_release ::
  "(session_lease \<Rightarrow> 's \<Rightarrow> (token_store_error + unit) \<times> 's) \<Rightarrow> verified_capability \<Rightarrow> 's \<Rightarrow>
     (token_error + unit) \<times> 's" where
  "token_release release capability store =
     (case release (vc_lease capability) store of
        (Inl e, store) \<Rightarrow> (Inl (map_store_error e), store)
      | (Inr u, store) \<Rightarrow> (Inr u, store))"

section \<open>What an authorized token satisfies\<close>

lemma check_proof_of_possession_Inr:
  assumes "check_proof_of_possession sg cfg c rq = Inr u"
  shows "vf_require_proof_of_possession cfg \<Longrightarrow>
      \<exists>key proof. cc_pop_public_key c = Some key \<and> vq_proof_of_possession rq = Some proof"
    "cc_pop_public_key c = Some key \<Longrightarrow> vq_proof_of_possession rq = Some proof \<Longrightarrow>
      sg_verify_strict sg key (proof_of_possession_message (cc_token_id c) (vq_gateway_binding rq)
        (vq_challenge rq)) proof"
  using assms by (auto simp: check_proof_of_possession_def result_simps split: option.splits)

lemma revocation_case_Inr:
  "(case st of RevocationActive \<Rightarrow> Inr () | RevocationRevoked \<Rightarrow> Inl e | SnapshotStale \<Rightarrow> Inl e') = Inr u \<longleftrightarrow>
     st = RevocationActive"
  by (cases st) auto

lemma authorize_Inr:
  assumes "authorize p sg status v rq = Inr c"
  obtains d key where "decode_token p (vq_encoded_token rq) = Inr d" "c = dt_claims d"
    "cc_not_before c \<le> saturating_add_i64 (vq_now rq) (vf_maximum_clock_skew_seconds (lv_config v))"
    "vq_now rq < cc_expires_at c"
    "fmlookup (lv_keys v) (cc_issuer_key_id c) = Some key"
    "ik_not_before key \<le> cc_not_before c" "cc_expires_at c \<le> ik_not_after key"
    "sg_verify_strict sg (ik_public_key key) (dt_claims_bytes d) (dt_signature d)"
    "status (cc_issuer_key_id c) (cc_token_id c) (vq_now rq) = RevocationActive"
    "role_allowed (cc_policy c) (vq_required_role rq)"
    "region_allows (cp_region_set (cc_policy c)) (vq_gateway_region rq)"
    "check_proof_of_possession sg (lv_config v) c rq = Inr ()"
proof -
  from assms obtain d key where d: "decode_token p (vq_encoded_token rq) = Inr d" "c = dt_claims d"
    "\<not> saturating_add_i64 (vq_now rq) (vf_maximum_clock_skew_seconds (lv_config v)) < cc_not_before c"
    "\<not> cc_expires_at c \<le> vq_now rq"
    "fmlookup (lv_keys v) (cc_issuer_key_id c) = Some key"
    "\<not> (cc_not_before c < ik_not_before key \<or> ik_not_after key < cc_expires_at c)"
    "sg_verify_strict sg (ik_public_key key) (dt_claims_bytes d) (dt_signature d)"
    "status (cc_issuer_key_id c) (cc_token_id c) (vq_now rq) = RevocationActive"
    "role_allowed (cc_policy c) (vq_required_role rq)"
    "region_allows (cp_region_set (cc_policy c)) (vq_gateway_region rq)"
    "check_proof_of_possession sg (lv_config v) c rq = Inr ()"
    by (auto simp: authorize_def result_simps Let_def revocation_case_Inr)
  show thesis by (rule that [of d key]) (use d in auto)
qed

lemma verify_Inr:
  assumes "verify p sg sha reserve status v rq s = (Inr cap, t)"
  obtains c where "authorize p sg status v rq = Inr c"
    "reserve (reservation_of sha c rq) s = (Inr (vc_lease cap), t)"
    "cap = \<lparr>vc_policy = cc_policy c, vc_expires_at = cc_expires_at c, vc_lease = vc_lease cap\<rparr>"
proof -
  from assms obtain c where c: "authorize p sg status v rq = Inr c"
    and k: "(case reserve (reservation_of sha c rq) s of
          (Inl e, store) \<Rightarrow> (Inl (map_store_error e), store)
        | (Inr lease, store) \<Rightarrow> (Inr \<lparr>vc_policy = cc_policy c, vc_expires_at = cc_expires_at c,
            vc_lease = lease\<rparr>, store)) = (Inr cap, t)"
    by (auto simp: verify_def result_simps)
  show thesis
    by (rule that [OF c]) (use k in \<open>auto split: prod.splits sum.splits\<close>)
qed

lemma verify_store:
  "snd (verify p sg sha reserve status v rq s) =
     (case authorize p sg status v rq of
        Inl _ \<Rightarrow> s | Inr c \<Rightarrow> snd (reserve (reservation_of sha c rq) s))"
  by (auto simp: verify_def tryE_def split: sum.splits prod.splits)

lemma token_release_store: "snd (token_release release cap s) = snd (release (vc_lease cap) s)"
  by (auto simp: token_release_def split: prod.splits sum.splits)

lemma authorize_canonical:
  assumes "authorize p sg status v rq = Inr c"
  shows "validate_canonical (cc_policy c) = Inr ()" "cc_expires_at c = cc_not_before c + TOKEN_TTL_SECONDS"
proof -
  obtain d where "decode_token p (vq_encoded_token rq) = Inr d" "c = dt_claims d"
    by (rule authorize_Inr [OF assms])
  then have "validate_shape c = Inr ()" using decode_token_Inr(1) by simp
  then show "validate_canonical (cc_policy c) = Inr ()" "cc_expires_at c = cc_not_before c + TOKEN_TTL_SECONDS"
    by (simp_all add: validate_shape_iff validate_window_iff)
qed

section \<open>Steps of a verifier on its store\<close>

text \<open>
  The verifications and releases a gateway runs, with any configuration and any revocation
  data. Token identifiers are unique: \<open>claims_of\<close> gives the claims of the one token with an
  identifier. \<open>now_ok\<close> and \<open>lease_ok\<close> restrict the times and the leases released.
\<close>

inductive token_step ::
  "token_prost \<Rightarrow> signature_scheme \<Rightarrow> (bytes \<Rightarrow> bytes) \<Rightarrow> (bytes \<Rightarrow> capability_claims) \<Rightarrow>
   (int \<Rightarrow> bool) \<Rightarrow> (session_lease \<Rightarrow> bool) \<Rightarrow> in_memory_token_store \<Rightarrow> in_memory_token_store \<Rightarrow> bool"
  for p sg sha claims_of now_ok lease_ok where
  step_verify: "(\<And>c. authorize p sg status v rq = Inr c \<Longrightarrow> c = claims_of (cc_token_id c)) \<Longrightarrow>
     now_ok (vq_now rq) \<Longrightarrow>
     token_step p sg sha claims_of now_ok lease_ok s (snd (verify p sg sha store_reserve status v rq s))"
| step_release: "lease_ok (vc_lease cap) \<Longrightarrow>
     token_step p sg sha claims_of now_ok lease_ok s (snd (token_release store_release cap s))"

abbreviation any_token_step where
  "any_token_step p sg sha claims_of \<equiv> token_step p sg sha claims_of (\<lambda>_. True) (\<lambda>_. True)"

definition expiry_of :: "(bytes \<Rightarrow> capability_claims) \<Rightarrow> bytes \<Rightarrow> int" where
  "expiry_of claims_of tok = cc_expires_at (claims_of tok)"

definition session_limit_of :: "(bytes \<Rightarrow> capability_claims) \<Rightarrow> bytes \<Rightarrow> nat" where
  "session_limit_of claims_of tok =
     unat (cl_max_active_sessions (cp_connection_limits (cc_policy (claims_of tok))))"

definition verifier_inv :: "(bytes \<Rightarrow> capability_claims) \<Rightarrow> in_memory_token_store \<Rightarrow> bool" where
  "verifier_inv claims_of s \<longleftrightarrow> store_inv (expiry_of claims_of) s \<and> store_bounded (session_limit_of claims_of) s"

lemma reservation_of_ok:
  "c = claims_of (cc_token_id c) \<Longrightarrow> reservation_ok (expiry_of claims_of) (reservation_of sha c rq)"
  by (simp add: reservation_ok_def reservation_of_def expiry_of_def)

lemma verifier_inv_step:
  assumes "verifier_inv claims_of s" "token_step p sg sha claims_of now_ok lease_ok s t"
  shows "verifier_inv claims_of t"
  using assms(2)
proof cases
  case (step_verify status v rq)
  show ?thesis
  proof (cases "authorize p sg status v rq")
    case (Inl e)
    then show ?thesis using step_verify assms(1) by (simp add: verify_store)
  next
    case (Inr c)
    let ?r = "reservation_of sha c rq"
    have c: "c = claims_of (cc_token_id c)" by (rule step_verify(2) [OF Inr])
    have lim: "unat (rv_max_active_sessions ?r) = session_limit_of claims_of (rv_token_id ?r)"
      using c by (simp add: reservation_of_def session_limit_of_def)
    have "2 \<le> unat (rv_max_active_sessions ?r)"
      using canonical_session_limit(1) [OF authorize_canonical(1) [OF Inr]] by (simp add: reservation_of_def)
    then have "store_bounded (session_limit_of claims_of) (snd (store_reserve ?r s))"
      using assms(1) lim by (intro store_bounded_reserve) (auto simp: verifier_inv_def)
    moreover have "store_inv (expiry_of claims_of) (snd (store_reserve ?r s))"
      using assms(1) reservation_of_ok [of c claims_of, OF c] by (auto simp: verifier_inv_def intro: memory_store.inv_reserve)
    ultimately show ?thesis using step_verify(1) Inr by (simp add: verify_store verifier_inv_def)
  qed
next
  case (step_release cap)
  then show ?thesis
    using assms(1) by (auto simp: verifier_inv_def token_release_store store_bounded_release
        intro: memory_store.inv_release)
qed

interpretation verifierm: invariant_machine "\<lambda>s. s = fmempty" "any_token_step p sg sha claims_of"
  "verifier_inv claims_of" for p sg sha claims_of
proof unfold_locales
  show "verifier_inv claims_of s" if "s = fmempty" for s
    using that by (simp add: verifier_inv_def store_inv_def store_bounded_def)
  show "verifier_inv claims_of t" if "verifier_inv claims_of s" "any_token_step p sg sha claims_of s t" for s t
    using that by (rule verifier_inv_step)
qed

section \<open>Issued tokens are accepted\<close>

text \<open>What is relied on of the signature scheme for one secret key.\<close>

definition signature_conforms :: "signature_scheme \<Rightarrow> bytes \<Rightarrow> bool" where
  "signature_conforms sg sk \<longleftrightarrow> sg_key_valid sg (sg_verifying_key sg sk) \<and>
     (\<forall>m. length (sg_sign sg sk m) = SIGNATURE_LENGTH \<and>
          sg_verify_strict sg (sg_verifying_key sg sk) m (sg_sign sg sk m))"

lemma insert_issuer_keys_lookup:
  assumes "insert_issuer_keys keys m = Inr m'"
  shows "\<forall>k |\<in>| fmdom m. fmlookup m' k = fmlookup m k"
    and "\<forall>key \<in> set keys. fmlookup m' (ik_key_id key) = Some key"
proof -
  have "(\<forall>k |\<in>| fmdom m. fmlookup m' k = fmlookup m k) \<and>
      (\<forall>key \<in> set keys. fmlookup m' (ik_key_id key) = Some key)"
    using assms
  proof (induction keys m rule: insert_issuer_keys.induct)
    case (2 key keys m)
    then have new: "ik_key_id key |\<notin>| fmdom m"
      and ih: "\<forall>k |\<in>| fmdom (fmupd (ik_key_id key) key m).
          fmlookup m' k = fmlookup (fmupd (ik_key_id key) key m) k"
        "\<forall>key \<in> set keys. fmlookup m' (ik_key_id key) = Some key"
      by (auto split: if_splits)
    then show ?case by (auto split: if_splits)
  qed auto
  then show "\<forall>k |\<in>| fmdom m. fmlookup m' k = fmlookup m k"
    "\<forall>key \<in> set keys. fmlookup m' (ik_key_id key) = Some key" by simp_all
qed

lemma verifier_new_Inr:
  assumes "verifier_new keys cfg = Inr v"
  shows "lv_config v = cfg" "0 \<le> vf_maximum_clock_skew_seconds cfg"
    "key \<in> set keys \<Longrightarrow> fmlookup (lv_keys v) (ik_key_id key) = Some key"
  using assms insert_issuer_keys_lookup(2) [of keys fmempty]
  by (auto simp: verifier_new_def result_simps)

lemma issue_Inr:
  assumes "issue p sg i rq (Some tid) = Inr tok"
  shows "encode_token p (issued_claims i rq tid)
      (sg_sign sg (li_secret i) (tp_encode_claims p (claims_to_wire (issued_claims i rq tid)))) = Inr (it_encoded tok)"
    "it_not_before tok = iq_not_before rq" "it_expires_at tok = iq_expires_at rq"
    "li_key_not_before i \<le> iq_not_before rq" "iq_expires_at rq \<le> li_key_not_after i"
    "validate_canonical (iq_policy rq) = Inr ()"
  using assms
  by (auto simp: issue_def claims_signing_bytes_def issued_claims_def result_simps Let_def)

lemma issuer_from_secret_bytes_Inr:
  assumes "issuer_from_secret_bytes kid sk nb na = Inr i"
  shows "i = \<lparr>li_key_id = kid, li_secret = sk, li_key_not_before = nb, li_key_not_after = na\<rparr>"
  using assms by (auto simp: issuer_from_secret_bytes_def result_simps Let_def)

lemma store_reserve_fresh:
  assumes "rv_token_id r |\<notin>| fmdom s" "0 < unat (rv_max_active_sessions r)"
  shows "fst (store_reserve r s) =
    Inr \<lparr>sl_token_id = rv_token_id r, sl_session_id = rv_session_id r\<rparr>"
  using assms by (simp add: store_reserve_alt reserved_entry_sessions fmdom_notD fcard_fempty)

text \<open>The two ways the holder of a token satisfies the proof of possession.\<close>

definition possession_shown ::
  "signature_scheme \<Rightarrow> verifier_config \<Rightarrow> bytes option \<Rightarrow> bytes \<Rightarrow> verification_request \<Rightarrow> bool" where
  "possession_shown sg cfg pop_key token_id rq \<longleftrightarrow>
     (\<exists>client_key. signature_conforms sg client_key \<and> pop_key = Some (sg_verifying_key sg client_key) \<and>
        vq_proof_of_possession rq = Some (sg_sign sg client_key
          (proof_of_possession_message token_id (vq_gateway_binding rq) (vq_challenge rq)))) \<or>
     \<not> vf_require_proof_of_possession cfg \<and> (pop_key = None \<or> vq_proof_of_possession rq = None)"

lemma possession_shown_accepted:
  assumes "possession_shown sg cfg (cc_pop_public_key c) (cc_token_id c) rq"
  shows "check_proof_of_possession sg cfg c rq = Inr ()"
  using assms
  by (auto simp: possession_shown_def check_proof_of_possession_def signature_conforms_def split: option.splits)

lemma issued_token_authorized:
  assumes "issuer_from_secret_bytes kid sk nb na = Inr i"
    and "issue p sg i request (Some token_id) = Inr tok"
    and "claims_typed (issued_claims i request token_id)"
    and "signature_conforms sg sk"
    and "token_prost_conforms p (issued_claims i request token_id)
      (sg_sign sg sk (tp_encode_claims p (claims_to_wire (issued_claims i request token_id))))"
    and "verifier_new keys cfg = Inr v" "issuer_public_key_of sg i \<in> set keys"
    and "vq_encoded_token rq = it_encoded tok"
    and "it_not_before tok \<le> vq_now rq" "vq_now rq < it_expires_at tok" "vq_now rq \<le> i64_max"
    and "status kid token_id (vq_now rq) = RevocationActive"
    and "cp_allowed_gateway_roles (iq_policy request) = [vq_required_role rq]"
    and "region_allows (cp_region_set (iq_policy request)) (vq_gateway_region rq)"
    and "possession_shown sg cfg (iq_pop_public_key request) token_id rq"
  shows "authorize p sg status v rq = Inr (issued_claims i request token_id)"
proof -
  let ?c = "issued_claims i request token_id"
  note i = issuer_from_secret_bytes_Inr [OF assms(1)]
  note iss = issue_Inr [OF assms(2)]
  note v = verifier_new_Inr [OF assms(6)]
  have sg: "sg_key_valid sg (sg_verifying_key sg sk)" "length (sg_sign sg sk m) = SIGNATURE_LENGTH"
    "sg_verify_strict sg (sg_verifying_key sg sk) m (sg_sign sg sk m)" for m
    using assms(4) by (simp_all add: signature_conforms_def)
  have c: "cc_not_before ?c = it_not_before tok" "cc_expires_at ?c = it_expires_at tok"
    "cc_issuer_key_id ?c = kid" "cc_token_id ?c = token_id" "cc_policy ?c = iq_policy request"
    "cc_pop_public_key ?c = iq_pop_public_key request"
    using iss i by (simp_all add: issued_claims_def)
  let ?b = "tp_encode_claims p (claims_to_wire ?c)"
  have dec: "decode_token p (vq_encoded_token rq) =
      Inr \<lparr>dt_claims = ?c, dt_claims_bytes = ?b, dt_signature = sg_sign sg sk ?b\<rparr>"
    using decode_encode_token [OF assms(5,3) sg(2)] iss(1) assms(8) i by simp
  have key: "fmlookup (lv_keys v) kid = Some (issuer_public_key_of sg i)"
    using v(3) [OF assms(7)] i by (simp add: issuer_public_key_of_def)
  have kf: "ik_public_key (issuer_public_key_of sg i) = sg_verifying_key sg sk"
    "ik_not_before (issuer_public_key_of sg i) = li_key_not_before i"
    "ik_not_after (issuer_public_key_of sg i) = li_key_not_after i"
    using i by (simp_all add: issuer_public_key_of_def)
  have time: "\<not> saturating_add_i64 (vq_now rq) (vf_maximum_clock_skew_seconds (lv_config v)) < it_not_before tok"
    using v(1,2) assms(9,11) by (auto simp: saturating_add_i64_def)
  have role: "role_allowed (iq_policy request) (vq_required_role rq)"
    using role_allowed_canonical [OF iss(6)] assms(13) by simp
  have pop: "check_proof_of_possession sg cfg ?c rq = Inr ()"
    using assms(15) c by (intro possession_shown_accepted) simp
  show "authorize p sg status v rq = Inr ?c"
    using assms(10,12,14) time iss(2-5) sg(1,3) role pop v(1) unfolding authorize_def dec
    by (simp add: c key kf Let_def)
qed

section \<open>Properties\<close>

text \<open>
  C25. Issued tokens are accepted. Whatever token a local issuer issues, a verifier that has
  the issuer's public key accepts within the token's window, at a gateway of the role and
  region in its scope, when the token is not revoked, its holder shows possession and it has
  no open session yet; the capability carries exactly the policy and the expiry that were
  issued, and a lease on the token.
\<close>

theorem issued_tokens_verify:
  assumes "issuer_from_secret_bytes kid sk nb na = Inr i"
    and "issue p sg i request (Some token_id) = Inr tok"
    and "claims_typed (issued_claims i request token_id)"
    and "signature_conforms sg sk"
    and "token_prost_conforms p (issued_claims i request token_id)
      (sg_sign sg sk (tp_encode_claims p (claims_to_wire (issued_claims i request token_id))))"
    and "verifier_new keys cfg = Inr v" "issuer_public_key_of sg i \<in> set keys"
    and "vq_encoded_token rq = it_encoded tok"
    and "it_not_before tok \<le> vq_now rq" "vq_now rq < it_expires_at tok" "vq_now rq \<le> i64_max"
    and "status kid token_id (vq_now rq) = RevocationActive"
    and "cp_allowed_gateway_roles (iq_policy request) = [vq_required_role rq]"
    and "region_allows (cp_region_set (iq_policy request)) (vq_gateway_region rq)"
    and "possession_shown sg cfg (iq_pop_public_key request) token_id rq"
    and "token_id |\<notin>| fmdom store"
  shows "fst (verify p sg sha store_reserve status v rq store) =
    Inr \<lparr>vc_policy = iq_policy request, vc_expires_at = it_expires_at tok,
      vc_lease = \<lparr>sl_token_id = token_id, sl_session_id =
        lease_session_id sha token_id (vq_gateway_binding rq) (vq_challenge rq)\<rparr>\<rparr>"
proof -
  let ?c = "issued_claims i request token_id"
  note iss = issue_Inr [OF assms(2)]
  have c: "cc_token_id ?c = token_id" "cc_policy ?c = iq_policy request" "cc_expires_at ?c = it_expires_at tok"
    using iss by (simp_all add: issued_claims_def)
  have "authorize p sg status v rq = Inr ?c"
    by (rule issued_token_authorized) (fact assms)+
  moreover have "fst (store_reserve (reservation_of sha ?c rq) store) =
      Inr \<lparr>sl_token_id = token_id, sl_session_id =
        lease_session_id sha token_id (vq_gateway_binding rq) (vq_challenge rq)\<rparr>"
    using store_reserve_fresh [of "reservation_of sha ?c rq" store] assms(16)
      canonical_session_limit(1) [OF iss(6)]
    by (simp add: reservation_of_def c)
  ultimately show ?thesis
    by (auto simp: verify_def c split: prod.splits sum.splits)
qed

text \<open>
  C26. Accepted tokens are authentic and in scope. When \<open>verify\<close> accepts, the token decoded to
  claims whose canonical encoding a known issuer key signed, the key covering the whole
  window of the token; the time is within the window, up to the configured skew at its start
  and strictly at its end; the token is not revoked; its one role and its region are those of
  the gateway; its policy is one of the published profiles; and where proof of possession is
  required the holder of the key in the claims signed this gateway's binding and challenge.
\<close>

theorem accepted_tokens_authentic:
  assumes "verify p sg sha reserve status v rq store = (Inr cap, store')"
  shows "\<exists>d key c. decode_token p (vq_encoded_token rq) = Inr d \<and> c = dt_claims d \<and>
    fmlookup (lv_keys v) (cc_issuer_key_id c) = Some key \<and>
    (\<exists>w. claims_from_wire w = Inr c \<and> dt_claims_bytes d = tp_encode_claims p w) \<and>
    sg_verify_strict sg (ik_public_key key) (dt_claims_bytes d) (dt_signature d) \<and>
    ik_not_before key \<le> cc_not_before c \<and> cc_expires_at c \<le> ik_not_after key \<and>
    cc_expires_at c = cc_not_before c + 900 \<and>
    cc_not_before c \<le> saturating_add_i64 (vq_now rq) (vf_maximum_clock_skew_seconds (lv_config v)) \<and>
    vq_now rq < cc_expires_at c \<and>
    status (cc_issuer_key_id c) (cc_token_id c) (vq_now rq) = RevocationActive \<and>
    canonical (cp_plan_class (cc_policy c)) (cp_region_set (cc_policy c)) (vq_required_role rq) =
      Inr (cc_policy c) \<and>
    region_allows (cp_region_set (cc_policy c)) (vq_gateway_region rq) \<and>
    (vf_require_proof_of_possession (lv_config v) \<longrightarrow>
      (\<exists>pk proof. cc_pop_public_key c = Some pk \<and> vq_proof_of_possession rq = Some proof \<and>
        sg_verify_strict sg pk (proof_of_possession_message (cc_token_id c) (vq_gateway_binding rq)
          (vq_challenge rq)) proof)) \<and>
    vc_policy cap = cc_policy c \<and> vc_expires_at cap = cc_expires_at c"
proof -
  obtain c where auth: "authorize p sg status v rq = Inr c"
    and cap: "cap = \<lparr>vc_policy = cc_policy c, vc_expires_at = cc_expires_at c, vc_lease = vc_lease cap\<rparr>"
    by (rule verify_Inr [OF assms])
  obtain d key where a: "decode_token p (vq_encoded_token rq) = Inr d" "c = dt_claims d"
    "cc_not_before c \<le> saturating_add_i64 (vq_now rq) (vf_maximum_clock_skew_seconds (lv_config v))"
    "vq_now rq < cc_expires_at c"
    "fmlookup (lv_keys v) (cc_issuer_key_id c) = Some key"
    "ik_not_before key \<le> cc_not_before c" "cc_expires_at c \<le> ik_not_after key"
    "sg_verify_strict sg (ik_public_key key) (dt_claims_bytes d) (dt_signature d)"
    "status (cc_issuer_key_id c) (cc_token_id c) (vq_now rq) = RevocationActive"
    "role_allowed (cc_policy c) (vq_required_role rq)"
    "region_allows (cp_region_set (cc_policy c)) (vq_gateway_region rq)"
    "check_proof_of_possession sg (lv_config v) c rq = Inr ()"
    by (rule authorize_Inr [OF auth])
  note can = authorize_canonical [OF auth]
  have "cp_allowed_gateway_roles (cc_policy c) = [vq_required_role rq]"
    using role_allowed_canonical [OF can(1)] a(10) by simp
  then have role: "canonical (cp_plan_class (cc_policy c)) (cp_region_set (cc_policy c)) (vq_required_role rq) =
      Inr (cc_policy c)"
    using can(1) by (auto simp: validate_canonical_def split: sum.splits)
  have wire: "\<exists>w. claims_from_wire w = Inr c \<and> dt_claims_bytes d = tp_encode_claims p w"
    using decode_token_Inr(4) [OF a(1)] a(2) by simp
  have pop: "vf_require_proof_of_possession (lv_config v) \<longrightarrow>
      (\<exists>pk proof. cc_pop_public_key c = Some pk \<and> vq_proof_of_possession rq = Some proof \<and>
        sg_verify_strict sg pk (proof_of_possession_message (cc_token_id c) (vq_gateway_binding rq)
          (vq_challenge rq)) proof)"
    using check_proof_of_possession_Inr [OF a(12)] by blast
  have fields: "vc_policy cap = cc_policy c" "vc_expires_at cap = cc_expires_at c"
    using cap by (metis verified_capability.select_convs)+
  show ?thesis
    by (intro exI [of _ d] exI [of _ key] exI [of _ c] conjI)
      (use a wire role pop fields can(2) in \<open>simp_all add: token_limit_defs\<close>)
qed

lemma token_step_other:
  assumes "token_step p sg sha claims_of (\<lambda>now. now < expiry_of claims_of tok)
      (\<lambda>l. l \<noteq> \<lparr>sl_token_id = tok, sl_session_id = sid\<rparr>) s t"
  shows "(other_step store_reserve store_release (expiry_of claims_of) tok sid)\<^sup>*\<^sup>* s t"
  using assms
proof cases
  case (step_verify status v rq)
  show ?thesis
  proof (cases "authorize p sg status v rq")
    case (Inl e)
    then show ?thesis using step_verify by (simp add: verify_store)
  next
    case (Inr c)
    have c: "c = claims_of (cc_token_id c)" by (rule step_verify(2) [OF Inr])
    have "other_step store_reserve store_release (expiry_of claims_of) tok sid s
        (snd (store_reserve (reservation_of sha c rq) s))"
      using step_verify(3)
      by (intro other_reserve reservation_of_ok [of c claims_of, OF c]) (simp add: reservation_of_def)
    then show ?thesis using step_verify(1) Inr by (simp add: verify_store r_into_rtranclp)
  qed
next
  case (step_release cap)
  then show ?thesis
    by (simp add: token_release_store other_release r_into_rtranclp)
qed

lemma token_steps_other:
  assumes "(token_step p sg sha claims_of (\<lambda>now. now < expiry_of claims_of tok)
      (\<lambda>l. l \<noteq> \<lparr>sl_token_id = tok, sl_session_id = sid\<rparr>))\<^sup>*\<^sup>* s t"
  shows "(other_step store_reserve store_release (expiry_of claims_of) tok sid)\<^sup>*\<^sup>* s t"
  using assms by (induction rule: rtranclp_induct) (auto intro: rtranclp_trans dest: token_step_other)

lemma authorize_same_token:
  assumes "authorize p sg status v rq = Inr c" "authorize p sg status' v' rq' = Inr c'"
    "vq_encoded_token rq' = vq_encoded_token rq"
  shows "c' = c"
proof -
  obtain d where d: "decode_token p (vq_encoded_token rq) = Inr d" "c = dt_claims d"
    by (rule authorize_Inr [OF assms(1)])
  obtain d' where d': "decode_token p (vq_encoded_token rq') = Inr d'" "c' = dt_claims d'"
    by (rule authorize_Inr [OF assms(2)])
  show ?thesis using d d' assms(3) by simp
qed

text \<open>
  C27. Redemptions are not replayed. While the lease of an accepted token is active, that is,
  after any verifications of any tokens and any releases of other leases before the token
  expires, presenting the same token for the same gateway binding and challenge is refused,
  as a replay when everything else about it is in order.
\<close>

theorem redemptions_not_replayed:
  assumes "reach (\<lambda>s. s = fmempty) (any_token_step p sg sha claims_of) s"
    and "verify p sg sha store_reserve status v rq s = (Inr cap, t)"
    and "\<And>c. authorize p sg status v rq = Inr c \<Longrightarrow> c = claims_of (cc_token_id c)"
    and "(token_step p sg sha claims_of (\<lambda>now. now < vc_expires_at cap) (\<lambda>l. l \<noteq> vc_lease cap))\<^sup>*\<^sup>* t u"
    and "vq_encoded_token rq' = vq_encoded_token rq"
    and "vq_gateway_binding rq' = vq_gateway_binding rq" "vq_challenge rq' = vq_challenge rq"
    and "vq_now rq' < vc_expires_at cap"
  shows "fst (verify p sg sha store_reserve status' v' rq' u) =
    Inl (case authorize p sg status' v' rq' of Inl e \<Rightarrow> e | Inr _ \<Rightarrow> ReplayDetected)"
proof -
  obtain c where c: "authorize p sg status v rq = Inr c"
    and res: "store_reserve (reservation_of sha c rq) s = (Inr (vc_lease cap), t)"
    and cap: "cap = \<lparr>vc_policy = cc_policy c, vc_expires_at = cc_expires_at c, vc_lease = vc_lease cap\<rparr>"
    by (rule verify_Inr [OF assms(2)])
  let ?r = "reservation_of sha c rq"
  have cid: "c = claims_of (cc_token_id c)" by (rule assms(3) [OF c])
  have tok: "rv_token_id ?r = cc_token_id c" by (simp add: reservation_of_def)
  have exp: "vc_expires_at cap = expiry_of claims_of (cc_token_id c)"
    using cap cid by (metis expiry_of_def verified_capability.select_convs(2))
  have lease: "vc_lease cap = \<lparr>sl_token_id = cc_token_id c, sl_session_id = rv_session_id ?r\<rparr>"
    using memory_store.reserve_granted [OF res] tok by simp
  have inv: "store_inv (expiry_of claims_of) s"
    using verifierm.reach_inv [OF assms(1)] by (simp add: verifier_inv_def)
  have steps: "(other_step store_reserve store_release (expiry_of claims_of) (rv_token_id ?r) (rv_session_id ?r))\<^sup>*\<^sup>* t u"
    unfolding tok by (rule token_steps_other [OF assms(4) [unfolded exp lease]])
  show ?thesis
  proof (cases "authorize p sg status' v' rq'")
    case (Inr c')
    have "c' = c" by (rule authorize_same_token [OF c Inr assms(5)])
    then have "fst (store_reserve (reservation_of sha c' rq') u) = Inl AlreadyReserved"
      using memory_store.replay_refused [OF res inv reservation_of_ok [of c claims_of, OF cid] steps,
          of "reservation_of sha c' rq'"] assms(6-8) exp
      by (simp add: reservation_of_def)
    then show ?thesis using Inr by (auto simp: verify_def split: prod.splits)
  qed (simp add: verify_def)
qed

text \<open>
  C28. Sessions per token are bounded by the plan. In every store reached by verifying tokens
  and releasing leases, each token that has an entry holds at least one session and no more
  than the active sessions its plan allows.
\<close>

theorem token_sessions_bounded:
  assumes "reach (\<lambda>s. s = fmempty) (any_token_step p sg sha claims_of) s"
    and "fmlookup s tok = Some entry"
  shows "1 \<le> fcard (tk_sessions entry) \<and>
    fcard (tk_sessions entry) \<le> unat (cl_max_active_sessions (cp_connection_limits (cc_policy (claims_of tok))))"
proof -
  have "store_bounded (session_limit_of claims_of) s"
    using verifierm.reach_inv [OF assms(1)] by (simp add: verifier_inv_def)
  then have "tk_sessions entry \<noteq> {||}" "fcard (tk_sessions entry) \<le> session_limit_of claims_of tok"
    using assms(2) by (auto simp: store_bounded_def)
  moreover from this(1) have "1 \<le> fcard (tk_sessions entry)"
    by (metis One_nat_def Suc_leI fcard_0_eq neq0_conv)
  ultimately show ?thesis by (simp add: session_limit_of_def)
qed

section \<open>An example\<close>

text \<open>A runtime, a signature scheme and a token on which the hypotheses above hold.\<close>

definition example_issuer :: local_issuer where
  "example_issuer = \<lparr>li_key_id = ''k1'', li_secret = [7], li_key_not_before = 0, li_key_not_after = 100000\<rparr>"

definition example_policy :: capability_policy where
  "example_policy = \<lparr>cp_plan_class = Basic, cp_allowed_gateway_roles = [Exit], cp_region_set = Europe,
     cp_device_slot_class = Single, cp_bandwidth_class = Standard,
     cp_connection_limits = \<lparr>cl_max_active_sessions = 2, cl_max_concurrent_streams = 64,
       cl_new_connections_per_minute = 120\<rparr>\<rparr>"

definition example_issue :: issue_token_request where
  "example_issue = \<lparr>iq_policy = example_policy, iq_not_before = 300, iq_expires_at = 1200,
     iq_pop_public_key = Some (replicate 32 5)\<rparr>"

definition example_token_id :: bytes where
  "example_token_id = replicate 32 9"

definition example_claims :: capability_claims where
  "example_claims = issued_claims example_issuer example_issue example_token_id"

definition example_signatures :: signature_scheme where
  "example_signatures = \<lparr>sg_verifying_key = id, sg_sign = (\<lambda>sk m. replicate 64 (sum_list m)),
     sg_key_valid = (\<lambda>_. True), sg_verify_strict = (\<lambda>pk m s. s = replicate 64 (sum_list m))\<rparr>"

definition example_token_prost :: token_prost where
  "example_token_prost = \<lparr>tp_encode_claims = (\<lambda>_. [1]), tp_decode_claims = (\<lambda>_. Some (claims_to_wire example_claims)),
     tp_encode_envelope = (\<lambda>_. [2]),
     tp_decode_envelope = (\<lambda>_. Some \<lparr>env_token_version = 1, env_claims = [1], env_signature = replicate 64 1\<rparr>)\<rparr>"

definition example_token_verifier :: local_token_verifier where
  "example_token_verifier = \<lparr>lv_keys = fmupd ''k1'' (issuer_public_key_of example_signatures example_issuer) fmempty,
     lv_config = default_verifier_config\<rparr>"

definition example_request :: verification_request where
  "example_request = \<lparr>vq_encoded_token = [2], vq_required_role = Exit, vq_gateway_region = Europe,
     vq_now = 400, vq_gateway_binding = [3], vq_challenge = [4],
     vq_proof_of_possession = Some (sg_sign example_signatures (replicate 32 5)
       (proof_of_possession_message example_token_id [3] [4]))\<rparr>"

abbreviation example_status :: "string \<Rightarrow> bytes \<Rightarrow> int \<Rightarrow> revocation_status" where
  "example_status \<equiv> revocation_status_of (empty_snapshot 5000)"

abbreviation example_verify where
  "example_verify \<equiv> verify example_token_prost example_signatures id store_reserve example_status example_token_verifier
     example_request"

lemma example_issuer_made: "issuer_from_secret_bytes ''k1'' [7] 0 100000 = Inr example_issuer"
  by (simp add: issuer_from_secret_bytes_def canonical_def validate_shape_def validate_canonical_def
      validate_window_def checked_sub_i64_def validate_key_id_def ascii_defs token_limit_defs example_issuer_def)

lemma example_canonical: "validate_canonical example_policy = Inr ()"
  by (simp add: validate_canonical_def canonical_def example_policy_def)

lemma example_claims_typed: "claims_typed example_claims"
  by (auto simp: claims_typed_def example_claims_def issued_claims_def example_token_id_def example_issue_def
      token_limit_defs)

lemma example_shape: "validate_shape example_claims = Inr ()"
  using example_canonical
  by (simp add: validate_shape_iff example_claims_def issued_claims_def example_issue_def validate_window_iff
      validate_key_id_def ascii_defs token_limit_defs example_issuer_def)

lemma example_token_prost_conforms: "token_prost_conforms example_token_prost example_claims (replicate 64 1)"
  by (simp add: token_prost_conforms_def envelope_of_def example_token_prost_def token_limit_defs)

lemma example_signature_conforms: "signature_conforms example_signatures sk"
  by (simp add: signature_conforms_def example_signatures_def token_limit_defs)

lemma example_issued:
  "issue example_token_prost example_signatures example_issuer example_issue (Some example_token_id) =
     Inr \<lparr>it_encoded = [2], it_not_before = 300, it_expires_at = 1200\<rparr>"
proof -
  have "encode_token example_token_prost example_claims s = Inr [2]"
    "claims_signing_bytes example_token_prost example_claims = Inr [1]" for s
    using example_shape
    by (simp_all add: encode_token_def claims_signing_bytes_def Let_def example_token_prost_def token_limit_defs)
  moreover have "iq_policy example_issue = example_policy" "iq_not_before example_issue = 300"
    "iq_expires_at example_issue = 1200" "iq_pop_public_key example_issue = Some (replicate 32 5)"
    "cc_not_before example_claims = 300" "cc_expires_at example_claims = 1200"
    "li_key_not_before example_issuer = 0" "li_key_not_after example_issuer = 100000"
    "sg_key_valid example_signatures k" for k
    by (simp_all add: example_issue_def example_claims_def issued_claims_def example_issuer_def
        example_signatures_def)
  moreover have "validate_window 300 1200 = Inr ()" by (simp add: validate_window_iff token_limit_defs)
  ultimately show ?thesis
    using example_canonical
    by (simp add: issue_def example_claims_def [symmetric] Let_def)
qed

lemma example_token_verifier_made:
  "verifier_new [issuer_public_key_of example_signatures example_issuer] default_verifier_config = Inr example_token_verifier"
  by (simp add: verifier_new_def default_verifier_config_def example_token_verifier_def issuer_public_key_of_def
      example_issuer_def)

lemma example_possession:
  "possession_shown example_signatures default_verifier_config (iq_pop_public_key example_issue) example_token_id
     example_request"
proof -
  have "iq_pop_public_key example_issue = Some (sg_verifying_key example_signatures (replicate 32 5))"
    by (simp add: example_issue_def example_signatures_def)
  then show ?thesis
    unfolding possession_shown_def
    by (intro disjI1 exI [of _ "replicate 32 5"]) (simp add: example_signature_conforms example_request_def)
qed

lemma example_sign: "sg_sign example_signatures sk (tp_encode_claims example_token_prost w) = replicate 64 1"
  by (simp add: example_signatures_def example_token_prost_def)

lemma example_authorized:
  "authorize example_token_prost example_signatures example_status example_token_verifier example_request =
     Inr example_claims"
  using issued_token_authorized [OF example_issuer_made example_issued _ example_signature_conforms _
      example_token_verifier_made, of example_request example_status]
    example_claims_typed example_token_prost_conforms example_possession
  by (simp add: example_claims_def [symmetric] example_sign)
    (simp add: example_request_def revocation_status_of_def empty_snapshot_def example_issue_def
      example_policy_def region_allows_def)

lemma example_accepted:
  "\<exists>t. example_verify fmempty = (Inr \<lparr>vc_policy = example_policy, vc_expires_at = 1200,
     vc_lease = \<lparr>sl_token_id = example_token_id,
       sl_session_id = lease_session_id id example_token_id [3] [4]\<rparr>\<rparr>, t)"
  using example_authorized
  by (simp add: verify_def reservation_of_def store_reserve_def retain_unexpired_def example_claims_def
      issued_claims_def example_issue_def example_policy_def example_request_def fcard_fempty Let_def)

lemma example_unique:
  "authorize example_token_prost example_signatures status v rq = Inr c \<Longrightarrow> c = example_claims"
proof -
  assume "authorize example_token_prost example_signatures status v rq = Inr c"
  then obtain d where d: "decode_token example_token_prost (vq_encoded_token rq) = Inr d" "c = dt_claims d"
    by (rule authorize_Inr)
  from d(1) have "claims_from_wire (claims_to_wire example_claims) = Inr (dt_claims d)"
    by (auto simp: decode_token_def example_token_prost_def result_simps)
  then show ?thesis using d(2) claims_wire_roundtrip [OF example_claims_typed] by simp
qed

theorem issued_tokens_verify_witness:
  "fst (example_verify fmempty) = Inr \<lparr>vc_policy = example_policy, vc_expires_at = 1200,
     vc_lease = \<lparr>sl_token_id = example_token_id,
       sl_session_id = lease_session_id id example_token_id [3] [4]\<rparr>\<rparr>"
  using issued_tokens_verify [OF example_issuer_made example_issued _ example_signature_conforms _
      example_token_verifier_made, of example_request example_status fmempty id]
    example_claims_typed example_token_prost_conforms example_possession
  by (simp add: example_claims_def [symmetric] example_sign)
    (simp add: example_request_def revocation_status_of_def empty_snapshot_def example_issue_def
      example_policy_def region_allows_def)

theorem accepted_tokens_authentic_witness:
  "\<exists>d. decode_token example_token_prost [2] = Inr d \<and>
     cc_expires_at (dt_claims d) = cc_not_before (dt_claims d) + 900"
proof -
  obtain t where "example_verify fmempty = (Inr \<lparr>vc_policy = example_policy, vc_expires_at = 1200,
     vc_lease = \<lparr>sl_token_id = example_token_id,
       sl_session_id = lease_session_id id example_token_id [3] [4]\<rparr>\<rparr>, t)"
    using example_accepted by blast
  from accepted_tokens_authentic [OF this] show ?thesis
    by (auto simp: example_request_def)
qed

theorem redemptions_not_replayed_witness:
  "fst (example_verify (snd (example_verify fmempty))) = Inl ReplayDetected"
proof -
  obtain t where t: "example_verify fmempty = (Inr \<lparr>vc_policy = example_policy, vc_expires_at = 1200,
     vc_lease = \<lparr>sl_token_id = example_token_id,
       sl_session_id = lease_session_id id example_token_id [3] [4]\<rparr>\<rparr>, t)"
    using example_accepted by blast
  have "fst (example_verify t) =
      Inl (case authorize example_token_prost example_signatures example_status example_token_verifier example_request of
        Inl e \<Rightarrow> e | Inr _ \<Rightarrow> ReplayDetected)"
    by (rule redemptions_not_replayed [of example_token_prost example_signatures id "\<lambda>_. example_claims" fmempty
          example_status example_token_verifier example_request _ t, OF reach_start t _ rtranclp.rtrancl_refl])
      (auto simp: example_request_def intro: example_unique)
  then show ?thesis using t by (simp add: example_authorized)
qed

theorem token_sessions_bounded_witness:
  "\<exists>entry. fmlookup (snd (example_verify fmempty)) example_token_id = Some entry \<and>
     1 \<le> fcard (tk_sessions entry) \<and> fcard (tk_sessions entry) \<le> 2"
proof -
  let ?t = "snd (example_verify fmempty)"
  have "reach (\<lambda>s. s = fmempty) (any_token_step example_token_prost example_signatures id (\<lambda>_. example_claims)) ?t"
    by (rule reach_step [where s = fmempty]) (auto intro: reach_start step_verify example_unique)
  moreover have "rv_token_id (reservation_of id example_claims example_request) = example_token_id"
    by (simp add: reservation_of_def example_claims_def issued_claims_def)
  then obtain entry where "fmlookup ?t example_token_id = Some entry"
    using example_authorized by (auto simp: verify_store store_lookup_reserve)
  ultimately show ?thesis
    using token_sessions_bounded [of example_token_prost example_signatures id "\<lambda>_. example_claims" ?t
        example_token_id entry]
    by (simp add: example_claims_def issued_claims_def example_issue_def example_policy_def)
qed

end
