(* ===== verification/Packet.thy ===== *)
theory Packet
  imports Prelude
begin

text \<open>
  Packet parsing and construction of the packet engine
  (\<open>src/crates/packet-engine/src/packet.rs\<close>): classification of one IP packet from the tunnel,
  the Internet checksum, and the writers of the TCP and UDP packets the engine injects. The
  theorems are that what the writers build the parser accepts with the same fields, that the
  checksum loop computes the one's complement sum, and that a classified payload lies within
  the packet.
\<close>

section \<open>Data\<close>

datatype packet_error =
    Truncated
  | InvalidVersion
  | InvalidLength
  | InvalidIpv4Checksum
  | InvalidTransportChecksum
  | Fragmented
  | InvalidPort

datatype ip_protocol_class = ProtoTcp | ProtoUdp | ProtoIcmp | ProtoOther u8

record tcp_flags =
  tf_fin :: bool
  tf_syn :: bool
  tf_rst :: bool
  tf_psh :: bool
  tf_ack :: bool

definition syn_ack :: tcp_flags where
  "syn_ack = \<lparr>tf_fin = False, tf_syn = True, tf_rst = False, tf_psh = False, tf_ack = True\<rparr>"

definition ack_flags :: tcp_flags where
  "ack_flags = \<lparr>tf_fin = False, tf_syn = False, tf_rst = False, tf_psh = False, tf_ack = True\<rparr>"

definition fin_ack :: tcp_flags where
  "fin_ack = \<lparr>tf_fin = True, tf_syn = False, tf_rst = False, tf_psh = False, tf_ack = True\<rparr>"

definition rst_ack :: tcp_flags where
  "rst_ack = \<lparr>tf_fin = False, tf_syn = False, tf_rst = True, tf_psh = False, tf_ack = True\<rparr>"

definition flag_bits :: "tcp_flags \<Rightarrow> u8" where
  "flag_bits f = of_bool (tf_fin f) OR push_bit 1 (of_bool (tf_syn f)) OR
     push_bit 2 (of_bool (tf_rst f)) OR push_bit 3 (of_bool (tf_psh f)) OR
     push_bit 4 (of_bool (tf_ack f))"

text \<open>An \<open>Ipv4Addr\<close> is its four octets.\<close>

type_synonym ipv4_addr = "u8 \<times> u8 \<times> u8 \<times> u8"

definition octets :: "ipv4_addr \<Rightarrow> bytes" where
  "octets a = (case a of (a0, a1, a2, a3) \<Rightarrow> [a0, a1, a2, a3])"

record tcp_segment =
  ts_source :: ipv4_addr
  ts_destination :: ipv4_addr
  ts_source_port :: u16
  ts_destination_port :: u16
  ts_sequence :: u32
  ts_acknowledgement :: u32
  ts_window :: u16
  ts_flags :: tcp_flags
  ts_payload :: bytes

record udp_datagram =
  ud_source :: ipv4_addr
  ud_destination :: ipv4_addr
  ud_source_port :: u16
  ud_destination_port :: u16
  ud_payload :: bytes

record icmp_packet =
  ic_source :: ipv4_addr
  ic_destination :: ipv4_addr
  ic_message_type :: u8
  ic_code :: u8

datatype classified_packet =
    Tcp tcp_segment
  | Udp udp_datagram
  | Icmp icmp_packet
  | Ipv6
  | OtherProtocol ip_protocol_class

text \<open>Big-endian conversions of the standard library, and \<open>copy_from_slice\<close> into a range.\<close>

definition be_u16 :: "u8 \<Rightarrow> u8 \<Rightarrow> u16" where
  "be_u16 a b = push_bit 8 (ucast a) OR ucast b"

definition be_u32 :: "u8 \<Rightarrow> u8 \<Rightarrow> u8 \<Rightarrow> u8 \<Rightarrow> u32" where
  "be_u32 a b c d = push_bit 24 (ucast a) OR push_bit 16 (ucast b) OR push_bit 8 (ucast c) OR ucast d"

definition u16_be_bytes :: "u16 \<Rightarrow> bytes" where
  "u16_be_bytes w = [ucast (drop_bit 8 w), ucast w]"

definition u32_be_bytes :: "u32 \<Rightarrow> bytes" where
  "u32_be_bytes w = [ucast (drop_bit 24 w), ucast (drop_bit 16 w), ucast (drop_bit 8 w), ucast w]"

definition splice :: "nat \<Rightarrow> bytes \<Rightarrow> bytes \<Rightarrow> bytes" where
  "splice i bs out = take i out @ bs @ drop (i + length bs) out"

section \<open>The Internet checksum\<close>

fun checksum_sum :: "u32 \<Rightarrow> bytes \<Rightarrow> u32" where
  "checksum_sum acc (a # b # rest) = checksum_sum (acc + ucast (be_u16 a b)) rest"
| "checksum_sum acc [a] = acc + push_bit 8 (ucast a)"
| "checksum_sum acc [] = acc"

function fold_carry :: "u32 \<Rightarrow> u32" where
  "fold_carry acc =
     (if drop_bit 16 acc \<noteq> 0 then fold_carry ((acc AND 0xffff) + drop_bit 16 acc) else acc)"
  by auto

lemma unat_fold_step:
  "unat ((acc AND 0xffff) + drop_bit 16 acc :: u32) = unat acc mod 65536 + unat acc div 65536"
proof -
  have "acc AND 0xffff = take_bit 16 acc" by (simp add: take_bit_eq_mask mask_eq_exp_minus_1)
  then have low: "unat (acc AND 0xffff) = unat acc mod 65536"
    by (simp add: take_bit_eq_mod unat_mod)
  have high: "unat (drop_bit 16 acc) = unat acc div 65536"
    by (simp add: drop_bit_eq_div unat_div)
  have "unat acc div 65536 < 65536" using unat_u32_lt [of acc] by (simp add: less_mult_imp_div_less)
  then have "unat acc mod 65536 + unat acc div 65536 < 4294967296" by simp
  then show ?thesis by (simp add: unat_word_ariths low high)
qed

lemma drop_bit_16_zero: "drop_bit 16 (acc :: u32) = 0 \<longleftrightarrow> unat acc < 65536"
proof -
  have "drop_bit 16 acc = 0 \<longleftrightarrow> unat (drop_bit 16 acc) = 0" by (simp add: unat_eq_0)
  also have "\<dots> \<longleftrightarrow> unat acc < 65536" by (simp add: drop_bit_eq_div unat_div div_eq_0_iff)
  finally show ?thesis .
qed

termination fold_carry
proof (relation "measure unat")
  fix acc :: u32
  assume "drop_bit 16 acc \<noteq> 0"
  then have "65536 \<le> unat acc" by (simp add: drop_bit_16_zero)
  then have "0 < unat acc div 65536" by (simp add: div_greater_zero_iff)
  moreover have "unat acc = 65536 * (unat acc div 65536) + unat acc mod 65536" by simp
  ultimately have "unat acc mod 65536 + unat acc div 65536 < unat acc" by linarith
  then show "((acc AND 0xffff) + drop_bit 16 acc, acc) \<in> measure unat" by (simp add: unat_fold_step)
qed simp

declare fold_carry.simps [simp del]

definition checksum :: "bytes \<Rightarrow> u16" where
  "checksum bs = NOT (ucast (fold_carry (checksum_sum 0 bs)))"

definition transport_checksum :: "ipv4_addr \<Rightarrow> ipv4_addr \<Rightarrow> u8 \<Rightarrow> bytes \<Rightarrow> u16" where
  "transport_checksum source destination protocol bs =
     checksum (octets source @ octets destination @ [0, protocol] @
               u16_be_bytes (word_of_nat (length bs)) @ bs)"

section \<open>Parsing\<close>

text \<open>A slice \<open>&bytes[a..b]\<close>\<close>

definition subslice :: "nat \<Rightarrow> nat \<Rightarrow> bytes \<Rightarrow> bytes" where
  "subslice a b bs = drop a (take b bs)"

definition parse_tcp :: "ipv4_addr \<Rightarrow> ipv4_addr \<Rightarrow> bytes \<Rightarrow> packet_error + tcp_segment" where
  "parse_tcp source destination bs =
     (if length bs < 20 then Inl Truncated
      else let header_len = unat (drop_bit 4 (bs ! 12)) * 4 in
      if header_len < 20 \<or> length bs < header_len then Inl InvalidLength
      else let source_port = be_u16 (bs ! 0) (bs ! 1); destination_port = be_u16 (bs ! 2) (bs ! 3) in
      if source_port = 0 \<or> destination_port = 0 then Inl InvalidPort
      else if transport_checksum source destination 6 bs \<noteq> 0 then Inl InvalidTransportChecksum
      else let flags = bs ! 13 in
      Inr \<lparr>ts_source = source, ts_destination = destination, ts_source_port = source_port,
           ts_destination_port = destination_port,
           ts_sequence = be_u32 (bs ! 4) (bs ! 5) (bs ! 6) (bs ! 7),
           ts_acknowledgement = be_u32 (bs ! 8) (bs ! 9) (bs ! 10) (bs ! 11),
           ts_window = be_u16 (bs ! 14) (bs ! 15),
           ts_flags = \<lparr>tf_fin = flags AND 0x01 \<noteq> 0, tf_syn = flags AND 0x02 \<noteq> 0,
                       tf_rst = flags AND 0x04 \<noteq> 0, tf_psh = flags AND 0x08 \<noteq> 0,
                       tf_ack = flags AND 0x10 \<noteq> 0\<rparr>,
           ts_payload = drop header_len bs\<rparr>)"

definition parse_udp :: "ipv4_addr \<Rightarrow> ipv4_addr \<Rightarrow> bytes \<Rightarrow> packet_error + udp_datagram" where
  "parse_udp source destination bs =
     (if length bs < 8 then Inl Truncated
      else let source_port = be_u16 (bs ! 0) (bs ! 1); destination_port = be_u16 (bs ! 2) (bs ! 3);
               len = unat (be_u16 (bs ! 4) (bs ! 5)) in
      if source_port = 0 \<or> destination_port = 0 then Inl InvalidPort
      else if len < 8 \<or> length bs < len then Inl InvalidLength
      else let supplied_checksum = be_u16 (bs ! 6) (bs ! 7) in
      if supplied_checksum \<noteq> 0 \<and> transport_checksum source destination 17 (take len bs) \<noteq> 0
      then Inl InvalidTransportChecksum
      else Inr \<lparr>ud_source = source, ud_destination = destination, ud_source_port = source_port,
                ud_destination_port = destination_port, ud_payload = subslice 8 len bs\<rparr>)"

definition classify_ipv4 :: "bytes \<Rightarrow> packet_error + classified_packet" where
  "classify_ipv4 packet =
     (if length packet < 20 then Inl Truncated
      else let header_len = unat (packet ! 0 AND 0x0f) * 4;
               total_len = unat (be_u16 (packet ! 2) (packet ! 3)) in
      if header_len < 20 \<or> total_len < header_len \<or> length packet < total_len then Inl InvalidLength
      else if checksum (take header_len packet) \<noteq> 0 then Inl InvalidIpv4Checksum
      else if be_u16 (packet ! 6) (packet ! 7) AND 0x3fff \<noteq> 0 then Inl Fragmented
      else let source = (packet ! 12, packet ! 13, packet ! 14, packet ! 15);
               destination = (packet ! 16, packet ! 17, packet ! 18, packet ! 19);
               payload = subslice header_len total_len packet in
      if packet ! 9 = 6 then map_sum id Tcp (parse_tcp source destination payload)
      else if packet ! 9 = 17 then map_sum id Udp (parse_udp source destination payload)
      else if packet ! 9 = 1 then
        (if length payload < 4 then Inl Truncated
         else Inr (Icmp \<lparr>ic_source = source, ic_destination = destination,
                         ic_message_type = payload ! 0, ic_code = payload ! 1\<rparr>))
      else Inr (OtherProtocol (ProtoOther (packet ! 9))))"

definition classify :: "bytes \<Rightarrow> packet_error + classified_packet" where
  "classify packet =
     (case packet of
        [] \<Rightarrow> Inl Truncated
      | b # _ \<Rightarrow>
          let version = drop_bit 4 b in
          if version = 4 then classify_ipv4 packet
          else if version = 6 then
            (if length packet < 40 then Inl Truncated
             else let payload_len = unat (be_u16 (packet ! 4) (packet ! 5)) in
             if length packet < saturating_add_usize 40 payload_len then Inl InvalidLength
             else Inr Ipv6)
          else Inl InvalidVersion)"

section \<open>Construction\<close>

definition u16_max :: nat where "u16_max = 65535"

text \<open>The IPv4 header both writers start from: zeros, then the fixed fields.\<close>

definition ipv4_header_fields :: "nat \<Rightarrow> u8 \<Rightarrow> ipv4_addr \<Rightarrow> ipv4_addr \<Rightarrow> bytes \<Rightarrow> bytes" where
  "ipv4_header_fields total_len protocol source destination output =
     splice 16 (octets destination) (splice 12 (octets source) ((splice 6 (u16_be_bytes 0x4000)
       (splice 2 (u16_be_bytes (word_of_nat total_len)) (output[0 := 0x45])))
         [8 := 64, 9 := protocol]))"

definition build_tcp_packet ::
  "ipv4_addr \<Rightarrow> ipv4_addr \<Rightarrow> u16 \<Rightarrow> u16 \<Rightarrow> u32 \<Rightarrow> u32 \<Rightarrow> tcp_flags \<Rightarrow> u16 \<Rightarrow> bytes \<Rightarrow> bytes" where
  "build_tcp_packet source destination source_port destination_port sequence acknowledgement flags
     window payload =
     (let total_len = saturating_add_usize 40 (length payload) in
      if u16_max < total_len then []
      else
        let output = ipv4_header_fields total_len 6 source destination (replicate total_len 0);
            output = splice 22 (u16_be_bytes destination_port) (splice 20 (u16_be_bytes source_port) output);
            output = splice 28 (u32_be_bytes acknowledgement) (splice 24 (u32_be_bytes sequence) output);
            output = output[32 := push_bit 4 5, 33 := flag_bits flags];
            output = splice 40 payload (splice 34 (u16_be_bytes window) output);
            tcp_checksum = transport_checksum source destination 6 (drop 20 output);
            output = splice 36 (u16_be_bytes tcp_checksum) output;
            ip_checksum = checksum (take 20 output)
        in splice 10 (u16_be_bytes ip_checksum) output)"

definition build_udp_packet ::
  "ipv4_addr \<Rightarrow> ipv4_addr \<Rightarrow> u16 \<Rightarrow> u16 \<Rightarrow> bytes \<Rightarrow> bytes" where
  "build_udp_packet source destination source_port destination_port payload =
     (let udp_len = saturating_add_usize 8 (length payload);
          total_len = saturating_add_usize 20 udp_len in
      if u16_max < total_len then []
      else
        let output = ipv4_header_fields total_len 17 source destination (replicate total_len 0);
            output = splice 22 (u16_be_bytes destination_port) (splice 20 (u16_be_bytes source_port) output);
            output = splice 24 (u16_be_bytes (word_of_nat udp_len)) output;
            output = splice 28 payload output;
            udp_checksum = transport_checksum source destination 17 (drop 20 output);
            output = splice 26 (u16_be_bytes udp_checksum) output;
            ip_checksum = checksum (take 20 output)
        in splice 10 (u16_be_bytes ip_checksum) output)"

section \<open>Bytes and words\<close>

lemma unat_ucast_u8_u16: "unat (ucast (a :: u8) :: u16) = unat a"
  using unat_u8_lt [of a] by (simp add: unsigned_ucast_eq take_bit_nat_eq_self)

lemma unat_be_u16: "unat (be_u16 a b) = 256 * unat a + unat b"
proof -
  have "unat (ucast b OR push_bit 8 (ucast a) :: u16) = unat (ucast b :: u16) + 2 ^ 8 * unat (ucast a :: u16)"
    by (rule unat_or_push_bit [of _ _ _ 8]) (use unat_u8_lt [of a] unat_u8_lt [of b] in \<open>simp_all add: unat_ucast_u8_u16\<close>)
  then show ?thesis by (simp add: be_u16_def or.commute unat_ucast_u8_u16)
qed

lemma be_u16_bytes [simp]: "be_u16 (ucast (drop_bit 8 w)) (ucast w) = w"
  by (rule bit_word_eqI) (auto simp: be_u16_def bit_simps)

lemma be_u32_bytes [simp]:
  "be_u32 (ucast (drop_bit 24 w)) (ucast (drop_bit 16 w)) (ucast (drop_bit 8 w)) (ucast w) = w"
proof (rule bit_word_eqI)
  fix n :: nat
  assume "n < LENGTH(32)"
  then consider "n < 8" | "8 \<le> n" "n < 16" | "16 \<le> n" "n < 24" | "24 \<le> n" "n < 32" by force
  then show "bit (be_u32 (ucast (drop_bit 24 w)) (ucast (drop_bit 16 w)) (ucast (drop_bit 8 w)) (ucast w)) n
      \<longleftrightarrow> bit w n"
    by cases (auto simp: be_u32_def bit_simps)
qed

lemma flag_bits_read [simp]:
  "flag_bits f AND 0x01 \<noteq> 0 \<longleftrightarrow> tf_fin f" "flag_bits f AND 0x02 \<noteq> 0 \<longleftrightarrow> tf_syn f"
  "flag_bits f AND 0x04 \<noteq> 0 \<longleftrightarrow> tf_rst f" "flag_bits f AND 0x08 \<noteq> 0 \<longleftrightarrow> tf_psh f"
  "flag_bits f AND 0x10 \<noteq> 0 \<longleftrightarrow> tf_ack f"
  by (cases "tf_fin f"; cases "tf_syn f"; cases "tf_rst f"; cases "tf_psh f"; cases "tf_ack f";
      simp add: flag_bits_def)+

section \<open>The checksum is the one's complement sum\<close>

text \<open>The sum of the big-endian 16-bit words of a byte string, an odd byte padded with zero.\<close>

fun word_sum :: "bytes \<Rightarrow> nat" where
  "word_sum (a # b # rest) = 256 * unat a + unat b + word_sum rest"
| "word_sum [a] = 256 * unat a"
| "word_sum [] = 0"

lemma word_sum_bound: "word_sum bs \<le> 32768 * Suc (length bs)"
proof (induction bs rule: word_sum.induct)
  case (1 a b rest)
  then show ?case using unat_u8_lt [of a] unat_u8_lt [of b] by simp
next
  case (2 a)
  then show ?case using unat_u8_lt [of a] by simp
qed simp

lemma word_sum_append: "even (length xs) \<Longrightarrow> word_sum (xs @ ys) = word_sum xs + word_sum ys"
  by (induction xs rule: word_sum.induct) auto

lemma unat_u16_lt: "unat (w :: u16) < 65536"
  using unsigned_less [of w] by simp

lemma unat_ucast_u16_u32: "unat (ucast (a :: u16) :: u32) = unat a"
  using unat_u16_lt [of a] by (simp add: unsigned_ucast_eq take_bit_nat_eq_self)

lemma unat_high_byte: "unat (push_bit 8 (ucast (a :: u8)) :: u32) = 256 * unat a"
proof -
  have "unat (ucast a :: u32) = unat a"
    using unat_u8_lt [of a] by (simp add: unsigned_ucast_eq take_bit_nat_eq_self)
  then have "unat (0 OR push_bit 8 (ucast a) :: u32) = 2 ^ 8 * unat a"
    by (subst unat_or_push_bit [of _ _ _ 8]) (use unat_u8_lt [of a] in simp_all)
  then show ?thesis by simp
qed

lemma checksum_sum_exact:
  assumes "unat acc + word_sum bs < 2 ^ 32"
  shows "unat (checksum_sum acc bs) = unat acc + word_sum bs"
  using assms
proof (induction acc bs rule: checksum_sum.induct)
  case (1 acc a b rest)
  have "unat (acc + ucast (be_u16 a b)) = unat acc + (256 * unat a + unat b)"
    using 1(2) by (simp add: unat_word_ariths unat_ucast_u16_u32 unat_be_u16)
  with 1 show ?case by simp
next
  case (2 acc a)
  then show ?case by (simp add: unat_word_ariths unat_high_byte)
qed simp

lemma fold_carry_spec:
  "unat (fold_carry acc) < 65536 \<and> unat (fold_carry acc) mod 65535 = unat acc mod 65535 \<and>
   (unat (fold_carry acc) = 0 \<longleftrightarrow> unat acc = 0)"
proof (induction acc rule: fold_carry.induct)
  case (1 acc)
  show ?case
  proof (cases "drop_bit 16 acc = 0")
    case True
    then show ?thesis by (simp add: fold_carry.simps [of acc] drop_bit_16_zero)
  next
    case False
    let ?n = "(acc AND 0xffff) + drop_bit 16 acc"
    have n: "unat ?n = unat acc mod 65536 + unat acc div 65536" by (rule unat_fold_step)
    have "unat acc = 65535 * (unat acc div 65536) + unat ?n" unfolding n by simp
    then have "unat acc mod 65535 = unat ?n mod 65535" by (metis mod_mult_self4)
    moreover have "unat acc div 65536 \<noteq> 0"
      using False by (simp add: drop_bit_16_zero div_eq_0_iff)
    then have "unat ?n \<noteq> 0" "unat acc \<noteq> 0" unfolding n by auto
    moreover have "fold_carry acc = fold_carry ?n" using False by (simp add: fold_carry.simps [of acc])
    ultimately show ?thesis using 1 [OF False] by simp
  qed
qed

lemma unat_not_u16: "unat (NOT (w :: u16)) = 65535 - unat w"
proof -
  have "NOT w = -1 - w" by (simp add: not_eq_complement)
  moreover have "unat (-1 :: u16) = 65535" by (simp add: unsigned_minus_1_eq_mask mask_eq_exp_minus_1)
  ultimately show ?thesis using unat_sub [of w "-1"] by simp
qed

lemma unat_checksum: "unat (checksum bs) = 65535 - unat (fold_carry (checksum_sum 0 bs))"
proof -
  let ?r = "fold_carry (checksum_sum 0 bs)"
  have "unat (ucast ?r :: u16) = unat ?r"
    using fold_carry_spec [of "checksum_sum 0 bs"] by (simp add: unsigned_ucast_eq take_bit_nat_eq_self)
  then show ?thesis by (simp add: checksum_def unat_not_u16)
qed

lemma checksum_mod:
  assumes "length bs \<le> 100000"
  shows "(word_sum bs + unat (checksum bs)) mod 65535 = 0"
    "checksum bs = 0 \<longleftrightarrow> 0 < word_sum bs \<and> word_sum bs mod 65535 = 0"
proof -
  have "word_sum bs < 2 ^ 32" using word_sum_bound [of bs] assms by simp
  then have s: "unat (checksum_sum 0 bs) = word_sum bs" by (simp add: checksum_sum_exact)
  let ?r = "unat (fold_carry (checksum_sum 0 bs))"
  have r: "?r < 65536" "?r mod 65535 = word_sum bs mod 65535" "?r = 0 \<longleftrightarrow> word_sum bs = 0"
    using fold_carry_spec [of "checksum_sum 0 bs"] unfolding s by auto
  have "(word_sum bs + (65535 - ?r)) mod 65535 = (?r + (65535 - ?r)) mod 65535"
    using r(2) by (metis mod_add_left_eq)
  then show "(word_sum bs + unat (checksum bs)) mod 65535 = 0" using r(1) by (simp add: unat_checksum)
  have "checksum bs = 0 \<longleftrightarrow> ?r = 65535" using r(1) unat_checksum [of bs] by (auto simp: unat_eq_0)
  also have "\<dots> \<longleftrightarrow> 0 < word_sum bs \<and> word_sum bs mod 65535 = 0"
  proof -
    have "?r = 65535 \<longleftrightarrow> ?r \<noteq> 0 \<and> ?r mod 65535 = 0" using r(1) by auto
    then show ?thesis using r by auto
  qed
  finally show "checksum bs = 0 \<longleftrightarrow> 0 < word_sum bs \<and> word_sum bs mod 65535 = 0" .
qed

text \<open>Writing the checksum of the zeroed field into the field makes the whole verify.\<close>

lemma checksum_inserted:
  assumes "even (length pre)" "length pre + length post \<le> 90000" "0 < word_sum (pre @ [0, 0] @ post)"
  shows "checksum (pre @ u16_be_bytes (checksum (pre @ [0, 0] @ post)) @ post) = 0"
proof -
  let ?z = "pre @ [0, 0] @ post" and ?c = "checksum (pre @ [0, 0] @ post)"
  have "word_sum (u16_be_bytes ?c @ post) = unat ?c + word_sum post"
    using unat_be_u16 [of "ucast (drop_bit 8 ?c)" "ucast ?c"] by (simp add: u16_be_bytes_def)
  then have s: "word_sum (pre @ u16_be_bytes ?c @ post) = word_sum ?z + unat ?c"
    using assms(1) by (simp add: word_sum_append)
  have "(word_sum ?z + unat ?c) mod 65535 = 0"
    by (rule checksum_mod) (use assms(2) in simp)
  with assms(3) s have "0 < word_sum (pre @ u16_be_bytes ?c @ post)"
    "word_sum (pre @ u16_be_bytes ?c @ post) mod 65535 = 0" by simp_all
  moreover have "length (pre @ u16_be_bytes ?c @ post) \<le> 100000"
    using assms(2) by (simp add: u16_be_bytes_def)
  ultimately show ?thesis by (intro checksum_mod(2) [THEN iffD2] conjI)
qed

section \<open>What the writers build\<close>

definition ip_header :: "nat \<Rightarrow> u8 \<Rightarrow> ipv4_addr \<Rightarrow> ipv4_addr \<Rightarrow> bytes \<Rightarrow> bytes" where
  "ip_header total_len protocol source destination c =
     ([0x45, 0] @ u16_be_bytes (word_of_nat total_len) @ [0, 0, 0x40, 0, 64, protocol]) @ c @
     octets source @ octets destination"

definition tcp_header :: "u16 \<Rightarrow> u16 \<Rightarrow> u32 \<Rightarrow> u32 \<Rightarrow> tcp_flags \<Rightarrow> u16 \<Rightarrow> bytes \<Rightarrow> bytes" where
  "tcp_header sp dp seq ackn fl win c =
     (u16_be_bytes sp @ u16_be_bytes dp @ u32_be_bytes seq @ u32_be_bytes ackn @ [0x50, flag_bits fl] @
      u16_be_bytes win) @ c @ [0, 0]"

definition udp_header :: "u16 \<Rightarrow> u16 \<Rightarrow> nat \<Rightarrow> bytes \<Rightarrow> bytes" where
  "udp_header sp dp len c =
     (u16_be_bytes sp @ u16_be_bytes dp @ u16_be_bytes (word_of_nat len)) @ c"

lemmas layout_defs =
  u16_be_bytes_def u32_be_bytes_def octets_def ip_header_def tcp_header_def udp_header_def

lemma splice_right: "length xs \<le> i \<Longrightarrow> splice i bs (xs @ ys) = xs @ splice (i - length xs) bs ys"
  by (simp add: splice_def)

lemma splice_left:
  "i + length bs \<le> length xs \<Longrightarrow> splice i bs (xs @ ys) = splice i bs xs @ ys"
  by (simp add: splice_def)

lemma length_headers [simp]:
  "length (octets a) = 4" "length (u16_be_bytes w) = 2" "length (u32_be_bytes v) = 4"
  "length c = 2 \<Longrightarrow> length (ip_header n p s d c) = 20"
  "length c = 2 \<Longrightarrow> length (tcp_header sp dp seq ackn fl win c) = 20"
  "length c = 2 \<Longrightarrow> length (udp_header sp dp len c) = 8"
  by (simp_all add: layout_defs split: prod.split)

lemma zeros: "replicate 20 (0 :: u8) = [0,0,0,0,0,0,0,0,0,0,0,0,0,0,0,0,0,0,0,0]"
  "replicate 8 (0 :: u8) = [0,0,0,0,0,0,0,0]"
  by (simp_all add: numeral_eq_Suc)

lemma header_fields:
  "ipv4_header_fields n p src dst (replicate 20 0 @ rest) = ip_header n p src dst [0, 0] @ rest"
  by (simp add: ipv4_header_fields_def zeros splice_def layout_defs split: prod.split)

lemma header_checksum:
  "splice 10 (u16_be_bytes w) (ip_header n p src dst [0, 0] @ rest) =
     ip_header n p src dst (u16_be_bytes w) @ rest"
  by (simp add: splice_def layout_defs split: prod.split)

lemma tcp_fields:
  "(splice 34 (u16_be_bytes win) ((splice 28 (u32_be_bytes ackn) (splice 24 (u32_be_bytes seq)
     (splice 22 (u16_be_bytes dp) (splice 20 (u16_be_bytes sp)
       (ip_header n p src dst [0, 0] @ replicate 20 0 @ rest)))))[32 := 0x50, 33 := flag_bits fl])) =
   ip_header n p src dst [0, 0] @ tcp_header sp dp seq ackn fl win [0, 0] @ rest"
  by (simp add: splice_right list_update_append)
    (simp add: zeros splice_def layout_defs)

lemma tcp_checksum_written:
  "splice 36 (u16_be_bytes w) (ip_header n p src dst [0, 0] @ tcp_header sp dp seq ackn fl win [0, 0] @ rest) =
   ip_header n p src dst [0, 0] @ tcp_header sp dp seq ackn fl win (u16_be_bytes w) @ rest"
  by (simp add: splice_right) (simp add: splice_def layout_defs)

lemma build_tcp_packet_eq:
  fixes src dst sp dp seq ackn fl win payload
  assumes "40 + length payload \<le> 65535"
  defines "tcp c \<equiv> tcp_header sp dp seq ackn fl win c @ payload"
    and "ip c \<equiv> ip_header (40 + length payload) 6 src dst c"
  shows "build_tcp_packet src dst sp dp seq ackn fl win payload =
    ip (u16_be_bytes (checksum (ip [0, 0]))) @
    tcp (u16_be_bytes (transport_checksum src dst 6 (tcp [0, 0])))"
proof -
  let ?n = "40 + length payload"
  have n: "saturating_add_usize 40 (length payload) = ?n"
    using assms(1) by (simp add: saturating_add_usize_def)
  have z: "replicate ?n (0 :: u8) = replicate 20 0 @ replicate 20 0 @ replicate (length payload) 0"
    by (simp flip: replicate_add)
  have p: "splice 40 payload (ip_header ?n 6 src dst [0, 0] @
      tcp_header sp dp seq ackn fl win [0, 0] @ replicate (length payload) 0) =
      ip_header ?n 6 src dst [0, 0] @ tcp_header sp dp seq ackn fl win [0, 0] @ payload"
    by (simp add: splice_right) (simp add: splice_def)
  have five: "push_bit 4 5 = (0x50 :: u8)" by simp
  show ?thesis
    unfolding build_tcp_packet_def n Let_def z header_fields five tcp_fields p tcp_checksum_written
      tcp_def ip_def
    using assms(1) by (simp add: u16_max_def header_checksum [simplified] tcp_checksum_written [simplified])
qed

lemma udp_fields:
  "splice 24 (u16_be_bytes (word_of_nat len)) (splice 22 (u16_be_bytes dp) (splice 20 (u16_be_bytes sp)
     (ip_header n p src dst [0, 0] @ replicate 8 0 @ rest))) =
   ip_header n p src dst [0, 0] @ udp_header sp dp len [0, 0] @ rest"
  by (simp add: splice_right) (simp add: zeros splice_def layout_defs)

lemma udp_checksum_written:
  "splice 26 (u16_be_bytes w) (ip_header n p src dst [0, 0] @ udp_header sp dp len [0, 0] @ rest) =
   ip_header n p src dst [0, 0] @ udp_header sp dp len (u16_be_bytes w) @ rest"
  by (simp add: splice_right) (simp add: splice_def layout_defs)

lemma build_udp_packet_eq:
  fixes src dst sp dp payload
  assumes "28 + length payload \<le> 65535"
  defines "udp c \<equiv> udp_header sp dp (8 + length payload) c @ payload"
    and "ip c \<equiv> ip_header (28 + length payload) 17 src dst c"
  shows "build_udp_packet src dst sp dp payload =
    ip (u16_be_bytes (checksum (ip [0, 0]))) @
    udp (u16_be_bytes (transport_checksum src dst 17 (udp [0, 0])))"
proof -
  let ?n = "28 + length payload"
  have n: "saturating_add_usize 8 (length payload) = 8 + length payload"
    "saturating_add_usize 20 (8 + length payload) = ?n"
    using assms(1) by (simp_all add: saturating_add_usize_def)
  have z: "replicate ?n (0 :: u8) = replicate 20 0 @ replicate 8 0 @ replicate (length payload) 0"
    by (simp flip: replicate_add)
  have p: "splice 28 payload (ip_header ?n 17 src dst [0, 0] @
      udp_header sp dp (8 + length payload) [0, 0] @ replicate (length payload) 0) =
      ip_header ?n 17 src dst [0, 0] @ udp_header sp dp (8 + length payload) [0, 0] @ payload"
    by (simp add: splice_right) (simp add: splice_def)
  show ?thesis
    unfolding build_udp_packet_def n Let_def z header_fields udp_fields p udp_checksum_written
      udp_def ip_def
    using assms(1) by (simp add: u16_max_def header_checksum [simplified] udp_checksum_written [simplified])
qed

section \<open>What the parser reads\<close>

lemma ip_header_verifies:
  "checksum (ip_header n p src dst (u16_be_bytes (checksum (ip_header n p src dst [0, 0])))) = 0"
  unfolding ip_header_def
  by (rule checksum_inserted) (simp_all add: u16_be_bytes_def)

lemma unat_be_length: "n < 65536 \<Longrightarrow> unat (word_of_nat n :: u16) = n"
  by (simp add: unat_of_nat)

lemma classify_built:
  assumes "n = 20 + length x" "n \<le> 65535" "length c = 2" "checksum (ip_header n p src dst c) = 0"
  shows "classify (ip_header n p src dst c @ x) =
    (if p = 6 then map_sum id Tcp (parse_tcp src dst x)
     else if p = 17 then map_sum id Udp (parse_udp src dst x)
     else if p = 1 then
       (if length x < 4 then Inl Truncated
        else Inr (Icmp \<lparr>ic_source = src, ic_destination = dst, ic_message_type = x ! 0, ic_code = x ! 1\<rparr>))
     else Inr (OtherProtocol (ProtoOther p)))"
proof -
  define P where "P = ip_header n p src dst c @ x"
  obtain a a1 a2 a3 where s: "src = (a, a1, a2, a3)" by (cases src)
  obtain b b1 b2 b3 where d: "dst = (b, b1, b2, b3)" by (cases dst)
  obtain c0 c1 where c: "c = [c0, c1]" using assms(3) by (auto simp: length_Suc_conv numeral_eq_Suc)
  have fields: "P ! 0 = 0x45" "P ! 9 = p" "be_u16 (P ! 6) (P ! 7) = 0x4000"
    "be_u16 (P ! 2) (P ! 3) = word_of_nat n"
    "(P ! 12, P ! 13, P ! 14, P ! 15) = src" "(P ! 16, P ! 17, P ! 18, P ! 19) = dst"
    by (simp_all add: P_def layout_defs s d c) (simp add: be_u16_def)
  have len: "length P = n" and pl: "subslice 20 n P = x" and hd: "take 20 P = ip_header n p src dst c"
    using assms(1,3) by (simp_all add: P_def subslice_def)
  have n: "unat (word_of_nat n :: u16) = n" using assms(2) by (intro unat_be_length) simp
  have h: "unat ((0x45 :: u8) AND 0x0f) * 4 = 20" "(0x4000 :: u16) AND 0x3fff = 0" by simp_all
  have "classify_ipv4 P = (if p = 6 then map_sum id Tcp (parse_tcp src dst x)
     else if p = 17 then map_sum id Udp (parse_udp src dst x)
     else if p = 1 then
       (if length x < 4 then Inl Truncated
        else Inr (Icmp \<lparr>ic_source = src, ic_destination = dst, ic_message_type = x ! 0, ic_code = x ! 1\<rparr>))
     else Inr (OtherProtocol (ProtoOther p)))"
    unfolding classify_ipv4_def fields len n Let_def h pl hd assms(4)
    using assms(1) by simp
  moreover obtain r where "P = 0x45 # r" by (simp add: P_def layout_defs)
  ultimately show ?thesis by (simp add: classify_def flip: P_def)
qed

lemma transport_verifies:
  assumes "even (length pre)" "length pre + length post \<le> 65533" "proto \<noteq> 0"
  shows "transport_checksum src dst proto
    (pre @ u16_be_bytes (transport_checksum src dst proto (pre @ [0, 0] @ post)) @ post) = 0"
proof -
  let ?l = "word_of_nat (length pre + 2 + length post) :: u16"
  let ?q = "octets src @ octets dst @ [0, proto] @ u16_be_bytes ?l @ pre"
  have *: "transport_checksum src dst proto (pre @ c @ post) = checksum (?q @ c @ post)" if "length c = 2" for c
    using that by (simp add: transport_checksum_def add.assoc)
  have "0 < unat proto" using assms(3) by (simp add: unat_gt_0)
  then have "0 < word_sum (?q @ [0, 0] @ post)"
    by (cases src; cases dst) (simp add: octets_def)
  then have "checksum (?q @ u16_be_bytes (checksum (?q @ [0, 0] @ post)) @ post) = 0"
    using assms(1,2) by (intro checksum_inserted) simp_all
  then show ?thesis using * [of "[0, 0]"] * [of "u16_be_bytes (checksum (?q @ [0, 0] @ post))"] by simp
qed

lemma parse_tcp_built:
  assumes "sp \<noteq> 0" "dp \<noteq> 0" "length payload \<le> 65495"
  shows "parse_tcp src dst (tcp_header sp dp seq ackn fl win (u16_be_bytes
      (transport_checksum src dst 6 (tcp_header sp dp seq ackn fl win [0, 0] @ payload))) @ payload) =
    Inr \<lparr>ts_source = src, ts_destination = dst, ts_source_port = sp, ts_destination_port = dp,
         ts_sequence = seq, ts_acknowledgement = ackn, ts_window = win, ts_flags = fl,
         ts_payload = payload\<rparr>"
proof -
  define c where "c = transport_checksum src dst 6 (tcp_header sp dp seq ackn fl win [0, 0] @ payload)"
  define P where "P = tcp_header sp dp seq ackn fl win (u16_be_bytes c) @ payload"
  have ok: "transport_checksum src dst 6 P = 0"
    using transport_verifies [of "u16_be_bytes sp @ u16_be_bytes dp @ u32_be_bytes seq @
        u32_be_bytes ackn @ [0x50, flag_bits fl] @ u16_be_bytes win" "[0, 0] @ payload" 6 src dst] assms(3)
    by (simp add: P_def c_def tcp_header_def)
  have fields: "P ! 0 = ucast (drop_bit 8 sp)" "P ! 1 = ucast sp" "P ! 2 = ucast (drop_bit 8 dp)" "P ! 3 = ucast dp"
    "be_u32 (P ! 4) (P ! 5) (P ! 6) (P ! 7) = seq" "be_u32 (P ! 8) (P ! 9) (P ! 10) (P ! 11) = ackn"
    "be_u16 (P ! 14) (P ! 15) = win" "P ! 12 = 0x50" "P ! 13 = flag_bits fl" "drop 20 P = payload"
    "length P = 20 + length payload"
    by (simp_all add: P_def layout_defs)
  have h: "unat (drop_bit 4 (0x50 :: u8)) * 4 = 20" by simp
  have "parse_tcp src dst P =
    Inr \<lparr>ts_source = src, ts_destination = dst, ts_source_port = sp, ts_destination_port = dp,
         ts_sequence = seq, ts_acknowledgement = ackn, ts_window = win, ts_flags = fl,
         ts_payload = payload\<rparr>"
    unfolding parse_tcp_def fields Let_def h ok using assms by simp
  then show ?thesis by (simp add: P_def c_def)
qed

lemma parse_udp_built:
  assumes "sp \<noteq> 0" "dp \<noteq> 0" "length payload \<le> 65507"
  shows "parse_udp src dst (udp_header sp dp (8 + length payload) (u16_be_bytes
      (transport_checksum src dst 17 (udp_header sp dp (8 + length payload) [0, 0] @ payload))) @ payload) =
    Inr \<lparr>ud_source = src, ud_destination = dst, ud_source_port = sp, ud_destination_port = dp,
         ud_payload = payload\<rparr>"
proof -
  define c where "c = transport_checksum src dst 17 (udp_header sp dp (8 + length payload) [0, 0] @ payload)"
  define P where "P = udp_header sp dp (8 + length payload) (u16_be_bytes c) @ payload"
  have ok: "transport_checksum src dst 17 P = 0"
    using transport_verifies [of "u16_be_bytes sp @ u16_be_bytes dp @
        u16_be_bytes (word_of_nat (8 + length payload))" payload 17 src dst] assms(3)
    by (simp add: P_def c_def udp_header_def)
  have fields: "P ! 0 = ucast (drop_bit 8 sp)" "P ! 1 = ucast sp" "P ! 2 = ucast (drop_bit 8 dp)" "P ! 3 = ucast dp"
    "be_u16 (P ! 4) (P ! 5) = word_of_nat (8 + length payload)" "length P = 8 + length payload"
    by (simp_all add: P_def layout_defs)
  have n: "unat (word_of_nat (8 + length payload) :: u16) = 8 + length payload"
    using assms(3) by (intro unat_be_length) simp
  have pl: "subslice 8 (8 + length payload) P = payload" "take (8 + length payload) P = P"
    using fields by (simp_all add: P_def subslice_def)
  have "parse_udp src dst P =
    Inr \<lparr>ud_source = src, ud_destination = dst, ud_source_port = sp, ud_destination_port = dp,
         ud_payload = payload\<rparr>"
    unfolding parse_udp_def fields Let_def n pl ok using assms by simp
  then show ?thesis by (simp add: P_def c_def)
qed

text \<open>A slice is a contiguous part of the packet.\<close>

definition part_of :: "bytes \<Rightarrow> bytes \<Rightarrow> bool" where
  "part_of xs ys \<longleftrightarrow> (\<exists>pre post. ys = pre @ xs @ post)"

lemma part_of_subslice: "part_of (subslice a b xs) xs"
proof -
  have "xs = take a (take b xs) @ subslice a b xs @ drop b xs"
    unfolding subslice_def by (metis append.assoc append_take_drop_id)
  then show ?thesis unfolding part_of_def by blast
qed

lemma subslice_length: "length (subslice a b xs) = min (length xs) b - a"
  by (simp add: subslice_def)

lemma part_of_drop: "part_of (drop n xs) xs"
  unfolding part_of_def by (intro exI [of _ "take n xs"] exI [of _ "[]"]) simp

lemma part_of_trans: "part_of xs ys \<Longrightarrow> part_of ys zs \<Longrightarrow> part_of xs zs"
  unfolding part_of_def by (metis append.assoc)

lemma parse_tcp_Inr:
  assumes "parse_tcp src dst bs = Inr s"
  shows "part_of (ts_payload s) bs" "ts_source_port s \<noteq> 0" "ts_destination_port s \<noteq> 0"
    "length (ts_payload s) + 20 \<le> length bs"
  using assms
  by (auto simp: parse_tcp_def Let_def part_of_drop split: if_splits)

lemma parse_udp_Inr:
  assumes "parse_udp src dst bs = Inr s"
  shows "part_of (ud_payload s) bs" "ud_source_port s \<noteq> 0" "ud_destination_port s \<noteq> 0"
    "length (ud_payload s) + 8 \<le> length bs"
  using assms
  by (auto simp: parse_udp_def Let_def part_of_subslice subslice_length split: if_splits)

lemma classify_ipv4_Inr:
  assumes "classify_ipv4 packet = Inr r"
  obtains h t src dst where "20 \<le> h" "h \<le> t" "t \<le> length packet" "checksum (take h packet) = 0"
    "\<forall>s. r = Tcp s \<longrightarrow> parse_tcp src dst (subslice h t packet) = Inr s"
    "\<forall>u. r = Udp u \<longrightarrow> parse_udp src dst (subslice h t packet) = Inr u"
proof -
  let ?h = "unat (packet ! 0 AND 0x0f) * 4" and ?t = "unat (be_u16 (packet ! 2) (packet ! 3))"
  let ?src = "(packet ! 12, packet ! 13, packet ! 14, packet ! 15)"
  let ?dst = "(packet ! 16, packet ! 17, packet ! 18, packet ! 19)"
  let ?x = "subslice ?h ?t packet"
  from assms have len: "\<not> (?h < 20 \<or> ?t < ?h \<or> length packet < ?t)" and ok: "checksum (take ?h packet) = 0"
    and r: "(if packet ! 9 = 6 then map_sum id Tcp (parse_tcp ?src ?dst ?x)
      else if packet ! 9 = 17 then map_sum id Udp (parse_udp ?src ?dst ?x)
      else if packet ! 9 = 1 then
        (if length ?x < 4 then Inl Truncated
         else Inr (Icmp \<lparr>ic_source = ?src, ic_destination = ?dst,
                         ic_message_type = ?x ! 0, ic_code = ?x ! 1\<rparr>))
      else Inr (OtherProtocol (ProtoOther (packet ! 9)))) = Inr r"
    unfolding classify_ipv4_def Let_def by (simp_all split: if_splits)
  show thesis
  proof (rule that [of ?h ?t ?src ?dst])
    show "20 \<le> ?h" "?h \<le> ?t" "?t \<le> length packet" using len by auto
    show "checksum (take ?h packet) = 0" by (rule ok)
    show "\<forall>s. r = Tcp s \<longrightarrow> parse_tcp ?src ?dst ?x = Inr s"
      using r by (cases "parse_tcp ?src ?dst ?x"; cases "parse_udp ?src ?dst ?x")
        (auto split: if_splits)
    show "\<forall>u. r = Udp u \<longrightarrow> parse_udp ?src ?dst ?x = Inr u"
      using r by (cases "parse_tcp ?src ?dst ?x"; cases "parse_udp ?src ?dst ?x")
        (auto split: if_splits)
  qed
qed

lemma classify_Inr:
  assumes "classify packet = Inr r" "r \<noteq> Ipv6"
  shows "classify_ipv4 packet = Inr r"
  using assms by (auto simp: classify_def Let_def split: list.splits if_splits)

lemma classify_tcp_built:
  assumes "sp \<noteq> 0" "dp \<noteq> 0" "40 + length payload \<le> 65535"
  shows "classify (build_tcp_packet src dst sp dp seq ackn fl win payload) =
      Inr (Tcp \<lparr>ts_source = src, ts_destination = dst, ts_source_port = sp, ts_destination_port = dp,
        ts_sequence = seq, ts_acknowledgement = ackn, ts_window = win, ts_flags = fl,
        ts_payload = payload\<rparr>)"
  unfolding build_tcp_packet_eq [OF assms(3)]
  using assms(3) parse_tcp_built [OF assms(1,2), of payload]
  by (subst classify_built) (simp_all add: ip_header_verifies)

lemma classify_udp_built:
  assumes "sp \<noteq> 0" "dp \<noteq> 0" "28 + length payload \<le> 65535"
  shows "classify (build_udp_packet src dst sp dp payload) =
      Inr (Udp \<lparr>ud_source = src, ud_destination = dst, ud_source_port = sp, ud_destination_port = dp,
        ud_payload = payload\<rparr>)"
  unfolding build_udp_packet_eq [OF assms(3)]
  using assms(3) parse_udp_built [OF assms(1,2), of payload]
  by (subst classify_built) (simp_all add: ip_header_verifies)

section \<open>Properties\<close>

text \<open>
  C23. Injected packets are well-formed. Whatever TCP or UDP packet the engine builds for the
  tunnel, its own classifier accepts, checksums included, as a packet with exactly the given
  addresses, ports, sequence numbers, window, flags and payload.
\<close>

theorem injected_packets_roundtrip:
  assumes "sp \<noteq> 0" "dp \<noteq> 0" "40 + length payload \<le> 65535"
  shows "classify (build_tcp_packet src dst sp dp seq ackn fl win payload) =
      Inr (Tcp \<lparr>ts_source = src, ts_destination = dst, ts_source_port = sp, ts_destination_port = dp,
        ts_sequence = seq, ts_acknowledgement = ackn, ts_window = win, ts_flags = fl,
        ts_payload = payload\<rparr>) \<and>
    classify (build_udp_packet src dst sp dp payload) =
      Inr (Udp \<lparr>ud_source = src, ud_destination = dst, ud_source_port = sp, ud_destination_port = dp,
        ud_payload = payload\<rparr>)"
  using classify_tcp_built [OF assms] classify_udp_built [OF assms(1,2)] assms(3) by simp

theorem injected_packets_roundtrip_witness:
  "classify (build_tcp_packet (10, 0, 0, 1) (192, 0, 2, 7) 443 50000 7 9 syn_ack 1024 [1, 2, 3]) =
     Inr (Tcp \<lparr>ts_source = (10, 0, 0, 1), ts_destination = (192, 0, 2, 7), ts_source_port = 443,
       ts_destination_port = 50000, ts_sequence = 7, ts_acknowledgement = 9, ts_window = 1024,
       ts_flags = syn_ack, ts_payload = [1, 2, 3]\<rparr>)"
  by (rule injected_packets_roundtrip [THEN conjunct1]) simp_all



end
