(* ===== verification/Client_Policy.thy ===== *)
theory Client_Policy
  imports Packet
begin

text \<open>
  The client's routing policy (\<open>src/crates/policy-engine/src/lib.rs\<close> with the route types of
  \<open>src/crates/common-types/src/types.rs\<close>): the decision on a TCP flow and the selection of the
  gateways of a route. The address predicates of the standard library that this component and
  the gateway's filter use are defined here on the octets of an address.

  The theorems are that a selected plan has the roles of its mode at distinct gateways of the
  directory, with the required features and the exit country; a separate lemma shows that the
  greedy choice can fail although the directory has a route.
\<close>

section \<open>Addresses and names\<close>

type_synonym ipv6_addr = "u16 \<times> u16 \<times> u16 \<times> u16 \<times> u16 \<times> u16 \<times> u16 \<times> u16"

datatype ip_addr = V4 ipv4_addr | V6 ipv6_addr

fun is_private :: "ipv4_addr \<Rightarrow> bool" where
  "is_private (a, b, c, d) \<longleftrightarrow>
     a = 10 \<or> a = 172 \<and> 16 \<le> b \<and> b \<le> 31 \<or> a = 192 \<and> b = 168"

fun is_loopback :: "ipv4_addr \<Rightarrow> bool" where
  "is_loopback (a, b, c, d) \<longleftrightarrow> a = 127"

fun is_link_local :: "ipv4_addr \<Rightarrow> bool" where
  "is_link_local (a, b, c, d) \<longleftrightarrow> a = 169 \<and> b = 254"

definition is_broadcast :: "ipv4_addr \<Rightarrow> bool" where
  "is_broadcast address \<longleftrightarrow> address = (255, 255, 255, 255)"

definition is_unspecified :: "ipv4_addr \<Rightarrow> bool" where
  "is_unspecified address \<longleftrightarrow> address = (0, 0, 0, 0)"

fun is_multicast :: "ipv4_addr \<Rightarrow> bool" where
  "is_multicast (a, b, c, d) \<longleftrightarrow> 224 \<le> a \<and> a \<le> 239"

definition ascii_lower :: "char \<Rightarrow> char" where
  "ascii_lower c = (if is_ascii_uppercase c then char_of (byte_of c + 32) else c)"

definition to_ascii_lowercase :: "string \<Rightarrow> string" where
  "to_ascii_lowercase = map ascii_lower"

definition eq_ignore_ascii_case :: "string \<Rightarrow> string \<Rightarrow> bool" where
  "eq_ignore_ascii_case s t \<longleftrightarrow> to_ascii_lowercase s = to_ascii_lowercase t"

definition ends_with :: "string \<Rightarrow> string \<Rightarrow> bool" where
  "ends_with s suf \<longleftrightarrow> length suf \<le> length s \<and> drop (length s - length suf) s = suf"

section \<open>Decisions on flows\<close>

datatype tcp_host = HostName string | HostIp ip_addr

record tcp_flow_request =
  fr_flow_id :: u64
  fr_host :: tcp_host
  fr_port :: u16
  fr_application :: "string option"

datatype policy_action = Tunnel | Bypass | Block

record policy_decision =
  pd_action :: policy_action
  pd_rule_id :: string

record mvp_policy_config =
  pc_bypass_applications :: "string fset"

definition block :: "string \<Rightarrow> policy_decision" where
  "block rule_id = \<lparr>pd_action = Block, pd_rule_id = rule_id\<rparr>"

fun forbidden_ipv4 :: "ipv4_addr \<Rightarrow> bool" where
  "forbidden_ipv4 (o0, o1, o2, o3) =
     (let address = (o0, o1, o2, o3) in
      is_private address \<or> is_loopback address \<or> is_link_local address \<or> is_broadcast address \<or>
      is_unspecified address \<or> is_multicast address \<or>
      o0 = 0 \<or> 240 \<le> o0 \<or>
      o0 = 100 \<and> 64 \<le> o1 \<and> o1 \<le> 127 \<or>
      o0 = 192 \<and> o1 = 0 \<and> o2 = 0 \<or>
      o0 = 198 \<and> (o1 = 18 \<or> o1 = 19) \<or>
      address = (100, 100, 100, 200) \<or>
      o0 = 169 \<and> o1 = 254)"

fun forbidden_destination :: "tcp_host \<Rightarrow> bool" where
  "forbidden_destination (HostName hostname) \<longleftrightarrow>
     hostname = [] \<or> 253 < length hostname \<or> eq_ignore_ascii_case hostname ''localhost'' \<or>
     ends_with (to_ascii_lowercase hostname) ''.localhost'' \<or>
     ends_with (to_ascii_lowercase hostname) ''.local''"
| "forbidden_destination (HostIp (V4 address)) \<longleftrightarrow> forbidden_ipv4 address"
| "forbidden_destination (HostIp (V6 address)) \<longleftrightarrow> True"

definition evaluate_tcp :: "mvp_policy_config \<Rightarrow> tcp_flow_request \<Rightarrow> policy_decision" where
  "evaluate_tcp config request =
     (if fr_port request = 0 \<or> fr_port request = 25 then block ''mvp.block.smtp-or-invalid-port.v1''
      else if 6881 \<le> fr_port request \<and> fr_port request \<le> 6889
      then block ''mvp.block.bittorrent-default-ports.v1''
      else if forbidden_destination (fr_host request)
      then block ''mvp.block.local-or-private-destination.v1''
      else if (case fr_application request of
                 None \<Rightarrow> False | Some application \<Rightarrow> application |\<in>| pc_bypass_applications config)
      then \<lparr>pd_action = Bypass, pd_rule_id = ''split.platform-exclusion-required.v1''\<rparr>
      else \<lparr>pd_action = Tunnel, pd_rule_id = ''mvp.default.protected-tunnel.v1''\<rparr>)"

record dns_policy_context =
  dc_application :: "string option"
  dc_record_type :: u16

definition evaluate_dns :: "mvp_policy_config \<Rightarrow> dns_policy_context \<Rightarrow> policy_decision" where
  "evaluate_dns config ctxt = \<lparr>pd_action = Tunnel, pd_rule_id = ''dns.protected-only.v1''\<rparr>"

section \<open>Route selection\<close>

datatype anonymity_mode = StandardMode | EnhancedMode | MaximumMode | DirectTorMode
datatype gateway_role = EntryRole | RelayRole | ExitRole

record route_protocol_version =
  rv_major :: u16
  rv_minor :: u16

record onion_endpoint =
  oe_service_id :: string
  oe_port :: u16

record gateway_descriptor =
  gd_gateway_id :: string
  gd_country :: "u8 \<times> u8"
  gd_roles :: "gateway_role list"
  gd_endpoint :: onion_endpoint
  gd_tls_spki_sha256 :: bytes
  gd_protocols :: "route_protocol_version list"
  gd_capabilities :: "string list"

record verified_gateway_directory =
  vd_format_version :: route_protocol_version
  vd_sequence :: u64
  vd_issued_at_unix :: int
  vd_valid_until_unix :: int
  vd_gateways :: "gateway_descriptor list"
  vd_verified_by_key_id :: string

record route_constraints =
  rc_mode :: anonymity_mode
  rc_exit_country :: "(u8 \<times> u8) option"
  rc_required_features :: "string list"

record gateway_hop =
  gh_gateway_id :: string
  gh_role :: gateway_role
  gh_onion_endpoint :: onion_endpoint
  gh_tls_spki_sha256 :: bytes

record gateway_plan =
  gp_mode :: anonymity_mode
  gp_hops :: "gateway_hop list"

datatype policy_error = GatewayUnavailable

fun mode_roles :: "anonymity_mode \<Rightarrow> gateway_role list" where
  "mode_roles StandardMode = [ExitRole]"
| "mode_roles EnhancedMode = [EntryRole, ExitRole]"
| "mode_roles MaximumMode = [EntryRole, RelayRole, ExitRole]"
| "mode_roles DirectTorMode = []"

definition descriptor_fits ::
  "route_constraints \<Rightarrow> gateway_role \<Rightarrow> string fset \<Rightarrow> gateway_descriptor \<Rightarrow> bool" where
  "descriptor_fits constraints role selected_ids gateway \<longleftrightarrow>
     role \<in> set (gd_roles gateway) \<and>
     gd_gateway_id gateway |\<notin>| selected_ids \<and>
     list_all (\<lambda>required. required \<in> set (gd_capabilities gateway)) (rc_required_features constraints) \<and>
     (case rc_exit_country constraints of
        None \<Rightarrow> True | Some country \<Rightarrow> role \<noteq> ExitRole \<or> gd_country gateway = country)"

fun select_hops ::
  "gateway_descriptor list \<Rightarrow> route_constraints \<Rightarrow> gateway_role list \<Rightarrow> string fset \<Rightarrow>
     policy_error + gateway_hop list" where
  "select_hops gateways constraints [] selected_ids = Inr []"
| "select_hops gateways constraints (role # roles) selected_ids =
     bindE (ok_or (find (descriptor_fits constraints role selected_ids) gateways) GatewayUnavailable)
       (\<lambda>descriptor.
     bindE (select_hops gateways constraints roles (finsert (gd_gateway_id descriptor) selected_ids)) (\<lambda>hops.
     Inr (\<lparr>gh_gateway_id = gd_gateway_id descriptor, gh_role = role,
           gh_onion_endpoint = gd_endpoint descriptor,
           gh_tls_spki_sha256 = gd_tls_spki_sha256 descriptor\<rparr> # hops)))"

definition select_plan ::
  "verified_gateway_directory \<Rightarrow> route_constraints \<Rightarrow> policy_error + gateway_plan" where
  "select_plan directory constraints =
     bindE (select_hops (vd_gateways directory) constraints (mode_roles (rc_mode constraints)) {||}) (\<lambda>hops.
     Inr \<lparr>gp_mode = rc_mode constraints, gp_hops = hops\<rparr>)"

section \<open>Selected routes\<close>

text \<open>A hop is backed by a descriptor of the directory that satisfies the constraints.\<close>

definition hop_backed :: "gateway_descriptor list \<Rightarrow> route_constraints \<Rightarrow> gateway_hop \<Rightarrow> bool" where
  "hop_backed gateways constraints hop \<longleftrightarrow> (\<exists>g \<in> set gateways.
     gh_gateway_id hop = gd_gateway_id g \<and> gh_role hop \<in> set (gd_roles g) \<and>
     gh_onion_endpoint hop = gd_endpoint g \<and> gh_tls_spki_sha256 hop = gd_tls_spki_sha256 g \<and>
     set (rc_required_features constraints) \<subseteq> set (gd_capabilities g) \<and>
     (gh_role hop = ExitRole \<longrightarrow> rc_exit_country constraints \<in> {None, Some (gd_country g)}))"

lemma find_SomeD: "find P xs = Some x \<Longrightarrow> x \<in> set xs \<and> P x"
  by (induction xs) (auto split: if_splits)

lemma find_None: "find P xs = None \<longleftrightarrow> (\<forall>x \<in> set xs. \<not> P x)"
  by (induction xs) auto

lemma select_hops_sound:
  "select_hops gateways constraints roles ids = Inr hops \<Longrightarrow>
     map gh_role hops = roles \<and> distinct (map gh_gateway_id hops) \<and>
     (\<forall>h \<in> set hops. gh_gateway_id h |\<notin>| ids \<and> hop_backed gateways constraints h)"
proof (induction roles arbitrary: ids hops)
  case (Cons role roles)
  from Cons.prems obtain g hs where g: "find (descriptor_fits constraints role ids) gateways = Some g"
    and hs: "select_hops gateways constraints roles (finsert (gd_gateway_id g) ids) = Inr hs"
    and hops: "hops = \<lparr>gh_gateway_id = gd_gateway_id g, gh_role = role, gh_onion_endpoint = gd_endpoint g,
      gh_tls_spki_sha256 = gd_tls_spki_sha256 g\<rparr> # hs"
    by (auto simp: result_simps)
  have fits: "g \<in> set gateways" "descriptor_fits constraints role ids g" using find_SomeD [OF g] by auto
  then have "hop_backed gateways constraints (hd hops)" "gd_gateway_id g |\<notin>| ids"
    unfolding hop_backed_def hops
    by (auto simp: descriptor_fits_def list_all_iff intro!: bexI [of _ g] split: option.splits)
  then show ?case using Cons.IH [OF hs] hops by auto
qed simp

lemma hop_backed_fits:
  assumes "hop_backed gateways constraints hop"
  shows "\<exists>g \<in> set gateways. descriptor_fits constraints (gh_role hop) {||} g"
proof -
  from assms obtain g where "g \<in> set gateways" "gh_role hop \<in> set (gd_roles g)"
    "set (rc_required_features constraints) \<subseteq> set (gd_capabilities g)"
    "gh_role hop = ExitRole \<longrightarrow> rc_exit_country constraints \<in> {None, Some (gd_country g)}"
    by (auto simp: hop_backed_def)
  then have "descriptor_fits constraints (gh_role hop) {||} g"
    by (cases "rc_exit_country constraints") (auto simp: descriptor_fits_def list_all_iff)
  with \<open>g \<in> set gateways\<close> show ?thesis by blast
qed

text \<open>
  The choice is greedy: a gateway that can also serve a later role is taken for an earlier
  one, and the selection fails although the directory has a route.
\<close>

definition directory_of :: "gateway_descriptor list \<Rightarrow> verified_gateway_directory" where
  "directory_of gateways = \<lparr>vd_format_version = \<lparr>rv_major = 1, rv_minor = 0\<rparr>, vd_sequence = 1,
     vd_issued_at_unix = 0, vd_valid_until_unix = 1000, vd_gateways = gateways,
     vd_verified_by_key_id = ''k''\<rparr>"

definition greedy_gateways :: "gateway_descriptor list" where
  "greedy_gateways =
     [\<lparr>gd_gateway_id = ''a'', gd_country = (67, 72), gd_roles = [EntryRole, ExitRole],
       gd_endpoint = \<lparr>oe_service_id = ''a'', oe_port = 443\<rparr>, gd_tls_spki_sha256 = [], gd_protocols = [], gd_capabilities = []\<rparr>,
      \<lparr>gd_gateway_id = ''b'', gd_country = (67, 72), gd_roles = [EntryRole],
       gd_endpoint = \<lparr>oe_service_id = ''b'', oe_port = 443\<rparr>, gd_tls_spki_sha256 = [], gd_protocols = [], gd_capabilities = []\<rparr>]"

lemma greedy_selection_misses_route:
  fixes rc defines "rc \<equiv> \<lparr>rc_mode = EnhancedMode, rc_exit_country = None, rc_required_features = []\<rparr>"
  shows "select_plan (directory_of greedy_gateways) rc = Inl GatewayUnavailable"
    and "select_plan (directory_of (rev greedy_gateways)) rc \<noteq> Inl GatewayUnavailable"
  by (simp_all add: rc_def select_plan_def directory_of_def greedy_gateways_def descriptor_fits_def)

section \<open>Property\<close>

text \<open>
  C31. Selected routes are sound. A plan has exactly the roles of its mode in order, at
  distinct gateways, and each hop is a gateway of the verified directory with its endpoint
  and its pinned key, which allows the role, has every required feature and, for the exit,
  lies in the country asked for; when no plan is returned in Standard mode, no gateway of the
  directory qualifies.
\<close>

theorem selected_routes_sound:
  assumes "select_plan directory constraints = r"
  shows "(\<forall>plan. r = Inr plan \<longrightarrow>
      gp_mode plan = rc_mode constraints \<and> map gh_role (gp_hops plan) = mode_roles (rc_mode constraints) \<and>
      distinct (map gh_gateway_id (gp_hops plan)) \<and>
      (\<forall>hop \<in> set (gp_hops plan). hop_backed (vd_gateways directory) constraints hop)) \<and>
    (r = Inl GatewayUnavailable \<and> rc_mode constraints = StandardMode \<longrightarrow>
      \<not> (\<exists>hop. gh_role hop = ExitRole \<and> hop_backed (vd_gateways directory) constraints hop))"
proof (intro conjI allI impI)
  fix plan assume "r = Inr plan"
  with assms have "select_hops (vd_gateways directory) constraints (mode_roles (rc_mode constraints)) {||} = Inr (gp_hops plan)"
    and "gp_mode plan = rc_mode constraints"
    by (auto simp: select_plan_def result_simps)
  then show "gp_mode plan = rc_mode constraints" "map gh_role (gp_hops plan) = mode_roles (rc_mode constraints)"
    "distinct (map gh_gateway_id (gp_hops plan))"
    "\<forall>hop \<in> set (gp_hops plan). hop_backed (vd_gateways directory) constraints hop"
    using select_hops_sound by blast+
next
  assume "r = Inl GatewayUnavailable \<and> rc_mode constraints = StandardMode"
  with assms have "\<forall>g \<in> set (vd_gateways directory). \<not> descriptor_fits constraints ExitRole {||} g"
    by (auto simp: select_plan_def result_simps find_None)
  then show "\<not> (\<exists>hop. gh_role hop = ExitRole \<and> hop_backed (vd_gateways directory) constraints hop)"
    using hop_backed_fits by metis
qed

theorem selected_routes_sound_witness:
  "map gh_gateway_id (gp_hops \<lparr>gp_mode = StandardMode, gp_hops =
     [\<lparr>gh_gateway_id = ''a'', gh_role = ExitRole, gh_onion_endpoint = \<lparr>oe_service_id = ''a'', oe_port = 443\<rparr>,
       gh_tls_spki_sha256 = []\<rparr>]\<rparr>) = [''a''] \<and>
   hop_backed greedy_gateways \<lparr>rc_mode = StandardMode, rc_exit_country = None, rc_required_features = []\<rparr>
     \<lparr>gh_gateway_id = ''a'', gh_role = ExitRole, gh_onion_endpoint = \<lparr>oe_service_id = ''a'', oe_port = 443\<rparr>,
       gh_tls_spki_sha256 = []\<rparr>"
proof -
  let ?rc = "\<lparr>rc_mode = StandardMode, rc_exit_country = None, rc_required_features = []\<rparr>"
  let ?h = "\<lparr>gh_gateway_id = ''a'', gh_role = ExitRole, gh_onion_endpoint = \<lparr>oe_service_id = ''a'', oe_port = 443\<rparr>,
       gh_tls_spki_sha256 = []\<rparr>"
  have "select_plan (directory_of greedy_gateways) ?rc = Inr \<lparr>gp_mode = StandardMode, gp_hops = [?h]\<rparr>"
    by (simp add: select_plan_def directory_of_def greedy_gateways_def descriptor_fits_def)
  from selected_routes_sound [OF this] show ?thesis by (simp add: directory_of_def)
qed

end
