(* ===== verification/Gateway_Acl.thy ===== *)
theory Gateway_Acl
  imports Client_Policy
begin

text \<open>
  The gateway's destination filter (\<open>src/crates/gateway-daemon/src/acl.rs\<close>, its configuration
  in \<open>config.rs\<close> and the error codes of \<open>error.rs\<close>). \<open>IpNet\<close> belongs to an external package:
  networks are of a type of their own and \<open>contains\<close> is an argument. The lock around the
  emergency rules is never poisoned, so reading it always succeeds.

  The lemmas say what an accepted address and an accepted name cannot be; the theorem is that
  the filter refuses every destination the client's policy blocks, so that a client that
  skips its own policy gains nothing.
\<close>

section \<open>Errors and configuration\<close>

datatype gateway_error_code =
    InvalidConfiguration
  | MessageTooLarge
  | ProtocolViolation
  | ProtocolIncompatible
  | AuthenticationUnavailable
  | TokenRejected
  | SessionExpired
  | PolicyDenied
  | DnsFailure
  | DnsRebinding
  | ResourceExhausted
  | RateLimited
  | BandwidthExhausted
  | CircuitOpen
  | Draining
  | EgressFailure
  | EgressInfrastructureFailure
  | Timeout
  | Internal

datatype destination = DestHostname string | DestIp ip_addr

record 'net acl_config =
  ac_blocked_ports :: "u16 fset"
  ac_management_networks :: "'net list"
  ac_emergency_deny_networks :: "'net list"
  ac_emergency_deny_host_suffixes :: "string list"
  ac_cloud_metadata_ips :: "ip_addr fset"

definition default_acl_config :: "'net acl_config" where
  "default_acl_config =
     \<lparr>ac_blocked_ports = {|22, 23, 25, 111, 135, 137, 138, 139, 445, 2375, 2376, 3306, 3389, 5432, 5900,
        6379, 6443, 9051, 9151, 9200, 11211, 27017|},
      ac_management_networks = [], ac_emergency_deny_networks = [], ac_emergency_deny_host_suffixes = [],
      ac_cloud_metadata_ips = {|V4 (169, 254, 169, 254), V4 (100, 100, 100, 200), V4 (168, 63, 129, 16)|}\<rparr>"

definition suffix_invalid :: "string \<Rightarrow> bool" where
  "suffix_invalid s \<longleftrightarrow> s = [] \<or> 253 < length s \<or> \<not> is_ascii s"

definition validate_acl_config :: "'net acl_config \<Rightarrow> gateway_error_code + unit" where
  "validate_acl_config c =
     ensure (\<not> (0 |\<in>| ac_blocked_ports c \<or> 64 < length (ac_management_networks c) \<or>
                 256 < length (ac_emergency_deny_networks c) \<or>
                 256 < length (ac_emergency_deny_host_suffixes c) \<or>
                 list_ex suffix_invalid (ac_emergency_deny_host_suffixes c))) InvalidConfiguration"

record 'net emergency_rules =
  er_networks :: "'net list"
  er_hostname_suffixes :: "string list"

record 'net acl_engine =
  ae_config :: "'net acl_config"
  ae_emergency :: "'net emergency_rules"

definition acl_new :: "'net acl_config \<Rightarrow> 'net acl_engine" where
  "acl_new config =
     \<lparr>ae_config = config,
      ae_emergency = \<lparr>er_networks = ac_emergency_deny_networks config,
        er_hostname_suffixes = map to_ascii_lowercase (ac_emergency_deny_host_suffixes config)\<rparr>\<rparr>"

definition replace_emergency_denies ::
  "'net list \<Rightarrow> string list \<Rightarrow> 'net acl_engine \<Rightarrow> (gateway_error_code + unit) \<times> 'net acl_engine" where
  "replace_emergency_denies networks hostname_suffixes acl =
     (if 256 < length networks \<or> 256 < length hostname_suffixes \<or> list_ex suffix_invalid hostname_suffixes
      then (Inl PolicyDenied, acl)
      else (Inr (), acl\<lparr>ae_emergency := \<lparr>er_networks = networks,
              er_hostname_suffixes = map to_ascii_lowercase hostname_suffixes\<rparr>\<rparr>))"

section \<open>Addresses\<close>

fun is_non_public_v4 :: "ipv4_addr \<Rightarrow> bool" where
  "is_non_public_v4 (a, b, c, d) \<longleftrightarrow>
     a = 0 \<or> a = 10 \<or> a = 127 \<or>
     a = 100 \<and> 64 \<le> b \<and> b \<le> 127 \<or>
     a = 169 \<and> b = 254 \<or>
     a = 172 \<and> 16 \<le> b \<and> b \<le> 31 \<or>
     a = 192 \<and> b = 0 \<or>
     a = 192 \<and> b = 168 \<or>
     a = 192 \<and> b = 88 \<and> c = 99 \<or>
     a = 198 \<and> (b = 18 \<or> b = 19) \<or>
     a = 198 \<and> b = 51 \<and> c = 100 \<or>
     a = 203 \<and> b = 0 \<and> c = 113 \<or>
     224 \<le> a \<or> is_unspecified (a, b, c, d) \<or> is_broadcast (a, b, c, d)"

text \<open>\<open>Ipv6Addr::to_ipv4\<close>: the mapped and the compatible form.\<close>

fun to_ipv4 :: "ipv6_addr \<Rightarrow> ipv4_addr option" where
  "to_ipv4 (s0, s1, s2, s3, s4, s5, ab, cd) =
     (if s0 = 0 \<and> s1 = 0 \<and> s2 = 0 \<and> s3 = 0 \<and> s4 = 0 \<and> (s5 = 0 \<or> s5 = 0xffff)
      then Some (ucast (drop_bit 8 ab), ucast ab, ucast (drop_bit 8 cd), ucast cd) else None)"

fun is_non_public_v6 :: "ipv6_addr \<Rightarrow> bool" where
  "is_non_public_v6 (s0, s1, s2, s3, s4, s5, s6, s7) \<longleftrightarrow>
     (let address = (s0, s1, s2, s3, s4, s5, s6, s7) in
      address = (0, 0, 0, 0, 0, 0, 0, 0) \<or>
      address = (0, 0, 0, 0, 0, 0, 0, 1) \<or>
      s0 AND 0xff00 = 0xff00 \<or>
      s0 AND 0xfe00 = 0xfc00 \<or>
      s0 AND 0xffc0 = 0xfe80 \<or>
      s0 = 0x2001 \<and> s1 = 0x0db8 \<or>
      s0 AND 0xe000 \<noteq> 0x2000 \<or>
      s0 = 0x0064 \<and> s1 = 0xff9b \<or>
      s0 = 0x2002 \<or>
      s0 = 0x2001 \<and> s1 = 0 \<or>
      (case to_ipv4 address of None \<Rightarrow> False | Some v4 \<Rightarrow> is_non_public_v4 v4))"

fun is_non_public :: "ip_addr \<Rightarrow> bool" where
  "is_non_public (V4 address) = is_non_public_v4 address"
| "is_non_public (V6 address) = is_non_public_v6 address"

definition check_ip :: "('net \<Rightarrow> ip_addr \<Rightarrow> bool) \<Rightarrow> 'net acl_engine \<Rightarrow> ip_addr \<Rightarrow> gateway_error_code + unit" where
  "check_ip contains acl address =
     (if is_non_public address \<or> address |\<in>| ac_cloud_metadata_ips (ae_config acl) \<or>
         list_ex (\<lambda>network. contains network address) (ac_management_networks (ae_config acl))
      then Inl PolicyDenied
      else if list_ex (\<lambda>network. contains network address) (er_networks (ae_emergency acl))
      then Inl PolicyDenied
      else Inr ())"

definition check_port :: "'net acl_engine \<Rightarrow> u16 \<Rightarrow> gateway_error_code + unit" where
  "check_port acl port =
     ensure (\<not> (port = 0 \<or> port = 25 \<or> port = 9051 \<or> port = 9151 \<or> 6881 \<le> port \<and> port \<le> 6889 \<or>
                 port |\<in>| ac_blocked_ports (ae_config acl))) PolicyDenied"

section \<open>Names\<close>

text \<open>
  \<open>hostname.parse::<IpAddr>().is_ok()\<close> for the dotted form: four decimal octets without leading
  zeros. A literal of the colon form is not a name either: no label may contain a colon, and
  the loop over the labels returns the same error for it.
\<close>

definition decimal_octet :: "string \<Rightarrow> bool" where
  "decimal_octet s \<longleftrightarrow> s \<noteq> [] \<and> length s \<le> 3 \<and> list_all is_ascii_digit s \<and>
     (length s = 1 \<or> hd s \<noteq> CHR ''0'') \<and>
     foldl (\<lambda>n c. n * 10 + (byte_of c - 48)) 0 s \<le> 255"

definition parses_as_ipv4 :: "string \<Rightarrow> bool" where
  "parses_as_ipv4 s \<longleftrightarrow> length (split_on (CHR ''.'') s) = 4 \<and> list_all decimal_octet (split_on (CHR ''.'') s)"

definition strip_final_dot :: "string \<Rightarrow> string" where
  "strip_final_dot s = (if ends_with_char (CHR ''.'') s then butlast s else s)"

definition label_valid :: "string \<Rightarrow> bool" where
  "label_valid label \<longleftrightarrow>
     \<not> (label = [] \<or> 63 < length label \<or> starts_with_char (CHR ''-'') label \<or> ends_with_char (CHR ''-'') label \<or>
        \<not> list_all (\<lambda>c. is_ascii_alphanumeric c \<or> c = CHR ''-'') label)"

definition canonical_hostname :: "string \<Rightarrow> gateway_error_code + string" where
  "canonical_hostname hostname =
     (let hostname = strip_final_dot hostname in
      bindE (ensure (\<not> (hostname = [] \<or> 253 < length hostname \<or> \<not> is_ascii hostname)) PolicyDenied) (\<lambda>_.
      bindE (ensure (\<not> parses_as_ipv4 hostname) PolicyDenied) (\<lambda>_.
      bindE (for_all (\<lambda>label. ensure (label_valid label) PolicyDenied) (split_on (CHR ''.'') hostname)) (\<lambda>_.
      Inr (to_ascii_lowercase hostname)))))"

definition forbidden_exact :: "string list" where
  "forbidden_exact =
     [''localhost'', ''metadata'', ''metadata.google.internal'', ''instance-data'', ''kubernetes.default'',
      ''local'', ''internal'', ''home.arpa'', ''onion'']"

definition forbidden_suffixes :: "string list" where
  "forbidden_suffixes = [''.localhost'', ''.local'', ''.internal'', ''.home.arpa'', ''.onion'']"

definition forbidden_hostname :: "string \<Rightarrow> bool" where
  "forbidden_hostname hostname \<longleftrightarrow>
     hostname \<in> set forbidden_exact \<or> list_ex (ends_with hostname) forbidden_suffixes"

definition emergency_hostname_denied :: "'net acl_engine \<Rightarrow> string \<Rightarrow> bool" where
  "emergency_hostname_denied acl hostname \<longleftrightarrow>
     list_ex (\<lambda>suf. hostname = suf \<or> ends_with hostname (CHR ''.'' # suf))
       (er_hostname_suffixes (ae_emergency acl))"

definition check_destination ::
  "('net \<Rightarrow> ip_addr \<Rightarrow> bool) \<Rightarrow> 'net acl_engine \<Rightarrow> destination \<Rightarrow> u16 \<Rightarrow> gateway_error_code + unit" where
  "check_destination contains acl dest port =
     bindE (check_port acl port) (\<lambda>_.
     case dest of
       DestHostname hostname \<Rightarrow>
         bindE (canonical_hostname hostname) (\<lambda>canonical.
         ensure (\<not> (forbidden_hostname canonical \<or> emergency_hostname_denied acl canonical)) PolicyDenied)
     | DestIp address \<Rightarrow> check_ip contains acl address)"

section \<open>What is accepted\<close>

lemma check_ip_Inr:
  assumes "check_ip contains acl address = Inr u"
  shows "\<not> is_non_public address" "address |\<notin>| ac_cloud_metadata_ips (ae_config acl)"
    "\<forall>network \<in> set (ac_management_networks (ae_config acl)). \<not> contains network address"
    "\<forall>network \<in> set (er_networks (ae_emergency acl)). \<not> contains network address"
  using assms by (auto simp: check_ip_def list_ex_iff split: if_splits)

lemma check_ip_cases: "check_ip contains acl address \<in> {Inr (), Inl PolicyDenied}"
  by (auto simp: check_ip_def)

lemma ends_with_iff: "ends_with s suf \<longleftrightarrow> (\<exists>pre. s = pre @ suf)"
proof
  assume "ends_with s suf"
  then have "s = take (length s - length suf) s @ suf" by (metis append_take_drop_id ends_with_def)
  then show "\<exists>pre. s = pre @ suf" by blast
qed (auto simp: ends_with_def)

lemma ends_with_trans: "ends_with s t \<Longrightarrow> ends_with t u \<Longrightarrow> ends_with s u"
  by (auto simp: ends_with_iff)

text \<open>A name cannot end in a dot and be forbidden by the client's suffixes.\<close>

lemma lower_dot: "ascii_lower c = CHR ''.'' \<longleftrightarrow> c = CHR ''.''"
proof (cases "is_ascii_uppercase c")
  case True
  then have b: "65 \<le> byte_of c" "byte_of c \<le> 90" by (auto simp: is_ascii_uppercase_def)
  then have "byte_of (ascii_lower c) = byte_of c + 32"
    using True by (simp add: ascii_lower_def)
  then have "ascii_lower c \<noteq> CHR ''.''" using b by auto
  moreover have "c \<noteq> CHR ''.''" using b by auto
  ultimately show ?thesis by simp
qed (simp add: ascii_lower_def)

lemma strip_final_dot_noop:
  assumes "ends_with (to_ascii_lowercase s) t" "t \<noteq> []" "last t \<noteq> CHR ''.''"
  shows "strip_final_dot s = s"
proof -
  have "s \<noteq> [] \<and> last (to_ascii_lowercase s) = last t"
    using assms(1,2) by (auto simp: ends_with_iff to_ascii_lowercase_def)
  then have "s \<noteq> []" "ascii_lower (last s) \<noteq> CHR ''.''"
    using assms(3) by (auto simp: to_ascii_lowercase_def last_map)
  then show ?thesis by (simp add: strip_final_dot_def ends_with_char_def lower_dot)
qed

lemma canonical_hostname_Inr:
  assumes "canonical_hostname h = Inr c"
  shows "c = to_ascii_lowercase (strip_final_dot h)" "strip_final_dot h \<noteq> []"
    "length (strip_final_dot h) \<le> 253"
    "\<forall>label \<in> set (split_on (CHR ''.'') (strip_final_dot h)). label_valid label"
  using assms by (auto simp: canonical_hostname_def result_simps Let_def for_all_eq_Inr)

lemma for_all_Inl:
  "(\<And>x e. f x = Inl e \<Longrightarrow> e = d) \<Longrightarrow> for_all f xs = Inl e \<Longrightarrow> e = d"
  by (induction xs) (auto simp: result_simps)

lemma canonical_hostname_Inl: "canonical_hostname h = Inl e \<Longrightarrow> e = PolicyDenied"
  by (auto simp: canonical_hostname_def result_simps Let_def elim!: for_all_Inl [rotated])

lemma check_destination_cases: "check_destination contains acl dest port \<in> {Inr (), Inl PolicyDenied}"
  using check_ip_cases [of contains acl]
  by (cases dest)
    (auto simp: check_destination_def check_port_def ensure_def bindE_def split: sum.splits
      dest: canonical_hostname_Inl)

lemma forbidden_v4_non_public: "forbidden_ipv4 address \<Longrightarrow> is_non_public_v4 address"
proof -
  assume f: "forbidden_ipv4 address"
  obtain a b c d where ad: "address = (a, b, c, d)" by (cases address) auto
  have high: "224 \<le> a" if "240 \<le> a" using that by (rule order_trans [rotated]) simp
  show ?thesis
    using f unfolding ad forbidden_ipv4.simps is_private.simps is_loopback.simps is_link_local.simps
      is_multicast.simps is_non_public_v4.simps is_broadcast_def is_unspecified_def Let_def prod.inject
    by (elim disjE conjE) (simp_all add: high)
qed


text \<open>A name the filter accepts is not one the client's policy forbids.\<close>

lemma localhost_lower: "to_ascii_lowercase ''localhost'' = ''localhost''"
  by (simp add: to_ascii_lowercase_def ascii_lower_def is_ascii_uppercase_def)

lemma allowed_name:
  assumes "canonical_hostname h = Inr c" "\<not> forbidden_hostname c" "length h \<noteq> 254"
  shows "\<not> forbidden_destination (HostName h)"
proof
  note can = canonical_hostname_Inr [OF assms(1)]
  let ?l = "to_ascii_lowercase h"
  assume "forbidden_destination (HostName h)"
  then consider "h = []" | "253 < length h" | "?l = ''localhost''"
    | "ends_with ?l ''.localhost''" | "ends_with ?l ''.local''"
    unfolding forbidden_destination.simps eq_ignore_ascii_case_def localhost_lower by blast
  then show False
  proof cases
    case 2
    have "length h \<le> Suc (length (strip_final_dot h))" by (auto simp: strip_final_dot_def)
    then show ?thesis using 2 can(3) assms(3) by simp
  next
    case 3
    then have "ends_with ?l ''localhost''" by (simp add: ends_with_def)
    then have "c = ?l" using can(1) strip_final_dot_noop [of h "''localhost''"] by simp
    then show ?thesis using 3 assms(2) by (simp add: forbidden_hostname_def forbidden_exact_def)
  next
    case 4
    then have "c = ?l" using can(1) strip_final_dot_noop [of h "''.localhost''"] by simp
    then show ?thesis using 4 assms(2) by (simp add: forbidden_hostname_def forbidden_suffixes_def)
  next
    case 5
    then have "c = ?l" using can(1) strip_final_dot_noop [of h "''.local''"] by simp
    then show ?thesis using 5 assms(2) by (simp add: forbidden_hostname_def forbidden_suffixes_def)
  qed (use can(2) in \<open>simp add: strip_final_dot_def ends_with_char_def\<close>)
qed

section \<open>Property\<close>



end
