(* ===== verification/Gateway_Config.thy ===== *)
theory Gateway_Config
  imports Gateway_Acl
begin

text \<open>
  The configuration of the gateway daemon and its validation
  (\<open>src/crates/gateway-daemon/src/config.rs\<close>; the filter's part is in \<open>Gateway_Acl\<close>). Reading
  the file and decoding JSON are input and output. Durations in the file are whole seconds or
  milliseconds; the duration of the model is in nanoseconds.
\<close>

section \<open>The limits\<close>

record limit_config =
  lc_max_connections :: nat
  lc_listen_backlog :: u32
  lc_max_sessions :: nat
  lc_max_token_states :: nat
  lc_max_sessions_per_token :: nat
  lc_max_streams_global :: nat
  lc_max_streams_per_session :: nat
  lc_max_streams_per_token :: nat
  lc_connection_rate_per_second :: u32
  lc_connection_rate_burst :: u32
  lc_bandwidth_bytes_per_second :: u64
  lc_bandwidth_burst_bytes :: u64
  lc_token_byte_quota :: u64
  lc_max_frame_bytes :: nat
  lc_max_data_bytes :: nat
  lc_max_token_bytes :: nat
  lc_max_proof_bytes :: nat
  lc_max_stream_window :: nat
  lc_initial_stream_window :: nat
  lc_outbound_event_queue :: nat
  lc_handshake_timeout_ms :: u64
  lc_auth_timeout_ms :: u64
  lc_connect_timeout_ms :: u64
  lc_io_timeout_ms :: u64
  lc_session_ttl_seconds :: u64
  lc_scan_window_seconds :: u64
  lc_scan_distinct_destination_limit :: nat
  lc_circuit_failure_threshold :: u32
  lc_circuit_cooldown_seconds :: u64

definition default_limit_config :: limit_config where
  "default_limit_config =
     \<lparr>lc_max_connections = 1024, lc_listen_backlog = 256, lc_max_sessions = 1024,
      lc_max_token_states = 4096, lc_max_sessions_per_token = 2, lc_max_streams_global = 16384,
      lc_max_streams_per_session = 128, lc_max_streams_per_token = 256,
      lc_connection_rate_per_second = 16, lc_connection_rate_burst = 32,
      lc_bandwidth_bytes_per_second = 8 * 1024 * 1024, lc_bandwidth_burst_bytes = 2 * 1024 * 1024,
      lc_token_byte_quota = 4 * 1024 * 1024 * 1024, lc_max_frame_bytes = 64 * 1024,
      lc_max_data_bytes = 32 * 1024, lc_max_token_bytes = 4 * 1024, lc_max_proof_bytes = 4 * 1024,
      lc_max_stream_window = 4 * 1024 * 1024, lc_initial_stream_window = 256 * 1024,
      lc_outbound_event_queue = 256, lc_handshake_timeout_ms = 10000, lc_auth_timeout_ms = 3000,
      lc_connect_timeout_ms = 10000, lc_io_timeout_ms = 120000, lc_session_ttl_seconds = 900,
      lc_scan_window_seconds = 60, lc_scan_distinct_destination_limit = 64,
      lc_circuit_failure_threshold = 32, lc_circuit_cooldown_seconds = 30\<rparr>"

definition counts_valid :: "limit_config \<Rightarrow> bool" where
  "counts_valid c \<longleftrightarrow>
     0 < lc_max_connections c \<and> lc_max_connections c \<le> 65536 \<and>
     0 < lc_listen_backlog c \<and> lc_listen_backlog c \<le> 65535 \<and>
     0 < lc_max_sessions c \<and> lc_max_sessions c \<le> lc_max_connections c \<and>
     lc_max_sessions c \<le> lc_max_token_states c \<and> lc_max_token_states c \<le> 1000000 \<and>
     0 < lc_max_sessions_per_token c \<and> lc_max_sessions_per_token c \<le> lc_max_sessions c \<and>
     0 < lc_max_streams_global c \<and> 0 < lc_max_streams_per_session c \<and>
     lc_max_streams_per_session c \<le> 4096 \<and>
     lc_max_streams_per_session c \<le> lc_max_streams_per_token c \<and>
     0 < lc_connection_rate_per_second c \<and>
     lc_connection_rate_per_second c \<le> lc_connection_rate_burst c \<and>
     0 < lc_bandwidth_bytes_per_second c \<and> 0 < lc_bandwidth_burst_bytes c \<and>
     lc_bandwidth_burst_bytes c \<le> lc_token_byte_quota c"

definition protocol_valid :: "limit_config \<Rightarrow> bool" where
  "protocol_valid c \<longleftrightarrow>
     lc_max_frame_bytes c = 64 * 1024 \<and> 0 < lc_max_data_bytes c \<and> lc_max_data_bytes c \<le> 32 * 1024 \<and>
     lc_max_token_bytes c \<le> 4 * 1024 \<and> lc_max_proof_bytes c \<le> 4 * 1024 \<and>
     0 < lc_initial_stream_window c \<and> lc_initial_stream_window c \<le> lc_max_stream_window c \<and>
     lc_max_stream_window c \<le> 4 * 1024 * 1024 \<and>
     0 < lc_outbound_event_queue c \<and> lc_outbound_event_queue c \<le> 16384"

definition times_valid :: "limit_config \<Rightarrow> bool" where
  "times_valid c \<longleftrightarrow>
     0 < lc_handshake_timeout_ms c \<and> 0 < lc_auth_timeout_ms c \<and> 0 < lc_connect_timeout_ms c \<and>
     0 < lc_io_timeout_ms c \<and> 0 < lc_session_ttl_seconds c \<and> lc_session_ttl_seconds c \<le> 86400 \<and>
     0 < lc_scan_window_seconds c \<and> 0 < lc_scan_distinct_destination_limit c \<and>
     0 < lc_circuit_failure_threshold c \<and> 0 < lc_circuit_cooldown_seconds c"

definition validate_limit_config :: "limit_config \<Rightarrow> gateway_error_code + unit" where
  "validate_limit_config c =
     ensure (counts_valid c \<and> protocol_valid c \<and> times_valid c) InvalidConfiguration"

definition duration_from_millis :: "u64 \<Rightarrow> duration" where
  "duration_from_millis ms = unat ms * 1000000"

definition duration_from_secs :: "u64 \<Rightarrow> duration" where
  "duration_from_secs s = unat s * 1000000000"

definition handshake_timeout :: "limit_config \<Rightarrow> duration" where
  "handshake_timeout c = duration_from_millis (lc_handshake_timeout_ms c)"

definition auth_timeout :: "limit_config \<Rightarrow> duration" where
  "auth_timeout c = duration_from_millis (lc_auth_timeout_ms c)"

definition connect_timeout :: "limit_config \<Rightarrow> duration" where
  "connect_timeout c = duration_from_millis (lc_connect_timeout_ms c)"

definition io_timeout :: "limit_config \<Rightarrow> duration" where
  "io_timeout c = duration_from_millis (lc_io_timeout_ms c)"

section \<open>DNS, privacy events, listeners\<close>

record socket_addr =
  sa_ip :: ip_addr
  sa_port :: u16

fun ip_is_loopback :: "ip_addr \<Rightarrow> bool" where
  "ip_is_loopback (V4 a) = is_loopback a"
| "ip_is_loopback (V6 a) \<longleftrightarrow> a = (0, 0, 0, 0, 0, 0, 0, 1)"

fun ip_is_unspecified :: "ip_addr \<Rightarrow> bool" where
  "ip_is_unspecified (V4 a) = is_unspecified a"
| "ip_is_unspecified (V6 a) \<longleftrightarrow> a = (0, 0, 0, 0, 0, 0, 0, 0)"

fun ip_is_multicast :: "ip_addr \<Rightarrow> bool" where
  "ip_is_multicast (V4 a) = is_multicast a"
| "ip_is_multicast (V6 (s0, s1, s2, s3, s4, s5, s6, s7)) \<longleftrightarrow> s0 AND 0xff00 = 0xff00"

record dns_config =
  dn_upstreams :: "socket_addr list"
  dn_query_timeout_ms :: u64
  dn_max_response_bytes :: nat
  dn_max_records :: nat
  dn_max_cname_depth :: nat
  dn_max_addresses :: nat
  dn_revalidate :: bool

definition default_dns_config :: dns_config where
  "default_dns_config =
     \<lparr>dn_upstreams = [], dn_query_timeout_ms = 3000, dn_max_response_bytes = 16 * 1024,
      dn_max_records = 64, dn_max_cname_depth = 8, dn_max_addresses = 16, dn_revalidate = True\<rparr>"

definition validate_dns_config :: "dns_config \<Rightarrow> gateway_error_code + unit" where
  "validate_dns_config c =
     bindE (ensure (\<not> (dn_upstreams c = [] \<or> 4 < length (dn_upstreams c) \<or>
              dn_query_timeout_ms c = 0 \<or> 30000 < dn_query_timeout_ms c \<or>
              \<not> (512 \<le> dn_max_response_bytes c \<and> dn_max_response_bytes c \<le> 65535) \<or>
              \<not> (1 \<le> dn_max_records c \<and> dn_max_records c \<le> 256) \<or>
              \<not> (1 \<le> dn_max_cname_depth c \<and> dn_max_cname_depth c \<le> 16) \<or>
              \<not> (1 \<le> dn_max_addresses c \<and> dn_max_addresses c \<le> 64))) InvalidConfiguration) (\<lambda>_.
     ensure (\<not> list_ex (\<lambda>u. sa_port u = 0 \<or> ip_is_unspecified (sa_ip u) \<or> ip_is_multicast (sa_ip u))
                 (dn_upstreams c)) InvalidConfiguration)"

definition dns_timeout :: "dns_config \<Rightarrow> duration" where
  "dns_timeout c = duration_from_millis (dn_query_timeout_ms c)"

record privacy_event_config =
  pe_enabled :: bool
  pe_ttl_seconds :: u64
  pe_capacity :: nat
  pe_coarse_bucket_seconds :: u64

definition default_privacy_event_config :: privacy_event_config where
  "default_privacy_event_config =
     \<lparr>pe_enabled = True, pe_ttl_seconds = 900, pe_capacity = 4096, pe_coarse_bucket_seconds = 300\<rparr>"

definition validate_privacy_event_config :: "privacy_event_config \<Rightarrow> gateway_error_code + unit" where
  "validate_privacy_event_config c =
     ensure (\<not> (pe_ttl_seconds c = 0 \<or> 86400 < pe_ttl_seconds c \<or> pe_capacity c = 0 \<or>
                 1000000 < pe_capacity c \<or> pe_coarse_bucket_seconds c < 60 \<or>
                 3600 < pe_coarse_bucket_seconds c)) InvalidConfiguration"

record tls_config =
  tl_certificate_chain :: string
  tl_private_key :: string

definition default_tls_config :: tls_config where
  "default_tls_config =
     \<lparr>tl_certificate_chain = ''/etc/onionroute-gateway/tls/server.crt'',
      tl_private_key = ''/etc/onionroute-gateway/tls/server.key''\<rparr>"

record 'net gateway_config =
  gc_gateway_id :: string
  gc_onion_listener :: socket_addr
  gc_management_listener :: socket_addr
  gc_tls :: tls_config
  gc_dns :: dns_config
  gc_acl :: "'net acl_config"
  gc_limits :: limit_config
  gc_privacy_events :: privacy_event_config
  gc_drain_grace_seconds :: u64

definition default_gateway_config :: "'net gateway_config" where
  "default_gateway_config =
     \<lparr>gc_gateway_id = ''replace-with-catalog-gateway-id'',
      gc_onion_listener = \<lparr>sa_ip = V4 (127, 0, 0, 1), sa_port = 8443\<rparr>,
      gc_management_listener = \<lparr>sa_ip = V4 (127, 0, 0, 1), sa_port = 9090\<rparr>,
      gc_tls = default_tls_config, gc_dns = default_dns_config, gc_acl = default_acl_config,
      gc_limits = default_limit_config, gc_privacy_events = default_privacy_event_config,
      gc_drain_grace_seconds = 300\<rparr>"

definition validate_gateway_config :: "'net gateway_config \<Rightarrow> gateway_error_code + unit" where
  "validate_gateway_config c =
     bindE (ensure (\<not> (gc_gateway_id c = [] \<or> 64 < length (gc_gateway_id c) \<or>
              \<not> list_all (\<lambda>b. is_ascii_alphanumeric b \<or> b = CHR ''-'') (gc_gateway_id c)))
              InvalidConfiguration) (\<lambda>_.
     bindE (ensure (\<not> (\<not> ip_is_loopback (sa_ip (gc_onion_listener c)) \<or>
              \<not> ip_is_loopback (sa_ip (gc_management_listener c)) \<or>
              gc_onion_listener c = gc_management_listener c \<or>
              tl_certificate_chain (gc_tls c) = [] \<or> tl_private_key (gc_tls c) = []))
              InvalidConfiguration) (\<lambda>_.
     bindE (validate_dns_config (gc_dns c)) (\<lambda>_.
     bindE (validate_acl_config (gc_acl c)) (\<lambda>_.
     bindE (validate_limit_config (gc_limits c)) (\<lambda>_.
     bindE (validate_privacy_event_config (gc_privacy_events c)) (\<lambda>_.
     bindE (ensure (\<not> lc_max_frame_bytes (gc_limits c) - 1024 < dn_max_response_bytes (gc_dns c))
              InvalidConfiguration) (\<lambda>_.
     ensure (\<not> (gc_drain_grace_seconds c = 0 \<or> 86400 < gc_drain_grace_seconds c))
       InvalidConfiguration)))))))"

section \<open>What a valid configuration guarantees\<close>

text \<open>A validated daemon listens on loopback only, and a DNS answer fits a frame.\<close>

lemma validate_gateway_config_Inr:
  assumes "validate_gateway_config c = Inr u"
  shows "ip_is_loopback (sa_ip (gc_onion_listener c))" "ip_is_loopback (sa_ip (gc_management_listener c))"
    "counts_valid (gc_limits c)" "protocol_valid (gc_limits c)" "times_valid (gc_limits c)"
    "validate_dns_config (gc_dns c) = Inr ()" "dn_max_response_bytes (gc_dns c) \<le> 63 * 1024"
  using assms
  by (auto simp: validate_gateway_config_def validate_limit_config_def protocol_valid_def result_simps)

lemma default_limits_ok: "validate_limit_config default_limit_config = Inr ()"
  by (simp add: validate_limit_config_def counts_valid_def protocol_valid_def times_valid_def
      default_limit_config_def)

lemma default_frame_bytes: "lc_max_frame_bytes default_limit_config = 65536"
  by (simp add: default_limit_config_def)

text \<open>
  The default configuration is refused until a resolver is configured, and accepted once
  one is.
\<close>

lemma default_config_needs_resolver:
  "validate_gateway_config (default_gateway_config :: 'net gateway_config) = Inl InvalidConfiguration"
  "validate_gateway_config ((default_gateway_config :: 'net gateway_config)
     \<lparr>gc_dns := default_dns_config\<lparr>dn_upstreams := [\<lparr>sa_ip = V4 (9, 9, 9, 9), sa_port = 53\<rparr>]\<rparr>\<rparr>) = Inr ()"
  using default_limits_ok default_frame_bytes
  by (simp_all add: validate_gateway_config_def default_gateway_config_def default_dns_config_def
      validate_dns_config_def default_tls_config_def validate_acl_config_def default_acl_config_def
      validate_privacy_event_config_def default_privacy_event_config_def ascii_defs is_unspecified_def)

end
