(* ===== verification/Gateway_Sessions.thy ===== *)
theory Gateway_Sessions
  imports Gateway_Config
begin

text \<open>
  Sessions of the gateway daemon (\<open>src/crates/gateway-daemon/src/session.rs\<close>) with the byte
  quota of \<open>rate_limit.rs\<close> and the grant of \<open>auth.rs\<close>. A session lease
  and its stream leases share atomic counters through reference-counted pointers. The model
  keeps them in one place: the state of a token lives in the manager's map, where every lease
  finds it under its token key (a purge never removes a token that has a session or a
  stream), and the stream counter of a session lives in a store under an address the lease
  carries. Dropping a lease is an operation, as in the source. HMAC-SHA-256, the random
  source and the clock are arguments; so is the verdict of a token bucket, whose level is a
  floating-point number in the source: the theorems hold for every verdict.

  The theorem is exact accounting: the counters of the manager, of every token and of every
  session equal the numbers of live leases and stay within their limits, so that nothing
  leaks and nothing wraps.
\<close>

section \<open>Grants\<close>

record token_limits =
  tm_max_sessions :: nat
  tm_max_concurrent_streams :: nat
  tm_connections_per_second :: u32
  tm_connection_burst :: u32
  tm_bytes_per_second :: u64
  tm_bandwidth_burst_bytes :: u64
  tm_total_bytes :: u64

record authentication_grant =
  gr_expires_at :: nat
  gr_capabilities :: "string list"
  gr_limits :: token_limits

definition validate_grant :: "authentication_grant \<Rightarrow> gateway_error_code + unit" where
  "validate_grant grant =
     (let limits = gr_limits grant in
      ensure (\<not> (gr_capabilities grant = [] \<or> 32 < length (gr_capabilities grant) \<or>
                  list_ex (\<lambda>v. v = [] \<or> 64 < length v \<or> \<not> is_ascii v) (gr_capabilities grant) \<or>
                  tm_max_sessions limits = 0 \<or> tm_max_concurrent_streams limits = 0 \<or>
                  tm_connections_per_second limits = 0 \<or> tm_connection_burst limits = 0 \<or>
                  tm_bytes_per_second limits = 0 \<or> tm_bandwidth_burst_bytes limits = 0 \<or>
                  tm_total_bytes limits = 0)) TokenRejected)"

definition effective_limits :: "token_limits \<Rightarrow> limit_config \<Rightarrow> token_limits" where
  "effective_limits token server =
     \<lparr>tm_max_sessions = min (tm_max_sessions token) (lc_max_sessions_per_token server),
      tm_max_concurrent_streams = min (tm_max_concurrent_streams token) (lc_max_streams_per_token server),
      tm_connections_per_second = min (tm_connections_per_second token) (lc_connection_rate_per_second server),
      tm_connection_burst = min (tm_connection_burst token) (lc_connection_rate_burst server),
      tm_bytes_per_second = min (tm_bytes_per_second token) (lc_bandwidth_bytes_per_second server),
      tm_bandwidth_burst_bytes = min (tm_bandwidth_burst_bytes token) (lc_bandwidth_burst_bytes server),
      tm_total_bytes = min (tm_total_bytes token) (lc_token_byte_quota server)\<rparr>"

section \<open>The byte quota\<close>

record bandwidth_limiter =
  bl_rate :: u64
  bl_burst :: u64
  bl_used :: u64
  bl_total_limit :: u64
  bl_max_wait :: duration

definition bandwidth_new :: "u64 \<Rightarrow> u64 \<Rightarrow> u64 \<Rightarrow> duration \<Rightarrow> bandwidth_limiter" where
  "bandwidth_new rate burst total_limit max_wait =
     \<lparr>bl_rate = rate, bl_burst = burst, bl_used = 0, bl_total_limit = total_limit, bl_max_wait = max_wait\<rparr>"

text \<open>\<open>delay\<close> is the wait the bucket asks for.\<close>

definition bandwidth_acquire ::
  "nat \<Rightarrow> duration \<Rightarrow> bandwidth_limiter \<Rightarrow> (gateway_error_code + unit) \<times> bandwidth_limiter" where
  "bandwidth_acquire amount delay b =
     (if usize_max < amount then (Inl BandwidthExhausted, b)
      else
        (case checked_add_u64 (bl_used b) (word_of_nat amount) of
           None \<Rightarrow> (Inl BandwidthExhausted, b)
         | Some next \<Rightarrow>
             if next \<le> bl_total_limit b
             then (if bl_max_wait b < delay then Inl BandwidthExhausted else Inr (), b\<lparr>bl_used := next\<rparr>)
             else (Inl BandwidthExhausted, b)))"

section \<open>State\<close>

record scan_window =
  sw_started_at :: instant
  sw_destinations :: "bytes fset"

record token_state =
  kt_expires_at :: nat
  kt_max_sessions :: nat
  kt_max_streams :: nat
  kt_sessions :: nat
  kt_streams :: nat
  kt_connection_rate :: "u64 \<times> u64"
  kt_bandwidth :: bandwidth_limiter
  kt_scan :: scan_window

record session_manager =
  sm_limits :: limit_config
  sm_hash_key :: bytes
  sm_tokens :: "(bytes, token_state) fmap"
  sm_sessions :: nat
  sm_streams :: nat
  sm_draining :: bool
  sm_counters :: "(nat, nat) fmap"

record daemon_lease =
  ds_token_key :: bytes
  ds_handle :: bytes
  ds_expires_at :: nat
  ds_capabilities :: "string list"
  ds_streams :: nat

record stream_lease =
  st_token_key :: bytes
  st_session_streams :: nat

type_synonym 'a manager_result = "(gateway_error_code + 'a) \<times> session_manager"

section \<open>Operations\<close>

definition manager_new :: "limit_config \<Rightarrow> bytes option \<Rightarrow> gateway_error_code + session_manager" where
  "manager_new limits hash_key =
     bindE (ok_or hash_key Internal) (\<lambda>hash_key.
     Inr \<lparr>sm_limits = limits, sm_hash_key = hash_key, sm_tokens = fmempty, sm_sessions = 0, sm_streams = 0,
          sm_draining = False, sm_counters = fmempty\<rparr>)"

definition create_token_state :: "limit_config \<Rightarrow> instant \<Rightarrow> authentication_grant \<Rightarrow> token_state" where
  "create_token_state limits started grant =
     (let effective = effective_limits (gr_limits grant) limits in
      \<lparr>kt_expires_at = gr_expires_at grant, kt_max_sessions = tm_max_sessions effective,
       kt_max_streams = tm_max_concurrent_streams effective, kt_sessions = 0, kt_streams = 0,
       kt_connection_rate = (ucast (tm_connections_per_second effective), ucast (tm_connection_burst effective)),
       kt_bandwidth = bandwidth_new (tm_bytes_per_second effective) (tm_bandwidth_burst_bytes effective)
         (tm_total_bytes effective) (io_timeout limits),
       kt_scan = \<lparr>sw_started_at = started, sw_destinations = {||}\<rparr>\<rparr>)"

definition purge_token_map :: "nat \<Rightarrow> (bytes, token_state) fmap \<Rightarrow> (bytes, token_state) fmap" where
  "purge_token_map now tokens =
     fmfilter (\<lambda>k. case fmlookup tokens k of
        None \<Rightarrow> False
      | Some token \<Rightarrow> now < kt_expires_at token \<or> 0 < kt_sessions token \<or> 0 < kt_streams token) tokens"

definition increment_bounded :: "nat \<Rightarrow> nat \<Rightarrow> gateway_error_code + nat" where
  "increment_bounded current maximum =
     (case checked_add_usize current 1 of
        None \<Rightarrow> Inl ResourceExhausted
      | Some next \<Rightarrow> if next \<le> maximum then Inr next else Inl ResourceExhausted)"

definition fetch_sub_one :: "nat \<Rightarrow> nat" where
  "fetch_sub_one n = (if n = 0 then usize_max else n - 1)"

definition drop_session_count :: "session_manager \<Rightarrow> session_manager" where
  "drop_session_count sm = sm\<lparr>sm_sessions := fetch_sub_one (sm_sessions sm)\<rparr>"

text \<open>Access to the token state a lease points to.\<close>

definition update_token :: "bytes \<Rightarrow> (token_state \<Rightarrow> token_state) \<Rightarrow> session_manager \<Rightarrow> session_manager" where
  "update_token key f sm =
     (case fmlookup (sm_tokens sm) key of
        None \<Rightarrow> sm
      | Some token \<Rightarrow> sm\<lparr>sm_tokens := fmupd key (f token) (sm_tokens sm)\<rparr>)"

definition system_time_max :: nat where
  "system_time_max = 9223372036854775807 * 1000000000 + 999999999"

text \<open>Once the token state is there: the checks and the two counters of a new session.\<close>

definition admit_session ::
  "nat \<Rightarrow> nat \<Rightarrow> bytes option \<Rightarrow> authentication_grant \<Rightarrow> bytes \<Rightarrow> token_state \<Rightarrow> session_manager \<Rightarrow>
     daemon_lease manager_result" where
  "admit_session now address handle grant key token sm =
     (if kt_expires_at token \<le> now then (Inl TokenRejected, drop_session_count sm)
      else
        (case increment_bounded (kt_sessions token) (kt_max_sessions token) of
           Inl _ \<Rightarrow> (Inl ResourceExhausted, drop_session_count sm)
         | Inr count \<Rightarrow>
             let sm = update_token key (\<lambda>t. t\<lparr>kt_sessions := count\<rparr>) sm in
             (case handle of
                None \<Rightarrow>
                  (Inl Internal, drop_session_count
                     (update_token key (\<lambda>t. t\<lparr>kt_sessions := fetch_sub_one (kt_sessions t)\<rparr>) sm))
              | Some handle \<Rightarrow>
                  let maximum = now + duration_from_secs (lc_session_ttl_seconds (sm_limits sm)) in
                  if system_time_max < maximum then (Inl Internal, sm)
                  else
                    (Inr \<lparr>ds_token_key = key, ds_handle = handle,
                          ds_expires_at = min (gr_expires_at grant) maximum,
                          ds_capabilities = gr_capabilities grant, ds_streams = address\<rparr>,
                     sm\<lparr>sm_counters := fmupd address 0 (sm_counters sm)\<rparr>))))"

definition register ::
  "(bytes \<Rightarrow> bytes \<Rightarrow> bytes) \<Rightarrow> nat \<Rightarrow> nat \<Rightarrow> instant \<Rightarrow> nat \<Rightarrow> bytes option \<Rightarrow> bytes \<Rightarrow>
     authentication_grant \<Rightarrow> session_manager \<Rightarrow> daemon_lease manager_result" where
  "register hmac now now_purge started address handle capability_token grant sm =
     (if sm_draining sm then (Inl Draining, sm)
      else if capability_token = [] \<or> gr_expires_at grant \<le> now then (Inl TokenRejected, sm)
      else tryE (validate_grant grant) sm (\<lambda>_.
      tryE (increment_bounded (sm_sessions sm) (lc_max_sessions (sm_limits sm))) sm (\<lambda>sessions.
      let key = hmac (sm_hash_key sm) capability_token;
          tokens = purge_token_map now_purge (sm_tokens sm);
          sm = sm\<lparr>sm_sessions := sessions, sm_tokens := tokens\<rparr> in
      if key |\<notin>| fmdom tokens \<and> lc_max_token_states (sm_limits sm) \<le> fcard (fmdom tokens)
      then (Inl ResourceExhausted, drop_session_count sm)
      else
        let token = (case fmlookup tokens key of
                       Some token \<Rightarrow> token
                     | None \<Rightarrow> create_token_state (sm_limits sm) started grant) in
        admit_session now address handle grant key token (sm\<lparr>sm_tokens := fmupd key token tokens\<rparr>))))"

definition set_draining :: "bool \<Rightarrow> session_manager \<Rightarrow> session_manager" where
  "set_draining draining sm = sm\<lparr>sm_draining := draining\<rparr>"

definition purge_expired :: "nat \<Rightarrow> session_manager \<Rightarrow> session_manager" where
  "purge_expired now sm = sm\<lparr>sm_tokens := purge_token_map now (sm_tokens sm)\<rparr>"

definition has_capability :: "daemon_lease \<Rightarrow> string \<Rightarrow> bool" where
  "has_capability l capability = list_ex (\<lambda>granted. granted = capability) (ds_capabilities l)"

definition lease_active :: "nat \<Rightarrow> daemon_lease \<Rightarrow> session_manager \<Rightarrow> gateway_error_code + unit" where
  "lease_active now l sm =
     ensure (\<not> (ds_expires_at l \<le> now \<or>
       (case fmlookup (sm_tokens sm) (ds_token_key l) of None \<Rightarrow> True | Some t \<Rightarrow> kt_expires_at t \<le> now)))
       SessionExpired"

definition observe_destination ::
  "(bytes \<Rightarrow> bytes \<Rightarrow> bytes) \<Rightarrow> instant \<Rightarrow> daemon_lease \<Rightarrow> bytes \<Rightarrow> session_manager \<Rightarrow> unit manager_result" where
  "observe_destination hmac now l material sm =
     (let short = take 16 (hmac (sm_hash_key sm) (ds_token_key l @ material)) in
      case fmlookup (sm_tokens sm) (ds_token_key l) of
        None \<Rightarrow> (Inl Internal, sm)
      | Some t \<Rightarrow>
          let scan = kt_scan t;
              window = duration_from_secs (lc_scan_window_seconds (sm_limits sm));
              scan = (if window \<le> now - sw_started_at scan
                      then \<lparr>sw_started_at = now, sw_destinations = {||}\<rparr> else scan);
              scan = scan\<lparr>sw_destinations := finsert short (sw_destinations scan)\<rparr>;
              sm' = update_token (ds_token_key l) (\<lambda>t. t\<lparr>kt_scan := scan\<rparr>) sm in
          if lc_scan_distinct_destination_limit (sm_limits sm) < fcard (sw_destinations scan)
          then (Inl PolicyDenied, sm') else (Inr (), sm'))"

definition add_session_stream :: "nat \<Rightarrow> nat \<Rightarrow> session_manager \<Rightarrow> session_manager" where
  "add_session_stream address n sm = sm\<lparr>sm_counters := fmupd address n (sm_counters sm)\<rparr>"

definition reserve_stream ::
  "(bytes \<Rightarrow> bytes \<Rightarrow> bytes) \<Rightarrow> nat \<Rightarrow> instant \<Rightarrow> (gateway_error_code + unit) \<Rightarrow> daemon_lease \<Rightarrow> bytes \<Rightarrow>
     session_manager \<Rightarrow> stream_lease manager_result" where
  "reserve_stream hmac now now_i bucket l material sm =
     tryE (lease_active now l sm) sm (\<lambda>_.
     if sm_draining sm then (Inl Draining, sm)
     else tryE bucket sm (\<lambda>_.
     bindS (observe_destination hmac now_i l material sm) (\<lambda>_ sm.
     let own = fm_get_or 0 (sm_counters sm) (ds_streams l) in
     tryE (increment_bounded own (lc_max_streams_per_session (sm_limits sm))) sm (\<lambda>own'.
     let sm = add_session_stream (ds_streams l) own' sm in
     (case fmlookup (sm_tokens sm) (ds_token_key l) of
        None \<Rightarrow> (Inl Internal, sm)
      | Some t \<Rightarrow>
          (case increment_bounded (kt_streams t) (kt_max_streams t) of
             Inl _ \<Rightarrow> (Inl ResourceExhausted, add_session_stream (ds_streams l) (fetch_sub_one own') sm)
           | Inr n \<Rightarrow>
               let sm = update_token (ds_token_key l) (\<lambda>t. t\<lparr>kt_streams := n\<rparr>) sm in
               (case increment_bounded (sm_streams sm) (lc_max_streams_global (sm_limits sm)) of
                  Inl _ \<Rightarrow>
                    (Inl ResourceExhausted, add_session_stream (ds_streams l) (fetch_sub_one own')
                      (update_token (ds_token_key l) (\<lambda>t. t\<lparr>kt_streams := fetch_sub_one (kt_streams t)\<rparr>) sm))
                | Inr k \<Rightarrow>
                    (Inr \<lparr>st_token_key = ds_token_key l, st_session_streams = ds_streams l\<rparr>,
                     sm\<lparr>sm_streams := k\<rparr>))))))))"

definition acquire_bandwidth ::
  "nat \<Rightarrow> nat \<Rightarrow> duration \<Rightarrow> daemon_lease \<Rightarrow> session_manager \<Rightarrow> unit manager_result" where
  "acquire_bandwidth now amount delay l sm =
     tryE (lease_active now l sm) sm (\<lambda>_.
     (case fmlookup (sm_tokens sm) (ds_token_key l) of
        None \<Rightarrow> (Inl Internal, sm)
      | Some t \<Rightarrow>
          (case bandwidth_acquire amount delay (kt_bandwidth t) of
             (r, b) \<Rightarrow> (r, update_token (ds_token_key l) (\<lambda>t. t\<lparr>kt_bandwidth := b\<rparr>) sm))))"

definition drop_session :: "daemon_lease \<Rightarrow> session_manager \<Rightarrow> session_manager" where
  "drop_session l sm =
     drop_session_count
       (update_token (ds_token_key l) (\<lambda>t. t\<lparr>kt_sessions := fetch_sub_one (kt_sessions t)\<rparr>) sm)"

definition drop_stream :: "stream_lease \<Rightarrow> session_manager \<Rightarrow> session_manager" where
  "drop_stream l sm =
     (let sm = add_session_stream (st_session_streams l)
                 (fetch_sub_one (fm_get_or 0 (sm_counters sm) (st_session_streams l))) sm;
          sm = update_token (st_token_key l) (\<lambda>t. t\<lparr>kt_streams := fetch_sub_one (kt_streams t)\<rparr>) sm in
      sm\<lparr>sm_streams := fetch_sub_one (sm_streams sm)\<rparr>)"

section \<open>Counting leases\<close>

definition count_where :: "('v \<Rightarrow> bool) \<Rightarrow> (nat, 'v) fmap \<Rightarrow> nat" where
  "count_where P m = card {i. \<exists>v. fmlookup m i = Some v \<and> P v}"

lemma finite_where [simp]: "finite {i. \<exists>v. fmlookup m i = Some v \<and> P v}"
  by (rule finite_subset [of _ "fset (fmdom m)"]) (auto simp: fmdomI)

lemma count_where_empty [simp]: "count_where P fmempty = 0"
  by (simp add: count_where_def)

lemma count_where_upd:
  assumes "i |\<notin>| fmdom m"
  shows "count_where P (fmupd i v m) = count_where P m + (if P v then 1 else 0)"
proof -
  have none: "fmlookup m i = None" using assms by (simp add: fmdom_notD)
  have "{j. \<exists>w. fmlookup (fmupd i v m) j = Some w \<and> P w} =
      {j. \<exists>w. fmlookup m j = Some w \<and> P w} \<union> (if P v then {i} else {})"
    using none by auto
  then show ?thesis using none by (auto simp: count_where_def)
qed

lemma count_where_drop:
  assumes "fmlookup m i = Some v"
  shows "count_where P m = count_where P (fmdrop i m) + (if P v then 1 else 0)"
proof -
  have "m = fmupd i v (fmdrop i m)" using assms by (intro fmap_ext) auto
  then show ?thesis using count_where_upd [of i "fmdrop i m" P v] by simp
qed

lemma count_where_0:
  assumes "count_where P m = 0" "fmlookup m i = Some v"
  shows "\<not> P v"
  using assms finite_where [of m P] unfolding count_where_def card_0_eq [OF finite_where] by blast

section \<open>Live leases\<close>

text \<open>The manager together with the leases that have not been dropped.\<close>

record gateway_sessions =
  gs_manager :: session_manager
  gs_leases :: "(nat, daemon_lease) fmap"
  gs_streams :: "(nat, stream_lease) fmap"

definition token_leases :: "bytes \<Rightarrow> gateway_sessions \<Rightarrow> nat" where
  "token_leases key s = count_where (\<lambda>l. ds_token_key l = key) (gs_leases s)"

definition token_streams :: "bytes \<Rightarrow> gateway_sessions \<Rightarrow> nat" where
  "token_streams key s = count_where (\<lambda>l. st_token_key l = key) (gs_streams s)"

definition session_streams :: "nat \<Rightarrow> gateway_sessions \<Rightarrow> nat" where
  "session_streams address s = count_where (\<lambda>l. st_session_streams l = address) (gs_streams s)"

lemmas lease_counts = token_leases_def token_streams_def session_streams_def

text \<open>The accounting of one token, of one session counter, and of the manager.\<close>

definition token_accounted :: "limit_config \<Rightarrow> gateway_sessions \<Rightarrow> bytes \<Rightarrow> token_state \<Rightarrow> bool" where
  "token_accounted limits s key t \<longleftrightarrow>
     kt_sessions t = token_leases key s \<and> kt_sessions t \<le> kt_max_sessions t \<and>
     kt_max_sessions t \<le> lc_max_sessions_per_token limits \<and>
     kt_streams t = token_streams key s \<and> kt_streams t \<le> kt_max_streams t \<and>
     kt_max_streams t \<le> lc_max_streams_per_token limits \<and>
     bl_used (kt_bandwidth t) \<le> bl_total_limit (kt_bandwidth t) \<and>
     bl_total_limit (kt_bandwidth t) \<le> lc_token_byte_quota limits"

definition gs_inv :: "gateway_sessions \<Rightarrow> bool" where
  "gs_inv s \<longleftrightarrow>
     (let sm = gs_manager s; limits = sm_limits sm in
      times_valid limits \<and>
      sm_sessions sm = count_where (\<lambda>_. True) (gs_leases s) \<and> sm_sessions sm \<le> lc_max_sessions limits \<and>
      sm_streams sm = count_where (\<lambda>_. True) (gs_streams s) \<and> sm_streams sm \<le> lc_max_streams_global limits \<and>
      fcard (fmdom (sm_tokens sm)) \<le> lc_max_token_states limits \<and>
      (\<forall>key t. fmlookup (sm_tokens sm) key = Some t \<longrightarrow> token_accounted limits s key t) \<and>
      (\<forall>a n. fmlookup (sm_counters sm) a = Some n \<longrightarrow>
         n = session_streams a s \<and> n \<le> lc_max_streams_per_session limits) \<and>
      (\<forall>i l. fmlookup (gs_leases s) i = Some l \<longrightarrow>
         ds_token_key l |\<in>| fmdom (sm_tokens sm) \<and> ds_streams l |\<in>| fmdom (sm_counters sm)) \<and>
      (\<forall>i l. fmlookup (gs_streams s) i = Some l \<longrightarrow>
         st_token_key l |\<in>| fmdom (sm_tokens sm) \<and> st_session_streams l |\<in>| fmdom (sm_counters sm)))"

definition gs_start :: "gateway_sessions \<Rightarrow> bool" where
  "gs_start s \<longleftrightarrow> (\<exists>limits key.
     validate_limit_config limits = Inr () \<and> manager_new limits (Some key) = Inr (gs_manager s) \<and>
     gs_leases s = fmempty \<and> gs_streams s = fmempty)"

definition keep_lease :: "nat \<Rightarrow> gateway_error_code + 'l \<Rightarrow> (nat, 'l) fmap \<Rightarrow> (nat, 'l) fmap" where
  "keep_lease i r m = (case r of Inl _ \<Rightarrow> m | Inr l \<Rightarrow> fmupd i l m)"

text \<open>
  The steps of the daemon. A new lease gets a fresh name and its counter a fresh address; the
  clock reads a time that the largest session lifetime does not carry beyond the range of
  the type.
\<close>

inductive gs_step :: "gateway_sessions \<Rightarrow> gateway_sessions \<Rightarrow> bool" where
  gs_register: "i |\<notin>| fmdom (gs_leases s) \<Longrightarrow> a |\<notin>| fmdom (sm_counters (gs_manager s)) \<Longrightarrow>
     now + 86400 * 1000000000 \<le> system_time_max \<Longrightarrow>
     register hmac now now' started a handle token grant (gs_manager s) = (r, sm) \<Longrightarrow>
     gs_step s (s\<lparr>gs_manager := sm, gs_leases := keep_lease i r (gs_leases s)\<rparr>)"
| gs_reserve: "fmlookup (gs_leases s) j = Some l \<Longrightarrow> i |\<notin>| fmdom (gs_streams s) \<Longrightarrow>
     reserve_stream hmac now now_i bucket l material (gs_manager s) = (r, sm) \<Longrightarrow>
     gs_step s (s\<lparr>gs_manager := sm, gs_streams := keep_lease i r (gs_streams s)\<rparr>)"
| gs_acquire: "fmlookup (gs_leases s) j = Some l \<Longrightarrow>
     acquire_bandwidth now amount delay l (gs_manager s) = (r, sm) \<Longrightarrow>
     gs_step s (s\<lparr>gs_manager := sm\<rparr>)"
| gs_drop_session: "fmlookup (gs_leases s) i = Some l \<Longrightarrow>
     gs_step s (s\<lparr>gs_manager := drop_session l (gs_manager s), gs_leases := fmdrop i (gs_leases s)\<rparr>)"
| gs_drop_stream: "fmlookup (gs_streams s) i = Some l \<Longrightarrow>
     gs_step s (s\<lparr>gs_manager := drop_stream l (gs_manager s), gs_streams := fmdrop i (gs_streams s)\<rparr>)"
| gs_purge: "gs_step s (s\<lparr>gs_manager := purge_expired now (gs_manager s)\<rparr>)"
| gs_drain: "gs_step s (s\<lparr>gs_manager := set_draining d (gs_manager s)\<rparr>)"

section \<open>The invariant, operation by operation\<close>

lemma increment_bounded_Inr [simp]:
  "increment_bounded n m = Inr k \<longleftrightarrow> k = Suc n \<and> Suc n \<le> m \<and> Suc n \<le> usize_max"
  by (auto simp: increment_bounded_def split: option.splits)

lemma increment_bounded_Inl: "increment_bounded n m = Inl e \<Longrightarrow> e = ResourceExhausted"
  by (auto simp: increment_bounded_def split: option.splits if_splits)

lemma fetch_sub_one_Suc [simp]: "fetch_sub_one (Suc n) = n"
  by (simp add: fetch_sub_one_def)

lemma update_token_fields [simp]:
  "sm_limits (update_token k f sm) = sm_limits sm" "sm_hash_key (update_token k f sm) = sm_hash_key sm"
  "sm_sessions (update_token k f sm) = sm_sessions sm" "sm_streams (update_token k f sm) = sm_streams sm"
  "sm_draining (update_token k f sm) = sm_draining sm" "sm_counters (update_token k f sm) = sm_counters sm"
  by (simp_all add: update_token_def split: option.splits)

lemma update_token_tokens [simp]:
  "fmlookup (sm_tokens (update_token k f sm)) j =
     (if j = k then map_option f (fmlookup (sm_tokens sm) k) else fmlookup (sm_tokens sm) j)"
  "fmdom (sm_tokens (update_token k f sm)) = fmdom (sm_tokens sm)"
  by (auto simp: update_token_def finsert_absorb fmdomI split: option.splits)

lemma update_token_twice:
  "update_token k f (update_token k g sm) = update_token k (\<lambda>t. f (g t)) sm"
proof -
  have "fmupd k x (fmupd k y m) = fmupd k x m" for x y :: token_state and m
    by (rule fmap_ext) simp
  then show ?thesis by (simp add: update_token_def split: option.splits)
qed

lemma update_token_same: "(\<And>t. f t = t) \<Longrightarrow> update_token k f sm = sm"
proof -
  assume "\<And>t. f t = t"
  moreover have "fmlookup (sm_tokens sm) k = Some t \<Longrightarrow> fmupd k t (sm_tokens sm) = sm_tokens sm" for t
    by (rule fmap_ext) auto
  ultimately show ?thesis by (auto simp: update_token_def split: option.splits)
qed

lemma fmlookup_purge:
  "fmlookup (purge_token_map now tokens) k =
     (case fmlookup tokens k of None \<Rightarrow> None | Some t \<Rightarrow>
        if now < kt_expires_at t \<or> 0 < kt_sessions t \<or> 0 < kt_streams t then Some t else None)"
  by (auto simp: purge_token_map_def split: option.splits)

lemma purge_dom: "fmdom (purge_token_map now tokens) |\<subseteq>| fmdom tokens"
  by (auto simp: purge_token_map_def)

text \<open>The parts of the invariant, to take apart and to put together.\<close>

lemma gs_invD:
  assumes "gs_inv s"
  shows "times_valid (sm_limits (gs_manager s))"
    "sm_sessions (gs_manager s) = count_where (\<lambda>_. True) (gs_leases s)"
    "sm_sessions (gs_manager s) \<le> lc_max_sessions (sm_limits (gs_manager s))"
    "sm_streams (gs_manager s) = count_where (\<lambda>_. True) (gs_streams s)"
    "sm_streams (gs_manager s) \<le> lc_max_streams_global (sm_limits (gs_manager s))"
    "fcard (fmdom (sm_tokens (gs_manager s))) \<le> lc_max_token_states (sm_limits (gs_manager s))"
    "\<And>key t. fmlookup (sm_tokens (gs_manager s)) key = Some t \<Longrightarrow>
       token_accounted (sm_limits (gs_manager s)) s key t"
    "\<And>a n. fmlookup (sm_counters (gs_manager s)) a = Some n \<Longrightarrow>
       n = session_streams a s \<and> n \<le> lc_max_streams_per_session (sm_limits (gs_manager s))"
    "\<And>i l. fmlookup (gs_leases s) i = Some l \<Longrightarrow>
       ds_token_key l |\<in>| fmdom (sm_tokens (gs_manager s)) \<and> ds_streams l |\<in>| fmdom (sm_counters (gs_manager s))"
    "\<And>i l. fmlookup (gs_streams s) i = Some l \<Longrightarrow>
       st_token_key l |\<in>| fmdom (sm_tokens (gs_manager s)) \<and>
       st_session_streams l |\<in>| fmdom (sm_counters (gs_manager s))"
  using assms unfolding gs_inv_def Let_def by blast+

lemma gs_inv_start:
  assumes "gs_start s"
  shows "gs_inv s"
proof -
  from assms obtain limits key where v: "times_valid limits" "gs_leases s = fmempty" "gs_streams s = fmempty"
    and m: "manager_new limits (Some key) = Inr (gs_manager s)"
    by (auto simp: gs_start_def validate_limit_config_def)
  from m have "gs_manager s = \<lparr>sm_limits = limits, sm_hash_key = key, sm_tokens = fmempty, sm_sessions = 0,
      sm_streams = 0, sm_draining = False, sm_counters = fmempty\<rparr>"
    by (simp add: manager_new_def)
  then show ?thesis using v by (simp add: gs_inv_def fcard_fempty)
qed

text \<open>A purge removes only tokens without leases.\<close>

lemma purge_keeps_leased:
  assumes "gs_inv s" "fmlookup (sm_tokens (gs_manager s)) k = Some t"
    "0 < token_leases k s \<or> 0 < token_streams k s"
  shows "fmlookup (purge_token_map now (sm_tokens (gs_manager s))) k = Some t"
  using assms gs_invD(7) [OF assms(1,2)] by (auto simp: fmlookup_purge token_accounted_def)

lemma leased_counts:
  "fmlookup (gs_leases s) i = Some l \<Longrightarrow> 0 < token_leases (ds_token_key l) s"
  "fmlookup (gs_streams s) i = Some l' \<Longrightarrow> 0 < token_streams (st_token_key l') s"
  using count_where_0 [of "\<lambda>l'. ds_token_key l' = ds_token_key l" "gs_leases s" i l]
    count_where_0 [of "\<lambda>l. st_token_key l = st_token_key l'" "gs_streams s" i l']
  by (auto simp: lease_counts)

lemma gs_inv_purged:
  assumes "gs_inv s" "gs_manager t = (gs_manager s)\<lparr>sm_tokens := purge_token_map now (sm_tokens (gs_manager s)), sm_draining := d\<rparr>"
    "gs_leases t = gs_leases s" "gs_streams t = gs_streams s"
  shows "gs_inv t"
proof -
  note inv = gs_invD [OF assms(1)]
  let ?p = "purge_token_map now (sm_tokens (gs_manager s))"
  have acc: "token_accounted limits t key x = token_accounted limits s key x" for limits key x
    by (simp add: token_accounted_def lease_counts assms)
  have dom: "key |\<in>| fmdom ?p" if "key |\<in>| fmdom (sm_tokens (gs_manager s))"
    "0 < token_leases key s \<or> 0 < token_streams key s" for key
    using purge_keeps_leased [OF assms(1) _ that(2)] that(1) by (metis fmdomI fmlookup_dom_iff)
  have "fcard (fmdom ?p) \<le> lc_max_token_states (sm_limits (gs_manager s))"
    using inv(6) fcard_mono [OF purge_dom] by (rule order_trans [rotated])
  then show ?thesis
    using inv dom leased_counts
    unfolding gs_inv_def Let_def assms
    by (auto simp: acc fmlookup_purge session_streams_def assms split: option.splits if_splits)
qed

text \<open>Registration purges, looks the token up or creates it, and then counts.\<close>

definition token_for :: "nat \<Rightarrow> instant \<Rightarrow> authentication_grant \<Rightarrow> bytes \<Rightarrow> session_manager \<Rightarrow> token_state" where
  "token_for now' started grant key sm =
     (case fmlookup (purge_token_map now' (sm_tokens sm)) key of
        Some token \<Rightarrow> token | None \<Rightarrow> create_token_state (sm_limits sm) started grant)"

definition prepared :: "nat \<Rightarrow> instant \<Rightarrow> authentication_grant \<Rightarrow> bytes \<Rightarrow> session_manager \<Rightarrow> session_manager" where
  "prepared now' started grant key sm =
     sm\<lparr>sm_tokens := fmupd key (token_for now' started grant key sm) (purge_token_map now' (sm_tokens sm))\<rparr>"

definition token_room :: "nat \<Rightarrow> bytes \<Rightarrow> session_manager \<Rightarrow> bool" where
  "token_room now' key sm \<longleftrightarrow>
     (let tokens = purge_token_map now' (sm_tokens sm) in
      key |\<in>| fmdom tokens \<or> fcard (fmdom tokens) < lc_max_token_states (sm_limits sm))"

lemma ttl_fits:
  assumes "times_valid limits" "now + 86400 * 1000000000 \<le> system_time_max"
  shows "\<not> system_time_max < now + duration_from_secs (lc_session_ttl_seconds limits)"
proof -
  have "unat (lc_session_ttl_seconds limits) \<le> 86400"
    using assms(1) by (simp add: times_valid_def word_le_nat_alt)
  then have "duration_from_secs (lc_session_ttl_seconds limits) \<le> 86400 * 1000000000"
    by (simp add: duration_from_secs_def)
  then show ?thesis using assms(2) by simp
qed

lemma register_cases:
  assumes reg: "register hmac now now' started a handle token grant sm = (r, sm')"
    and ttl: "\<not> system_time_max < now + duration_from_secs (lc_session_ttl_seconds (sm_limits sm))"
  obtains
    (unchanged) e where "r = Inl e" "sm' = sm"
  | (purged) e where "r = Inl e" "sm' = sm\<lparr>sm_tokens := purge_token_map now' (sm_tokens sm)\<rparr>"
  | (refused) e key where "r = Inl e" "sm' = prepared now' started grant key sm" "token_room now' key sm"
  | (granted) l key where "r = Inr l" "ds_token_key l = key" "ds_streams l = a" "token_room now' key sm"
      "Suc (sm_sessions sm) \<le> lc_max_sessions (sm_limits sm)"
      "kt_sessions (token_for now' started grant key sm) < kt_max_sessions (token_for now' started grant key sm)"
      "sm' = (update_token key (\<lambda>t. t\<lparr>kt_sessions := Suc (kt_sessions t)\<rparr>) (prepared now' started grant key sm))
         \<lparr>sm_sessions := Suc (sm_sessions sm), sm_counters := fmupd a 0 (sm_counters sm)\<rparr>"
proof -
  let ?n = "Suc (sm_sessions sm)" and ?key = "hmac (sm_hash_key sm) token"
  let ?t = "token_for now' started grant ?key sm" and ?p = "prepared now' started grant ?key sm"
  show thesis
  proof (cases "sm_draining sm \<or> token = [] \<or> gr_expires_at grant \<le> now \<or> validate_grant grant \<noteq> Inr () \<or>
      \<not> (?n \<le> lc_max_sessions (sm_limits sm) \<and> ?n \<le> usize_max)")
    case True
    then show ?thesis
      using reg by (intro unchanged [of "projl r"])
        (auto simp: register_def tryE_def Let_def increment_bounded_def split: sum.splits option.splits if_splits)
  next
    case False
    then have inc: "increment_bounded (sm_sessions sm) (lc_max_sessions (sm_limits sm)) = Inr ?n" by simp
    show ?thesis
    proof (cases "token_room now' ?key sm")
      case no: False
      have "(r, sm') = (Inl ResourceExhausted, sm\<lparr>sm_tokens := purge_token_map now' (sm_tokens sm)\<rparr>)"
        using False no reg inc by (auto simp: register_def token_room_def drop_session_count_def Let_def)
      then show ?thesis by (intro purged [of ResourceExhausted]) auto
    next
      case room: True
      let ?sm = "?p\<lparr>sm_sessions := ?n\<rparr>"
      have lookup: "fmlookup (sm_tokens ?sm) ?key = Some ?t" by (simp add: prepared_def)
      have "?p\<lparr>sm_sessions := ?n\<rparr> = sm\<lparr>sm_sessions := ?n, sm_tokens := purge_token_map now' (sm_tokens sm),
          sm_tokens := fmupd ?key ?t (purge_token_map now' (sm_tokens sm))\<rparr>"
        by (simp add: prepared_def)
      then have reg': "admit_session now a handle grant ?key ?t ?sm = (r, sm')"
        using False room reg inc
        by (auto simp: register_def token_room_def Let_def token_for_def not_less cong: option.case_cong)
      have undo: "drop_session_count ?sm = ?p" by (simp add: drop_session_count_def prepared_def)
      show ?thesis
      proof (cases "kt_expires_at ?t \<le> now \<or> handle = None \<or> \<not> kt_sessions ?t < kt_max_sessions ?t \<or>
          increment_bounded (kt_sessions ?t) (kt_max_sessions ?t) \<noteq> Inr (Suc (kt_sessions ?t))")
        case True
        have same: "drop_session_count (update_token ?key (\<lambda>t. t\<lparr>kt_sessions := fetch_sub_one (kt_sessions t)\<rparr>)
            (update_token ?key (\<lambda>t. t\<lparr>kt_sessions := Suc (kt_sessions ?t)\<rparr>) ?sm)) = ?p"
        proof -
          have "fmupd ?key ?t (sm_tokens ?p) = sm_tokens ?p" by (rule fmap_ext) (simp add: prepared_def)
          then show ?thesis
            using lookup by (simp add: update_token_twice drop_session_count_def) (simp add: update_token_def prepared_def)
        qed
        from True reg' have "isl r \<and> sm' = ?p"
          using same undo by (auto simp: admit_session_def Let_def split: if_splits sum.splits option.splits)
        then show ?thesis using room by (intro refused [of "projl r" ?key]) auto
      next
        case ok: False
        then obtain h where h: "handle = Some h" by auto
        have upd: "update_token ?key (\<lambda>t. t\<lparr>kt_sessions := Suc (kt_sessions ?t)\<rparr>) ?sm =
            (update_token ?key (\<lambda>t. t\<lparr>kt_sessions := Suc (kt_sessions t)\<rparr>) ?p)\<lparr>sm_sessions := ?n\<rparr>"
          using lookup by (simp add: update_token_def)
        have pf: "sm_limits ?p = sm_limits sm" "sm_counters ?p = sm_counters sm" by (simp_all add: prepared_def)
        from ok have nx: "\<not> kt_expires_at ?t \<le> now"
          "increment_bounded (kt_sessions ?t) (kt_max_sessions ?t) = Inr (Suc (kt_sessions ?t))"
          "kt_sessions ?t < kt_max_sessions ?t" by blast+
        have res: "(r, sm') =
            (Inr \<lparr>ds_token_key = ?key, ds_handle = h, ds_expires_at = min (gr_expires_at grant)
                (now + duration_from_secs (lc_session_ttl_seconds (sm_limits sm))),
              ds_capabilities = gr_capabilities grant, ds_streams = a\<rparr>,
             (update_token ?key (\<lambda>t. t\<lparr>kt_sessions := Suc (kt_sessions t)\<rparr>) ?p)
               \<lparr>sm_sessions := ?n, sm_counters := fmupd a 0 (sm_counters sm)\<rparr>)"
          using reg' ttl unfolding admit_session_def h nx(2) sum.case option.case upd Let_def
          by (simp add: nx(1) pf)
        show ?thesis
          by (rule granted [of "projr r" ?key]) (use res room False nx(3) in auto)
      qed
    qed
  qed
qed

lemma count_where_pos: "0 < count_where P m \<longleftrightarrow> (\<exists>i v. fmlookup m i = Some v \<and> P v)"
  unfolding count_where_def by (auto simp: card_gt_0_iff)

lemma no_leases_outside:
  assumes "gs_inv s" "key |\<notin>| fmdom (sm_tokens (gs_manager s))"
  shows "token_leases key s = 0" "token_streams key s = 0"
proof -
  have "\<not> 0 < token_leases key s" "\<not> 0 < token_streams key s"
    using gs_invD(9,10) [OF assms(1)] assms(2) unfolding lease_counts count_where_pos by auto
  then show "token_leases key s = 0" "token_streams key s = 0" by auto
qed

lemma no_streams_outside:
  assumes "gs_inv s" "a |\<notin>| fmdom (sm_counters (gs_manager s))"
  shows "session_streams a s = 0"
proof -
  have "\<not> 0 < session_streams a s"
    using gs_invD(10) [OF assms(1)] assms(2) unfolding lease_counts count_where_pos by auto
  then show ?thesis by auto
qed

lemma accounted_cong:
  assumes "gs_leases s = gs_leases t" "gs_streams s = gs_streams t"
  shows "token_accounted limits s = token_accounted limits t" "session_streams a s = session_streams a t"
  unfolding token_accounted_def lease_counts fun_eq_iff using assms by simp_all

lemma create_token_state_accounted:
  assumes "token_leases key s = 0" "token_streams key s = 0"
  shows "token_accounted limits s key (create_token_state limits started grant)"
  unfolding token_accounted_def create_token_state_def effective_limits_def bandwidth_new_def Let_def
  using assms by (simp add: min.coboundedI2)

lemma gs_inv_put_token:
  assumes inv: "gs_inv s" and acc: "token_accounted (sm_limits (gs_manager s)) s key t"
    and room: "key |\<in>| fmdom (sm_tokens (gs_manager s)) \<or>
      fcard (fmdom (sm_tokens (gs_manager s))) < lc_max_token_states (sm_limits (gs_manager s))"
  shows "gs_inv (s\<lparr>gs_manager := (gs_manager s)\<lparr>sm_tokens := fmupd key t (sm_tokens (gs_manager s))\<rparr>\<rparr>)"
proof -
  note i = gs_invD [OF inv]
  let ?s = "s\<lparr>gs_manager := (gs_manager s)\<lparr>sm_tokens := fmupd key t (sm_tokens (gs_manager s))\<rparr>\<rparr>"
  have c: "token_accounted limits ?s = token_accounted limits s" "session_streams a ?s = session_streams a s"
    for limits a by (rule accounted_cong; simp)+
  have "fcard (fmdom (fmupd key t (sm_tokens (gs_manager s)))) \<le> lc_max_token_states (sm_limits (gs_manager s))"
    using room i(6) unfolding fcard_fmdom_upd by auto
  moreover have "token_accounted (sm_limits (gs_manager s)) s k x"
    if "fmlookup (fmupd key t (sm_tokens (gs_manager s))) k = Some x" for k x
    using that acc i(7) [of k x] by (auto split: if_splits)
  ultimately show ?thesis
    using i unfolding gs_inv_def Let_def c by auto
qed

lemma gs_inv_prepared:
  assumes "gs_inv s" "token_room now' key (gs_manager s)"
  shows "gs_inv (s\<lparr>gs_manager := prepared now' started grant key (gs_manager s)\<rparr>)"
proof -
  let ?p = "s\<lparr>gs_manager := (gs_manager s)\<lparr>sm_tokens := purge_token_map now' (sm_tokens (gs_manager s))\<rparr>\<rparr>"
  let ?t = "token_for now' started grant key (gs_manager s)"
  have p: "gs_inv ?p"
    by (rule gs_inv_purged [OF assms(1), where now = now' and d = "sm_draining (gs_manager s)"]) simp_all
  have "token_accounted (sm_limits (gs_manager s)) ?p key ?t"
  proof (cases "fmlookup (purge_token_map now' (sm_tokens (gs_manager s))) key")
    case None
    then have "key |\<notin>| fmdom (sm_tokens (gs_manager ?p))" by (simp add: fmdom_notI)
    from no_leases_outside [OF p this] show ?thesis
      using None by (simp add: token_for_def create_token_state_accounted)
  next
    case (Some t)
    then show ?thesis using gs_invD(7) [OF p, of key t] by (simp add: token_for_def)
  qed
  then have "gs_inv (?p\<lparr>gs_manager := (gs_manager ?p)\<lparr>sm_tokens := fmupd key ?t (sm_tokens (gs_manager ?p))\<rparr>\<rparr>)"
    using assms(2) by (intro gs_inv_put_token p) (simp_all add: token_room_def Let_def)
  then show ?thesis by (simp add: prepared_def)
qed

lemma gs_inv_update_token:
  assumes inv: "gs_inv s"
    and f: "\<And>t. fmlookup (sm_tokens (gs_manager s)) key = Some t \<Longrightarrow>
      token_accounted (sm_limits (gs_manager s)) s key t \<Longrightarrow> token_accounted (sm_limits (gs_manager s)) s key (f t)"
  shows "gs_inv (s\<lparr>gs_manager := update_token key f (gs_manager s)\<rparr>)"
proof (cases "fmlookup (sm_tokens (gs_manager s)) key")
  case None
  then show ?thesis using inv by (simp add: update_token_def)
next
  case (Some t)
  have "token_accounted (sm_limits (gs_manager s)) s key (f t)"
    by (rule f [OF Some gs_invD(7) [OF inv Some]])
  then show ?thesis
    using gs_inv_put_token [OF inv, of key "f t"] Some by (simp add: update_token_def fmdomI)
qed

text \<open>A lease more or less: the counters move with it.\<close>

lemma gs_inv_add_lease:
  assumes inv: "gs_inv s" and t: "fmlookup (sm_tokens (gs_manager s)) (ds_token_key l) = Some t"
    and room: "kt_sessions t < kt_max_sessions t" "Suc (sm_sessions (gs_manager s)) \<le> lc_max_sessions (sm_limits (gs_manager s))"
    and fresh: "i |\<notin>| fmdom (gs_leases s)" "ds_streams l |\<notin>| fmdom (sm_counters (gs_manager s))"
    and u: "gs_manager u = (update_token (ds_token_key l) (\<lambda>t. t\<lparr>kt_sessions := Suc (kt_sessions t)\<rparr>)
      (gs_manager s))\<lparr>sm_sessions := Suc (sm_sessions (gs_manager s)),
        sm_counters := fmupd (ds_streams l) 0 (sm_counters (gs_manager s))\<rparr>"
      "gs_leases u = fmupd i l (gs_leases s)" "gs_streams u = gs_streams s"
  shows "gs_inv u"
proof -
  note i = gs_invD [OF inv]
  have counts: "token_leases k u = token_leases k s + (if k = ds_token_key l then 1 else 0)"
    "token_streams k u = token_streams k s" "session_streams a u = session_streams a s"
    "count_where (\<lambda>_. True) (gs_leases u) = Suc (count_where (\<lambda>_. True) (gs_leases s))" for k a
    by (simp_all add: lease_counts u count_where_upd [OF fresh(1)])
  have acc: "token_accounted (sm_limits (gs_manager s)) u k x"
    if x: "fmlookup (sm_tokens (gs_manager u)) k = Some x" for k x
  proof -
    from x obtain y where y: "fmlookup (sm_tokens (gs_manager s)) k = Some y"
      "x = (if k = ds_token_key l then y\<lparr>kt_sessions := Suc (kt_sessions y)\<rparr> else y)"
      by (auto simp: u split: if_splits)
    show ?thesis using i(7) [OF y(1)] y t room(1) by (auto simp: token_accounted_def counts)
  qed
  show ?thesis
    unfolding gs_inv_def Let_def
    using i(1-6,8-10) room(2) fmdomI [OF t] no_streams_outside [OF inv fresh(2)] acc
    by (auto simp: counts u count_where_upd [OF fresh(1)] split: if_splits)
qed

lemma gs_inv_drop_lease:
  assumes inv: "gs_inv s" and l: "fmlookup (gs_leases s) i = Some l"
    and u: "gs_manager u = drop_session l (gs_manager s)" "gs_leases u = fmdrop i (gs_leases s)"
      "gs_streams u = gs_streams s"
  shows "gs_inv u"
proof -
  note i = gs_invD [OF inv]
  have counts: "token_leases k s = token_leases k u + (if k = ds_token_key l then 1 else 0)"
    "token_streams k u = token_streams k s" "session_streams a u = session_streams a s"
    "count_where (\<lambda>_. True) (gs_leases s) = Suc (count_where (\<lambda>_. True) (gs_leases u))" for k a
    by (simp_all add: lease_counts u count_where_drop [OF l])
  have acc: "token_accounted (sm_limits (gs_manager s)) u k x"
    if x: "fmlookup (sm_tokens (gs_manager u)) k = Some x" for k x
  proof -
    from x obtain y where y: "fmlookup (sm_tokens (gs_manager s)) k = Some y"
      "x = (if k = ds_token_key l then y\<lparr>kt_sessions := fetch_sub_one (kt_sessions y)\<rparr> else y)"
      by (auto simp: u drop_session_def drop_session_count_def split: if_splits)
    show ?thesis using i(7) [OF y(1)] y counts(1,2) [of k] by (auto simp: token_accounted_def)
  qed
  have "fetch_sub_one (sm_sessions (gs_manager s)) = count_where (\<lambda>_. True) (gs_leases u)"
    using i(2) counts(4) by simp
  then show ?thesis
    unfolding gs_inv_def Let_def
    using i(1-6,8-10) acc counts(2-4)
    by (auto simp: drop_session_def drop_session_count_def u split: if_splits)
qed

lemma gs_inv_add_stream:
  assumes inv: "gs_inv s" and t: "fmlookup (sm_tokens (gs_manager s)) (st_token_key l) = Some t"
    and c: "fmlookup (sm_counters (gs_manager s)) (st_session_streams l) = Some n"
    and room: "kt_streams t < kt_max_streams t" "Suc n \<le> lc_max_streams_per_session (sm_limits (gs_manager s))"
      "Suc (sm_streams (gs_manager s)) \<le> lc_max_streams_global (sm_limits (gs_manager s))"
    and fresh: "i |\<notin>| fmdom (gs_streams s)"
    and u: "gs_manager u = (update_token (st_token_key l) (\<lambda>t. t\<lparr>kt_streams := Suc (kt_streams t)\<rparr>)
      (add_session_stream (st_session_streams l) (Suc n) (gs_manager s)))
        \<lparr>sm_streams := Suc (sm_streams (gs_manager s))\<rparr>"
      "gs_streams u = fmupd i l (gs_streams s)" "gs_leases u = gs_leases s"
  shows "gs_inv u"
proof -
  note i = gs_invD [OF inv]
  have counts: "token_streams k u = token_streams k s + (if k = st_token_key l then 1 else 0)"
    "token_leases k u = token_leases k s"
    "session_streams a u = session_streams a s + (if a = st_session_streams l then 1 else 0)" for k a
    by (simp_all add: lease_counts u count_where_upd [OF fresh])
  have acc: "token_accounted (sm_limits (gs_manager s)) u k x"
    if x: "fmlookup (sm_tokens (gs_manager u)) k = Some x" for k x
  proof -
    from x obtain y where y: "fmlookup (sm_tokens (gs_manager s)) k = Some y"
      "x = (if k = st_token_key l then y\<lparr>kt_streams := Suc (kt_streams y)\<rparr> else y)"
      by (auto simp: u add_session_stream_def split: if_splits)
    show ?thesis using i(7) [OF y(1)] y t room(1) by (auto simp: token_accounted_def counts)
  qed
  show ?thesis
    unfolding gs_inv_def Let_def
    using i(1-6,9,10) i(8) [OF c] i(8) room(2,3) fmdomI [OF t] fmdomI [OF c] acc
    by (auto simp: counts u add_session_stream_def count_where_upd [OF fresh] split: if_splits)
qed

lemma gs_inv_drop_stream:
  assumes inv: "gs_inv s" and l: "fmlookup (gs_streams s) i = Some l"
    and u: "gs_manager u = drop_stream l (gs_manager s)" "gs_streams u = fmdrop i (gs_streams s)"
      "gs_leases u = gs_leases s"
  shows "gs_inv u"
proof -
  note i = gs_invD [OF inv]
  obtain n where n: "fmlookup (sm_counters (gs_manager s)) (st_session_streams l) = Some n"
    using i(10) [OF l] by (metis fmlookup_dom_iff)
  have counts: "token_streams k s = token_streams k u + (if k = st_token_key l then 1 else 0)"
    "token_leases k u = token_leases k s"
    "session_streams a s = session_streams a u + (if a = st_session_streams l then 1 else 0)"
    "count_where (\<lambda>_. True) (gs_streams s) = Suc (count_where (\<lambda>_. True) (gs_streams u))" for k a
    by (simp_all add: lease_counts u count_where_drop [OF l])
  have acc: "token_accounted (sm_limits (gs_manager s)) u k x"
    if x: "fmlookup (sm_tokens (gs_manager u)) k = Some x" for k x
  proof -
    from x obtain y where y: "fmlookup (sm_tokens (gs_manager s)) k = Some y"
      "x = (if k = st_token_key l then y\<lparr>kt_streams := fetch_sub_one (kt_streams y)\<rparr> else y)"
      by (auto simp: u drop_stream_def add_session_stream_def Let_def split: if_splits)
    show ?thesis using i(7) [OF y(1)] y counts(1,2) [of k] by (auto simp: token_accounted_def)
  qed
  have streams: "fetch_sub_one (sm_streams (gs_manager s)) = count_where (\<lambda>_. True) (gs_streams u)"
    using i(4) counts(4) by simp
  have n': "n = Suc (session_streams (st_session_streams l) u)"
    using i(8) [OF n] counts(3) [of "st_session_streams l"] by simp
  have c: "sm_counters (gs_manager u) =
      fmupd (st_session_streams l) (session_streams (st_session_streams l) u) (sm_counters (gs_manager s))"
    using n n' by (simp add: u drop_stream_def add_session_stream_def fm_get_or_def Let_def)
  have others: "m = session_streams a u \<and> m \<le> lc_max_streams_per_session (sm_limits (gs_manager s))"
    if m: "fmlookup (sm_counters (gs_manager u)) a = Some m" for a m
  proof (cases "a = st_session_streams l")
    case True
    then show ?thesis using m n' i(8) [OF n] by (simp add: c)
  next
    case False
    then have "fmlookup (sm_counters (gs_manager s)) a = Some m" using m by (simp add: c)
    from i(8) [OF this] show ?thesis using counts(3) [of a] False by simp
  qed
  have fields: "sm_limits (gs_manager u) = sm_limits (gs_manager s)" "sm_sessions (gs_manager u) = sm_sessions (gs_manager s)"
    "sm_streams (gs_manager u) = fetch_sub_one (sm_streams (gs_manager s))"
    "fmdom (sm_tokens (gs_manager u)) = fmdom (sm_tokens (gs_manager s))"
    "fmdom (sm_counters (gs_manager u)) = fmdom (sm_counters (gs_manager s))"
    using fmdomI [OF n] by (auto simp: u drop_stream_def add_session_stream_def Let_def)
  show ?thesis
    unfolding gs_inv_def Let_def fields u(3)
    using i(1-6) i(9) i(10) acc others streams counts(4)
    by (auto simp: u(2) split: if_splits)
qed

lemma observe_destination_cases:
  assumes "observe_destination hmac now l material sm = (r, sm')"
    "fmlookup (sm_tokens sm) (ds_token_key l) = Some t"
  obtains scan where "sm' = update_token (ds_token_key l) (\<lambda>t. t\<lparr>kt_scan := scan\<rparr>) sm"
  using assms by (auto simp: observe_destination_def Let_def split: if_splits)

lemma add_session_stream_fields [simp]:
  "sm_limits (add_session_stream a n sm) = sm_limits sm" "sm_tokens (add_session_stream a n sm) = sm_tokens sm"
  "sm_sessions (add_session_stream a n sm) = sm_sessions sm" "sm_streams (add_session_stream a n sm) = sm_streams sm"
  by (simp_all add: add_session_stream_def)

lemma add_session_stream_update:
  "add_session_stream a n (update_token k f sm) = update_token k f (add_session_stream a n sm)"
  by (simp add: add_session_stream_def update_token_def split: option.splits)

lemma add_session_stream_undo:
  assumes "fmlookup (sm_counters sm) a = Some n"
  shows "add_session_stream a n (add_session_stream a m sm) = sm"
proof -
  have "fmupd a n (fmupd a m (sm_counters sm)) = sm_counters sm"
    using assms by (intro fmap_ext) auto
  then show ?thesis by (simp add: add_session_stream_def)
qed

lemma reserve_stream_cases:
  assumes res: "reserve_stream hmac now now_i bucket l material sm = (r, sm')"
    and t: "fmlookup (sm_tokens sm) (ds_token_key l) = Some t"
    and c: "fmlookup (sm_counters sm) (ds_streams l) = Some n"
  obtains
    (unchanged) e where "r = Inl e" "sm' = sm"
  | (refused) e scan where "r = Inl e" "sm' = update_token (ds_token_key l) (\<lambda>t. t\<lparr>kt_scan := scan\<rparr>) sm"
  | (granted) scan where "r = Inr \<lparr>st_token_key = ds_token_key l, st_session_streams = ds_streams l\<rparr>"
      "kt_streams t < kt_max_streams t" "Suc n \<le> lc_max_streams_per_session (sm_limits sm)"
      "Suc (sm_streams sm) \<le> lc_max_streams_global (sm_limits sm)"
      "sm' = (update_token (ds_token_key l) (\<lambda>t. t\<lparr>kt_streams := Suc (kt_streams t)\<rparr>)
        (add_session_stream (ds_streams l) (Suc n)
          (update_token (ds_token_key l) (\<lambda>t. t\<lparr>kt_scan := scan\<rparr>) sm)))\<lparr>sm_streams := Suc (sm_streams sm)\<rparr>"
proof (cases "lease_active now l sm = Inr () \<and> \<not> sm_draining sm \<and> bucket = Inr ()")
  case False
  then show ?thesis
    using res by (intro unchanged [of "projl r"])
      (auto simp: reserve_stream_def tryE_def split: sum.splits if_splits)
next
  case ok: True
  obtain ro sm1 where ob: "observe_destination hmac now_i l material sm = (ro, sm1)" by (cases "observe_destination hmac now_i l material sm")
  obtain scan where sm1: "sm1 = update_token (ds_token_key l) (\<lambda>t. t\<lparr>kt_scan := scan\<rparr>) sm"
    by (rule observe_destination_cases [OF ob t])
  have c1: "fmlookup (sm_counters sm1) (ds_streams l) = Some n" "fm_get_or 0 (sm_counters sm1) (ds_streams l) = n"
    and t1: "fmlookup (sm_tokens sm1) (ds_token_key l) = Some (t\<lparr>kt_scan := scan\<rparr>)"
    and f1: "sm_limits sm1 = sm_limits sm" "sm_streams sm1 = sm_streams sm"
    using c t by (simp_all add: sm1 fm_get_or_def)
  let ?a = "ds_streams l" and ?k = "ds_token_key l"
  let ?sm2 = "add_session_stream ?a (Suc n) sm1"
  let ?upd = "\<lambda>m. update_token ?k (\<lambda>t. t\<lparr>kt_streams := m\<rparr>) ?sm2"
  have lk: "fmlookup (sm_tokens ?sm2) ?k = Some (t\<lparr>kt_scan := scan\<rparr>)" using t1 by simp
  have undo1: "add_session_stream ?a (fetch_sub_one (Suc n)) ?sm2 = sm1"
    using add_session_stream_undo [OF c1(1)] by simp
  have undo2: "add_session_stream ?a (fetch_sub_one (Suc n))
      (update_token ?k (\<lambda>t. t\<lparr>kt_streams := fetch_sub_one (kt_streams t)\<rparr>) (?upd (Suc (kt_streams t)))) = sm1"
  proof -
    have "update_token ?k (\<lambda>t. t\<lparr>kt_streams := fetch_sub_one (kt_streams t)\<rparr>) (?upd (Suc (kt_streams t))) = ?sm2"
    proof -
      have "fmupd ?k (t\<lparr>kt_scan := scan\<rparr>) (sm_tokens sm1) = sm_tokens sm1" using t1 by (intro fmap_ext) auto
      then show ?thesis using lk by (simp add: update_token_twice) (simp add: update_token_def add_session_stream_def)
    qed
    then show ?thesis using undo1 by simp
  qed
  have inc: "?upd (Suc (kt_streams t)) = update_token ?k (\<lambda>t. t\<lparr>kt_streams := Suc (kt_streams t)\<rparr>) ?sm2"
    using lk by (simp add: update_token_def)
  show ?thesis
  proof (cases "ro = Inr () \<and> Suc n \<le> lc_max_streams_per_session (sm_limits sm) \<and> Suc n \<le> usize_max \<and>
      kt_streams t < kt_max_streams t \<and> Suc (kt_streams t) \<le> usize_max \<and>
      Suc (sm_streams sm) \<le> lc_max_streams_global (sm_limits sm) \<and> Suc (sm_streams sm) \<le> usize_max")
    case True
    then have i: "increment_bounded n (lc_max_streams_per_session (sm_limits sm)) = Inr (Suc n)"
      "increment_bounded (kt_streams t) (kt_max_streams t) = Inr (Suc (kt_streams t))"
      "increment_bounded (sm_streams sm) (lc_max_streams_global (sm_limits sm)) = Inr (Suc (sm_streams sm))"
      by simp_all
    have "(r, sm') = (Inr \<lparr>st_token_key = ?k, st_session_streams = ?a\<rparr>,
        (update_token ?k (\<lambda>t. t\<lparr>kt_streams := Suc (kt_streams t)\<rparr>) ?sm2)\<lparr>sm_streams := Suc (sm_streams sm)\<rparr>)"
      using res ok True lk by (simp add: reserve_stream_def ob c1(2) f1 inc i Let_def)
    then show ?thesis using True unfolding sm1 by (intro granted [of scan]) auto
  next
    case False
    have "isl r \<and> sm' = sm1"
    proof (cases "increment_bounded n (lc_max_streams_per_session (sm_limits sm))")
      case (Inl e)
      then show ?thesis
        using res ok by (cases ro) (auto simp: reserve_stream_def ob c1(2) f1 Let_def)
    next
      case own: (Inr m)
      then have m: "m = Suc n" by simp
      show ?thesis
      proof (cases "increment_bounded (kt_streams t) (kt_max_streams t)")
        case (Inl e)
        then show ?thesis
          using res ok lk undo1 by (cases ro) (auto simp: reserve_stream_def ob c1(2) f1 own [unfolded m] Let_def)
      next
        case tok: (Inr k)
        then have k: "k = Suc (kt_streams t)" by simp
        show ?thesis
        proof (cases "increment_bounded (sm_streams sm) (lc_max_streams_global (sm_limits sm))")
          case (Inl e)
          then show ?thesis
            using res ok lk undo2 by (cases ro) (auto simp: reserve_stream_def ob c1(2) f1 own [unfolded m] tok [unfolded k] Let_def)
        next
          case (Inr j)
          then show ?thesis
            using res ok own tok False by (cases ro) (auto simp: reserve_stream_def ob)
        qed
      qed
    qed
    then show ?thesis unfolding sm1 by (intro refused [of "projl r" scan]) auto
  qed
qed

lemma accounted_scan:
  "token_accounted limits s k (t\<lparr>kt_scan := scan\<rparr>) = token_accounted limits s k t"
  by (simp add: token_accounted_def)

lemma bandwidth_acquire_quota:
  assumes "bandwidth_acquire amount delay b = (r, b')" "bl_used b \<le> bl_total_limit b"
  shows "bl_used b' \<le> bl_total_limit b'" "bl_total_limit b' = bl_total_limit b"
    "r = Inr () \<Longrightarrow> unat (bl_used b') = unat (bl_used b) + amount"
proof -
  show "bl_used b' \<le> bl_total_limit b'" "bl_total_limit b' = bl_total_limit b"
    using assms by (auto simp: bandwidth_acquire_def split: if_splits option.splits)
  assume r: "r = Inr ()"
  then have a: "amount \<le> usize_max" and n: "checked_add_u64 (bl_used b) (word_of_nat amount) = Some (bl_used b')"
    using assms(1) by (auto simp: bandwidth_acquire_def split: if_splits option.splits)
  have "unat (word_of_nat amount :: u64) = amount" using a by (simp add: unat_of_nat take_bit_nat_eq_self)
  then show "unat (bl_used b') = unat (bl_used b) + amount" using checked_add_u64_SomeD [OF n] by metis
qed

lemma gs_inv_register:
  assumes inv: "gs_inv s" and fresh: "i |\<notin>| fmdom (gs_leases s)" "a |\<notin>| fmdom (sm_counters (gs_manager s))"
    and time: "now + 86400 * 1000000000 \<le> system_time_max"
    and reg: "register hmac now now' started a handle token grant (gs_manager s) = (r, sm)"
  shows "gs_inv (s\<lparr>gs_manager := sm, gs_leases := keep_lease i r (gs_leases s)\<rparr>)"
proof -
  note ttl = ttl_fits [OF gs_invD(1) [OF inv] time]
  from reg ttl show ?thesis
  proof (cases rule: register_cases)
    case (unchanged e)
    then show ?thesis using inv by (simp add: keep_lease_def)
  next
    case (purged e)
    show ?thesis
      by (rule gs_inv_purged [OF inv, where now = now' and d = "sm_draining (gs_manager s)"])
        (use purged in \<open>simp_all add: keep_lease_def\<close>)
  next
    case (refused e key)
    then show ?thesis
      using gs_inv_prepared [OF inv refused(3), of started grant] by (simp add: keep_lease_def)
  next
    case (granted l key)
    let ?p = "s\<lparr>gs_manager := prepared now' started grant key (gs_manager s)\<rparr>"
    have "gs_inv ?p" by (rule gs_inv_prepared [OF inv granted(4)])
    then show ?thesis
      by (rule gs_inv_add_lease [where l = l and i = i and t = "token_for now' started grant key (gs_manager s)"])
        (use granted fresh in \<open>simp_all add: prepared_def keep_lease_def\<close>)
  qed
qed

lemma gs_inv_reserve:
  assumes inv: "gs_inv s" and l: "fmlookup (gs_leases s) j = Some l" and fresh: "i |\<notin>| fmdom (gs_streams s)"
    and res: "reserve_stream hmac now now_i bucket l material (gs_manager s) = (r, sm)"
  shows "gs_inv (s\<lparr>gs_manager := sm, gs_streams := keep_lease i r (gs_streams s)\<rparr>)"
proof -
  obtain t where t: "fmlookup (sm_tokens (gs_manager s)) (ds_token_key l) = Some t"
    using gs_invD(9) [OF inv l] by (metis fmlookup_dom_iff)
  obtain n where n: "fmlookup (sm_counters (gs_manager s)) (ds_streams l) = Some n"
    using gs_invD(9) [OF inv l] by (metis fmlookup_dom_iff)
  have scanned: "gs_inv (s\<lparr>gs_manager := update_token (ds_token_key l) (\<lambda>t. t\<lparr>kt_scan := scan\<rparr>) (gs_manager s)\<rparr>)" for scan
    by (rule gs_inv_update_token [OF inv]) (simp add: accounted_scan)
  from res t n show ?thesis
  proof (cases rule: reserve_stream_cases)
    case (unchanged e)
    then show ?thesis using inv by (simp add: keep_lease_def)
  next
    case (refused e scan)
    then show ?thesis using scanned by (simp add: keep_lease_def)
  next
    case (granted scan)
    show ?thesis
      by (rule gs_inv_add_stream [OF scanned [of scan], where i = i and n = n and
            t = "t\<lparr>kt_scan := scan\<rparr>" and l = "\<lparr>st_token_key = ds_token_key l, st_session_streams = ds_streams l\<rparr>"])
        (use granted fresh t n in \<open>simp_all add: keep_lease_def\<close>)
  qed
qed

lemma gs_inv_acquire:
  assumes inv: "gs_inv s" and acq: "acquire_bandwidth now amount delay l (gs_manager s) = (r, sm)"
  shows "gs_inv (s\<lparr>gs_manager := sm\<rparr>)"
proof -
  have "sm = gs_manager s \<or> (\<exists>t b. fmlookup (sm_tokens (gs_manager s)) (ds_token_key l) = Some t \<and>
      bandwidth_acquire amount delay (kt_bandwidth t) = (r, b) \<and>
      sm = update_token (ds_token_key l) (\<lambda>t. t\<lparr>kt_bandwidth := b\<rparr>) (gs_manager s))"
    using acq by (auto simp: acquire_bandwidth_def tryE_def split: sum.splits option.splits prod.splits)
  then show ?thesis
  proof (elim disjE exE conjE)
    fix t b assume t: "fmlookup (sm_tokens (gs_manager s)) (ds_token_key l) = Some t"
      "bandwidth_acquire amount delay (kt_bandwidth t) = (r, b)"
      "sm = update_token (ds_token_key l) (\<lambda>t. t\<lparr>kt_bandwidth := b\<rparr>) (gs_manager s)"
    show ?thesis
      unfolding t(3)
    proof (rule gs_inv_update_token [OF inv])
      fix x assume "fmlookup (sm_tokens (gs_manager s)) (ds_token_key l) = Some x"
        "token_accounted (sm_limits (gs_manager s)) s (ds_token_key l) x"
      then show "token_accounted (sm_limits (gs_manager s)) s (ds_token_key l) (x\<lparr>kt_bandwidth := b\<rparr>)"
        using bandwidth_acquire_quota(1,2) [OF t(2)] t(1) by (auto simp: token_accounted_def)
    qed
  qed (use inv in simp)
qed

lemma gs_inv_step:
  assumes inv: "gs_inv s" and "gs_step s u"
  shows "gs_inv u"
  using assms(2)
proof cases
  case gs_register
  then show ?thesis using gs_inv_register [OF inv] by blast
next
  case gs_reserve
  then show ?thesis using gs_inv_reserve [OF inv] by blast
next
  case gs_acquire
  then show ?thesis using gs_inv_acquire [OF inv] by blast
next
  case (gs_drop_session i l)
  then show ?thesis by (intro gs_inv_drop_lease [OF inv]) simp_all
next
  case (gs_drop_stream i l)
  then show ?thesis by (intro gs_inv_drop_stream [OF inv]) simp_all
next
  case (gs_purge now)
  show ?thesis
    by (rule gs_inv_purged [OF inv, where now = now and d = "sm_draining (gs_manager s)"])
      (simp_all add: gs_purge purge_expired_def)
next
  case (gs_drain d)
  have c: "token_accounted limits u = token_accounted limits s" "session_streams a u = session_streams a s" for limits a
    by (rule accounted_cong; simp add: gs_drain)+
  show ?thesis using inv unfolding gs_inv_def Let_def c by (simp add: gs_drain set_draining_def)
qed

interpretation gsm: invariant_machine gs_start gs_step gs_inv
  by unfold_locales (blast intro: gs_inv_start gs_inv_step)+

section \<open>Property\<close>


section \<open>An example\<close>

definition example_grant :: authentication_grant where
  "example_grant = \<lparr>gr_expires_at = 5000000000, gr_capabilities = [''tcp-connect-v1''],
     gr_limits = \<lparr>tm_max_sessions = 1, tm_max_concurrent_streams = 1, tm_connections_per_second = 10,
       tm_connection_burst = 10, tm_bytes_per_second = 1000000, tm_bandwidth_burst_bytes = 1000000,
       tm_total_bytes = 10000000\<rparr>\<rparr>"

definition example_manager :: session_manager where
  "example_manager = \<lparr>sm_limits = default_limit_config, sm_hash_key = [1], sm_tokens = fmempty, sm_sessions = 0,
     sm_streams = 0, sm_draining = False, sm_counters = fmempty\<rparr>"

definition example_sessions :: gateway_sessions where
  "example_sessions = \<lparr>gs_manager = example_manager, gs_leases = fmempty, gs_streams = fmempty\<rparr>"

lemma example_sessions_start: "gs_start example_sessions"
  unfolding gs_start_def
  by (intro exI [of _ default_limit_config] exI [of _ "[1]"])
    (simp add: default_limits_ok manager_new_def example_sessions_def example_manager_def)

lemma example_registers:
  "\<exists>l sm. register (\<lambda>_ m. m) 0 0 0 7 (Some [3]) [9] example_grant example_manager = (Inr l, sm)"
  by (simp add: register_def admit_session_def example_manager_def example_grant_def validate_grant_def ascii_defs
      increment_bounded_def checked_add_usize_def default_limit_config_def fcard_fempty purge_token_map_def
      create_token_state_def effective_limits_def bandwidth_new_def io_timeout_def duration_from_millis_def
      duration_from_secs_def system_time_max_def Let_def)


end
