(* ===== verification/Gateway_Dns.thy ===== *)
theory Gateway_Dns
  imports Gateway_Config "HOL-Library.Product_Lexorder"
begin

text \<open>
  The resolver of the gateway daemon (\<open>src/crates/gateway-daemon/src/dns.rs\<close>): queries, the
  bounded parser of responses with its compression pointers, the chase of aliases, the lookup
  that is repeated before a connection is made, and the exchange of a client's query. The
  transport and the random source are arguments: \<open>transport\<close> and \<open>random\<close> act on a state \<open>'w\<close>
  of the outside world and return what they read, so that the theorems hold for every
  upstream, also for one that answers differently each time.

  The theorems: the loop over aliases ends after at most one query per alias, every address
  that leaves the resolver passed the address filter, a query that is written is read back,
  and a name of more than sixteen labels, which the filter accepts, can never be resolved.
\<close>

section \<open>Types and constants\<close>

abbreviation DNS_HEADER_BYTES :: nat where
  "DNS_HEADER_BYTES \<equiv> 12"

definition TYPE_A :: u16 where "TYPE_A = 1"
definition TYPE_CNAME :: u16 where "TYPE_CNAME = 5"
definition TYPE_AAAA :: u16 where "TYPE_AAAA = 28"
definition CLASS_IN :: u16 where "CLASS_IN = 1"

lemmas dns_codes = TYPE_A_def TYPE_CNAME_def TYPE_AAAA_def CLASS_IN_def

text \<open>\<open>IpAddr\<close> is ordered: version 4 first, then by the octets.\<close>

instantiation ip_addr :: linorder
begin

fun less_eq_ip_addr :: "ip_addr \<Rightarrow> ip_addr \<Rightarrow> bool" where
  "less_eq_ip_addr (V4 a) (V4 b) = (a \<le> b)"
| "less_eq_ip_addr (V4 _) (V6 _) = True"
| "less_eq_ip_addr (V6 _) (V4 _) = False"
| "less_eq_ip_addr (V6 a) (V6 b) = (a \<le> b)"

definition less_ip_addr :: "ip_addr \<Rightarrow> ip_addr \<Rightarrow> bool" where
  "less_ip_addr a b = (a \<le> b \<and> \<not> b \<le> a)"

instance
proof
  fix x y z :: ip_addr
  show "(x < y) = (x \<le> y \<and> \<not> y \<le> x)" by (rule less_ip_addr_def)
  show "x \<le> x" by (cases x) simp_all
  show "x \<le> y \<Longrightarrow> y \<le> z \<Longrightarrow> x \<le> z"
    by (cases x; cases y; cases z) (auto simp del: less_eq_prod_simp intro: order_trans)
  show "x \<le> y \<Longrightarrow> y \<le> x \<Longrightarrow> x = y"
    by (cases x; cases y) (simp_all del: less_eq_prod_simp)
  show "x \<le> y \<or> y \<le> x"
    by (cases x; cases y) (simp_all add: linear del: less_eq_prod_simp)
qed

end

record resolution =
  rs_addresses :: "ip_addr list"
  rs_cname_depth :: nat
  rs_response_bytes :: nat

record client_question =
  cq_id :: u16
  cq_name :: string

datatype answer_data = AddressData ip_addr | CnameData string | OtherData

record answer_record =
  ar_owner :: string
  ar_data :: answer_data

record parsed_response =
  pr_addresses :: "ip_addr list"
  pr_all_addresses :: "ip_addr list"
  pr_terminal_name :: string
  pr_cname_depth :: nat

section \<open>Writing a query\<close>

text \<open>\<open>str::as_bytes\<close> of an ASCII string, and \<open>str::from_utf8\<close> of ASCII bytes.\<close>

definition name_bytes :: "string \<Rightarrow> bytes" where
  "name_bytes s = map (\<lambda>c. word_of_nat (byte_of c)) s"

definition name_of_bytes :: "bytes \<Rightarrow> string" where
  "name_of_bytes bs = map (\<lambda>b. char_of (unat b)) bs"

fun encode_labels :: "string list \<Rightarrow> bytes \<Rightarrow> gateway_error_code + bytes" where
  "encode_labels [] output = Inr (output @ [0])"
| "encode_labels (label # labels) output =
     (if 255 < length label \<or> length label = 0 \<or> 63 < length label then Inl DnsFailure
      else encode_labels labels (output @ [word_of_nat (length label)] @ name_bytes label))"

definition encode_name :: "string \<Rightarrow> bytes \<Rightarrow> gateway_error_code + bytes" where
  "encode_name hostname output = encode_labels (split_on (CHR ''.'') hostname) output"

definition build_query :: "u16 \<Rightarrow> string \<Rightarrow> u16 \<Rightarrow> gateway_error_code + bytes" where
  "build_query ident hostname record_type =
     (let query = u16_be_bytes ident @ u16_be_bytes 0x0100 @ u16_be_bytes 1 @ replicate 6 0 in
      bindE (encode_name hostname query) (\<lambda>query.
      Inr (query @ u16_be_bytes record_type @ u16_be_bytes CLASS_IN)))"

section \<open>Reading\<close>

definition read_u16 :: "bytes \<Rightarrow> nat \<Rightarrow> gateway_error_code + u16" where
  "read_u16 wire offset =
     (if offset + 2 \<le> length wire then Inr (be_u16 (wire ! offset) (wire ! (offset + 1))) else Inl DnsFailure)"

definition get_byte :: "bytes \<Rightarrow> nat \<Rightarrow> gateway_error_code + u8" where
  "get_byte wire i = (if i < length wire then Inr (wire ! i) else Inl DnsFailure)"

definition alnum_or_hyphen :: "u8 \<Rightarrow> bool" where
  "alnum_or_hyphen b \<longleftrightarrow>
     48 \<le> unat b \<and> unat b \<le> 57 \<or> 65 \<le> unat b \<and> unat b \<le> 90 \<or> 97 \<le> unat b \<and> unat b \<le> 122 \<or> b = 45"

definition label_acceptable :: "bytes \<Rightarrow> bool" where
  "label_acceptable label \<longleftrightarrow>
     \<not> (63 < length label \<or> \<not> list_all alnum_or_hyphen label \<or>
        label \<noteq> [] \<and> hd label = 45 \<or> label \<noteq> [] \<and> last label = 45)"

text \<open>\<open>labels.join(".")\<close>\<close>

fun join_dots :: "string list \<Rightarrow> string" where
  "join_dots [] = []"
| "join_dots [l] = l"
| "join_dots (l # ls) = l @ CHR ''.'' # join_dots ls"

text \<open>
  The loop of \<open>read_name\<close>. The first argument counts the iterations that are left of
  \<open>0..=16\<close>, which labels and pointers share.
\<close>

primrec read_name_loop ::
  "nat \<Rightarrow> bytes \<Rightarrow> nat \<Rightarrow> nat option \<Rightarrow> string list \<Rightarrow> nat fset \<Rightarrow> nat \<Rightarrow> gateway_error_code + (string \<times> nat)" where
  "read_name_loop 0 wire cursor consumed_end labels visited expanded = Inl DnsFailure"
| "read_name_loop (Suc n) wire cursor consumed_end labels visited expanded =
     (if cursor |\<in>| visited then Inl DnsFailure
      else
        let visited = finsert cursor visited in
        bindE (get_byte wire cursor) (\<lambda>len.
        if len AND 0xc0 = 0xc0 then
          bindE (get_byte wire (cursor + 1)) (\<lambda>second.
          let target = unat (push_bit 8 (ucast (len AND 0x3f) :: u16) OR ucast second) in
          if length wire \<le> target then Inl DnsFailure
          else read_name_loop n wire target
                 (case consumed_end of None \<Rightarrow> Some (cursor + 2) | Some e \<Rightarrow> Some e) labels visited expanded)
        else if len AND 0xc0 \<noteq> 0 then Inl DnsFailure
        else
          let cursor = cursor + 1 in
          if len = 0 then
            (if labels = [] \<or> 253 < expanded then Inl DnsFailure
             else Inr (join_dots labels, case consumed_end of None \<Rightarrow> cursor | Some e \<Rightarrow> e))
          else
            bindE (ok_or (checked_add_usize cursor (unat len)) DnsFailure) (\<lambda>finish.
            if length wire < finish then Inl DnsFailure
            else
              let label = take (unat len) (drop cursor wire) in
              if \<not> label_acceptable label then Inl DnsFailure
              else
                let labels = labels @ [to_ascii_lowercase (name_of_bytes label)] in
                bindE (ok_or (checked_add_usize expanded (unat len + (if 1 < length labels then 1 else 0)))
                         DnsFailure) (\<lambda>expanded.
                read_name_loop n wire finish consumed_end labels visited expanded))))"

definition read_name :: "bytes \<Rightarrow> nat \<Rightarrow> gateway_error_code + (string \<times> nat)" where
  "read_name wire start = read_name_loop 17 wire start None [] {||} 0"

definition validate_client_query :: "bytes \<Rightarrow> nat \<Rightarrow> gateway_error_code + client_question" where
  "validate_client_query query max_bytes =
     (if length query < DNS_HEADER_BYTES \<or> max_bytes < length query then Inl MessageTooLarge
      else
        bindE (read_u16 query 2) (\<lambda>flags.
        bindE (read_u16 query 4) (\<lambda>questions.
        bindE (read_u16 query 6) (\<lambda>answers.
        bindE (read_u16 query 8) (\<lambda>authorities.
        bindE (read_u16 query 10) (\<lambda>additional.
        if flags AND 0x8000 \<noteq> 0 \<or> questions \<noteq> 1 \<or> answers \<noteq> 0 \<or> authorities \<noteq> 0 \<or> additional \<noteq> 0
        then Inl ProtocolViolation
        else
          bindE (read_name query DNS_HEADER_BYTES) (\<lambda>(name, cursor).
          if cursor + 4 \<noteq> length query then Inl ProtocolViolation
          else
            bindE (canonical_hostname name) (\<lambda>_.
            bindE (read_u16 query 0) (\<lambda>ident.
            Inr \<lparr>cq_id = ident, cq_name = name\<rparr>)))))))))"

section \<open>Responses\<close>

definition ipv6_of_bytes :: "bytes \<Rightarrow> ipv6_addr" where
  "ipv6_of_bytes o16 =
     (be_u16 (o16 ! 0) (o16 ! 1), be_u16 (o16 ! 2) (o16 ! 3), be_u16 (o16 ! 4) (o16 ! 5),
      be_u16 (o16 ! 6) (o16 ! 7), be_u16 (o16 ! 8) (o16 ! 9), be_u16 (o16 ! 10) (o16 ! 11),
      be_u16 (o16 ! 12) (o16 ! 13), be_u16 (o16 ! 14) (o16 ! 15))"

text \<open>The data of one record, between \<open>cursor\<close> and \<open>data_end\<close>.\<close>

definition read_data :: "bytes \<Rightarrow> nat \<Rightarrow> nat \<Rightarrow> u16 \<Rightarrow> u16 \<Rightarrow> gateway_error_code + answer_data" where
  "read_data wire cursor data_length record_type class_code =
     (let data_end = cursor + data_length in
      if class_code = CLASS_IN \<and> record_type = TYPE_A \<and> data_length = 4 then
        Inr (AddressData (V4 (wire ! cursor, wire ! (cursor + 1), wire ! (cursor + 2), wire ! (cursor + 3))))
      else if class_code = CLASS_IN \<and> record_type = TYPE_AAAA \<and> data_length = 16 then
        Inr (AddressData (V6 (ipv6_of_bytes (take 16 (drop cursor wire)))))
      else if class_code = CLASS_IN \<and> record_type = TYPE_CNAME then
        bindE (read_name wire cursor) (\<lambda>(target, consumed).
        if consumed \<noteq> data_end then Inl DnsFailure else Inr (CnameData target))
      else Inr OtherData)"

text \<open>
  The loop over the records. \<open>answers_left\<close> of the \<open>left\<close> records still belong to the answer
  section (\<open>index < ancount\<close>).
\<close>

primrec read_records ::
  "nat \<Rightarrow> nat \<Rightarrow> bytes \<Rightarrow> nat \<Rightarrow> answer_record list \<Rightarrow> ip_addr list \<Rightarrow>
     gateway_error_code + (answer_record list \<times> ip_addr list \<times> nat)" where
  "read_records 0 answers_left wire cursor answers all_addresses = Inr (answers, all_addresses, cursor)"
| "read_records (Suc left) answers_left wire cursor answers all_addresses =
     bindE (read_name wire cursor) (\<lambda>(owner, cursor).
     if length wire < cursor + 10 then Inl DnsFailure
     else
       bindE (read_u16 wire cursor) (\<lambda>record_type.
       bindE (read_u16 wire (cursor + 2)) (\<lambda>class_code.
       bindE (read_u16 wire (cursor + 8)) (\<lambda>data_length.
       let cursor = cursor + 10 in
       bindE (ok_or (checked_add_usize cursor (unat data_length)) DnsFailure) (\<lambda>data_end.
       if length wire < data_end then Inl DnsFailure
       else
         bindE (read_data wire cursor (unat data_length) record_type class_code) (\<lambda>data.
         let all_addresses = (case data of AddressData a \<Rightarrow> all_addresses @ [a] | _ \<Rightarrow> all_addresses);
             answers = (if 0 < answers_left then answers @ [\<lparr>ar_owner = owner, ar_data = data\<rparr>] else answers) in
         read_records left (answers_left - 1) wire data_end answers all_addresses))))))"

definition addresses_of :: "string \<Rightarrow> answer_record list \<Rightarrow> ip_addr list" where
  "addresses_of name answers =
     List.map_filter (\<lambda>r. case ar_data r of AddressData a \<Rightarrow> Some a | _ \<Rightarrow> None)
       (filter (\<lambda>r. ar_owner r = name) answers)"

definition aliases_of :: "string \<Rightarrow> answer_record list \<Rightarrow> string list" where
  "aliases_of name answers =
     List.map_filter (\<lambda>r. case ar_data r of CnameData t \<Rightarrow> Some t | _ \<Rightarrow> None)
       (filter (\<lambda>r. ar_owner r = name) answers)"

function chase ::
  "answer_record list \<Rightarrow> ip_addr list \<Rightarrow> string fset \<Rightarrow> string \<Rightarrow> nat \<Rightarrow> gateway_error_code + parsed_response" where
  "chase answers all_addresses visited current depth =
     (if current |\<in>| visited then Inl DnsFailure
      else
        let visited = finsert current visited; addresses = addresses_of current answers in
        if addresses \<noteq> [] then
          Inr \<lparr>pr_addresses = addresses, pr_all_addresses = all_addresses, pr_terminal_name = current,
               pr_cname_depth = depth\<rparr>
        else
          let aliases = aliases_of current answers in
          if aliases = [] then
            Inr \<lparr>pr_addresses = [], pr_all_addresses = all_addresses, pr_terminal_name = current,
                 pr_cname_depth = depth\<rparr>
          else if length aliases \<noteq> 1 then Inl DnsFailure
          else if 16 < depth + 1 then Inl DnsFailure
          else chase answers all_addresses visited (aliases ! 0) (depth + 1))"
  by pat_completeness auto

termination
  by (relation "measure (\<lambda>(_, _, _, _, depth). 17 - depth)") auto

declare chase.simps [simp del]

definition parse_response :: "bytes \<Rightarrow> u16 \<Rightarrow> string \<Rightarrow> nat \<Rightarrow> gateway_error_code + parsed_response" where
  "parse_response wire expected_id expected_name max_records =
     (if length wire < DNS_HEADER_BYTES then Inl DnsFailure
      else
        bindE (read_u16 wire 0) (\<lambda>ident.
        if ident \<noteq> expected_id then Inl DnsFailure
        else
          bindE (read_u16 wire 2) (\<lambda>flags.
          bindE (read_u16 wire 4) (\<lambda>qdcount.
          bindE (read_u16 wire 6) (\<lambda>ancount.
          bindE (read_u16 wire 8) (\<lambda>nscount.
          bindE (read_u16 wire 10) (\<lambda>arcount.
          let total_records = unat ancount + unat nscount + unat arcount in
          if flags AND 0x8000 = 0 \<or> flags AND 0x000f \<noteq> 0 \<or> qdcount \<noteq> 1 \<or> max_records < total_records
          then Inl DnsFailure
          else
            bindE (read_name wire DNS_HEADER_BYTES) (\<lambda>(question_name, cursor).
            if question_name \<noteq> expected_name \<or> length wire < cursor + 4 then Inl DnsFailure
            else
              bindE (read_records total_records (unat ancount) wire (cursor + 4) [] []) (\<lambda>(answers, all_addresses, cursor).
              if cursor \<noteq> length wire then Inl DnsFailure
              else chase answers all_addresses {||} expected_name 0)))))))))"

section \<open>Following aliases\<close>

lemma chase_cases:
  assumes "chase answers all_addresses visited current depth = Inr p"
  obtains (stop) "pr_addresses p = addresses_of current answers" "pr_all_addresses p = all_addresses"
      "pr_terminal_name p = current" "pr_cname_depth p = depth"
    | (follow) target where "current |\<notin>| visited" "addresses_of current answers = []"
      "aliases_of current answers = [target]" "depth < 16"
      "chase answers all_addresses (finsert current visited) target (depth + 1) = Inr p"
  using assms by (subst (asm) chase.simps) (auto simp: Let_def length_Suc_conv split: if_splits)

lemma chase_progress:
  "chase answers all_addresses visited current depth = Inr p \<Longrightarrow>
     depth \<le> pr_cname_depth p \<and> pr_cname_depth p \<le> max 16 depth \<and>
     (pr_cname_depth p = depth \<longrightarrow> pr_terminal_name p = current)"
proof (induction "17 - depth" arbitrary: visited current depth rule: less_induct)
  case less
  from less.prems show ?case
  proof (cases rule: chase_cases)
    case (follow target)
    have "17 - (depth + 1) < 17 - depth" using follow(4) by simp
    from less.hyps [OF this follow(5)] follow(4) show ?thesis by auto
  qed auto
qed

lemma parse_response_chase:
  assumes "parse_response wire ident name max_records = Inr p"
  obtains answers all_addresses where "chase answers all_addresses {||} name 0 = Inr p"
  using assms by (auto simp: parse_response_def result_simps Let_def split: if_splits prod.splits)

lemma parse_response_progress:
  assumes "parse_response wire ident name max_records = Inr p" "pr_terminal_name p \<noteq> name"
  shows "0 < pr_cname_depth p"
proof -
  obtain answers all_addresses where "chase answers all_addresses {||} name 0 = Inr p"
    by (rule parse_response_chase [OF assms(1)])
  from chase_progress [OF this] show ?thesis using assms(2) by auto
qed

section \<open>The resolver\<close>

text \<open>
  The resolver with the code it calls: how a network contains an address, the transport and
  the random source. Its state is the cursor over the upstreams and the outside world.
\<close>

record ('net, 'w) wire_resolver =
  wr_config :: dns_config
  wr_acl :: "'net acl_engine"
  wr_contains :: "'net \<Rightarrow> ip_addr \<Rightarrow> bool"
  wr_transport :: "socket_addr \<Rightarrow> bytes \<Rightarrow> nat \<Rightarrow> duration \<Rightarrow> 'w \<Rightarrow> (gateway_error_code + bytes) \<times> 'w"
  wr_random :: "'w \<Rightarrow> (u8 \<times> u8) option \<times> 'w"

type_synonym 'w dns_world = "nat \<times> 'w"

definition resolver_new ::
  "dns_config \<Rightarrow> 'net acl_engine \<Rightarrow> ('net \<Rightarrow> ip_addr \<Rightarrow> bool) \<Rightarrow>
     (socket_addr \<Rightarrow> bytes \<Rightarrow> nat \<Rightarrow> duration \<Rightarrow> 'w \<Rightarrow> (gateway_error_code + bytes) \<times> 'w) \<Rightarrow>
     ('w \<Rightarrow> (u8 \<times> u8) option \<times> 'w) \<Rightarrow> gateway_error_code + ('net, 'w) wire_resolver" where
  "resolver_new config acl contains transport random =
     (if dn_upstreams config = [] then Inl InvalidConfiguration
      else Inr \<lparr>wr_config = config, wr_acl = acl, wr_contains = contains, wr_transport = transport,
                wr_random = random\<rparr>)"

definition random_id :: "('net, 'w) wire_resolver \<Rightarrow> 'w dns_world \<Rightarrow> (gateway_error_code + u16) \<times> 'w dns_world" where
  "random_id r s =
     (case wr_random r (snd s) of
        (None, w) \<Rightarrow> (Inl Internal, (fst s, w))
      | (Some (a, b), w) \<Rightarrow> (Inr (be_u16 a b), (fst s, w)))"

definition exchange ::
  "('net, 'w) wire_resolver \<Rightarrow> bytes \<Rightarrow> 'w dns_world \<Rightarrow> (gateway_error_code + bytes) \<times> 'w dns_world" where
  "exchange r query s =
     (let config = wr_config r; index = fst s mod length (dn_upstreams config);
          cursor = (fst s + 1) mod (usize_max + 1);
          (response, w) = wr_transport r (dn_upstreams config ! index) query (dn_max_response_bytes config)
            (dns_timeout config) (snd s) in
      (response, (cursor, w)))"

declare bindS_cong [fundef_cong] tryE_cong [fundef_cong]

function lookup_loop ::
  "('net, 'w) wire_resolver \<Rightarrow> u16 \<Rightarrow> string fset \<Rightarrow> string \<Rightarrow> nat \<Rightarrow> nat \<Rightarrow> 'w dns_world \<Rightarrow>
     (gateway_error_code + resolution) \<times> 'w dns_world" where
  "lookup_loop r record_type visited current total_depth response_bytes s =
     (if current |\<in>| visited \<or> dn_max_cname_depth (wr_config r) < total_depth then (Inl DnsFailure, s)
      else
        bindS (random_id r s) (\<lambda>ident s.
        tryE (build_query ident current record_type) s (\<lambda>query.
        bindS (exchange r query s) (\<lambda>response s.
        tryE (ok_or (checked_add_usize response_bytes (length response)) MessageTooLarge) s (\<lambda>bytes.
        tryE (parse_response response ident current (dn_max_records (wr_config r))) s (\<lambda>parsed.
        tryE (ok_or (checked_add_usize total_depth (pr_cname_depth parsed)) DnsFailure) s (\<lambda>depth.
        if dn_max_cname_depth (wr_config r) < depth then (Inl DnsFailure, s)
        else if pr_addresses parsed \<noteq> [] then
          (Inr \<lparr>rs_addresses = pr_addresses parsed, rs_cname_depth = depth, rs_response_bytes = bytes\<rparr>, s)
        else if pr_terminal_name parsed = current then
          (Inr \<lparr>rs_addresses = [], rs_cname_depth = depth, rs_response_bytes = bytes\<rparr>, s)
        else lookup_loop r record_type (finsert current visited) (pr_terminal_name parsed) depth bytes s)))))))"
  by pat_completeness auto

termination
  by (relation "measure (\<lambda>(r, _, _, _, total_depth, _, _). Suc (dn_max_cname_depth (wr_config r)) - total_depth)")
    (auto dest: parse_response_progress)

declare lookup_loop.simps [simp del]

definition lookup_type ::
  "('net, 'w) wire_resolver \<Rightarrow> string \<Rightarrow> u16 \<Rightarrow> 'w dns_world \<Rightarrow> (gateway_error_code + resolution) \<times> 'w dns_world" where
  "lookup_type r hostname record_type s = lookup_loop r record_type {||} hostname 0 0 s"

definition lookup ::
  "('net, 'w) wire_resolver \<Rightarrow> string \<Rightarrow> 'w dns_world \<Rightarrow> (gateway_error_code + resolution) \<times> 'w dns_world" where
  "lookup r hostname s =
     bindS (lookup_type r hostname TYPE_A s) (\<lambda>a s.
     bindS (lookup_type r hostname TYPE_AAAA s) (\<lambda>aaaa s.
     tryE (ok_or (checked_add_usize (rs_response_bytes a) (rs_response_bytes aaaa)) MessageTooLarge) s (\<lambda>response_bytes.
     let cname_depth = max (rs_cname_depth a) (rs_cname_depth aaaa);
         addresses = remdups_adj (sort (rs_addresses a @ rs_addresses aaaa)) in
     if addresses = [] \<or> dn_max_addresses (wr_config r) < length addresses then (Inl DnsFailure, s)
     else (Inr \<lparr>rs_addresses = addresses, rs_cname_depth = cname_depth, rs_response_bytes = response_bytes\<rparr>, s))))"

definition rebinding_check :: "('net, 'w) wire_resolver \<Rightarrow> ip_addr \<Rightarrow> gateway_error_code + unit" where
  "rebinding_check r address =
     (case check_ip (wr_contains r) (wr_acl r) address of Inl _ \<Rightarrow> Inl DnsRebinding | Inr u \<Rightarrow> Inr u)"

definition validate_resolution :: "('net, 'w) wire_resolver \<Rightarrow> resolution \<Rightarrow> gateway_error_code + unit" where
  "validate_resolution r resolution =
     (if rs_addresses resolution = [] \<or> dn_max_addresses (wr_config r) < length (rs_addresses resolution) \<or>
         dn_max_cname_depth (wr_config r) < rs_cname_depth resolution \<or>
         dn_max_response_bytes (wr_config r) * 4 < rs_response_bytes resolution
      then Inl DnsFailure
      else for_all (rebinding_check r) (rs_addresses resolution))"

definition resolve_for_connect ::
  "('net, 'w) wire_resolver \<Rightarrow> string \<Rightarrow> 'w dns_world \<Rightarrow> (gateway_error_code + resolution) \<times> 'w dns_world" where
  "resolve_for_connect r hostname s =
     tryE (canonical_hostname hostname) s (\<lambda>hostname.
     bindS (lookup r hostname s) (\<lambda>first s.
     tryE (validate_resolution r first) s (\<lambda>_.
     if \<not> dn_revalidate (wr_config r) then (Inr first, s)
     else
       bindS (lookup r hostname s) (\<lambda>second s.
       tryE (validate_resolution r second) s (\<lambda>_. (Inr second, s))))))"

definition exchange_wire ::
  "('net, 'w) wire_resolver \<Rightarrow> bytes \<Rightarrow> 'w dns_world \<Rightarrow> (gateway_error_code + bytes) \<times> 'w dns_world" where
  "exchange_wire r query s =
     tryE (validate_client_query query (dn_max_response_bytes (wr_config r))) s (\<lambda>question.
     bindS (exchange r query s) (\<lambda>response s.
     tryE (parse_response response (cq_id question) (cq_name question) (dn_max_records (wr_config r))) s (\<lambda>parsed.
     if dn_max_cname_depth (wr_config r) < pr_cname_depth parsed then (Inl DnsFailure, s)
     else tryE (for_all (rebinding_check r) (pr_all_addresses parsed)) s (\<lambda>_. (Inr response, s)))))"

section \<open>The datagram transport\<close>

text \<open>
  \<open>UdpTcpDnsTransport\<close>. Each socket operation runs under a timeout; its outcome is an argument:
  the timer elapsed, the operation failed, or it returned a value. A datagram longer than the
  buffer is cut to it by \<open>recv\<close>.
\<close>

datatype 'a io_outcome = Elapsed | Failed | Done 'a

fun within_timeout :: "'a io_outcome \<Rightarrow> gateway_error_code + 'a" where
  "within_timeout Elapsed = Inl Timeout"
| "within_timeout Failed = Inl DnsFailure"
| "within_timeout (Done a) = Inr a"

record udp_outcomes =
  uo_bind :: "unit io_outcome"
  uo_connect :: "unit io_outcome"
  uo_send :: "unit io_outcome"
  uo_recv :: "bytes io_outcome"

record tcp_outcomes =
  to_connect :: "unit io_outcome"
  to_send :: "unit io_outcome"
  to_length :: "u16 io_outcome"
  to_body :: "nat \<Rightarrow> bytes io_outcome"

definition exchange_tcp :: "tcp_outcomes \<Rightarrow> bytes \<Rightarrow> nat \<Rightarrow> gateway_error_code + bytes" where
  "exchange_tcp tcp query max_response_bytes =
     bindE (ensure (length query \<le> 65535) MessageTooLarge) (\<lambda>_.
     bindE (within_timeout (to_connect tcp)) (\<lambda>_.
     bindE (within_timeout (to_send tcp)) (\<lambda>_.
     bindE (within_timeout (to_length tcp)) (\<lambda>response_len.
     bindE (ensure (\<not> (unat response_len < DNS_HEADER_BYTES \<or> max_response_bytes < unat response_len)) MessageTooLarge) (\<lambda>_.
     within_timeout (to_body tcp (unat response_len)))))))"

definition udp_exchange :: "udp_outcomes \<Rightarrow> tcp_outcomes \<Rightarrow> bytes \<Rightarrow> nat \<Rightarrow> gateway_error_code + bytes" where
  "udp_exchange udp tcp query max_response_bytes =
     bindE (within_timeout (uo_bind udp)) (\<lambda>_.
     bindE (within_timeout (uo_connect udp)) (\<lambda>_.
     bindE (within_timeout (uo_send udp)) (\<lambda>_.
     bindE (within_timeout (uo_recv udp)) (\<lambda>datagram.
     let response = take (saturating_add_usize max_response_bytes 1) datagram in
     if max_response_bytes < length response \<or> length response < DNS_HEADER_BYTES then Inl MessageTooLarge
     else if be_u16 (response ! 2) (response ! 3) AND 0x0200 = 0 then Inr response
     else exchange_tcp tcp query max_response_bytes))))"

section \<open>What leaves the resolver\<close>

lemma distinct_remdups_adj_sorted: "sorted xs \<Longrightarrow> distinct (remdups_adj xs)"
  by (induction xs rule: remdups_adj.induct) (auto simp: order_antisym)

lemma lookup_Inr:
  assumes "lookup r hostname s = (Inr x, t)"
  shows "sorted (rs_addresses x)" "distinct (rs_addresses x)"
  using assms
  by (auto simp: lookup_def result_simps Let_def distinct_remdups_adj_sorted sorted_remdups_adj split: if_splits)

lemma rebinding_check_Inr:
  "rebinding_check r address = Inr u \<longleftrightarrow> check_ip (wr_contains r) (wr_acl r) address = Inr ()"
  by (auto simp: rebinding_check_def split: sum.splits)

lemma validate_resolution_Inr:
  "validate_resolution r x = Inr u \<longleftrightarrow>
     rs_addresses x \<noteq> [] \<and> length (rs_addresses x) \<le> dn_max_addresses (wr_config r) \<and>
     rs_cname_depth x \<le> dn_max_cname_depth (wr_config r) \<and>
     rs_response_bytes x \<le> dn_max_response_bytes (wr_config r) * 4 \<and>
     (\<forall>a \<in> set (rs_addresses x). check_ip (wr_contains r) (wr_acl r) a = Inr ())"
  by (auto simp: validate_resolution_def for_all_eq_Inr rebinding_check_Inr not_less)

lemma resolve_for_connect_Inr:
  assumes "resolve_for_connect r hostname s = (Inr x, t)"
  obtains u c where "canonical_hostname hostname = Inr c" "lookup r c u = (Inr x, t)" "validate_resolution r x = Inr ()"
  using assms by (cases s) (auto simp: resolve_for_connect_def result_simps split: if_splits)

section \<open>How many queries\<close>

text \<open>The cursor over the upstreams advanced at most \<open>k\<close> times.\<close>

definition advanced :: "nat \<Rightarrow> 'w dns_world \<Rightarrow> 'w dns_world \<Rightarrow> bool" where
  "advanced k s t \<longleftrightarrow> (\<exists>j \<le> k. fst t mod (usize_max + 1) = (fst s + j) mod (usize_max + 1))"

lemma advanced_0 [simp]: "advanced k s s"
  by (auto simp: advanced_def intro: exI [of _ 0])

lemma advanced_trans:
  assumes "advanced j s t" "advanced k t u"
  shows "advanced (j + k) s u"
proof -
  let ?M = "usize_max + 1 :: nat"
  obtain a b where a: "a \<le> j" "fst t mod ?M = (fst s + a) mod ?M" and b: "b \<le> k" "fst u mod ?M = (fst t + b) mod ?M"
    using assms unfolding advanced_def by blast
  have "fst u mod ?M = (fst t mod ?M + b) mod ?M" using b(2) by (simp only: mod_add_left_eq)
  also have "\<dots> = (fst s + (a + b)) mod ?M" unfolding a(2) by (simp only: mod_add_left_eq add.assoc)
  finally show ?thesis unfolding advanced_def using a(1) b(1) by (blast intro: add_mono)
qed

lemma advanced_mono: "advanced j s t \<Longrightarrow> j \<le> k \<Longrightarrow> advanced k s t"
  by (auto simp: advanced_def intro: order_trans)

lemma random_id_advanced: "advanced 0 s (snd (random_id r s))"
  by (auto simp: random_id_def advanced_def split: prod.splits option.splits)

lemma exchange_advanced: "advanced 1 s (snd (exchange r query s))"
  by (auto simp: exchange_def advanced_def Let_def split: prod.splits intro: exI [of _ 1])

text \<open>One turn of the loop, once the response is there.\<close>

lemma lookup_loop_turn:
  assumes "random_id r s = (Inr ident, s1)" "build_query ident current record_type = Inr query"
    "exchange r query s1 = (Inr response, u)"
    "l = lookup_loop r record_type visited current total_depth response_bytes s"
  shows "snd l \<in> {s, u} \<or> (\<exists>target depth bytes. total_depth < depth \<and> depth \<le> dn_max_cname_depth (wr_config r) \<and>
      l = lookup_loop r record_type (finsert current visited) target depth bytes u)"
proof (cases "\<exists>p. parse_response response ident current (dn_max_records (wr_config r)) = Inr p \<and>
    pr_addresses p = [] \<and> pr_terminal_name p \<noteq> current \<and> snd l \<notin> {s, u}")
  case True
  then obtain p where p: "parse_response response ident current (dn_max_records (wr_config r)) = Inr p"
    "pr_addresses p = []" "pr_terminal_name p \<noteq> current" "snd l \<notin> {s, u}"
    by blast
  have "total_depth + pr_cname_depth p \<le> dn_max_cname_depth (wr_config r) \<and>
      l = lookup_loop r record_type (finsert current visited) (pr_terminal_name p) (total_depth + pr_cname_depth p)
        (response_bytes + length response) u"
    using assms(1-3) p trans [OF assms(4) lookup_loop.simps]
    by (simp add: tryE_def split: sum.splits if_splits option.splits)
  then show ?thesis
    using parse_response_progress [OF p(1,3)] by (metis less_add_same_cancel1)
next
  case False
  then have "snd l \<in> {s, u}"
    using assms(1-3) trans [OF assms(4) lookup_loop.simps]
    by (auto simp: tryE_def split: sum.splits if_splits)
  then show ?thesis by blast
qed

lemma lookup_loop_cases:
  obtains (stop) "advanced 1 s (snd (lookup_loop r record_type visited current total_depth response_bytes s))"
    | (follow) target depth bytes u where "advanced 1 s u" "total_depth < depth"
      "depth \<le> dn_max_cname_depth (wr_config r)"
      "lookup_loop r record_type visited current total_depth response_bytes s =
         lookup_loop r record_type (finsert current visited) target depth bytes u"
proof -
  let ?l = "lookup_loop r record_type visited current total_depth response_bytes s"
  obtain x s1 where s1: "random_id r s = (x, s1)" by (cases "random_id r s") auto
  then have a1: "advanced 0 s s1" using random_id_advanced [of s r] by simp
  show thesis
  proof (cases "\<exists>ident query response u. x = Inr ident \<and> build_query ident current record_type = Inr query \<and>
      exchange r query s1 = (Inr response, u)")
    case True
    then obtain ident query response u where t: "x = Inr ident" "build_query ident current record_type = Inr query"
      "exchange r query s1 = (Inr response, u)" by blast
    have u: "advanced 1 s u" using advanced_trans [OF a1 exchange_advanced [of s1 r query]] t(3) by simp
    from lookup_loop_turn [OF s1 [unfolded t(1)] t(2,3) refl, of visited total_depth response_bytes]
    show thesis
    proof (elim disjE exE conjE)
      assume "snd ?l \<in> {s, u}"
      then show thesis using u by (intro that(1)) (auto simp only: insert_iff empty_iff advanced_0)
    qed (rule that(2) [OF u])
  next
    case False
    have "snd ?l \<in> {s, s1} \<union> range (\<lambda>query. snd (exchange r query s1))"
    proof (cases x)
      case (Inr ident)
      show ?thesis
      proof (cases "build_query ident current record_type")
        case query: (Inr query)
        obtain y u where y: "exchange r query s1 = (y, u)" by (cases "exchange r query s1") auto
        then obtain e where "y = Inl e" using False Inr query by (cases y) auto
        then have "snd ?l \<in> {s, u}" using s1 Inr query y by (subst lookup_loop.simps) simp
        moreover have "u = snd (exchange r query s1)" using y by simp
        ultimately show ?thesis by blast
      qed (use s1 Inr in \<open>subst lookup_loop.simps, simp\<close>)
    qed (use s1 in \<open>subst lookup_loop.simps, simp\<close>)
    then have "advanced 1 s (snd ?l)"
      using advanced_mono [OF a1, of 1] advanced_trans [OF a1 exchange_advanced [of s1 r]]
      by (auto simp only: Un_iff insert_iff empty_iff advanced_0 image_iff UNIV_I add_0)
    then show thesis by (rule that(1))
  qed
qed

lemma lookup_loop_advanced:
  "total_depth \<le> dn_max_cname_depth (wr_config r) \<Longrightarrow>
   advanced (Suc (dn_max_cname_depth (wr_config r)) - total_depth) s
     (snd (lookup_loop r record_type visited current total_depth response_bytes s))"
proof (induction "Suc (dn_max_cname_depth (wr_config r)) - total_depth"
    arbitrary: visited current total_depth response_bytes s rule: less_induct)
  case less
  let ?m = "dn_max_cname_depth (wr_config r)"
  show ?case
  proof (cases rule: lookup_loop_cases [of s r record_type visited current total_depth response_bytes])
    case stop
    then show ?thesis by (rule advanced_mono) (use less.prems in simp)
  next
    case (follow target depth bytes u)
    have "advanced (Suc ?m - depth) u (snd (lookup_loop r record_type (finsert current visited) target depth bytes u))"
      by (rule less.hyps) (use follow less.prems in auto)
    from advanced_trans [OF follow(1) this] show ?thesis
      unfolding follow(4) by (rule advanced_mono) (use follow less.prems in auto)
  qed
qed

lemma lookup_advanced: "advanced (2 * Suc (dn_max_cname_depth (wr_config r))) s (snd (lookup r hostname s))"
proof -
  let ?k = "Suc (dn_max_cname_depth (wr_config r))"
  have one: "advanced ?k u (snd (lookup_type r hostname t u))" for t u
    using lookup_loop_advanced [of 0 r u t "{||}" hostname 0] by (simp add: lookup_type_def)
  obtain x s1 where x: "lookup_type r hostname TYPE_A s = (x, s1)" by (cases "lookup_type r hostname TYPE_A s") auto
  obtain y s2 where y: "lookup_type r hostname TYPE_AAAA s1 = (y, s2)" by (cases "lookup_type r hostname TYPE_AAAA s1") auto
  have "advanced ?k s s1" "advanced ?k s1 s2" using one [of s TYPE_A] one [of s1 TYPE_AAAA] x y by simp_all
  then have "advanced (2 * ?k) s s1" "advanced (2 * ?k) s s2"
    using advanced_trans [of ?k s s1 ?k s2] by (auto intro: advanced_mono simp: mult_2)
  then show ?thesis using x y by (cases x; cases y) (auto simp: lookup_def tryE_def Let_def split: sum.splits)
qed

section \<open>The promise of a resolver\<close>

text \<open>
  What a client of a resolver relies on: an answer has an address, and the filter allows every
  address of it.
\<close>

locale checking_resolver =
  fixes resolve :: "string \<Rightarrow> 's \<Rightarrow> (gateway_error_code + resolution) \<times> 's"
    and allowed :: "ip_addr \<Rightarrow> bool"
  assumes answer_nonempty: "resolve hostname s = (Inr x, t) \<Longrightarrow> rs_addresses x \<noteq> []"
    and answer_allowed: "resolve hostname s = (Inr x, t) \<Longrightarrow> a \<in> set (rs_addresses x) \<Longrightarrow> allowed a"
begin

lemma answer_all_allowed: "resolve hostname s = (Inr x, t) \<Longrightarrow> list_all allowed (rs_addresses x)"
  by (simp add: list_all_iff answer_allowed)

end

interpretation wire: checking_resolver "resolve_for_connect r"
    "\<lambda>a. check_ip (wr_contains r) (wr_acl r) a = Inr ()" for r
  by unfold_locales (auto elim!: resolve_for_connect_Inr simp: validate_resolution_Inr)

section \<open>Properties\<close>


section \<open>An example\<close>

text \<open>
  An upstream that answers the question of a query with one public address: it copies the
  identifier and the question and adds a record that points to the name of the question.
\<close>

definition example_answer :: "bytes \<Rightarrow> bytes" where
  "example_answer query =
     take 2 query @ [0x81, 0x80, 0, 1, 0, 1, 0, 0, 0, 0] @ drop 12 query @
     [0xc0, 12, 0, 1, 0, 1, 0, 0, 0, 60, 0, 4, 8, 8, 8, 8]"

definition example_resolver :: "(unit, unit) wire_resolver" where
  "example_resolver =
     \<lparr>wr_config = default_dns_config\<lparr>dn_upstreams := [\<lparr>sa_ip = V4 (9, 9, 9, 9), sa_port = 53\<rparr>]\<rparr>,
      wr_acl = acl_new default_acl_config, wr_contains = (\<lambda>_ _. False),
      wr_transport = (\<lambda>_ query _ _ w. (Inr (example_answer query), w)), wr_random = (\<lambda>w. (Some (7, 9), w))\<rparr>"

definition example_query :: bytes where
  "example_query = [0, 5, 1, 0, 0, 1, 0, 0, 0, 0, 0, 0, 1, 97, 2, 105, 111, 0, 0, 1, 0, 1]"

text \<open>
  C35. The resolver cannot be kept busy by a chain of aliases: to resolve a name it sends at most
  four times as many queries as the configured number of aliases plus one (an address of each
  version, looked up twice), whatever the upstreams answer.
\<close>

theorem resolver_queries_bounded:
  "advanced (4 * Suc (dn_max_cname_depth (wr_config r))) s (snd (resolve_for_connect r hostname s))"
proof (cases "canonical_hostname hostname")
  case (Inr c)
  let ?k = "2 * Suc (dn_max_cname_depth (wr_config r))"
  obtain x s1 where x: "lookup r c s = (x, s1)" by (cases "lookup r c s") auto
  obtain y s2 where y: "lookup r c s1 = (y, s2)" by (cases "lookup r c s1") auto
  have "advanced ?k s s1" "advanced ?k s1 s2" using lookup_advanced [of r s c] lookup_advanced [of r s1 c] x y by simp_all
  then have "advanced (2 * ?k) s s1" "advanced (2 * ?k) s s2"
    using advanced_trans [of ?k s s1 ?k s2] by (auto intro: advanced_mono simp: mult_2)
  moreover have "snd (resolve_for_connect r hostname s) \<in> {s1, s2}"
    using Inr x y by (cases x; cases y) (auto simp: resolve_for_connect_def tryE_def split: sum.splits)
  ultimately have "advanced (2 * ?k) s (snd (resolve_for_connect r hostname s))"
    by (auto simp only: insert_iff empty_iff)
  moreover have "4 * Suc (dn_max_cname_depth (wr_config r)) = 2 * ?k" by simp
  ultimately show ?thesis by (simp only:)
qed (simp add: resolve_for_connect_def)

section \<open>Names are read back\<close>

lemma length_byte:
  assumes "length (l :: string) < 64"
  shows "unat (word_of_nat (length l) :: u8) = length l" "(word_of_nat (length l) :: u8) AND 0xc0 = 0"
proof -
  show u: "unat (word_of_nat (length l) :: u8) = length l" using assms by (simp add: unat_of_nat)
  have "take_bit 6 (word_of_nat (length l) :: u8) = word_of_nat (length l)"
    using assms by (simp add: word_unat_eq_iff unsigned_take_bit_eq u take_bit_nat_eq_self)
  then have "(word_of_nat (length l) :: u8) AND 0xc0 = word_of_nat (length l) AND (mask 6 AND 0xc0)"
    by (metis (no_types) and.assoc take_bit_eq_mask)
  then show "(word_of_nat (length l) :: u8) AND 0xc0 = 0" by (simp add: mask_eq_exp_minus_1)
qed

lemma unat_byte_of: "unat (word_of_nat (byte_of c) :: u8) = byte_of c"
  using nat_of_char_less_256 [of c] by (simp add: unat_of_nat)

lemma name_of_name_bytes [simp]: "name_of_bytes (name_bytes l) = l"
  by (induction l) (simp_all add: name_of_bytes_def name_bytes_def unat_byte_of)

lemma length_name_bytes [simp]: "length (name_bytes l) = length l"
  by (simp add: name_bytes_def)

lemma byte_hyphen: "(word_of_nat (byte_of c) :: u8) = 45 \<longleftrightarrow> c = CHR ''-''"
proof -
  have "(word_of_nat (byte_of c) :: u8) = 45 \<longleftrightarrow> byte_of c = byte_of (CHR ''-'')"
    by (simp add: word_unat_eq_iff unat_byte_of)
  then show ?thesis by (simp only: of_char_eq_iff)
qed

lemma alnum_or_hyphen_char:
  "alnum_or_hyphen (word_of_nat (byte_of c)) \<longleftrightarrow> is_ascii_alphanumeric c \<or> c = CHR ''-''"
  by (auto simp: alnum_or_hyphen_def unat_byte_of byte_hyphen ascii_defs)

lemma label_acceptable_bytes:
  "label_valid l \<Longrightarrow> label_acceptable (name_bytes l)"
  by (auto simp: label_valid_def label_acceptable_def name_bytes_def list_all_iff alnum_or_hyphen_char
      hd_map last_map byte_hyphen starts_with_char_def ends_with_char_def)

definition encoded_labels :: "string list \<Rightarrow> bytes" where
  "encoded_labels ls = concat (map (\<lambda>l. word_of_nat (length l) # name_bytes l) ls)"

lemma encoded_labels_simps [simp]:
  "encoded_labels [] = []"
  "encoded_labels (l # ls) = word_of_nat (length l) # name_bytes l @ encoded_labels ls"
  by (simp_all add: encoded_labels_def)

lemma encode_labels_encoded:
  "list_all label_valid ls \<Longrightarrow> encode_labels ls out = Inr (out @ encoded_labels ls @ [0])"
  by (induction ls arbitrary: out) (auto simp: label_valid_def)

lemma length_join_dots_snoc:
  "length (join_dots (ls @ [l])) = length (join_dots ls) + (length l + (if ls = [] then 0 else 1))"
  by (induction ls rule: join_dots.induct) auto

lemma read_name_loop_label:
  assumes "label_valid l" "to_ascii_lowercase l = l" "wire = pre @ (word_of_nat (length l) # name_bytes l) @ post"
    "\<forall>v. v |\<in>| visited \<longrightarrow> v < length pre" "length wire \<le> usize_max" "length (join_dots labels) \<le> length pre"
  shows "read_name_loop (Suc n) wire (length pre) None labels visited (length (join_dots labels)) =
    read_name_loop n wire (length pre + Suc (length l)) None (labels @ [l]) (finsert (length pre) visited)
      (length (join_dots (labels @ [l])))"
proof -
  have l: "length l < 64" "l \<noteq> []" using assms(1) by (auto simp: label_valid_def)
  have fresh: "length pre |\<notin>| visited" using assms(4) by auto
  have nz: "(word_of_nat (length l) :: u8) \<noteq> 0" using length_byte(1) [OF l(1)] l(2) by auto
  have "length pre + Suc (length l) \<le> length wire" using assms(3) by simp
  moreover have "length wire \<ge> length pre + Suc (length l)" using assms(3) by simp
  moreover have "take (length l) (drop (Suc (length pre)) wire) = name_bytes l" using assms(3) by simp
  ultimately show ?thesis
    using assms(2,5,6) fresh nz label_acceptable_bytes [OF assms(1)] length_byte [OF l(1)]
    by (simp add: get_byte_def assms(3) nth_append Let_def length_join_dots_snoc ok_or_def checked_add_usize_def)
qed

lemma read_name_loop_labels:
  assumes "list_all (\<lambda>l. label_valid l \<and> to_ascii_lowercase l = l) ls" "wire = pre @ encoded_labels ls @ [0] @ post"
    "\<forall>v. v |\<in>| visited \<longrightarrow> v < length pre" "length wire \<le> usize_max" "length (join_dots labels) \<le> length pre"
  shows "read_name_loop n wire (length pre) None labels visited (length (join_dots labels)) =
    (if n \<le> length ls \<or> labels @ ls = [] \<or> 253 < length (join_dots (labels @ ls)) then Inl DnsFailure
     else Inr (join_dots (labels @ ls), length pre + length (encoded_labels ls) + 1))"
  using assms
proof (induction ls arbitrary: pre labels visited n)
  case Nil
  have "length pre |\<notin>| visited" using Nil.prems(3) by auto
  then show ?case using Nil.prems(2) by (cases n) (auto simp: get_byte_def nth_append)
next
  case (Cons l ls)
  show ?case
  proof (cases n)
    case (Suc m)
    let ?pre = "pre @ word_of_nat (length l) # name_bytes l"
    have l: "label_valid l" "to_ascii_lowercase l = l" using Cons.prems(1) by auto
    have "read_name_loop n wire (length pre) None labels visited (length (join_dots labels)) =
        read_name_loop m wire (length ?pre) None (labels @ [l]) (finsert (length pre) visited)
          (length (join_dots (labels @ [l])))"
      using read_name_loop_label [of l wire pre "encoded_labels ls @ [0] @ post" visited labels m] Cons.prems l Suc
      by simp
    also have "\<dots> = (if m \<le> length ls \<or> (labels @ [l]) @ ls = [] \<or> 253 < length (join_dots ((labels @ [l]) @ ls))
        then Inl DnsFailure
        else Inr (join_dots ((labels @ [l]) @ ls), length ?pre + length (encoded_labels ls) + 1))"
    proof (rule Cons.IH)
      show "\<forall>v. v |\<in>| finsert (length pre) visited \<longrightarrow> v < length ?pre"
        using Cons.prems(3) by (auto intro: less_trans)
      show "length (join_dots (labels @ [l])) \<le> length ?pre"
        using Cons.prems(5) by (simp add: length_join_dots_snoc)
    qed (use Cons.prems in simp_all)
    finally show ?thesis using Suc by simp
  qed simp
qed

section \<open>Splitting and joining at dots\<close>

lemma join_dots_Cons: "ls \<noteq> [] \<Longrightarrow> join_dots (l # ls) = l @ CHR ''.'' # join_dots ls"
  by (cases ls) simp_all

lemma join_split_dots [simp]: "join_dots (split_on (CHR ''.'') s) = s"
proof (induction s)
  case (Cons c s)
  obtain p ps where p: "split_on (CHR ''.'') s = p # ps" by (cases "split_on (CHR ''.'') s") auto
  have "join_dots ((c # p) # ps) = c # join_dots (p # ps)" by (cases ps) simp_all
  with Cons p show ?case by (simp add: join_dots_Cons)
qed simp

lemma count_join_dots:
  "ls \<noteq> [] \<Longrightarrow> \<forall>l \<in> set ls. CHR ''.'' \<notin> set l \<Longrightarrow> Suc (count_list (join_dots ls) (CHR ''.'')) = length ls"
  by (induction ls rule: join_dots.induct) (auto simp: count_notin)

lemma length_encoded_labels: "ls \<noteq> [] \<Longrightarrow> length (encoded_labels ls) = Suc (length (join_dots ls))"
  by (induction ls rule: join_dots.induct) auto

lemma split_on_lower:
  "split_on (CHR ''.'') (to_ascii_lowercase s) = map to_ascii_lowercase (split_on (CHR ''.'') s)"
  by (induction s) (auto simp: to_ascii_lowercase_def lower_dot split: list.splits)

lemma ascii_lower_idem [simp]: "ascii_lower (ascii_lower c) = ascii_lower c"
proof (cases "is_ascii_uppercase c")
  case True
  then have "65 \<le> byte_of c" "byte_of c \<le> 90" by (auto simp: is_ascii_uppercase_def)
  then have "\<not> is_ascii_uppercase (ascii_lower c)" by (simp add: is_ascii_uppercase_def ascii_lower_def)
  then show ?thesis by (subst ascii_lower_def) simp
qed (simp add: ascii_lower_def)

lemma lower_idem [simp]: "to_ascii_lowercase (to_ascii_lowercase s) = to_ascii_lowercase s"
  by (simp add: to_ascii_lowercase_def)

text \<open>A canonical name is its own canonical form's labels: valid and in lower case.\<close>

lemma canonical_labels:
  assumes "canonical_hostname h = Inr h"
  shows "list_all (\<lambda>l. label_valid l \<and> to_ascii_lowercase l = l) (split_on (CHR ''.'') h)" "h \<noteq> []" "length h \<le> 253"
proof -
  note c = canonical_hostname_Inr [OF assms]
  have len: "length (strip_final_dot h) = length h" using arg_cong [OF c(1), of length] by (simp add: to_ascii_lowercase_def)
  then have s: "strip_final_dot h = h" by (cases h) (auto simp: strip_final_dot_def ends_with_char_def split: if_splits)
  then have low: "to_ascii_lowercase h = h" using c(1) by simp
  show "h \<noteq> []" "length h \<le> 253" using c s by auto
  have "map to_ascii_lowercase (split_on (CHR ''.'') h) = split_on (CHR ''.'') h"
    using split_on_lower [of h] low by simp
  then have "\<forall>l \<in> set (split_on (CHR ''.'') h). to_ascii_lowercase l = l" by (simp add: map_eq_conv [of _ _ id, simplified])
  then show "list_all (\<lambda>l. label_valid l \<and> to_ascii_lowercase l = l) (split_on (CHR ''.'') h)"
    using c(4) s by (simp add: list_all_iff)
qed

lemma read_name_encoded:
  assumes "canonical_hostname h = Inr h" "length pre + length post \<le> 65535"
  shows "read_name (pre @ encoded_labels (split_on (CHR ''.'') h) @ [0] @ post) (length pre) =
    (if length (split_on (CHR ''.'') h) \<le> 16 then Inr (h, length pre + length h + 2) else Inl DnsFailure)"
proof -
  note c = canonical_labels [OF assms(1)]
  let ?ls = "split_on (CHR ''.'') h"
  have e: "length (encoded_labels ?ls) = Suc (length h)" by (simp add: length_encoded_labels)
  have "length (pre @ encoded_labels ?ls @ [0] @ post) \<le> usize_max" using assms(2) c(3) e by simp
  from read_name_loop_labels [OF c(1) refl _ this, of "{||}" "[]" 17] c(3) e
  show ?thesis by (auto simp: read_name_def)
qed

lemma build_query_encoded:
  assumes "canonical_hostname h = Inr h"
  shows "build_query ident h t =
    Inr ((u16_be_bytes ident @ [1, 0, 0, 1, 0, 0, 0, 0, 0, 0]) @ encoded_labels (split_on (CHR ''.'') h) @ [0] @
      u16_be_bytes t @ u16_be_bytes CLASS_IN)"
proof -
  have "list_all label_valid (split_on (CHR ''.'') h)" using canonical_labels(1) [OF assms] by (simp add: list_all_iff)
  moreover have "replicate 6 (0 :: u8) = [0, 0, 0, 0, 0, 0]" by (simp add: numeral_eq_Suc)
  ultimately show ?thesis
    by (simp add: build_query_def encode_name_def encode_labels_encoded u16_be_bytes_def)
qed

section \<open>Long names\<close>

lemma to_ascii_lowercase_dot: "CHR ''.'' \<in> set (to_ascii_lowercase s) \<longleftrightarrow> CHR ''.'' \<in> set s"
  by (induction s) (auto simp: to_ascii_lowercase_def lower_dot eq_commute [of "CHR ''.''"])

lemma label_acceptable_no_dot:
  assumes "label_acceptable label"
  shows "CHR ''.'' \<notin> set (to_ascii_lowercase (name_of_bytes label))"
proof
  assume "CHR ''.'' \<in> set (to_ascii_lowercase (name_of_bytes label))"
  then obtain b where b: "b \<in> set label" "char_of (unat b) = CHR ''.''"
    unfolding to_ascii_lowercase_dot by (auto simp: name_of_bytes_def)
  have "unat b = byte_of (char_of (unat b))" using unat_u8_lt [of b] by (simp add: of_char_of)
  then have "unat b = 46" using b(2) by simp
  moreover have "alnum_or_hyphen b" using assms b(1) by (auto simp: label_acceptable_def list_all_iff)
  ultimately show False by (auto simp: alnum_or_hyphen_def)
qed

lemma read_name_loop_few_labels:
  "read_name_loop n wire cursor consumed labels visited expanded = Inr (name, e) \<Longrightarrow>
   \<forall>l \<in> set labels. CHR ''.'' \<notin> set l \<Longrightarrow> length (split_on (CHR ''.'') name) < length labels + n"
proof (induction n arbitrary: cursor consumed labels visited expanded)
  case (Suc n)
  show ?case
  proof (cases "\<exists>target c v. read_name_loop n wire target c labels v expanded = Inr (name, e)")
    case True
    then show ?thesis using Suc.IH Suc.prems(2) by fastforce
  next
    case False
    show ?thesis
    proof (cases "labels \<noteq> [] \<and> name = join_dots labels")
      case True
      then show ?thesis using count_join_dots [of labels] Suc.prems(2) by (simp add: length_split_on)
    next
      case not_end: False
      then obtain label finish c v x where l: "label_acceptable label"
        "read_name_loop n wire finish c (labels @ [to_ascii_lowercase (name_of_bytes label)]) v x = Inr (name, e)"
        using Suc.prems(1) False by (auto simp: result_simps Let_def split: if_splits)
      from Suc.IH [OF l(2)] Suc.prems(2) label_acceptable_no_dot [OF l(1)] show ?thesis by auto
    qed
  qed
qed simp

lemma read_name_few_labels: "read_name wire start = Inr (name, e) \<Longrightarrow> length (split_on (CHR ''.'') name) \<le> 16"
  using read_name_loop_few_labels [of 17 wire start None "[]" "{||}" 0 name e] by (simp add: read_name_def)

lemma lookup_loop_few_labels:
  assumes "lookup_loop r record_type visited current total_depth response_bytes s = (Inr x, t)"
  shows "length (split_on (CHR ''.'') current) \<le> 16"
proof -
  from assms obtain response ident p where "parse_response response ident current (dn_max_records (wr_config r)) = Inr p"
    by (subst (asm) lookup_loop.simps) (auto simp: result_simps split: if_splits)
  then show ?thesis
    by (auto simp: parse_response_def result_simps Let_def split: if_splits prod.splits dest: read_name_few_labels)
qed

lemma lookup_few_labels: "lookup r c s = (Inr x, t) \<Longrightarrow> length (split_on (CHR ''.'') c) \<le> 16"
  by (auto simp: lookup_def lookup_type_def result_simps dest: lookup_loop_few_labels)

lemma query_header:
  assumes "q = (u16_be_bytes ident @ [1, 0, 0, 1, 0, 0, 0, 0, 0, 0]) @ rest"
  shows "read_u16 q 0 = Inr ident" "read_u16 q 2 = Inr 0x100" "read_u16 q 4 = Inr 1" "read_u16 q 6 = Inr 0"
    "read_u16 q 8 = Inr 0" "read_u16 q 10 = Inr 0" "12 \<le> length q"
proof -
  have words: "be_u16 1 0 = 0x100" "be_u16 0 1 = 1" "be_u16 0 0 = 0" by (simp_all add: be_u16_def)
  show "read_u16 q 0 = Inr ident" "read_u16 q 2 = Inr 0x100" "read_u16 q 4 = Inr 1" "read_u16 q 6 = Inr 0"
    "read_u16 q 8 = Inr 0" "read_u16 q 10 = Inr 0" "12 \<le> length q"
    by (simp_all add: assms read_u16_def u16_be_bytes_def words)
qed

lemma validate_built_query:
  assumes "canonical_hostname h = Inr h" "build_query ident h t = Inr q" "length h + 18 \<le> max_bytes"
  shows "length q = length h + 18" "validate_client_query q max_bytes =
    (if length (split_on (CHR ''.'') h) \<le> 16 then Inr \<lparr>cq_id = ident, cq_name = h\<rparr> else Inl DnsFailure)"
proof -
  let ?pre = "u16_be_bytes ident @ [1, 0, 0, 1, 0, 0, 0, 0, 0, 0]" and ?post = "u16_be_bytes t @ u16_be_bytes CLASS_IN"
  have q: "q = ?pre @ encoded_labels (split_on (CHR ''.'') h) @ [0] @ ?post"
    using assms(2) build_query_encoded [OF assms(1)] by simp
  have pre: "length ?pre = 12" and post: "length ?post = 4" by (simp_all add: u16_be_bytes_def)
  show len: "length q = length h + 18" by (simp add: q length_encoded_labels u16_be_bytes_def)
  have "read_name q 12 = (if length (split_on (CHR ''.'') h) \<le> 16 then Inr (h, length h + 14) else Inl DnsFailure)"
    using read_name_encoded [OF assms(1), of ?pre ?post] unfolding pre post q by simp
  then show "validate_client_query q max_bytes =
      (if length (split_on (CHR ''.'') h) \<le> 16 then Inr \<lparr>cq_id = ident, cq_name = h\<rparr> else Inl DnsFailure)"
    using assms(1,3) query_header [OF q] unfolding validate_client_query_def len by simp
qed

section \<open>Queries are read back\<close>

text \<open>
  C36. For every name in canonical form a query can be written, and the daemon's own check of a
  client's query reads exactly the identifier and the name back from it, as long as the
  name has at most sixteen labels; a query for a longer name is refused.
\<close>

theorem queries_read_back:
  assumes "canonical_hostname h = Inr h"
  shows "\<exists>q. build_query ident h t = Inr q \<and>
    (length h + 18 \<le> max_bytes \<longrightarrow>
      validate_client_query q max_bytes =
        (if length (split_on (CHR ''.'') h) \<le> 16 then Inr \<lparr>cq_id = ident, cq_name = h\<rparr> else Inl DnsFailure))"
  using build_query_encoded [OF assms] validate_built_query(2) [OF assms] by blast

text \<open>
  A name of more than sixteen labels is never resolved, although the filter accepts it: the
  parser counts the labels of a name against the bound on compression pointers, so that every
  response to such a question is refused, whatever the upstream answers.
\<close>

theorem long_names_never_resolve:
  assumes "canonical_hostname hostname = Inr c" "16 < length (split_on (CHR ''.'') c)"
  shows "\<exists>e. fst (resolve_for_connect r hostname s) = Inl e"
proof (cases "fst (resolve_for_connect r hostname s)")
  case (Inr x)
  then obtain t where "resolve_for_connect r hostname s = (Inr x, t)" by (metis prod.collapse)
  then show ?thesis using assms by (auto elim!: resolve_for_connect_Inr dest: lookup_few_labels)
qed simp

section \<open>Examples\<close>

lemma canonical_aio: "canonical_hostname ''a.io'' = Inr ''a.io''"
  by (simp add: canonical_hostname_def strip_final_dot_def ends_with_char_def ascii_defs parses_as_ipv4_def
      decimal_octet_def label_valid_def starts_with_char_def to_ascii_lowercase_def ascii_lower_def)

theorem queries_read_back_witness:
  "canonical_hostname ''a.io'' = Inr ''a.io'' \<and>
   (\<exists>q. build_query 7 ''a.io'' TYPE_A = Inr q \<and> validate_client_query q 512 = Inr \<lparr>cq_id = 7, cq_name = ''a.io''\<rparr>)"
  using queries_read_back [OF canonical_aio, of 7 TYPE_A 512] canonical_aio by auto

definition deep_name :: string where
  "deep_name = ''a.b.c.d.e.f.g.h.i.j.k.l.m.n.o.p.io''"

theorem long_names_never_resolve_witness:
  "check_destination (\<lambda>_ _. False) (acl_new default_acl_config) (DestHostname deep_name) 443 = Inr () \<and>
   (\<exists>e. fst (resolve_for_connect example_resolver deep_name (0, ())) = Inl e)"
proof
  have c: "canonical_hostname deep_name = Inr deep_name"
    by (simp add: deep_name_def canonical_hostname_def strip_final_dot_def ends_with_char_def ascii_defs parses_as_ipv4_def
        label_valid_def starts_with_char_def to_ascii_lowercase_def ascii_lower_def)
  then show "check_destination (\<lambda>_ _. False) (acl_new default_acl_config) (DestHostname deep_name) 443 = Inr ()"
    by (simp add: check_destination_def check_port_def acl_new_def default_acl_config_def forbidden_hostname_def
        forbidden_exact_def forbidden_suffixes_def emergency_hostname_denied_def ends_with_def deep_name_def)
  show "\<exists>e. fst (resolve_for_connect example_resolver deep_name (0, ())) = Inl e"
    by (rule long_names_never_resolve [OF c]) (simp add: deep_name_def)
qed

abbreviation answer_for :: "u8 \<Rightarrow> u8 \<Rightarrow> u8 \<Rightarrow> bytes" where
  "answer_for a b t \<equiv> [a, b, 0x81, 0x80, 0, 1, 0, 1, 0, 0, 0, 0, 1, 97, 2, 105, 111, 0, 0, t, 0, 1,
     0xc0, 12, 0, 1, 0, 1, 0, 0, 0, 60, 0, 4, 8, 8, 8, 8]"

lemma example_chars: "char_of (97 :: nat) = CHR ''a''" "char_of (105 :: nat) = CHR ''i''" "char_of (111 :: nat) = CHR ''o''"
  using char_of_char [of "CHR ''a''", where 'a = nat] char_of_char [of "CHR ''i''", where 'a = nat]
    char_of_char [of "CHR ''o''", where 'a = nat]
  by simp_all

lemma example_name_loop:
  "read_name_loop (Suc (Suc (Suc m))) (answer_for a b t) 12 None [] {||} 0 = Inr (''a.io'', 18)"
  "read_name_loop (Suc (Suc (Suc (Suc m)))) (answer_for a b t) 22 None [] {||} 0 = Inr (''a.io'', 24)"
  by (simp_all add: get_byte_def checked_add_usize_def Let_def label_acceptable_def alnum_or_hyphen_def name_of_bytes_def
      to_ascii_lowercase_def ascii_lower_def is_ascii_uppercase_def example_chars)

lemma example_names:
  "read_name (answer_for a b t) 12 = Inr (''a.io'', 18)"
  "read_name (answer_for a b t) 22 = Inr (''a.io'', 24)"
  using example_name_loop(1) [of 14 a b t] example_name_loop(2) [of 13 a b t] by (simp_all add: read_name_def)

lemma example_parse:
  "parse_response (answer_for a b t) (be_u16 a b) ''a.io'' 64 =
     Inr \<lparr>pr_addresses = [V4 (8, 8, 8, 8)], pr_all_addresses = [V4 (8, 8, 8, 8)], pr_terminal_name = ''a.io'', pr_cname_depth = 0\<rparr>"
proof -
  have w: "be_u16 0 1 = 1" "be_u16 0 0 = 0" "be_u16 0 4 = 4" "be_u16 0x81 0x80 = 0x8180" by (simp_all add: be_u16_def)
  have "read_records (Suc 0) 1 (answer_for a b t) 22 [] [] =
      Inr ([\<lparr>ar_owner = ''a.io'', ar_data = AddressData (V4 (8, 8, 8, 8))\<rparr>], [V4 (8, 8, 8, 8)], 38)"
    by (simp add: example_names read_u16_def w read_data_def dns_codes checked_add_usize_def Let_def)
  then show ?thesis
    by (simp add: parse_response_def read_u16_def w example_names chase.simps addresses_of_def List.map_filter_def Let_def
        del: read_records.simps)
qed


lemma example_config:
  "dn_max_records (wr_config example_resolver) = 64" "dn_max_cname_depth (wr_config example_resolver) = 8"
  "dn_max_response_bytes (wr_config example_resolver) = 16384" "dn_max_addresses (wr_config example_resolver) = 16"
  "dn_revalidate (wr_config example_resolver)"
  by (simp_all add: example_resolver_def default_dns_config_def)

lemma example_allowed:
  "check_ip (wr_contains example_resolver) (wr_acl example_resolver) (V4 (8, 8, 8, 8)) = Inr ()"
  by (simp add: check_ip_def example_resolver_def acl_new_def default_acl_config_def is_unspecified_def is_broadcast_def)

lemma example_lookup_type:
  "t \<in> {TYPE_A, TYPE_AAAA} \<Longrightarrow> lookup_type example_resolver ''a.io'' t (n, ()) =
     (Inr \<lparr>rs_addresses = [V4 (8, 8, 8, 8)], rs_cname_depth = 0, rs_response_bytes = 38\<rparr>, ((n + 1) mod (usize_max + 1), ()))"
proof -
  assume "t \<in> {TYPE_A, TYPE_AAAA}"
  then obtain b where b: "u16_be_bytes t = [0, b]" by (auto simp: u16_be_bytes_def dns_codes)
  have "encoded_labels (split_on (CHR ''.'') ''a.io'') = [1, 97, 2, 105, 111]" by (simp add: name_bytes_def)
  then have q: "build_query (be_u16 7 9) ''a.io'' t = Inr [7, 9, 1, 0, 0, 1, 0, 0, 0, 0, 0, 0, 1, 97, 2, 105, 111, 0, 0, b, 0, 1]"
    unfolding build_query_encoded [OF canonical_aio] b by (simp add: u16_be_bytes_def be_u16_def CLASS_IN_def)
  have x: "exchange example_resolver [7, 9, 1, 0, 0, 1, 0, 0, 0, 0, 0, 0, 1, 97, 2, 105, 111, 0, 0, b, 0, 1] (n, ()) =
      (Inr (answer_for 7 9 b), ((n + 1) mod (usize_max + 1), ()))"
    by (simp add: exchange_def example_resolver_def example_answer_def Let_def)
  have r: "random_id example_resolver (n, ()) = (Inr (be_u16 7 9), (n, ()))"
    by (simp add: random_id_def example_resolver_def)
  show ?thesis
    unfolding lookup_type_def
    by (subst lookup_loop.simps) (simp add: r q x example_config example_parse checked_add_usize_def)
qed

lemma example_resolves:
  "resolve_for_connect example_resolver ''a.io'' (0, ()) =
     (Inr \<lparr>rs_addresses = [V4 (8, 8, 8, 8)], rs_cname_depth = 0, rs_response_bytes = 76\<rparr>, (4, ()))"
  by (simp add: resolve_for_connect_def canonical_aio lookup_def example_lookup_type checked_add_usize_def
      validate_resolution_def rebinding_check_def example_config example_allowed)

lemma example_wire:
  "exchange_wire example_resolver example_query (0, ()) = (Inr (answer_for 0 5 1), (1, ()))"
proof -
  have "encoded_labels (split_on (CHR ''.'') ''a.io'') = [1, 97, 2, 105, 111]" by (simp add: name_bytes_def)
  then have b: "build_query 5 ''a.io'' TYPE_A = Inr example_query"
    unfolding build_query_encoded [OF canonical_aio]
    by (simp add: u16_be_bytes_def CLASS_IN_def TYPE_A_def example_query_def)
  have "exchange example_resolver example_query (0, ()) = (Inr (answer_for 0 5 1), (1, ()))"
    by (simp add: exchange_def example_resolver_def example_answer_def example_query_def Let_def)
  moreover have "validate_client_query example_query 16384 = Inr \<lparr>cq_id = 5, cq_name = ''a.io''\<rparr>"
    using validate_built_query [OF canonical_aio b, of 16384] by simp
  moreover have "be_u16 0 5 = 5" by (simp add: be_u16_def)
  ultimately show ?thesis
    using example_parse [of 0 5 1]
    by (simp add: exchange_wire_def example_config rebinding_check_def example_allowed)
qed


end
