(* ===== verification/Gateway_Egress.thy ===== *)
theory Gateway_Egress
  imports Gateway_Sessions Gateway_Dns
begin

text \<open>
  Outbound connections of the gateway daemon (\<open>src/crates/gateway-daemon/src/egress.rs\<close>) with the
  circuit breaker of \<open>rate_limit.rs\<close> and the counters and privacy events of \<open>health.rs\<close>. The
  state of the connector is the session manager, the breaker, the counters, the events, the
  outside world and the addresses dialled so far, in order. The resolver and the dialler are
  arguments, as they are trait objects in the source; every clock reading is an argument.
  A permit that goes out of scope is dropped, as in the source: every error after the
  reservation returns it.

  The theorems: nothing but an address the filter allows is ever dialled, whatever the
  resolver answers; an open that fails leaves no stream behind and one that succeeds exactly
  one; with the daemon's own resolver the check before the dial never fails.
\<close>

section \<open>Counters and privacy events\<close>

datatype metric =
    AcceptedSessions | RejectedAuthentication | OpenedStreams | ClosedStreams | PolicyViolations | DnsFailures
  | EgressFailures | ProtocolViolations | RateLimitViolations | BytesClientToEgress | BytesEgressToClient
  | CircuitOpenMetric | DrainingRejections

type_synonym metrics = "metric \<Rightarrow> u64"

definition metric_add :: "metric \<Rightarrow> u64 \<Rightarrow> metrics \<Rightarrow> metrics" where
  "metric_add x n m = m(x := m x + n)"

definition increment :: "metric \<Rightarrow> metrics \<Rightarrow> metrics" where
  "increment x m = metric_add x 1 m"

datatype privacy_event_kind =
    AuthenticationRejected | ProtocolRejected | PolicyRejected | RateLimitedEvent | DnsUnavailable
  | EgressUnavailable | CircuitOpened | DrainingEvent

record privacy_event =
  ev_kind :: privacy_event_kind
  ev_coarse_time_bucket :: nat
  ev_gateway_id :: string
  ev_session_handle :: "bytes option"
  ev_count :: nat
  ev_expires_at :: instant

record privacy_event_buffer =
  eb_config :: privacy_event_config
  eb_gateway_id :: string
  eb_events :: "privacy_event list"

text \<open>The three clock readings of \<open>record\<close>: the purge, the wall clock and the expiry.\<close>

record event_clock =
  ec_purge :: instant
  ec_unix_seconds :: nat
  ec_now :: instant

definition event_buffer_new :: "privacy_event_config \<Rightarrow> string \<Rightarrow> privacy_event_buffer" where
  "event_buffer_new config gateway_id = \<lparr>eb_config = config, eb_gateway_id = gateway_id, eb_events = []\<rparr>"

definition purge_locked :: "instant \<Rightarrow> privacy_event list \<Rightarrow> privacy_event list" where
  "purge_locked now events = filter (\<lambda>e. now < ev_expires_at e) events"

text \<open>\<open>while events.len() >= capacity { pop_front }\<close>\<close>

fun make_room :: "nat \<Rightarrow> privacy_event list \<Rightarrow> privacy_event list" where
  "make_room capacity [] = []"
| "make_room capacity (e # es) = (if capacity \<le> length (e # es) then make_room capacity es else e # es)"

definition record_event ::
  "event_clock \<Rightarrow> privacy_event_kind \<Rightarrow> bytes option \<Rightarrow> privacy_event_buffer \<Rightarrow> privacy_event_buffer" where
  "record_event clock kind handle b =
     (if \<not> pe_enabled (eb_config b) then b
      else
        b\<lparr>eb_events := make_room (pe_capacity (eb_config b)) (purge_locked (ec_purge clock) (eb_events b)) @
           [\<lparr>ev_kind = kind,
             ev_coarse_time_bucket = ec_unix_seconds clock div unat (pe_coarse_bucket_seconds (eb_config b)),
             ev_gateway_id = eb_gateway_id b, ev_session_handle = handle, ev_count = 1,
             ev_expires_at = ec_now clock + duration_from_secs (pe_ttl_seconds (eb_config b))\<rparr>]\<rparr>)"

definition snapshot :: "instant \<Rightarrow> privacy_event_buffer \<Rightarrow> privacy_event list \<times> privacy_event_buffer" where
  "snapshot now b = (let events = purge_locked now (eb_events b) in (events, b\<lparr>eb_events := events\<rparr>))"

definition purge_events :: "instant \<Rightarrow> privacy_event_buffer \<Rightarrow> privacy_event_buffer" where
  "purge_events now b = b\<lparr>eb_events := purge_locked now (eb_events b)\<rparr>"

text \<open>One turn of the health agent.\<close>

definition health_tick :: "instant \<Rightarrow> nat \<Rightarrow> privacy_event_buffer \<times> session_manager \<Rightarrow> privacy_event_buffer \<times> session_manager" where
  "health_tick now now_system s = (purge_events now (fst s), purge_expired now_system (snd s))"

section \<open>The circuit breaker\<close>

record circuit_breaker =
  cb_failures :: u32
  cb_threshold :: u32
  cb_cooldown :: duration
  cb_open_until :: "instant option"

definition breaker_new :: "u32 \<Rightarrow> duration \<Rightarrow> circuit_breaker" where
  "breaker_new threshold cooldown =
     \<lparr>cb_failures = 0, cb_threshold = threshold, cb_cooldown = cooldown, cb_open_until = None\<rparr>"

definition before_connect :: "instant \<Rightarrow> circuit_breaker \<Rightarrow> (gateway_error_code + unit) \<times> circuit_breaker" where
  "before_connect now cb =
     (case cb_open_until cb of
        None \<Rightarrow> (Inr (), cb)
      | Some deadline \<Rightarrow>
          if now < deadline then (Inl CircuitOpen, cb)
          else (Inr (), cb\<lparr>cb_open_until := None, cb_failures := 0\<rparr>))"

definition record_success :: "circuit_breaker \<Rightarrow> circuit_breaker" where
  "record_success cb = cb\<lparr>cb_failures := 0\<rparr>"

definition saturating_succ_u32 :: "u32 \<Rightarrow> u32" where
  "saturating_succ_u32 n = (if n = 0xffffffff then n else n + 1)"

definition record_failure :: "instant \<Rightarrow> circuit_breaker \<Rightarrow> circuit_breaker" where
  "record_failure now cb =
     (let failures = saturating_succ_u32 (cb_failures cb);
          cb = cb\<lparr>cb_failures := cb_failures cb + 1\<rparr> in
      if cb_threshold cb \<le> failures then cb\<lparr>cb_open_until := Some (now + cb_cooldown cb)\<rparr> else cb)"

definition is_open :: "instant \<Rightarrow> circuit_breaker \<Rightarrow> bool \<times> circuit_breaker" where
  "is_open now cb =
     (case before_connect now cb of (Inl _, cb) \<Rightarrow> (True, cb) | (Inr _, cb) \<Rightarrow> (False, cb))"

section \<open>The connector\<close>

text \<open>What \<open>TcpStream::connect\<close> under its timeout comes to, as \<open>TokioEgressDialer\<close> maps it.\<close>

datatype io_error_kind = PermissionDenied | AddrNotAvailable | OtherIoError

datatype 'io connect_outcome = ConnectElapsed | ConnectFailed io_error_kind | NodelayFailed | Connected 'io

definition dial_error :: "io_error_kind \<Rightarrow> gateway_error_code" where
  "dial_error kind =
     (case kind of
        PermissionDenied \<Rightarrow> EgressInfrastructureFailure
      | AddrNotAvailable \<Rightarrow> EgressInfrastructureFailure
      | OtherIoError \<Rightarrow> EgressFailure)"

fun dial_result :: "'io connect_outcome \<Rightarrow> (gateway_error_code + 'io) option" where
  "dial_result ConnectElapsed = None"
| "dial_result (ConnectFailed kind) = Some (Inl (dial_error kind))"
| "dial_result NodelayFailed = Some (Inl EgressInfrastructureFailure)"
| "dial_result (Connected io) = Some (Inr io)"

record 'w egress_state =
  eg_manager :: session_manager
  eg_circuit :: circuit_breaker
  eg_metrics :: metrics
  eg_events :: privacy_event_buffer
  eg_world :: 'w
  eg_dialled :: "socket_addr list"

record ('net, 'w, 'io) egress_connector =
  ec_acl :: "'net acl_engine"
  ec_contains :: "'net \<Rightarrow> ip_addr \<Rightarrow> bool"
  ec_hmac :: "bytes \<Rightarrow> bytes \<Rightarrow> bytes"
  ec_resolve :: "string \<Rightarrow> 'w \<Rightarrow> (gateway_error_code + resolution) \<times> 'w"
  ec_dial :: "socket_addr \<Rightarrow> 'w \<Rightarrow> 'io connect_outcome \<times> 'w"

text \<open>The readings of the clocks and the verdict of the connection bucket during one open.\<close>

record egress_readings =
  er_active :: nat
  er_reserve :: nat
  er_scan :: instant
  er_bucket :: "gateway_error_code + unit"
  er_circuit :: instant
  er_failure :: instant
  er_event :: event_clock

definition count_metric :: "metric \<Rightarrow> 'w egress_state \<Rightarrow> 'w egress_state" where
  "count_metric x s = s\<lparr>eg_metrics := increment x (eg_metrics s)\<rparr>"

definition note_event :: "event_clock \<Rightarrow> privacy_event_kind \<Rightarrow> daemon_lease \<Rightarrow> 'w egress_state \<Rightarrow> 'w egress_state" where
  "note_event clock kind l s = s\<lparr>eg_events := record_event clock kind (Some (ds_handle l)) (eg_events s)\<rparr>"

definition return_permit :: "stream_lease \<Rightarrow> 'w egress_state \<Rightarrow> 'w egress_state" where
  "return_permit permit s = s\<lparr>eg_manager := drop_stream permit (eg_manager s)\<rparr>"

definition ipv6_octets :: "ipv6_addr \<Rightarrow> bytes" where
  "ipv6_octets a =
     (case a of (s0, s1, s2, s3, s4, s5, s6, s7) \<Rightarrow> concat (map u16_be_bytes [s0, s1, s2, s3, s4, s5, s6, s7]))"

fun scan_material :: "destination \<Rightarrow> u16 \<Rightarrow> bytes" where
  "scan_material (DestHostname hostname) port = name_bytes hostname @ u16_be_bytes port"
| "scan_material (DestIp (V4 address)) port = octets address @ u16_be_bytes port"
| "scan_material (DestIp (V6 address)) port = ipv6_octets address @ u16_be_bytes port"

text \<open>The loop over the addresses. What it returns beside a connection: the error to report.\<close>

fun dial_all ::
  "('net, 'w, 'io) egress_connector \<Rightarrow> egress_readings \<Rightarrow> daemon_lease \<Rightarrow> u16 \<Rightarrow> gateway_error_code \<Rightarrow> bool \<Rightarrow>
     ip_addr list \<Rightarrow> 'w egress_state \<Rightarrow> (gateway_error_code + 'io) \<times> 'w egress_state" where
  "dial_all c t l port last_error infrastructure [] s =
     (let s = (if infrastructure then s\<lparr>eg_circuit := record_failure (er_failure t) (eg_circuit s)\<rparr> else s) in
      (Inl last_error, note_event (er_event t) EgressUnavailable l (count_metric EgressFailures s)))"
| "dial_all c t l port last_error infrastructure (address # addresses) s =
     (case check_ip (ec_contains c) (ec_acl c) address of
        Inl e \<Rightarrow> (Inl e, note_event (er_event t) PolicyRejected l (count_metric PolicyViolations s))
      | Inr _ \<Rightarrow>
          (let peer = \<lparr>sa_ip = address, sa_port = port\<rparr>; outcome = ec_dial c peer (eg_world s);
               s = s\<lparr>eg_world := snd outcome, eg_dialled := eg_dialled s @ [peer]\<rparr> in
           case dial_result (fst outcome) of
             Some (Inr io) \<Rightarrow>
               (Inr io, count_metric OpenedStreams (s\<lparr>eg_circuit := record_success (eg_circuit s)\<rparr>))
           | Some (Inl e) \<Rightarrow>
               dial_all c t l port e (infrastructure \<or> e = EgressInfrastructureFailure) addresses s
           | None \<Rightarrow> dial_all c t l port Timeout infrastructure addresses s))"

definition reservation_metric :: "gateway_error_code \<Rightarrow> metric" where
  "reservation_metric code =
     (case code of Draining \<Rightarrow> DrainingRejections | PolicyDenied \<Rightarrow> PolicyViolations | _ \<Rightarrow> RateLimitViolations)"

text \<open>The addresses to dial, in the state the resolver leaves behind.\<close>

definition addresses_to_dial ::
  "('net, 'w, 'io) egress_connector \<Rightarrow> egress_readings \<Rightarrow> daemon_lease \<Rightarrow> destination \<Rightarrow> 'w egress_state \<Rightarrow>
     (gateway_error_code + ip_addr list) \<times> 'w egress_state" where
  "addresses_to_dial c t l dest s =
     (case dest of
        DestIp address \<Rightarrow> (Inr [address], s)
      | DestHostname hostname \<Rightarrow>
          (case ec_resolve c hostname (eg_world s) of
             (Inr resolution, w) \<Rightarrow> (Inr (rs_addresses resolution), s\<lparr>eg_world := w\<rparr>)
           | (Inl e, w) \<Rightarrow>
               (Inl e, note_event (er_event t) DnsUnavailable l (count_metric DnsFailures (s\<lparr>eg_world := w\<rparr>)))))"

text \<open>What follows the reservation, with the permit in scope: breaker, addresses, dial loop.\<close>

definition connect_reserved ::
  "('net, 'w, 'io) egress_connector \<Rightarrow> egress_readings \<Rightarrow> daemon_lease \<Rightarrow> destination \<Rightarrow> u16 \<Rightarrow> 'w egress_state \<Rightarrow>
     (gateway_error_code + 'io) \<times> 'w egress_state" where
  "connect_reserved c t l dest port s =
     (case before_connect (er_circuit t) (eg_circuit s) of
        (Inl e, cb) \<Rightarrow> (Inl e, count_metric CircuitOpenMetric (s\<lparr>eg_circuit := cb\<rparr>))
      | (Inr _, cb) \<Rightarrow>
          bindS (addresses_to_dial c t l dest (s\<lparr>eg_circuit := cb\<rparr>)) (\<lambda>addresses s.
          dial_all c t l port EgressFailure False addresses s))"

definition open_egress ::
  "('net, 'w, 'io) egress_connector \<Rightarrow> egress_readings \<Rightarrow> daemon_lease \<Rightarrow> destination \<Rightarrow> u16 \<Rightarrow> 'w egress_state \<Rightarrow>
     (gateway_error_code + ('io \<times> stream_lease)) \<times> 'w egress_state" where
  "open_egress c t l dest port s =
     tryE (lease_active (er_active t) l (eg_manager s)) s (\<lambda>_.
     case check_destination (ec_contains c) (ec_acl c) dest port of
       Inl e \<Rightarrow> (Inl e, note_event (er_event t) PolicyRejected l (count_metric PolicyViolations s))
     | Inr _ \<Rightarrow>
         (case reserve_stream (ec_hmac c) (er_reserve t) (er_scan t) (er_bucket t) l (scan_material dest port)
                 (eg_manager s) of
            (Inl e, sm) \<Rightarrow> (Inl e, count_metric (reservation_metric e) (s\<lparr>eg_manager := sm\<rparr>))
          | (Inr permit, sm) \<Rightarrow>
              (case connect_reserved c t l dest port (s\<lparr>eg_manager := sm\<rparr>) of
                 (Inl e, s) \<Rightarrow> (Inl e, return_permit permit s)
               | (Inr io, s) \<Rightarrow> (Inr (io, permit), s))))"

section \<open>The dial loop\<close>

lemma egress_fields [simp]:
  "eg_manager (count_metric x s) = eg_manager s" "eg_dialled (count_metric x s) = eg_dialled s"
  "eg_manager (note_event t k l s) = eg_manager s" "eg_dialled (note_event t k l s) = eg_dialled s"
  "eg_manager (return_permit p s) = drop_stream p (eg_manager s)" "eg_dialled (return_permit p s) = eg_dialled s"
  by (simp_all add: count_metric_def note_event_def return_permit_def)

abbreviation egress_allows :: "('net, 'w, 'io) egress_connector \<Rightarrow> ip_addr \<Rightarrow> bool" where
  "egress_allows c a \<equiv> check_ip (ec_contains c) (ec_acl c) a = Inr ()"

lemma dial_all_spec:
  "dial_all c t l port e infra addresses s = (r, s') \<Longrightarrow>
   \<exists>tried. eg_dialled s' = eg_dialled s @ map (\<lambda>a. \<lparr>sa_ip = a, sa_port = port\<rparr>) tried \<and>
     list_all (egress_allows c) tried \<and> set tried \<subseteq> set addresses \<and> eg_manager s' = eg_manager s"
proof (induction addresses arbitrary: e infra s)
  case Nil
  then show ?case by (auto simp: Let_def intro!: exI [of _ "[]"])
next
  case (Cons a as)
  show ?case
  proof (cases "check_ip (ec_contains c) (ec_acl c) a")
    case (Inl x)
    then show ?thesis using Cons.prems by (auto intro!: exI [of _ "[]"])
  next
    case (Inr u)
    let ?peer = "\<lparr>sa_ip = a, sa_port = port\<rparr>"
    let ?s = "s\<lparr>eg_world := snd (ec_dial c ?peer (eg_world s)), eg_dialled := eg_dialled s @ [?peer]\<rparr>"
    have allowed: "egress_allows c a" using Inr by simp
    consider (last) "eg_dialled s' = eg_dialled ?s" "eg_manager s' = eg_manager s"
      | (more) e' infra' where "dial_all c t l port e' infra' as ?s = (r, s')"
      using Cons.prems Inr by (auto simp: Let_def split: option.splits sum.splits)
    then show ?thesis
    proof cases
      case last
      then show ?thesis using allowed by (auto intro!: exI [of _ "[a]"])
    next
      case (more e' infra')
      from Cons.IH [OF this] obtain tried where
        "eg_dialled s' = eg_dialled ?s @ map (\<lambda>a. \<lparr>sa_ip = a, sa_port = port\<rparr>) tried"
        "list_all (egress_allows c) tried" "set tried \<subseteq> set as" "eg_manager s' = eg_manager s"
        by auto
      then show ?thesis using allowed by (auto intro!: exI [of _ "a # tried"])
    qed
  qed
qed

text \<open>Where every address is allowed, the check before the dial never ends the loop.\<close>

lemma dial_all_error:
  assumes "list_all (egress_allows c) addresses"
    "dial_all c t l port e infra addresses s = (Inl x, s')" "e \<in> {EgressFailure, EgressInfrastructureFailure, Timeout}"
  shows "x \<in> {EgressFailure, EgressInfrastructureFailure, Timeout}"
  using assms
proof (induction addresses arbitrary: e infra s)
  case (Cons a as)
  have err: "dial_result y = Some (Inl z) \<Longrightarrow> z \<in> {EgressFailure, EgressInfrastructureFailure}" for y :: "'c connect_outcome" and z
    by (cases y) (auto simp: dial_error_def split: io_error_kind.splits)
  show ?case
    using Cons.prems Cons.IH err
    by (auto simp: Let_def split: option.splits sum.splits) blast+
qed (auto simp: Let_def)

section \<open>One open\<close>

lemma addresses_to_dial_fields:
  assumes "addresses_to_dial c t l dest s = (r, s')"
  shows "eg_manager s' = eg_manager s" "eg_dialled s' = eg_dialled s"
  using assms by (auto simp: addresses_to_dial_def split: destination.splits prod.splits sum.splits)

lemma connect_reserved_spec:
  assumes "connect_reserved c t l dest port s = (r, s')"
  shows "\<exists>tried. eg_dialled s' = eg_dialled s @ map (\<lambda>a. \<lparr>sa_ip = a, sa_port = port\<rparr>) tried \<and>
    list_all (egress_allows c) tried \<and> eg_manager s' = eg_manager s"
proof -
  obtain b cb where b: "before_connect (er_circuit t) (eg_circuit s) = (b, cb)"
    by (cases "before_connect (er_circuit t) (eg_circuit s)") auto
  obtain d w where d: "addresses_to_dial c t l dest (s\<lparr>eg_circuit := cb\<rparr>) = (d, w)"
    by (cases "addresses_to_dial c t l dest (s\<lparr>eg_circuit := cb\<rparr>)") auto
  note w = addresses_to_dial_fields [OF d]
  show ?thesis
  proof (cases "\<exists>u addresses. b = Inr u \<and> d = Inr addresses")
    case True
    then obtain addresses where "dial_all c t l port EgressFailure False addresses w = (r, s')"
      using assms b d by (auto simp: connect_reserved_def)
    from dial_all_spec [OF this] show ?thesis using w by auto
  next
    case False
    then have "eg_dialled s' = eg_dialled s \<and> eg_manager s' = eg_manager s"
      using assms b d w by (cases b; cases d) (auto simp: connect_reserved_def)
    then show ?thesis by (auto intro!: exI [of _ "[]"])
  qed
qed

lemma open_cases:
  assumes "open_egress c t l dest port s = (r, s')"
  obtains (refused) e where "r = Inl e" "eg_manager s' = eg_manager s" "eg_dialled s' = eg_dialled s"
    | (unreserved) e where "r = Inl e" "eg_dialled s' = eg_dialled s"
      "reserve_stream (ec_hmac c) (er_reserve t) (er_scan t) (er_bucket t) l (scan_material dest port) (eg_manager s) =
         (Inl e, eg_manager s')"
    | (reserved) permit sm x u where
      "check_destination (ec_contains c) (ec_acl c) dest port = Inr ()"
      "reserve_stream (ec_hmac c) (er_reserve t) (er_scan t) (er_bucket t) l (scan_material dest port) (eg_manager s) =
         (Inr permit, sm)"
      "connect_reserved c t l dest port (s\<lparr>eg_manager := sm\<rparr>) = (x, u)"
      "case x of Inl e \<Rightarrow> r = Inl e \<and> s' = return_permit permit u | Inr io \<Rightarrow> r = Inr (io, permit) \<and> s' = u"
proof (cases "lease_active (er_active t) l (eg_manager s)")
  case active: (Inr x)
  show ?thesis
  proof (cases "check_destination (ec_contains c) (ec_acl c) dest port")
    case checked: (Inr y)
    let ?res = "reserve_stream (ec_hmac c) (er_reserve t) (er_scan t) (er_bucket t) l (scan_material dest port)
        (eg_manager s)"
    obtain z sm where z: "?res = (z, sm)" by (cases ?res) auto
    show ?thesis
    proof (cases z)
      case (Inr permit)
      obtain x u where "connect_reserved c t l dest port (s\<lparr>eg_manager := sm\<rparr>) = (x, u)"
        by (cases "connect_reserved c t l dest port (s\<lparr>eg_manager := sm\<rparr>)") auto
      then show ?thesis
        using assms active checked z Inr by (intro reserved) (auto simp: open_egress_def split: sum.splits)
    qed (use assms active checked z in \<open>auto simp: open_egress_def intro: unreserved\<close>)
  qed (use assms active in \<open>auto simp: open_egress_def intro: refused\<close>)
qed (use assms in \<open>auto simp: open_egress_def intro: refused\<close>)

section \<open>With a checking resolver\<close>

context checking_resolver
begin

lemma resolved_dial_error:
  assumes "ec_resolve c = resolve" "\<And>a. allowed a \<Longrightarrow> egress_allows c a"
    "addresses_to_dial c t l (DestHostname h) s = (Inr addresses, u)"
    "dial_all c t l port EgressFailure False addresses u = (Inl e, s')"
  shows "addresses \<noteq> [] \<and> e \<in> {EgressFailure, EgressInfrastructureFailure, Timeout}"
proof -
  obtain x w where x: "resolve h (eg_world s) = (Inr x, w)" "addresses = rs_addresses x"
    using assms(1,3) by (auto simp: addresses_to_dial_def split: prod.splits sum.splits)
  have "list_all (egress_allows c) addresses"
    using answer_all_allowed [OF x(1)] assms(2) x(2) by (simp add: list_all_iff)
  then show ?thesis
    using dial_all_error [OF _ assms(4)] answer_nonempty [OF x(1)] x(2) by simp
qed

end

section \<open>Properties\<close>

text \<open>
  C32. The daemon never connects to an address its filter refuses. Whatever the destination, the
  resolver and the network do during an open, every address that is dialled passed the filter,
  is public, and is dialled on the port asked for; and nothing is dialled at all unless the
  destination itself is allowed.
\<close>

theorem only_allowed_addresses_dialled:
  assumes "open_egress c t l dest port s = (r, s')"
  shows "\<exists>tried. eg_dialled s' = eg_dialled s @ map (\<lambda>a. \<lparr>sa_ip = a, sa_port = port\<rparr>) tried \<and>
    (\<forall>a \<in> set tried. check_ip (ec_contains c) (ec_acl c) a = Inr () \<and> \<not> is_non_public a) \<and>
    (tried \<noteq> [] \<longrightarrow> check_destination (ec_contains c) (ec_acl c) dest port = Inr ())"
  using assms
proof (cases rule: open_cases)
  case (reserved permit sm x u)
  have "eg_dialled s' = eg_dialled u" using reserved(4) by (cases x) auto
  moreover from connect_reserved_spec [OF reserved(3)] obtain tried where
    "eg_dialled u = eg_dialled s @ map (\<lambda>a. \<lparr>sa_ip = a, sa_port = port\<rparr>) tried" "list_all (egress_allows c) tried"
    by auto
  ultimately show ?thesis using reserved(1) by (auto simp: list_all_iff dest: check_ip_Inr(1))
qed auto

text \<open>
  C33. An open neither leaks nor forgets a stream. Starting from a reachable state of the daemon's
  sessions, an open that fails leads to a reachable state with the same live streams, and one that
  succeeds to a reachable state in which exactly its permit was added; the accounting theorem
  for reachable states then gives the counters.
\<close>

theorem opens_accounted:
  assumes "reach gs_start gs_step g" "gs_manager g = eg_manager s" "fmlookup (gs_leases g) j = Some l"
    "i |\<notin>| fmdom (gs_streams g)" "open_egress c t l dest port s = (r, s')"
  shows "reach gs_start gs_step
    (g\<lparr>gs_manager := eg_manager s',
       gs_streams := (case r of Inl _ \<Rightarrow> gs_streams g | Inr (_, permit) \<Rightarrow> fmupd i permit (gs_streams g))\<rparr>)"
  using assms(5)
proof (cases rule: open_cases)
  case (refused e)
  have "g\<lparr>gs_manager := eg_manager s\<rparr> = g" using assms(2) by (cases g) simp
  then show ?thesis using refused assms(1) by simp
next
  case (unreserved e)
  have "gs_step g (g\<lparr>gs_manager := eg_manager s', gs_streams := keep_lease i (Inl e) (gs_streams g)\<rparr>)"
    by (rule gs_reserve [OF assms(3,4)]) (use unreserved(3) assms(2) in simp)
  from reach_step [OF assms(1) this] show ?thesis using unreserved(1) by (simp add: keep_lease_def)
next
  case (reserved permit sm x u)
  have u: "eg_manager u = sm" using connect_reserved_spec [OF reserved(3)] by auto
  let ?h = "g\<lparr>gs_manager := sm, gs_streams := keep_lease i (Inr permit) (gs_streams g)\<rparr>"
  have "gs_step g ?h"
    by (rule gs_reserve [OF assms(3,4)]) (use reserved(2) assms(2) in simp)
  then have h: "reach gs_start gs_step ?h" by (rule reach_step [OF assms(1)])
  show ?thesis
  proof (cases x)
    case (Inr io)
    then show ?thesis using h reserved(4) u by (simp add: keep_lease_def)
  next
    case (Inl e)
    have "gs_step ?h (?h\<lparr>gs_manager := drop_stream permit (gs_manager ?h), gs_streams := fmdrop i (gs_streams ?h)\<rparr>)"
      by (rule gs_drop_stream) (simp add: keep_lease_def)
    moreover have "fmdrop i (fmupd i permit (gs_streams g)) = gs_streams g"
      using assms(4) by (intro fmap_ext) (auto simp: fmdom_notD)
    moreover have "g\<lparr>gs_manager := sm, gs_streams := gs_streams g\<rparr> = g\<lparr>gs_manager := sm\<rparr>" for sm by (cases g) simp
    ultimately show ?thesis using reach_step [OF h] Inl reserved(4) u by (simp add: keep_lease_def)
  qed
qed

text \<open>
  With the daemon's own resolver the check before the dial never refuses: once a name of a
  destination was resolved, an open fails only because the connection failed.
\<close>

theorem resolved_opens_fail_only_on_connect:
  assumes "ec_resolve c = resolve_for_connect w" "ec_acl c = wr_acl w" "ec_contains c = wr_contains w"
    "addresses_to_dial c t l (DestHostname h) s = (Inr addresses, u)"
    "dial_all c t l port EgressFailure False addresses u = (Inl e, s')"
  shows "addresses \<noteq> [] \<and> e \<in> {EgressFailure, EgressInfrastructureFailure, Timeout}"
  by (rule wire.resolved_dial_error [OF assms(1) _ assms(4,5)]) (simp add: assms(2,3))

section \<open>The breaker and the events\<close>

text \<open>The breaker after \<open>n\<close> failures at the instants \<open>ts\<close>, none of which a success interrupts.\<close>

lemma breaker_after_failures:
  assumes "length ts < 2 ^ 32"
  shows "fold record_failure ts (breaker_new threshold cooldown) =
    \<lparr>cb_failures = word_of_nat (length ts), cb_threshold = threshold, cb_cooldown = cooldown,
     cb_open_until = (if unat threshold \<le> length ts \<and> ts \<noteq> [] then Some (last ts + cooldown) else None)\<rparr>"
  using assms
proof (induction ts rule: rev_induct)
  case Nil
  then show ?case by (simp add: breaker_new_def)
next
  case (snoc now ts)
  let ?n = "word_of_nat (length ts) :: u32"
  have n: "unat ?n = length ts" "unat (?n + 1) = Suc (length ts)"
    using snoc.prems by (simp_all add: unat_of_nat unat_word_ariths)
  have "?n \<noteq> 0xffffffff"
  proof
    assume "?n = 0xffffffff"
    then have "unat ?n = 4294967295" by simp
    then show False using n(1) snoc.prems by simp
  qed
  then have "saturating_succ_u32 ?n = ?n + 1" by (simp add: saturating_succ_u32_def)
  moreover have "threshold \<le> ?n + 1 \<longleftrightarrow> unat threshold \<le> Suc (length ts)" by (simp add: word_le_nat_alt n)
  ultimately show ?case
    using snoc by (auto simp: record_failure_def Let_def add.commute)
qed

lemma breaker_opens_at_threshold:
  assumes "length ts < 2 ^ 32" "ts \<noteq> []" "now < last ts + cooldown"
  shows "fst (before_connect now (fold record_failure ts (breaker_new threshold cooldown))) =
    (if unat threshold \<le> length ts then Inl CircuitOpen else Inr ())"
  using assms by (simp add: breaker_after_failures before_connect_def)

lemma length_make_room: "0 < capacity \<Longrightarrow> length (make_room capacity es) < capacity"
  by (induction es) auto

lemma record_event_bounded:
  assumes "0 < pe_capacity (eb_config b)" "length (eb_events b) \<le> pe_capacity (eb_config b)"
  shows "length (eb_events (record_event clock kind handle b)) \<le> pe_capacity (eb_config b)"
  using assms length_make_room [OF assms(1)] by (simp add: record_event_def Suc_leI)

lemma snapshot_unexpired: "e \<in> set (fst (snapshot now b)) \<Longrightarrow> now < ev_expires_at e"
  by (auto simp: snapshot_def purge_locked_def Let_def)

section \<open>An example\<close>

definition example_lease :: daemon_lease where
  "example_lease = \<lparr>ds_token_key = [9], ds_handle = [3], ds_expires_at = 5000000000,
     ds_capabilities = [''tcp-connect-v1''], ds_streams = 7\<rparr>"

definition example_registered :: session_manager where
  "example_registered = example_manager\<lparr>
     sm_tokens := fmupd [9] ((create_token_state default_limit_config 0 example_grant)\<lparr>kt_sessions := 1\<rparr>) fmempty,
     sm_sessions := 1, sm_counters := fmupd 7 0 fmempty\<rparr>"

definition example_live :: gateway_sessions where
  "example_live = \<lparr>gs_manager = example_registered, gs_leases = fmupd 0 example_lease fmempty, gs_streams = fmempty\<rparr>"

lemma example_register_value:
  "register (\<lambda>_ m. m) 0 0 0 7 (Some [3]) [9] example_grant example_manager = (Inr example_lease, example_registered)"
proof -
  have "fmupd k x (fmupd k y m) = fmupd k x m" for k :: bytes and x y :: token_state and m by (intro fmap_ext) simp
  then show ?thesis
    by (simp add: register_def admit_session_def example_manager_def example_grant_def validate_grant_def ascii_defs
        increment_bounded_def checked_add_usize_def default_limit_config_def fcard_fempty purge_token_map_def
        create_token_state_def effective_limits_def bandwidth_new_def io_timeout_def duration_from_millis_def
        duration_from_secs_def system_time_max_def Let_def example_lease_def example_registered_def update_token_def)
qed

lemma example_live_reach: "reach gs_start gs_step example_live"
proof -
  have "gs_step example_sessions (example_sessions\<lparr>gs_manager := example_registered,
      gs_leases := keep_lease 0 (Inr example_lease) (gs_leases example_sessions)\<rparr>)"
    by (rule gs_register [where a = 7 and now = 0])
      (use example_register_value in \<open>simp_all add: example_sessions_def example_manager_def system_time_max_def\<close>)
  then have "gs_step example_sessions example_live"
    by (simp add: example_live_def example_sessions_def keep_lease_def)
  then show ?thesis using reach_start [where start = gs_start, OF example_sessions_start] by (blast intro: reach_step)
qed

definition example_connector :: "(unit, nat \<times> unit, unit) egress_connector" where
  "example_connector =
     \<lparr>ec_acl = acl_new default_acl_config, ec_contains = (\<lambda>_ _. False), ec_hmac = (\<lambda>_ m. m),
      ec_resolve = resolve_for_connect example_resolver, ec_dial = (\<lambda>peer w. (ConnectFailed OtherIoError, w))\<rparr>"

definition example_clock :: event_clock where
  "example_clock = \<lparr>ec_purge = 0, ec_unix_seconds = 0, ec_now = 0\<rparr>"

definition example_readings :: egress_readings where
  "example_readings = \<lparr>er_active = 0, er_reserve = 0, er_scan = 0, er_bucket = Inr (), er_circuit = 0, er_failure = 0,
     er_event = example_clock\<rparr>"

definition example_egress :: "(nat \<times> unit) egress_state" where
  "example_egress =
     \<lparr>eg_manager = example_registered, eg_circuit = breaker_new 32 0, eg_metrics = (\<lambda>_. 0),
      eg_events = event_buffer_new default_privacy_event_config ''gw'', eg_world = (0, ()), eg_dialled = []\<rparr>"

lemma example_connector_calls:
  "ec_resolve example_connector = resolve_for_connect example_resolver"
  "ec_dial example_connector peer w = (ConnectFailed OtherIoError, w)" "ec_hmac example_connector = (\<lambda>_ m. m)"
  "check_ip (ec_contains example_connector) (ec_acl example_connector) (V4 (8, 8, 8, 8)) = Inr ()"
  using example_allowed by (simp_all add: example_connector_def example_resolver_def)

lemma example_reserves:
  "\<exists>sm. reserve_stream (\<lambda>_ m. m) 0 0 (Inr ()) example_lease (name_bytes ''a.io'' @ u16_be_bytes 443) example_registered =
     (Inr \<lparr>st_token_key = [9], st_session_streams = 7\<rparr>, sm)"
  by (simp add: reserve_stream_def lease_active_def observe_destination_def example_lease_def example_registered_def
      example_manager_def create_token_state_def effective_limits_def example_grant_def default_limit_config_def
      update_token_def increment_bounded_def checked_add_usize_def add_session_stream_def Let_def
      duration_from_secs_def fcard_fempty fcard_finsert_new)

lemma example_open:
  "\<exists>s'. open_egress example_connector example_readings example_lease (DestHostname ''a.io'') 443 example_egress =
     (Inl EgressFailure, s') \<and> eg_dialled s' = [\<lparr>sa_ip = V4 (8, 8, 8, 8), sa_port = 443\<rparr>]"
proof -
  obtain sm where sm: "reserve_stream (\<lambda>_ m. m) 0 0 (Inr ()) example_lease (name_bytes ''a.io'' @ u16_be_bytes 443)
      example_registered = (Inr \<lparr>st_token_key = [9], st_session_streams = 7\<rparr>, sm)"
    using example_reserves by blast
  have act: "lease_active 0 example_lease example_registered = Inr ()"
    by (simp add: lease_active_def example_lease_def example_registered_def create_token_state_def example_grant_def Let_def)
  have dest: "check_destination (ec_contains example_connector) (ec_acl example_connector) (DestHostname ''a.io'') 443 = Inr ()"
    by (simp add: example_connector_def check_destination_def check_port_def acl_new_def default_acl_config_def canonical_aio
        forbidden_hostname_def forbidden_exact_def forbidden_suffixes_def emergency_hostname_denied_def ends_with_def)
  show ?thesis
    using sm act dest example_resolves
    by (simp add: open_egress_def connect_reserved_def addresses_to_dial_def example_egress_def example_readings_def
        before_connect_def breaker_new_def Let_def dial_error_def example_connector_calls)
qed

theorem only_allowed_addresses_dialled_witness:
  "\<exists>s'. open_egress example_connector example_readings example_lease (DestHostname ''a.io'') 443 example_egress =
     (Inl EgressFailure, s') \<and> (\<forall>p \<in> set (eg_dialled s'). \<not> is_non_public (sa_ip p)) \<and> eg_dialled s' \<noteq> []"
proof -
  obtain s' where s': "open_egress example_connector example_readings example_lease (DestHostname ''a.io'') 443
      example_egress = (Inl EgressFailure, s')" "eg_dialled s' = [\<lparr>sa_ip = V4 (8, 8, 8, 8), sa_port = 443\<rparr>]"
    using example_open by blast
  from only_allowed_addresses_dialled [OF s'(1)] s'(2) have "\<forall>p \<in> set (eg_dialled s'). \<not> is_non_public (sa_ip p)"
    by (auto simp: example_egress_def)
  then show ?thesis using s' by auto
qed

theorem opens_accounted_witness:
  "\<exists>r s'. open_egress example_connector example_readings example_lease (DestHostname ''a.io'') 443 example_egress = (r, s') \<and>
     reach gs_start gs_step (example_live\<lparr>gs_manager := eg_manager s'\<rparr>)"
proof -
  obtain s' where s': "open_egress example_connector example_readings example_lease (DestHostname ''a.io'') 443
      example_egress = (Inl EgressFailure, s')"
    using example_open by blast
  have "reach gs_start gs_step (example_live\<lparr>gs_manager := eg_manager s', gs_streams := gs_streams example_live\<rparr>)"
    using opens_accounted [OF example_live_reach _ _ _ s', of 0 1]
    by (simp add: example_live_def example_egress_def)
  then show ?thesis using s' by (simp add: example_live_def)
qed

theorem resolved_opens_fail_only_on_connect_witness:
  "\<exists>addresses u s'. addresses_to_dial example_connector example_readings example_lease (DestHostname ''a.io'') example_egress =
       (Inr addresses, u) \<and> addresses \<noteq> [] \<and>
     dial_all example_connector example_readings example_lease 443 EgressFailure False addresses u = (Inl EgressFailure, s')"
proof -
  let ?u = "example_egress\<lparr>eg_world := (4, ())\<rparr>"
  have a: "addresses_to_dial example_connector example_readings example_lease (DestHostname ''a.io'') example_egress =
      (Inr [V4 (8, 8, 8, 8)], ?u)"
    using example_resolves by (simp add: addresses_to_dial_def example_connector_def example_egress_def)
  obtain s' where d: "dial_all example_connector example_readings example_lease 443 EgressFailure False
      [V4 (8, 8, 8, 8)] ?u = (Inl EgressFailure, s')"
    by (simp add: Let_def example_connector_calls dial_error_def)
  have "[V4 (8, 8, 8, 8)] \<noteq> []"
    using resolved_opens_fail_only_on_connect [OF example_connector_calls(1) _ _ a d]
    by (simp add: example_connector_def example_resolver_def)
  then show ?thesis using a d by blast
qed

end
