(* ===== verification/Flow_Engine.thy ===== *)
theory Flow_Engine
  imports Packet Client_Policy Client_State
begin

text \<open>
  The packet processor of the client (\<open>src/crates/packet-engine/src/engine.rs\<close> with \<open>flow.rs\<close>,
  \<open>action.rs\<close> and \<open>metrics.rs\<close>): the table of TCP flows it terminates, interception of DNS over UDP
  and TCP, and the timers. The processor returns a list of actions; nothing else leaves it. An
  operation of the model returns the actions and the new processor, or \<^const>\<open>None\<close> where the
  source would panic in an \<open>expect\<close>. The calls to the metrics sink are kept in order. A hash map
  is iterated in an unspecified order: the operations that iterate take the order as an argument.

  Its laws are in theory \<open>Flow_Engine_Laws\<close>.
\<close>

section \<open>Flows\<close>

type_synonym flow_id = u64

record transport_endpoint =
  te_address :: ipv4_addr
  te_port :: u16

record flow_timestamps =
  ft_created_ms :: u64
  ft_last_activity_ms :: u64
  ft_connect_started_ms :: "u64 option"

record buffer_limits =
  bf_to_gateway_bytes :: nat
  bf_to_application_bytes :: nat

datatype tcp_flow_state =
    Connecting | SynAckSent | Established | HalfClosedLocal | HalfClosedRemote | Closing | ResetFlow | ClosedFlow

record flow_snapshot =
  sn_flow_id :: flow_id
  sn_source :: transport_endpoint
  sn_destination :: transport_endpoint
  sn_hostname :: "string option"
  sn_application :: "string option"
  sn_isolation_key :: bytes
  sn_anonymity_profile :: anonymity_mode
  sn_gateway_id :: "string option"
  sn_timestamps :: flow_timestamps
  sn_state :: tcp_flow_state
  sn_limits :: buffer_limits
  sn_queued_to_gateway :: nat
  sn_queued_to_application :: nat

record flow_key =
  fk_source :: transport_endpoint
  fk_destination :: transport_endpoint

record outstanding_segment =
  os_sequence :: u32
  os_acknowledgement :: u32
  os_flags :: tcp_flags
  os_payload :: bytes
  os_sent_ms :: u64
  os_retransmissions :: u8

record flow_record =
  fl_snapshot :: flow_snapshot
  fl_key :: flow_key
  fl_client_next :: u32
  fl_server_next :: u32
  fl_dns_tcp :: bool
  fl_dns_buffer :: bytes
  fl_outstanding :: "outstanding_segment option"

section \<open>Actions\<close>

record platform_metadata =
  pm_application :: "string option"
  pm_monotonic_ms :: u64

record protected_route =
  pt_decision :: policy_decision
  pt_hostname :: "string option"
  pt_isolation_key :: bytes
  pt_anonymity_profile :: anonymity_mode
  pt_gateway_id :: "string option"

record packet_engine_input =
  pi_packet :: bytes
  pi_platform :: platform_metadata
  pi_route :: "protected_route option"
  pi_connection_state :: client_connection_state

datatype block_reason =
    MalformedPacket | Ipv6Blocked | UdpBlocked | QuicBlocked | IcmpUnsupported | UnsupportedIpTransport
  | PolicyDeniedFlow | DirectFallbackForbidden | ProtectedPathUnavailable | Backpressure | ConnectionTimeout
  | IdleTimeout | ShutdownReason | DownstreamFailure

datatype diagnostic_code =
    MalformedDiagnostic | RetransmissionDiagnostic | OutOfOrder | FlowLimit | BufferLimit | UnknownFlow
  | ResumePathInvalid | ShutdownDiagnostic

datatype close_direction = CloseWrite | CloseBoth

datatype dns_response_target =
    UdpTarget transport_endpoint transport_endpoint
  | TcpTarget flow_id

record dns_query =
  dq_query_id :: u64
  dq_wire :: bytes

datatype engine_action =
    OpenProtectedStream tcp_flow_request bytes anonymity_mode "string option"
  | ForwardPayload flow_id bytes
  | ResolveDns dns_query dns_response_target
  | CloseProtectedStream flow_id close_direction
  | SendSyntheticResponse bytes
  | BlockFlow "flow_id option" block_reason
  | RecordDiagnostic diagnostic_code "flow_id option"

datatype metric_event = FlowOpened | FlowClosed | FlowBlocked block_reason | RetransmissionMetric | BackpressureMetric

definition endpoints :: "ipv4_addr \<Rightarrow> u16 \<Rightarrow> ipv4_addr \<Rightarrow> u16 \<Rightarrow> transport_endpoint \<times> transport_endpoint" where
  "endpoints source source_port destination destination_port =
     (\<lparr>te_address = source, te_port = source_port\<rparr>, \<lparr>te_address = destination, te_port = destination_port\<rparr>)"

section \<open>The processor\<close>

definition MAX_DNS_MESSAGE_BYTES :: nat where
  "MAX_DNS_MESSAGE_BYTES = 64 * 1024"

record engine_config =
  en_max_flows :: nat
  en_max_pending_dns :: nat
  en_buffers :: buffer_limits
  en_connection_timeout_ms :: u64
  en_idle_timeout_ms :: u64
  en_retransmit_interval_ms :: u64
  en_max_retransmissions :: u8
  en_receive_window :: u16

definition default_engine_config :: engine_config where
  "default_engine_config =
     \<lparr>en_max_flows = 4096, en_max_pending_dns = 256,
      en_buffers = \<lparr>bf_to_gateway_bytes = 256 * 1024, bf_to_application_bytes = 60 * 1024\<rparr>,
      en_connection_timeout_ms = 30000, en_idle_timeout_ms = 300000, en_retransmit_interval_ms = 1000,
      en_max_retransmissions = 5, en_receive_window = 32 * 1024\<rparr>"

definition engine_config_valid :: "engine_config \<Rightarrow> bool" where
  "engine_config_valid c \<longleftrightarrow>
     0 < en_max_flows c \<and> 0 < en_max_pending_dns c \<and> 0 < bf_to_gateway_bytes (en_buffers c) \<and>
     0 < bf_to_application_bytes (en_buffers c) \<and> 0 < en_connection_timeout_ms c \<and> 0 < en_idle_timeout_ms c \<and>
     0 < en_retransmit_interval_ms c \<and> 0 < en_max_retransmissions c \<and> 0 < en_receive_window c \<and>
     unat (en_receive_window c) \<le> bf_to_gateway_bytes (en_buffers c) \<and>
     bf_to_application_bytes (en_buffers c) \<le> u16_max"

record packet_processor =
  pp_config :: engine_config
  pp_metrics :: "(metric_event \<times> flow_id option) list"
  pp_flows :: "(flow_key, flow_record) fmap"
  pp_ids :: "(flow_id, flow_key) fmap"
  pp_pending_dns :: "(u64, dns_response_target) fmap"
  pp_next_flow_id :: u64
  pp_next_dns_id :: u64
  pp_accepting :: bool
  pp_suspended_at_ms :: "u64 option"

type_synonym engine_result = "(engine_action list \<times> packet_processor) option"

definition processor_new :: "engine_config \<Rightarrow> packet_processor option" where
  "processor_new config =
     (if engine_config_valid config
      then Some \<lparr>pp_config = config, pp_metrics = [], pp_flows = fmempty, pp_ids = fmempty, pp_pending_dns = fmempty,
                 pp_next_flow_id = 1, pp_next_dns_id = 1, pp_accepting = True, pp_suspended_at_ms = None\<rparr>
      else None)"

definition flow_of :: "flow_id \<Rightarrow> packet_processor \<Rightarrow> flow_snapshot option" where
  "flow_of i pp =
     (case fmlookup (pp_ids pp) i of
        None \<Rightarrow> None
      | Some key \<Rightarrow> map_option fl_snapshot (fmlookup (pp_flows pp) key))"

definition record_metric :: "metric_event \<Rightarrow> flow_id option \<Rightarrow> packet_processor \<Rightarrow> packet_processor" where
  "record_metric e i pp = pp\<lparr>pp_metrics := pp_metrics pp @ [(e, i)]\<rparr>"

definition put_flow :: "flow_key \<Rightarrow> flow_record \<Rightarrow> packet_processor \<Rightarrow> packet_processor" where
  "put_flow key f pp = pp\<lparr>pp_flows := fmupd key f (pp_flows pp)\<rparr>"

definition block_flow :: "flow_id option \<Rightarrow> block_reason \<Rightarrow> packet_processor \<Rightarrow> engine_action list \<times> packet_processor" where
  "block_flow i reason pp = ([BlockFlow i reason], record_metric (FlowBlocked reason) i pp)"

definition insert_flow :: "flow_record \<Rightarrow> packet_processor \<Rightarrow> packet_processor" where
  "insert_flow f pp =
     (let i = sn_flow_id (fl_snapshot f) in
      record_metric FlowOpened (Some i)
        (pp\<lparr>pp_ids := fmupd i (fl_key f) (pp_ids pp), pp_flows := fmupd (fl_key f) f (pp_flows pp)\<rparr>))"

definition for_flow :: "flow_id \<Rightarrow> dns_response_target \<Rightarrow> bool" where
  "for_flow i target \<longleftrightarrow> target = TcpTarget i"

definition remove_flow :: "flow_key \<Rightarrow> packet_processor \<Rightarrow> packet_processor" where
  "remove_flow key pp =
     (case fmlookup (pp_flows pp) key of
        None \<Rightarrow> pp
      | Some f \<Rightarrow>
          let i = sn_flow_id (fl_snapshot f); pending = pp_pending_dns pp in
          record_metric FlowClosed (Some i)
            (pp\<lparr>pp_flows := fmdrop key (pp_flows pp), pp_ids := fmdrop i (pp_ids pp),
                pp_pending_dns := fmfilter (\<lambda>q. case fmlookup pending q of None \<Rightarrow> False | Some target \<Rightarrow> \<not> for_flow i target)
                  pending\<rparr>))"

definition succ_id :: "u64 \<Rightarrow> u64" where
  "succ_id n = max (n + 1) 1"

definition protected_state :: "client_connection_state \<Rightarrow> bool" where
  "protected_state s \<longleftrightarrow> s = Connected \<or> s = Rotating \<or> s = Degraded"

definition initial_sequence :: "flow_id \<Rightarrow> u32" where
  "initial_sequence i = 0xa50f0000 XOR (ucast i * 0x9e3779b9)"

definition sequence_before :: "u32 \<Rightarrow> u32 \<Rightarrow> bool" where
  "sequence_before left right \<longleftrightarrow> sint (left - right) < 0"

definition response_from_values :: "flow_record \<Rightarrow> u32 \<Rightarrow> u32 \<Rightarrow> tcp_flags \<Rightarrow> u16 \<Rightarrow> bytes \<Rightarrow> bytes" where
  "response_from_values f sequence acknowledgement flags window payload =
     build_tcp_packet (te_address (fk_destination (fl_key f))) (te_address (fk_source (fl_key f)))
       (te_port (fk_destination (fl_key f))) (te_port (fk_source (fl_key f))) sequence acknowledgement flags window payload"

definition reject_syn :: "tcp_segment \<Rightarrow> block_reason \<Rightarrow> packet_processor \<Rightarrow> engine_action list \<times> packet_processor" where
  "reject_syn segment reason pp =
     (let packet = build_tcp_packet (ts_destination segment) (ts_source segment) (ts_destination_port segment)
            (ts_source_port segment) 0 (ts_sequence segment + 1) rst_ack 0 [];
          (actions, pp) = block_flow None reason pp in
      (SendSyntheticResponse packet # actions, pp))"

definition reset_by_key :: "flow_key \<Rightarrow> packet_processor \<Rightarrow> engine_action list \<times> packet_processor" where
  "reset_by_key key pp =
     (case fmlookup (pp_flows pp) key of
        None \<Rightarrow> ([], pp)
      | Some f \<Rightarrow> ([CloseProtectedStream (sn_flow_id (fl_snapshot f)) CloseBoth], remove_flow key pp))"

definition fail_flow :: "flow_id \<Rightarrow> block_reason \<Rightarrow> packet_processor \<Rightarrow> engine_result" where
  "fail_flow i reason pp =
     (case fmlookup (pp_ids pp) i of
        None \<Rightarrow> Some ([], pp)
      | Some key \<Rightarrow>
          (case fmlookup (pp_flows pp) key of
             None \<Rightarrow> None
           | Some f \<Rightarrow>
               Some ([SendSyntheticResponse (response_from_values f (fl_server_next f) (fl_client_next f) rst_ack 0 []),
                      BlockFlow (Some i) reason, CloseProtectedStream i CloseBoth],
                     record_metric (FlowBlocked reason) (Some i) (remove_flow key pp))))"

section \<open>New flows\<close>

definition process_udp :: "udp_datagram \<Rightarrow> client_connection_state \<Rightarrow> packet_processor \<Rightarrow> engine_action list \<times> packet_processor" where
  "process_udp datagram state pp =
     (if ud_destination_port datagram = 53 then
        if \<not> pp_accepting pp then block_flow None ShutdownReason pp
        else if \<not> protected_state state then block_flow None ProtectedPathUnavailable pp
        else if ud_payload datagram = [] \<or> MAX_DNS_MESSAGE_BYTES < length (ud_payload datagram) \<or>
                en_max_pending_dns (pp_config pp) \<le> fcard (fmdom (pp_pending_dns pp))
        then block_flow None Backpressure pp
        else
          let query_id = pp_next_dns_id pp;
              (client, resolver) = endpoints (ud_source datagram) (ud_source_port datagram) (ud_destination datagram)
                (ud_destination_port datagram);
              target = UdpTarget client resolver in
          ([ResolveDns \<lparr>dq_query_id = query_id, dq_wire = ud_payload datagram\<rparr> target],
           pp\<lparr>pp_next_dns_id := succ_id query_id, pp_pending_dns := fmupd query_id target (pp_pending_dns pp)\<rparr>)
      else if ud_destination_port datagram = 443 then block_flow None QuicBlocked pp
      else block_flow None UdpBlocked pp)"

text \<open>The record of a new flow. \<open>state\<close>, the isolation and the buffers differ between the two kinds.\<close>

definition new_snapshot ::
  "flow_id \<Rightarrow> flow_key \<Rightarrow> platform_metadata \<Rightarrow> buffer_limits \<Rightarrow> protected_route option \<Rightarrow> flow_snapshot" where
  "new_snapshot i key platform limits route =
     \<lparr>sn_flow_id = i, sn_source = fk_source key, sn_destination = fk_destination key,
      sn_hostname = Option.bind route pt_hostname, sn_application = pm_application platform,
      sn_isolation_key = (case route of None \<Rightarrow> replicate 32 0 | Some r \<Rightarrow> pt_isolation_key r),
      sn_anonymity_profile = (case route of None \<Rightarrow> StandardMode | Some r \<Rightarrow> pt_anonymity_profile r),
      sn_gateway_id = Option.bind route pt_gateway_id,
      sn_timestamps = \<lparr>ft_created_ms = pm_monotonic_ms platform, ft_last_activity_ms = pm_monotonic_ms platform,
        ft_connect_started_ms = (if route = None then None else Some (pm_monotonic_ms platform))\<rparr>,
      sn_state = (if route = None then SynAckSent else Connecting), sn_limits = limits,
      sn_queued_to_gateway = 0, sn_queued_to_application = 0\<rparr>"

definition new_flow ::
  "flow_id \<Rightarrow> flow_key \<Rightarrow> tcp_segment \<Rightarrow> platform_metadata \<Rightarrow> buffer_limits \<Rightarrow> protected_route option \<Rightarrow> flow_record" where
  "new_flow i key segment platform limits route =
     \<lparr>fl_snapshot = new_snapshot i key platform limits route, fl_key = key,
      fl_client_next = ts_sequence segment + 1, fl_server_next = initial_sequence i + 1,
      fl_dns_tcp = (route = None), fl_dns_buffer = [], fl_outstanding = None\<rparr>"

definition open_dns_tcp ::
  "flow_key \<Rightarrow> tcp_segment \<Rightarrow> platform_metadata \<Rightarrow> client_connection_state \<Rightarrow> packet_processor \<Rightarrow>
     engine_action list \<times> packet_processor" where
  "open_dns_tcp key segment platform state pp =
     (if \<not> pp_accepting pp then reject_syn segment ShutdownReason pp
      else if \<not> protected_state state then reject_syn segment ProtectedPathUnavailable pp
      else if en_max_flows (pp_config pp) \<le> fcard (fmdom (pp_flows pp)) then reject_syn segment Backpressure pp
      else
        let i = pp_next_flow_id pp; pp = pp\<lparr>pp_next_flow_id := succ_id i\<rparr>;
            f = new_flow i key segment platform (en_buffers (pp_config pp)) None;
            response = response_from_values f (initial_sequence i) (fl_client_next f) syn_ack
              (en_receive_window (pp_config pp)) [] in
        ([SendSyntheticResponse response], insert_flow f pp))"

definition open_tcp_flow ::
  "flow_key \<Rightarrow> tcp_segment \<Rightarrow> packet_engine_input \<Rightarrow> packet_processor \<Rightarrow> engine_action list \<times> packet_processor" where
  "open_tcp_flow key segment input pp =
     (if \<not> pp_accepting pp then reject_syn segment ShutdownReason pp
      else if \<not> protected_state (pi_connection_state input) then reject_syn segment ProtectedPathUnavailable pp
      else
        (case pi_route input of
           None \<Rightarrow> reject_syn segment PolicyDeniedFlow pp
         | Some route \<Rightarrow>
             (case pd_action (pt_decision route) of
                Block \<Rightarrow> reject_syn segment PolicyDeniedFlow pp
              | Bypass \<Rightarrow> reject_syn segment DirectFallbackForbidden pp
              | Tunnel \<Rightarrow>
                  if en_max_flows (pp_config pp) \<le> fcard (fmdom (pp_flows pp)) then
                    let (actions, pp) = reject_syn segment Backpressure (record_metric BackpressureMetric None pp) in
                    (actions @ [RecordDiagnostic FlowLimit None], pp)
                  else
                    let i = pp_next_flow_id pp; pp = pp\<lparr>pp_next_flow_id := succ_id i\<rparr>;
                        request = \<lparr>fr_flow_id = i,
                          fr_host = (case pt_hostname route of Some h \<Rightarrow> HostName h | None \<Rightarrow> HostIp (V4 (ts_destination segment))),
                          fr_port = ts_destination_port segment, fr_application = pm_application (pi_platform input)\<rparr>;
                        f = new_flow i key segment (pi_platform input) (en_buffers (pp_config pp)) (Some route) in
                    ([OpenProtectedStream request (pt_isolation_key route) (pt_anonymity_profile route)
                        (pt_gateway_id route)], insert_flow f pp))))"

section \<open>Segments of a known flow\<close>

definition set_state :: "tcp_flow_state \<Rightarrow> flow_record \<Rightarrow> flow_record" where
  "set_state state f = f\<lparr>fl_snapshot := (fl_snapshot f)\<lparr>sn_state := state\<rparr>\<rparr>"

definition touch :: "u64 \<Rightarrow> flow_record \<Rightarrow> flow_record" where
  "touch now f =
     f\<lparr>fl_snapshot := (fl_snapshot f)\<lparr>sn_timestamps := (sn_timestamps (fl_snapshot f))\<lparr>ft_last_activity_ms := now\<rparr>\<rparr>\<rparr>"

definition establish :: "flow_record \<Rightarrow> flow_record" where
  "establish f =
     f\<lparr>fl_snapshot := (fl_snapshot f)\<lparr>sn_state := Established,
        sn_timestamps := (sn_timestamps (fl_snapshot f))\<lparr>ft_connect_started_ms := None\<rparr>\<rparr>\<rparr>"

abbreviation flow_state :: "flow_record \<Rightarrow> tcp_flow_state" where
  "flow_state f \<equiv> sn_state (fl_snapshot f)"

abbreviation id_of :: "flow_record \<Rightarrow> flow_id" where
  "id_of f \<equiv> sn_flow_id (fl_snapshot f)"

definition syn_ack_reply :: "u16 \<Rightarrow> flow_record \<Rightarrow> engine_action" where
  "syn_ack_reply window f =
     SendSyntheticResponse (response_from_values f (fl_server_next f - 1) (fl_client_next f) syn_ack window [])"

definition ack_reply :: "u16 \<Rightarrow> flow_record \<Rightarrow> engine_action" where
  "ack_reply window f =
     SendSyntheticResponse (response_from_values f (fl_server_next f) (fl_client_next f) ack_flags window [])"

text \<open>The local variables of one turn: the flow, the actions so far and \<open>reset_after\<close>.\<close>

record tcp_turn =
  tt_flow :: flow_record
  tt_actions :: "engine_action list"
  tt_reset :: bool

definition refuse :: "block_reason \<Rightarrow> diagnostic_code \<Rightarrow> tcp_turn \<Rightarrow> tcp_turn" where
  "refuse reason code t =
     (let i = Some (id_of (tt_flow t)) in
      t\<lparr>tt_actions := tt_actions t @ [BlockFlow i reason, RecordDiagnostic code i], tt_reset := True\<rparr>)"

definition remark :: "diagnostic_code \<Rightarrow> u16 \<Rightarrow> tcp_turn \<Rightarrow> tcp_turn" where
  "remark code window t =
     t\<lparr>tt_actions := tt_actions t @ [RecordDiagnostic code (Some (id_of (tt_flow t))), ack_reply window (tt_flow t)]\<rparr>"

definition take_acknowledgement :: "tcp_segment \<Rightarrow> tcp_turn \<Rightarrow> tcp_turn" where
  "take_acknowledgement segment t =
     (let f = tt_flow t in
      if \<not> tf_ack (ts_flags segment) then t
      else if sequence_before (fl_server_next f) (ts_acknowledgement segment) then refuse MalformedPacket OutOfOrder t
      else if ts_acknowledgement segment = fl_server_next f \<and> fl_outstanding f \<noteq> None
      then t\<lparr>tt_flow := f\<lparr>fl_outstanding := None, fl_snapshot := (fl_snapshot f)\<lparr>sn_queued_to_application := 0\<rparr>\<rparr>\<rparr>
      else t)"

definition last_acknowledgement :: "tcp_segment \<Rightarrow> flow_record \<Rightarrow> bool" where
  "last_acknowledgement segment f \<longleftrightarrow>
     flow_state f = Closing \<and> tf_ack (ts_flags segment) \<and> ts_acknowledgement segment = fl_server_next f \<and>
     fl_outstanding f = None \<and> ts_payload segment = [] \<and> \<not> tf_fin (ts_flags segment)"

definition advance_client :: "nat \<Rightarrow> flow_record \<Rightarrow> flow_record" where
  "advance_client n f = f\<lparr>fl_client_next := fl_client_next f + word_of_nat n\<rparr>"

definition accept_in_order :: "engine_config \<Rightarrow> bytes \<Rightarrow> tcp_turn \<Rightarrow> tcp_turn" where
  "accept_in_order config payload t =
     (let f = tt_flow t; max_buffer = bf_to_gateway_bytes (en_buffers config); n = length payload in
      if fl_dns_tcp f then
        if max_buffer < saturating_add_usize (length (fl_dns_buffer f)) n then refuse Backpressure BufferLimit t
        else
          let f = advance_client n (f\<lparr>fl_dns_buffer := fl_dns_buffer f @ payload\<rparr>) in
          t\<lparr>tt_flow := f, tt_actions := tt_actions t @ [ack_reply (en_receive_window config) f]\<rparr>
      else if max_buffer < saturating_add_usize (sn_queued_to_gateway (fl_snapshot f)) n
      then refuse Backpressure BufferLimit t
      else
        t\<lparr>tt_flow := advance_client n
             (f\<lparr>fl_snapshot := (fl_snapshot f)\<lparr>sn_queued_to_gateway := sn_queued_to_gateway (fl_snapshot f) + n\<rparr>\<rparr>),
           tt_actions := tt_actions t @ [ForwardPayload (id_of f) payload]\<rparr>)"

definition accept_payload :: "engine_config \<Rightarrow> tcp_segment \<Rightarrow> tcp_turn \<Rightarrow> tcp_turn" where
  "accept_payload config segment t =
     (let f = tt_flow t; window = en_receive_window config in
      if ts_payload segment = [] \<or> tt_reset t then t
      else if flow_state f = HalfClosedLocal \<or> flow_state f = Closing then refuse MalformedPacket OutOfOrder t
      else if ts_sequence segment = fl_client_next f then accept_in_order config (ts_payload segment) t
      else if sequence_before (ts_sequence segment) (fl_client_next f) then remark RetransmissionDiagnostic window t
      else remark OutOfOrder window t)"

text \<open>The loop over complete messages in the buffer of a DNS flow.\<close>

record dns_drain =
  dd_buffer :: bytes
  dd_pending :: "(u64, dns_response_target) fmap"
  dd_next_id :: u64
  dd_actions :: "engine_action list"
  dd_reset :: bool

function drain_dns :: "flow_id \<Rightarrow> nat \<Rightarrow> dns_drain \<Rightarrow> dns_drain" where
  "drain_dns i max_pending d =
     (let buffer = dd_buffer d in
      if length buffer < 2 then d
      else
        let message_len = unat (be_u16 (buffer ! 0) (buffer ! 1)) in
        if message_len = 0 \<or> MAX_DNS_MESSAGE_BYTES < message_len
        then d\<lparr>dd_actions := dd_actions d @ [BlockFlow (Some i) MalformedPacket], dd_reset := True\<rparr>
        else if length buffer < message_len + 2 then d
        else if max_pending \<le> fcard (fmdom (dd_pending d))
        then d\<lparr>dd_actions := dd_actions d @ [BlockFlow (Some i) Backpressure], dd_reset := True\<rparr>
        else
          drain_dns i max_pending
            (d\<lparr>dd_buffer := drop (message_len + 2) buffer,
               dd_pending := fmupd (dd_next_id d) (TcpTarget i) (dd_pending d),
               dd_next_id := succ_id (dd_next_id d),
               dd_actions := dd_actions d @
                 [ResolveDns \<lparr>dq_query_id = dd_next_id d, dq_wire = take message_len (drop 2 buffer)\<rparr> (TcpTarget i)]\<rparr>))"
  by pat_completeness auto

termination
  by (relation "measure (\<lambda>(_, _, d). length (dd_buffer d))") auto

declare drain_dns.simps [simp del]

text \<open>The FIN of the application. The second component is \<open>graceful_remove\<close>.\<close>

definition take_fin :: "u16 \<Rightarrow> tcp_segment \<Rightarrow> tcp_turn \<Rightarrow> tcp_turn \<times> bool" where
  "take_fin window segment t =
     (let fin_end = ts_sequence segment + word_of_nat (length (ts_payload segment)); f = tt_flow t; i = id_of f in
      if tf_fin (ts_flags segment) \<and> \<not> tt_reset t \<and> fin_end = fl_client_next f then
        let f = f\<lparr>fl_client_next := fl_client_next f + 1\<rparr>; reply = ack_reply window f in
        if flow_state f = HalfClosedRemote then
          (t\<lparr>tt_flow := set_state Closing f,
             tt_actions := tt_actions t @ [CloseProtectedStream i CloseBoth] @
               (if ts_payload segment = [] then [reply] else [])\<rparr>, ts_payload segment = [])
        else
          (t\<lparr>tt_flow := set_state HalfClosedLocal f,
             tt_actions := tt_actions t @ (if fl_dns_tcp f then [] else [CloseProtectedStream i CloseWrite]) @
               (if fl_dns_tcp f \<or> ts_payload segment = [] then [reply] else [])\<rparr>, False)
      else if tf_fin (ts_flags segment) \<and> \<not> tt_reset t \<and> fin_end + 1 = fl_client_next f
      then (remark RetransmissionDiagnostic window t, False)
      else (t, False))"

text \<open>From the acknowledgement on: payload, DNS messages, FIN, and the end of the flow.\<close>

definition synchronized_turn ::
  "flow_key \<Rightarrow> tcp_segment \<Rightarrow> flow_record \<Rightarrow> packet_processor \<Rightarrow> engine_action list \<times> packet_processor" where
  "synchronized_turn key segment f pp =
     (let config = pp_config pp; i = id_of f;
          t = take_acknowledgement segment \<lparr>tt_flow = f, tt_actions = [], tt_reset = False\<rparr> in
      if last_acknowledgement segment (tt_flow t)
      then (tt_actions t @ [CloseProtectedStream i CloseBoth], remove_flow key (put_flow key (tt_flow t) pp))
      else
        let t = accept_payload config segment t;
            d = \<lparr>dd_buffer = fl_dns_buffer (tt_flow t), dd_pending = pp_pending_dns pp, dd_next_id = pp_next_dns_id pp,
                 dd_actions = tt_actions t, dd_reset = tt_reset t\<rparr>;
            d = (if fl_dns_tcp (tt_flow t) \<and> \<not> tt_reset t then drain_dns i (en_max_pending_dns config) d else d);
            t = t\<lparr>tt_flow := (tt_flow t)\<lparr>fl_dns_buffer := dd_buffer d\<rparr>, tt_actions := dd_actions d, tt_reset := dd_reset d\<rparr>;
            (t, graceful_remove) = take_fin (en_receive_window config) segment t;
            f = tt_flow t;
            actions = tt_actions t @
              (if tt_reset t
               then [SendSyntheticResponse (response_from_values f (fl_server_next f) (fl_client_next f) rst_ack 0 []),
                     CloseProtectedStream i CloseBoth] else []);
            pp = put_flow key f (pp\<lparr>pp_pending_dns := dd_pending d, pp_next_dns_id := dd_next_id d\<rparr>) in
        (actions, if tt_reset t \<or> graceful_remove then remove_flow key pp else pp))"

definition process_existing_tcp :: "flow_key \<Rightarrow> tcp_segment \<Rightarrow> u64 \<Rightarrow> packet_processor \<Rightarrow> engine_result" where
  "process_existing_tcp key segment now pp =
     (case fmlookup (pp_flows pp) key of
        None \<Rightarrow> None
      | Some f \<Rightarrow>
          let window = en_receive_window (pp_config pp); f = touch now f; i = Some (id_of f); flags = ts_flags segment in
          if tf_syn flags then
            Some (RecordDiagnostic RetransmissionDiagnostic i # (if flow_state f = SynAckSent then [syn_ack_reply window f] else []),
                  record_metric RetransmissionMetric i (put_flow key f pp))
          else if flow_state f = Connecting then Some ([], put_flow key f pp)
          else if flow_state f = SynAckSent \<and>
            \<not> (tf_ack flags \<and> ts_acknowledgement segment = fl_server_next f \<and> ts_sequence segment = fl_client_next f)
          then Some ([RecordDiagnostic OutOfOrder i, syn_ack_reply window f], put_flow key f pp)
          else
            let f = (if flow_state f = SynAckSent then establish f else f) in
            if (ts_payload segment \<noteq> [] \<or> tf_fin flags) \<and> \<not> tf_ack flags
            then Some ([RecordDiagnostic OutOfOrder i, ack_reply window f], put_flow key f pp)
            else Some (synchronized_turn key segment f pp))"

definition process_tcp :: "tcp_segment \<Rightarrow> packet_engine_input \<Rightarrow> packet_processor \<Rightarrow> engine_result" where
  "process_tcp segment input pp =
     (let (source, destination) = endpoints (ts_source segment) (ts_source_port segment) (ts_destination segment)
            (ts_destination_port segment);
          key = \<lparr>fk_source = source, fk_destination = destination\<rparr>; flags = ts_flags segment in
      if tf_syn flags \<and> (tf_fin flags \<or> tf_rst flags \<or> ts_payload segment \<noteq> []) then
        (case fmlookup (pp_flows pp) key of
           Some f \<Rightarrow> fail_flow (id_of f) MalformedPacket pp
         | None \<Rightarrow> Some (reject_syn segment MalformedPacket pp))
      else if tf_rst flags then Some (reset_by_key key pp)
      else
        (case fmlookup (pp_flows pp) key of
           None \<Rightarrow>
             if \<not> tf_syn flags \<or> tf_ack flags then Some ([RecordDiagnostic UnknownFlow None], pp)
             else if ts_destination_port segment = 53
             then Some (open_dns_tcp key segment (pi_platform input) (pi_connection_state input) pp)
             else Some (open_tcp_flow key segment input pp)
         | Some f \<Rightarrow>
             if \<not> protected_state (pi_connection_state input) then fail_flow (id_of f) ProtectedPathUnavailable pp
             else process_existing_tcp key segment (pm_monotonic_ms (pi_platform input)) pp))"

definition process :: "packet_engine_input \<Rightarrow> packet_processor \<Rightarrow> engine_result" where
  "process input pp =
     (case classify (pi_packet input) of
        Inl _ \<Rightarrow>
          Some ([BlockFlow None MalformedPacket, RecordDiagnostic MalformedDiagnostic None],
                record_metric (FlowBlocked MalformedPacket) None pp)
      | Inr Ipv6 \<Rightarrow> Some (block_flow None Ipv6Blocked pp)
      | Inr (Udp datagram) \<Rightarrow> Some (process_udp datagram (pi_connection_state input) pp)
      | Inr (Tcp segment) \<Rightarrow> process_tcp segment input pp
      | Inr (Icmp _) \<Rightarrow> Some (block_flow None IcmpUnsupported pp)
      | Inr (OtherProtocol _) \<Rightarrow> Some (block_flow None UnsupportedIpTransport pp))"

section \<open>Events of the protected stream\<close>

definition protected_stream_opened :: "flow_id \<Rightarrow> u64 \<Rightarrow> packet_processor \<Rightarrow> engine_result" where
  "protected_stream_opened i now pp =
     (case fmlookup (pp_ids pp) i of
        None \<Rightarrow> Some ([RecordDiagnostic UnknownFlow (Some i)], pp)
      | Some key \<Rightarrow>
          (case fmlookup (pp_flows pp) key of
             None \<Rightarrow> None
           | Some f \<Rightarrow>
               if flow_state f \<noteq> Connecting then Some ([], pp)
               else
                 let f = touch now (set_state SynAckSent f) in
                 Some ([syn_ack_reply (en_receive_window (pp_config pp)) f], put_flow key f pp)))"

definition acknowledge_forwarded :: "flow_id \<Rightarrow> nat \<Rightarrow> u64 \<Rightarrow> packet_processor \<Rightarrow> engine_result" where
  "acknowledge_forwarded i n now pp =
     (case fmlookup (pp_ids pp) i of
        None \<Rightarrow> Some ([], pp)
      | Some key \<Rightarrow>
          (case fmlookup (pp_flows pp) key of
             None \<Rightarrow> Some ([], pp)
           | Some f \<Rightarrow>
               let f = touch now (f\<lparr>fl_snapshot := (fl_snapshot f)
                     \<lparr>sn_queued_to_gateway := sn_queued_to_gateway (fl_snapshot f) - n\<rparr>\<rparr>);
                   reply = ack_reply (en_receive_window (pp_config pp)) f;
                   pp = put_flow key f pp in
               Some ([reply], if flow_state f = Closing \<and> fl_outstanding f = None then remove_flow key pp else pp)))"

definition may_deliver :: "flow_record \<Rightarrow> bool" where
  "may_deliver f \<longleftrightarrow> fl_outstanding f = None \<and> (flow_state f = Established \<or> flow_state f = HalfClosedLocal)"

definition protected_read_capacity :: "flow_id \<Rightarrow> packet_processor \<Rightarrow> nat" where
  "protected_read_capacity i pp =
     (case fmlookup (pp_ids pp) i of
        None \<Rightarrow> 0
      | Some key \<Rightarrow>
          (case fmlookup (pp_flows pp) key of
             None \<Rightarrow> 0
           | Some f \<Rightarrow> if may_deliver f then bf_to_application_bytes (sn_limits (fl_snapshot f)) else 0))"

text \<open>One segment to the application, kept until it is acknowledged; \<open>used\<close> is what it takes of the sequence space.\<close>

definition send_segment :: "u64 \<Rightarrow> u16 \<Rightarrow> tcp_flags \<Rightarrow> bytes \<Rightarrow> nat \<Rightarrow> flow_record \<Rightarrow> engine_action \<times> flow_record" where
  "send_segment now window flags payload used f =
     (let sequence = fl_server_next f; acknowledgement = fl_client_next f;
          f = f\<lparr>fl_server_next := fl_server_next f + word_of_nat used\<rparr> in
      (SendSyntheticResponse (response_from_values f sequence acknowledgement flags window payload),
       f\<lparr>fl_outstanding := Some \<lparr>os_sequence = sequence, os_acknowledgement = acknowledgement, os_flags = flags,
          os_payload = payload, os_sent_ms = now, os_retransmissions = 0\<rparr>\<rparr>))"

definition deliver :: "flow_key \<Rightarrow> flow_id \<Rightarrow> bytes \<Rightarrow> u64 \<Rightarrow> packet_processor \<Rightarrow> engine_result" where
  "deliver key i payload now pp =
     (let can_accept = (case fmlookup (pp_flows pp) key of
            None \<Rightarrow> False
          | Some f \<Rightarrow> length payload \<le> bf_to_application_bytes (sn_limits (fl_snapshot f)) \<and> may_deliver f) in
      if \<not> can_accept then fail_flow i Backpressure pp
      else
        (case fmlookup (pp_flows pp) key of
           None \<Rightarrow> None
         | Some f \<Rightarrow>
             let f = touch now f; f = f\<lparr>fl_snapshot := (fl_snapshot f)\<lparr>sn_queued_to_application := length payload\<rparr>\<rparr>;
                 (reply, f) = send_segment now (en_receive_window (pp_config pp)) (ack_flags\<lparr>tf_psh := True\<rparr>) payload
                   (length payload) f in
             Some ([reply], put_flow key f pp)))"

definition protected_payload :: "flow_id \<Rightarrow> bytes \<Rightarrow> u64 \<Rightarrow> packet_processor \<Rightarrow> engine_result" where
  "protected_payload i payload now pp =
     (case fmlookup (pp_ids pp) i of
        None \<Rightarrow> Some ([RecordDiagnostic UnknownFlow (Some i)], pp)
      | Some key \<Rightarrow> if payload = [] then Some ([], pp) else deliver key i payload now pp)"

definition protected_stream_closed :: "flow_id \<Rightarrow> u64 \<Rightarrow> packet_processor \<Rightarrow> engine_result" where
  "protected_stream_closed i now pp =
     (case fmlookup (pp_ids pp) i of
        None \<Rightarrow> Some ([], pp)
      | Some key \<Rightarrow>
          (case fmlookup (pp_flows pp) key of
             None \<Rightarrow> fail_flow i DownstreamFailure pp
           | Some f \<Rightarrow>
               if \<not> may_deliver f then fail_flow i DownstreamFailure pp
               else
                 let f = touch now f; f = set_state (if flow_state f = HalfClosedLocal then Closing else HalfClosedRemote) f;
                     (reply, f) = send_segment now (en_receive_window (pp_config pp)) fin_ack [] 1 f in
                 Some ([reply], put_flow key f pp)))"

definition complete_dns :: "u64 \<Rightarrow> bytes \<Rightarrow> u64 \<Rightarrow> packet_processor \<Rightarrow> engine_result" where
  "complete_dns query_id wire now pp =
     (case fmlookup (pp_pending_dns pp) query_id of
        None \<Rightarrow> Some ([], pp)
      | Some target \<Rightarrow>
          let pp = pp\<lparr>pp_pending_dns := fmdrop query_id (pp_pending_dns pp)\<rparr> in
          if wire = [] \<or> MAX_DNS_MESSAGE_BYTES < length wire then
            (case target of
               TcpTarget i \<Rightarrow> fail_flow i DownstreamFailure pp
             | UdpTarget _ _ \<Rightarrow> Some (block_flow None DownstreamFailure pp))
          else
            (case target of
               UdpTarget client resolver \<Rightarrow>
                 if 65507 < length wire then Some (block_flow None Backpressure pp)
                 else Some ([SendSyntheticResponse (build_udp_packet (te_address resolver) (te_address client)
                               (te_port resolver) (te_port client) wire)], pp)
             | TcpTarget i \<Rightarrow>
                 (case fmlookup (pp_ids pp) i of
                    None \<Rightarrow> Some ([], pp)
                  | Some key \<Rightarrow> deliver key i (u16_be_bytes (word_of_nat (length wire)) @ wire) now pp)))"

section \<open>Timers and shutdown\<close>

definition saturating_sub_u64 :: "u64 \<Rightarrow> u64 \<Rightarrow> u64" where
  "saturating_sub_u64 a b = (if b \<le> a then a - b else 0)"

definition saturating_add_u64 :: "u64 \<Rightarrow> u64 \<Rightarrow> u64" where
  "saturating_add_u64 a b = (if unat a + unat b < 2 ^ 64 then a + b else 0xffffffffffffffff)"

text \<open>One flow in \<open>tick\<close>: the flow, the packet to retransmit, the reason to fail it.\<close>

definition tick_flow :: "engine_config \<Rightarrow> u64 \<Rightarrow> flow_record \<Rightarrow> flow_record \<times> bytes option \<times> block_reason option" where
  "tick_flow config now f =
     (let times = sn_timestamps (fl_snapshot f);
          started = (case ft_connect_started_ms times of None \<Rightarrow> ft_created_ms times | Some t \<Rightarrow> t) in
      if (flow_state f = Connecting \<or> flow_state f = SynAckSent) \<and>
         en_connection_timeout_ms config \<le> saturating_sub_u64 now started
      then (f, None, Some ConnectionTimeout)
      else if en_idle_timeout_ms config \<le> saturating_sub_u64 now (ft_last_activity_ms times)
      then (f, None, Some IdleTimeout)
      else
        (case fl_outstanding f of
           None \<Rightarrow> (f, None, None)
         | Some s \<Rightarrow>
             if saturating_sub_u64 now (os_sent_ms s) < en_retransmit_interval_ms config then (f, None, None)
             else if en_max_retransmissions config \<le> os_retransmissions s then (f, None, Some IdleTimeout)
             else
               let s = s\<lparr>os_retransmissions := os_retransmissions s + 1, os_sent_ms := now\<rparr>;
                   f = f\<lparr>fl_outstanding := Some s\<rparr> in
               (f, Some (response_from_values f (os_sequence s) (os_acknowledgement s) (os_flags s)
                           (en_receive_window config) (os_payload s)), None)))"

primrec tick_flows ::
  "engine_config \<Rightarrow> u64 \<Rightarrow> flow_key list \<Rightarrow> (flow_key, flow_record) fmap \<Rightarrow>
     (flow_id \<times> bytes) list \<times> (flow_id \<times> block_reason) list \<times> (flow_key, flow_record) fmap" where
  "tick_flows config now [] flows = ([], [], flows)"
| "tick_flows config now (key # keys) flows =
     (case fmlookup flows key of
        None \<Rightarrow> tick_flows config now keys flows
      | Some f \<Rightarrow>
          let (f', packet, reason) = tick_flow config now f;
              (packets, reasons, flows) = tick_flows config now keys (fmupd key f' flows) in
          ((case packet of None \<Rightarrow> packets | Some p \<Rightarrow> (id_of f, p) # packets),
           (case reason of None \<Rightarrow> reasons | Some r \<Rightarrow> (id_of f, r) # reasons), flows))"

primrec fail_each :: "(flow_id \<times> block_reason) list \<Rightarrow> packet_processor \<Rightarrow> engine_result" where
  "fail_each [] pp = Some ([], pp)"
| "fail_each (x # xs) pp =
     (case fail_flow (fst x) (snd x) pp of
        None \<Rightarrow> None
      | Some (actions, pp) \<Rightarrow>
          (case fail_each xs pp of None \<Rightarrow> None | Some (rest, pp) \<Rightarrow> Some (actions @ rest, pp)))"

definition tick :: "flow_key list \<Rightarrow> u64 \<Rightarrow> packet_processor \<Rightarrow> engine_result" where
  "tick order now pp =
     (if pp_suspended_at_ms pp \<noteq> None then Some ([], pp)
      else
        let (packets, reasons, flows) = tick_flows (pp_config pp) now order (pp_flows pp);
            pp = pp\<lparr>pp_flows := flows, pp_metrics := pp_metrics pp @ map (\<lambda>x. (RetransmissionMetric, Some (fst x))) packets\<rparr>;
            sent = concat (map (\<lambda>x. [RecordDiagnostic RetransmissionDiagnostic (Some (fst x)), SendSyntheticResponse (snd x)]) packets) in
        (case fail_each reasons pp of None \<Rightarrow> None | Some (actions, pp) \<Rightarrow> Some (sent @ actions, pp)))"

definition suspend :: "u64 \<Rightarrow> packet_processor \<Rightarrow> packet_processor" where
  "suspend now pp = (if pp_suspended_at_ms pp = None then pp\<lparr>pp_suspended_at_ms := Some now\<rparr> else pp)"

definition shift_times :: "u64 \<Rightarrow> flow_record \<Rightarrow> flow_record" where
  "shift_times slept f =
     f\<lparr>fl_snapshot := (fl_snapshot f)\<lparr>sn_timestamps :=
        (let t = sn_timestamps (fl_snapshot f) in
         \<lparr>ft_created_ms = saturating_add_u64 (ft_created_ms t) slept,
          ft_last_activity_ms = saturating_add_u64 (ft_last_activity_ms t) slept,
          ft_connect_started_ms = map_option (\<lambda>s. saturating_add_u64 s slept) (ft_connect_started_ms t)\<rparr>)\<rparr>\<rparr>"

definition resume_flows :: "flow_id list \<Rightarrow> u64 \<Rightarrow> bool \<Rightarrow> packet_processor \<Rightarrow> engine_result" where
  "resume_flows order now healthy pp =
     (case pp_suspended_at_ms pp of
        None \<Rightarrow> Some ([], pp)
      | Some suspended_at \<Rightarrow>
          let pp = pp\<lparr>pp_suspended_at_ms := None\<rparr> in
          if \<not> healthy then
            map_option (\<lambda>(actions, pp). (RecordDiagnostic ResumePathInvalid None # actions, pp))
              (fail_each (map (\<lambda>i. (i, ProtectedPathUnavailable)) order) pp)
          else
            let slept = saturating_sub_u64 now suspended_at in
            Some ([], pp\<lparr>pp_flows := fmmap (shift_times slept) (pp_flows pp)\<rparr>))"

definition shutdown :: "flow_id list \<Rightarrow> packet_processor \<Rightarrow> engine_result" where
  "shutdown order pp =
     map_option (\<lambda>(actions, pp). (RecordDiagnostic ShutdownDiagnostic None # actions, pp))
       (fail_each (map (\<lambda>i. (i, ShutdownReason)) order) (pp\<lparr>pp_accepting := False, pp_pending_dns := fmempty\<rparr>))"

definition fail_all :: "flow_id list \<Rightarrow> block_reason \<Rightarrow> packet_processor \<Rightarrow> engine_result" where
  "fail_all order reason pp = fail_each (map (\<lambda>i. (i, reason)) order) (pp\<lparr>pp_pending_dns := fmempty\<rparr>)"

definition stable_error_mapping :: "block_reason \<Rightarrow> error_code" where
  "stable_error_mapping reason =
     (case reason of
        MalformedPacket \<Rightarrow> EcProtocolViolation
      | Backpressure \<Rightarrow> EcBackpressure
      | PolicyDeniedFlow \<Rightarrow> PolicyDenied
      | DirectFallbackForbidden \<Rightarrow> PolicyDenied
      | ProtectedPathUnavailable \<Rightarrow> ProtectedPathLost
      | DownstreamFailure \<Rightarrow> ProtectedPathLost
      | _ \<Rightarrow> UnsupportedTransport)"

end
