(* ===== verification/Flow_Engine_Laws.thy ===== *)
theory Flow_Engine_Laws
  imports Flow_Engine
begin

text \<open>
  The laws of the packet processor of theory \<open>Flow_Engine\<close>: the tables stay consistent and within
  their limits and no \<open>expect\<close> fails, whatever packets and events arrive in whatever order;
  without a protected path nothing is opened, forwarded or resolved; after a shutdown nothing is
  ever again.
\<close>

section \<open>The invariant of the tables\<close>

definition flow_ok :: "engine_config \<Rightarrow> flow_record \<Rightarrow> bool" where
  "flow_ok c f \<longleftrightarrow>
     sn_limits (fl_snapshot f) = en_buffers c \<and>
     sn_queued_to_gateway (fl_snapshot f) \<le> bf_to_gateway_bytes (en_buffers c) \<and>
     length (fl_dns_buffer f) \<le> bf_to_gateway_bytes (en_buffers c) \<and>
     sn_queued_to_application (fl_snapshot f) \<le> bf_to_application_bytes (en_buffers c) \<and>
     (\<forall>s. fl_outstanding f = Some s \<longrightarrow> length (os_payload s) \<le> bf_to_application_bytes (en_buffers c))"

text \<open>A valid configuration whose ingress buffer does not fill the address space.\<close>

definition config_sane :: "engine_config \<Rightarrow> bool" where
  "config_sane c \<longleftrightarrow> engine_config_valid c \<and> bf_to_gateway_bytes (en_buffers c) < usize_max"

text \<open>
  Over the parts of a processor: the two maps describe the same flows, every flow is under its
  own key and within its buffers, the tables are within their limits, a pending DNS operation
  over TCP belongs to a live flow, and the next identifier is above every identifier in use.
\<close>

definition tables_inv ::
  "engine_config \<Rightarrow> (flow_key, flow_record) fmap \<Rightarrow> (flow_id, flow_key) fmap \<Rightarrow> (u64, dns_response_target) fmap \<Rightarrow>
     flow_id \<Rightarrow> bool" where
  "tables_inv c flows ids pending next_id \<longleftrightarrow>
     config_sane c \<and>
     (\<forall>key f. fmlookup flows key = Some f \<longrightarrow>
        fl_key f = key \<and> flow_ok c f \<and> fmlookup ids (id_of f) = Some key \<and> id_of f < next_id) \<and>
     (\<forall>i key. fmlookup ids i = Some key \<longrightarrow> (\<exists>f. fmlookup flows key = Some f \<and> id_of f = i)) \<and>
     fcard (fmdom flows) \<le> en_max_flows c \<and> fcard (fmdom pending) \<le> en_max_pending_dns c \<and>
     (\<forall>q i. fmlookup pending q = Some (TcpTarget i) \<longrightarrow> i |\<in>| fmdom ids)"

definition engine_inv :: "packet_processor \<Rightarrow> bool" where
  "engine_inv pp = tables_inv (pp_config pp) (pp_flows pp) (pp_ids pp) (pp_pending_dns pp) (pp_next_flow_id pp)"

lemma tables_invD:
  assumes "tables_inv c flows ids pending next_id"
  shows "config_sane c"
    "fmlookup flows key = Some f \<Longrightarrow> fl_key f = key" "fmlookup flows key = Some f \<Longrightarrow> flow_ok c f"
    "fmlookup flows key = Some f \<Longrightarrow> fmlookup ids (id_of f) = Some key"
    "fmlookup flows key = Some f \<Longrightarrow> id_of f < next_id"
    "fmlookup ids i = Some key \<Longrightarrow> \<exists>f. fmlookup flows key = Some f \<and> id_of f = i"
    "fcard (fmdom flows) \<le> en_max_flows c" "fcard (fmdom pending) \<le> en_max_pending_dns c"
    "fmlookup pending q = Some (TcpTarget i) \<Longrightarrow> i |\<in>| fmdom ids"
  using assms unfolding tables_inv_def by blast+

lemma tables_invI:
  assumes "config_sane c"
    "\<And>key f. fmlookup flows key = Some f \<Longrightarrow>
       fl_key f = key \<and> flow_ok c f \<and> fmlookup ids (id_of f) = Some key \<and> id_of f < next_id"
    "\<And>i key. fmlookup ids i = Some key \<Longrightarrow> \<exists>f. fmlookup flows key = Some f \<and> id_of f = i"
    "fcard (fmdom flows) \<le> en_max_flows c" "fcard (fmdom pending) \<le> en_max_pending_dns c"
    "\<And>q i. fmlookup pending q = Some (TcpTarget i) \<Longrightarrow> i |\<in>| fmdom ids"
  shows "tables_inv c flows ids pending next_id"
  unfolding tables_inv_def using assms by meson

text \<open>A changed flow keeps its identity.\<close>

definition same_flow :: "flow_record \<Rightarrow> flow_record \<Rightarrow> bool" where
  "same_flow f g \<longleftrightarrow> id_of g = id_of f \<and> fl_key g = fl_key f"

lemma same_flow_refl [simp]: "same_flow f f"
  by (simp add: same_flow_def)

lemma same_flow_trans: "same_flow f g \<Longrightarrow> same_flow g h \<Longrightarrow> same_flow f h"
  by (simp add: same_flow_def)

lemma tables_inv_put:
  assumes inv: "tables_inv c flows ids pending n" and f: "fmlookup flows key = Some f" and g: "same_flow f g" "flow_ok c g"
  shows "tables_inv c (fmupd key g flows) ids pending n"
proof -
  note i = tables_invD [OF inv]
  have "fcard (fmdom (fmupd key g flows)) = fcard (fmdom flows)"
    using fmdomI [OF f] by (simp add: finsert_absorb)
  moreover have "\<exists>h. fmlookup (fmupd key g flows) k = Some h \<and> id_of h = j" if "fmlookup ids j = Some k" for j k
    using i(6) [OF that] f g(1) by (auto simp: same_flow_def)
  moreover have "fl_key h = k \<and> flow_ok c h \<and> fmlookup ids (id_of h) = Some k \<and> id_of h < n"
    if "fmlookup (fmupd key g flows) k = Some h" for k h
    using that i(2-5) [of k h] i(2-5) [OF f] g by (auto simp: same_flow_def split: if_splits)
  ultimately show ?thesis using i(1,7,8,9) unfolding tables_inv_def by auto
qed

lemma tables_inv_pending:
  assumes inv: "tables_inv c flows ids pending n"
    and sub: "fcard (fmdom pending') \<le> en_max_pending_dns c"
      "\<And>q i. fmlookup pending' q = Some (TcpTarget i) \<Longrightarrow> i |\<in>| fmdom ids"
  shows "tables_inv c flows ids pending' n"
  using inv sub unfolding tables_inv_def by blast

lemma tables_inv_pending_drop:
  assumes "tables_inv c flows ids pending n"
  shows "tables_inv c flows ids (fmdrop q pending) n"
proof (rule tables_inv_pending [OF assms])
  show "fcard (fmdom (fmdrop q pending)) \<le> en_max_pending_dns c"
    by (rule order_trans [OF fcard_fmdom_drop_le tables_invD(8) [OF assms]])
qed (auto dest: tables_invD(9) [OF assms] split: if_splits)

lemma tables_inv_pending_add:
  assumes "tables_inv c flows ids pending n" "fcard (fmdom pending) < en_max_pending_dns c"
    "\<And>i. target = TcpTarget i \<Longrightarrow> i |\<in>| fmdom ids"
  shows "tables_inv c flows ids (fmupd q target pending) n"
proof (rule tables_inv_pending [OF assms(1)])
  show "fcard (fmdom (fmupd q target pending)) \<le> en_max_pending_dns c"
    using assms(2) by (auto simp: fcard_fmdom_upd simp del: fmdom_fmupd)
qed (use assms tables_invD(9) [OF assms(1)] in \<open>auto split: if_splits\<close>)

lemma tables_inv_remove:
  assumes inv: "tables_inv c flows ids pending n" and f: "fmlookup flows key = Some f"
  shows "tables_inv c (fmdrop key flows) (fmdrop (id_of f) ids)
    (fmfilter (\<lambda>q. case fmlookup pending q of None \<Rightarrow> False | Some target \<Rightarrow> \<not> for_flow (id_of f) target) pending) n"
    (is "tables_inv _ _ _ ?pending _")
proof -
  note i = tables_invD [OF inv]
  have "fmlookup (fmdrop (id_of f) ids) (id_of h) = Some k"
    if "k \<noteq> key" "fmlookup flows k = Some h" for k h
    using that i(4) [OF f] i(4) [OF that(2)] by auto
  moreover have "\<exists>h. fmlookup (fmdrop key flows) k = Some h \<and> id_of h = j"
    if "j \<noteq> id_of f" "fmlookup ids j = Some k" for j k
    using i(6) [OF that(2)] f that(1) by auto
  moreover have "fcard (fmdom ?pending) \<le> en_max_pending_dns c"
    by (rule order_trans [OF fcard_mono i(8)]) auto
  moreover have "fcard (fmdom (fmdrop key flows)) \<le> en_max_flows c"
    by (rule order_trans [OF fcard_fmdom_drop_le i(7)])
  moreover have "j |\<in>| fmdom (fmdrop (id_of f) ids)" if "fmlookup ?pending q = Some (TcpTarget j)" for q j
    using that i(9) [of q j] by (auto simp: for_flow_def split: option.splits if_splits)
  ultimately show ?thesis using i(1-3,5) unfolding tables_inv_def by auto
qed

lemma tables_inv_insert:
  assumes inv: "tables_inv c flows ids pending n" and fresh: "fmlookup flows (fl_key f) = None"
    and room: "fcard (fmdom flows) < en_max_flows c" and f: "id_of f = n" "flow_ok c f" "n < n'"
  shows "tables_inv c (fmupd (fl_key f) f flows) (fmupd (id_of f) (fl_key f) ids) pending n'"
proof -
  note i = tables_invD [OF inv]
  have new: "fmlookup ids n = None"
  proof (cases "fmlookup ids n")
    case (Some k)
    from i(6) [OF Some] obtain h where h: "fmlookup flows k = Some h" "id_of h = n" by blast
    from i(5) [OF h(1)] h(2) show ?thesis by simp
  qed simp
  have "fl_key h = k \<and> flow_ok c h \<and> fmlookup (fmupd (id_of f) (fl_key f) ids) (id_of h) = Some k \<and> id_of h < n'"
    if h: "fmlookup (fmupd (fl_key f) f flows) k = Some h" for k h
  proof (cases "k = fl_key f")
    case True
    then show ?thesis using h f by simp
  next
    case False
    then have old: "fmlookup flows k = Some h" using h by simp
    have "id_of h < n" by (rule i(5) [OF old])
    then show ?thesis using i(2-4) [OF old] f(1,3) by auto
  qed
  moreover have "\<exists>h. fmlookup (fmupd (fl_key f) f flows) k = Some h \<and> id_of h = j"
    if "fmlookup (fmupd (id_of f) (fl_key f) ids) j = Some k" for j k
  proof (cases "j = id_of f")
    case False
    then have "fmlookup ids j = Some k" using that by simp
    from i(6) [OF this] fresh show ?thesis by auto
  qed (use that in simp)
  moreover have "fcard (fmdom (fmupd (fl_key f) f flows)) \<le> en_max_flows c"
    using room by (auto simp: fcard_fmdom_upd simp del: fmdom_fmupd)
  moreover have "j |\<in>| fmdom (fmupd (id_of f) (fl_key f) ids)" if "fmlookup pending q = Some (TcpTarget j)" for q j
    using i(9) [OF that] by simp
  ultimately show ?thesis using i(1,8) by (intro tables_invI)
qed

section \<open>The primitive updates\<close>

lemma engine_fields [simp]:
  "pp_config (record_metric e i pp) = pp_config pp" "pp_flows (record_metric e i pp) = pp_flows pp"
  "pp_ids (record_metric e i pp) = pp_ids pp" "pp_pending_dns (record_metric e i pp) = pp_pending_dns pp"
  "pp_next_flow_id (record_metric e i pp) = pp_next_flow_id pp" "pp_accepting (record_metric e i pp) = pp_accepting pp"
  "pp_config (put_flow k f pp) = pp_config pp" "pp_flows (put_flow k f pp) = fmupd k f (pp_flows pp)"
  "pp_ids (put_flow k f pp) = pp_ids pp" "pp_pending_dns (put_flow k f pp) = pp_pending_dns pp"
  "pp_next_flow_id (put_flow k f pp) = pp_next_flow_id pp" "pp_accepting (put_flow k f pp) = pp_accepting pp"
  by (simp_all add: record_metric_def put_flow_def)

lemma engine_inv_metric [simp]: "engine_inv (record_metric e i pp) = engine_inv pp"
  by (simp add: engine_inv_def)

lemma engine_inv_put:
  "engine_inv pp \<Longrightarrow> fmlookup (pp_flows pp) key = Some f \<Longrightarrow> same_flow f g \<Longrightarrow> flow_ok (pp_config pp) g \<Longrightarrow>
   engine_inv (put_flow key g pp)"
  by (simp add: engine_inv_def tables_inv_put)

lemma engine_inv_remove: "engine_inv pp \<Longrightarrow> engine_inv (remove_flow key pp)"
  by (cases "fmlookup (pp_flows pp) key") (simp_all add: engine_inv_def remove_flow_def Let_def tables_inv_remove)

lemma engine_inv_flow:
  "engine_inv pp \<Longrightarrow> fmlookup (pp_flows pp) key = Some f \<Longrightarrow> flow_ok (pp_config pp) f \<and> fmlookup (pp_ids pp) (id_of f) = Some key"
  by (auto simp: engine_inv_def dest: tables_invD)

lemma engine_inv_ids:
  "engine_inv pp \<Longrightarrow> fmlookup (pp_ids pp) i = Some key \<Longrightarrow> \<exists>f. fmlookup (pp_flows pp) key = Some f \<and> id_of f = i"
  by (auto simp: engine_inv_def dest: tables_invD(6))

lemma fail_flow_inv:
  assumes "engine_inv pp"
  shows "\<exists>actions pp'. fail_flow i reason pp = Some (actions, pp') \<and> engine_inv pp'"
  using assms engine_inv_ids [OF assms, of i]
  by (auto simp: fail_flow_def engine_inv_remove split: option.splits)

section \<open>Every operation keeps the invariant\<close>

text \<open>The operation did not panic and left a consistent processor behind.\<close>

definition engine_keeps :: "engine_result \<Rightarrow> bool" where
  "engine_keeps r \<longleftrightarrow> (\<exists>actions pp. r = Some (actions, pp) \<and> engine_inv pp)"

lemma keeps_Some [simp]: "engine_keeps (Some r) \<longleftrightarrow> engine_inv (snd r)"
  by (cases r) (simp add: engine_keeps_def)

lemma keeps_fail_flow: "engine_inv pp \<Longrightarrow> engine_keeps (fail_flow i reason pp)"
  using fail_flow_inv [of pp i reason] by (auto simp: engine_keeps_def)

lemma rejections_fields [simp]:
  "engine_inv (snd (block_flow i reason pp)) = engine_inv pp"
  "engine_inv (snd (reject_syn segment reason pp)) = engine_inv pp"
  by (simp_all add: block_flow_def reject_syn_def)

lemma succ_id_less: "n \<noteq> 0xffffffffffffffff \<Longrightarrow> n < succ_id n"
proof -
  assume n: "n \<noteq> 0xffffffffffffffff"
  have "unat n \<noteq> 18446744073709551615" using n by (simp add: word_unat_eq_iff)
  then have "unat n < 18446744073709551615" using unat_u64_lt [of n] by simp
  then have "unat (n + 1) = unat n + 1" by (simp add: unat_word_ariths)
  then have "n < n + 1" by (simp add: word_less_nat_alt)
  then show ?thesis unfolding succ_id_def by (rule order_less_le_trans [OF _ max.cobounded1])
qed

lemma process_udp_inv:
  assumes "engine_inv pp"
  shows "engine_inv (snd (process_udp datagram state pp))"
  using assms
  by (auto simp: process_udp_def endpoints_def Let_def not_le engine_inv_def intro!: tables_inv_pending_add)
    (auto simp: engine_inv_def [symmetric])

lemma flow_ok_new: "flow_ok c (new_flow i key segment platform (en_buffers c) route)"
  by (simp add: flow_ok_def new_flow_def new_snapshot_def)

lemma new_flow_fields [simp]:
  "id_of (new_flow i key segment platform limits route) = i" "fl_key (new_flow i key segment platform limits route) = key"
  by (simp_all add: new_flow_def new_snapshot_def)

lemma insert_flow_inv:
  assumes "engine_inv pp" "fmlookup (pp_flows pp) key = None" "fcard (fmdom (pp_flows pp)) < en_max_flows (pp_config pp)"
    "pp_next_flow_id pp \<noteq> 0xffffffffffffffff"
    "f = new_flow (pp_next_flow_id pp) key segment platform (en_buffers (pp_config pp)) route"
  shows "engine_inv (insert_flow f (pp\<lparr>pp_next_flow_id := succ_id (pp_next_flow_id pp)\<rparr>))"
  using tables_inv_insert [of "pp_config pp" "pp_flows pp" "pp_ids pp" "pp_pending_dns pp" "pp_next_flow_id pp" f
      "succ_id (pp_next_flow_id pp)"] assms succ_id_less [OF assms(4)]
  by (simp add: engine_inv_def insert_flow_def Let_def flow_ok_new)

lemma open_dns_tcp_inv:
  assumes "engine_inv pp" "fmlookup (pp_flows pp) key = None" "pp_next_flow_id pp \<noteq> 0xffffffffffffffff"
  shows "engine_inv (snd (open_dns_tcp key segment platform state pp))"
  using assms insert_flow_inv [OF assms(1,2) _ assms(3) refl, of segment platform None]
  by (simp add: open_dns_tcp_def Let_def)

lemma open_tcp_flow_inv:
  assumes "engine_inv pp" "fmlookup (pp_flows pp) key = None" "pp_next_flow_id pp \<noteq> 0xffffffffffffffff"
  shows "engine_inv (snd (open_tcp_flow key segment input pp))"
  using assms insert_flow_inv [OF assms(1,2) _ assms(3) refl, of segment "pi_platform input" "pi_route input"]
  by (auto simp: open_tcp_flow_def Let_def case_prod_unfold split: option.splits policy_action.splits)

section \<open>One turn of a flow\<close>

lemma touched [simp]:
  "same_flow f (touch now g) = same_flow f g" "flow_ok c (touch now f) = flow_ok c f"
  "same_flow f (set_state state g) = same_flow f g" "flow_ok c (set_state state f) = flow_ok c f"
  "same_flow f (establish g) = same_flow f g" "flow_ok c (establish f) = flow_ok c f"
  by (simp_all add: same_flow_def flow_ok_def touch_def set_state_def establish_def)

lemma turn_refuse [simp]: "tt_flow (refuse reason code t) = tt_flow t" "tt_flow (remark code window t) = tt_flow t"
  by (simp_all add: refuse_def remark_def Let_def)

lemma take_acknowledgement_ok:
  assumes "same_flow f (tt_flow t)" "flow_ok c (tt_flow t)"
  shows "same_flow f (tt_flow (take_acknowledgement segment t))" "flow_ok c (tt_flow (take_acknowledgement segment t))"
  using assms by (auto simp: take_acknowledgement_def Let_def same_flow_def flow_ok_def)

lemma accept_payload_ok:
  assumes "config_sane c" "same_flow f (tt_flow t)" "flow_ok c (tt_flow t)"
  shows "same_flow f (tt_flow (accept_payload c segment t))" "flow_ok c (tt_flow (accept_payload c segment t))"
  using assms
  by (auto simp: accept_payload_def accept_in_order_def advance_client_def Let_def same_flow_def flow_ok_def
      saturating_add_usize_def config_sane_def)

lemma take_fin_ok:
  assumes "same_flow f (tt_flow t)" "flow_ok c (tt_flow t)"
  shows "same_flow f (tt_flow (fst (take_fin window segment t)))" "flow_ok c (tt_flow (fst (take_fin window segment t)))"
  using assms by (auto simp: take_fin_def Let_def same_flow_def flow_ok_def set_state_def)

lemma drain_dns_cases:
  obtains (stop) "dd_pending (drain_dns i max_pending d) = dd_pending d" "dd_buffer (drain_dns i max_pending d) = dd_buffer d"
      "dd_actions (drain_dns i max_pending d) = dd_actions d \<or>
       (\<exists>reason. dd_actions (drain_dns i max_pending d) = dd_actions d @ [BlockFlow (Some i) reason])"
    | (message) d' wire where "drain_dns i max_pending d = drain_dns i max_pending d'"
      "fcard (fmdom (dd_pending d)) < max_pending" "dd_pending d' = fmupd (dd_next_id d) (TcpTarget i) (dd_pending d)"
      "length (dd_buffer d') < length (dd_buffer d)"
      "dd_actions d' = dd_actions d @ [ResolveDns \<lparr>dq_query_id = dd_next_id d, dq_wire = wire\<rparr> (TcpTarget i)]"
proof -
  let ?n = "unat (be_u16 (dd_buffer d ! 0) (dd_buffer d ! 1))"
  show thesis
  proof (cases "length (dd_buffer d) < 2 \<or> ?n = 0 \<or> MAX_DNS_MESSAGE_BYTES < ?n \<or> length (dd_buffer d) < ?n + 2 \<or>
      max_pending \<le> fcard (fmdom (dd_pending d))")
    case True
    then have "drain_dns i max_pending d = d \<or>
        (\<exists>reason. drain_dns i max_pending d = d\<lparr>dd_actions := dd_actions d @ [BlockFlow (Some i) reason], dd_reset := True\<rparr>)"
      using drain_dns.simps [of i max_pending d] by (auto simp: Let_def split: if_splits)
    then show thesis by (intro stop) auto
  next
    case False
    let ?d = "d\<lparr>dd_buffer := drop (?n + 2) (dd_buffer d), dd_pending := fmupd (dd_next_id d) (TcpTarget i) (dd_pending d),
        dd_next_id := succ_id (dd_next_id d),
        dd_actions := dd_actions d @
          [ResolveDns \<lparr>dq_query_id = dd_next_id d, dq_wire = take ?n (drop 2 (dd_buffer d))\<rparr> (TcpTarget i)]\<rparr>"
    have "drain_dns i max_pending d = drain_dns i max_pending ?d"
      using False by (subst drain_dns.simps) (simp add: Let_def)
    then show thesis by (rule message) (use False in auto)
  qed
qed

lemma drain_dns_ok:
  assumes "fcard (fmdom (dd_pending d)) \<le> max_pending"
    "\<forall>q j. fmlookup (dd_pending d) q = Some (TcpTarget j) \<longrightarrow> j |\<in>| ids" "i |\<in>| ids"
  shows "fcard (fmdom (dd_pending (drain_dns i max_pending d))) \<le> max_pending \<and>
    (\<forall>q j. fmlookup (dd_pending (drain_dns i max_pending d)) q = Some (TcpTarget j) \<longrightarrow> j |\<in>| ids) \<and>
    length (dd_buffer (drain_dns i max_pending d)) \<le> length (dd_buffer d)"
  using assms(1,2)
proof (induction "length (dd_buffer d)" arbitrary: d rule: less_induct)
  case less
  show ?case
  proof (cases rule: drain_dns_cases [of i max_pending d])
    case stop
    then show ?thesis using less.prems by simp
  next
    case (message d' wire)
    have "fcard (fmdom (dd_pending d')) \<le> max_pending"
      using message(2,3) by (auto simp: fcard_fmdom_upd simp del: fmdom_fmupd)
    moreover have "\<forall>q j. fmlookup (dd_pending d') q = Some (TcpTarget j) \<longrightarrow> j |\<in>| ids"
      using message(3) less.prems(2) assms(3) by auto
    ultimately show ?thesis using less.hyps [OF message(4)] message(1,4) by auto
  qed
qed

lemma synchronized_turn_inv:
  assumes inv: "engine_inv pp" and f: "fmlookup (pp_flows pp) key = Some f" and g: "same_flow f g" "flow_ok (pp_config pp) g"
  shows "engine_inv (snd (synchronized_turn key segment g pp))"
proof -
  let ?c = "pp_config pp"
  define t1 where "t1 = take_acknowledgement segment \<lparr>tt_flow = g, tt_actions = [], tt_reset = False\<rparr>"
  have t1: "same_flow f (tt_flow t1)" "flow_ok ?c (tt_flow t1)"
    using take_acknowledgement_ok [of f "\<lparr>tt_flow = g, tt_actions = [], tt_reset = False\<rparr>" ?c segment] g
    by (simp_all add: t1_def)
  define t2 where "t2 = accept_payload ?c segment t1"
  have t2: "same_flow f (tt_flow t2)" "flow_ok ?c (tt_flow t2)" using accept_payload_ok [OF tables_invD(1) [OF inv [unfolded engine_inv_def]] t1] by (simp_all add: t2_def)
  define d0 where "d0 = \<lparr>dd_buffer = fl_dns_buffer (tt_flow t2), dd_pending = pp_pending_dns pp,
    dd_next_id = pp_next_dns_id pp, dd_actions = tt_actions t2, dd_reset = tt_reset t2\<rparr>"
  define d where "d = (if fl_dns_tcp (tt_flow t2) \<and> \<not> tt_reset t2 then drain_dns (id_of g) (en_max_pending_dns ?c) d0 else d0)"
  have i: "id_of g |\<in>| fmdom (pp_ids pp)" using engine_inv_flow [OF inv f] g(1) by (auto simp: same_flow_def intro: fmdomI)
  note tables = inv [unfolded engine_inv_def]
  have "fcard (fmdom (dd_pending d0)) \<le> en_max_pending_dns ?c"
    "\<forall>q j. fmlookup (dd_pending d0) q = Some (TcpTarget j) \<longrightarrow> j |\<in>| fmdom (pp_ids pp)"
    using tables_invD(8,9) [OF tables] by (auto simp: d0_def)
  then have d: "fcard (fmdom (dd_pending d)) \<le> en_max_pending_dns ?c"
    "\<forall>q j. fmlookup (dd_pending d) q = Some (TcpTarget j) \<longrightarrow> j |\<in>| fmdom (pp_ids pp)"
    "length (dd_buffer d) \<le> length (fl_dns_buffer (tt_flow t2))"
    using drain_dns_ok [of d0 "en_max_pending_dns ?c" "fmdom (pp_ids pp)" "id_of g"] i by (auto simp: d_def d0_def)
  define t3 where "t3 = t2\<lparr>tt_flow := (tt_flow t2)\<lparr>fl_dns_buffer := dd_buffer d\<rparr>, tt_actions := dd_actions d, tt_reset := dd_reset d\<rparr>"
  have t3: "same_flow f (tt_flow t3)" "flow_ok ?c (tt_flow t3)"
    using t2 d(3) by (auto simp: t3_def same_flow_def flow_ok_def)
  obtain t4 graceful where t4: "take_fin (en_receive_window ?c) segment t3 = (t4, graceful)"
    by (cases "take_fin (en_receive_window ?c) segment t3") auto
  then have ok: "same_flow f (tt_flow t4)" "flow_ok ?c (tt_flow t4)"
    using take_fin_ok [OF t3, of "en_receive_window ?c" segment] by simp_all
  let ?pp = "pp\<lparr>pp_pending_dns := dd_pending d, pp_next_dns_id := dd_next_id d\<rparr>"
  have "engine_inv ?pp" using tables_inv_pending [OF tables d(1)] d(2) by (auto simp: engine_inv_def)
  then have "engine_inv (put_flow key (tt_flow t4) ?pp)" using engine_inv_put [of ?pp key f] f ok by simp
  moreover have "engine_inv (put_flow key (tt_flow t1) pp)" using engine_inv_put [OF inv f] t1 by simp
  moreover have "snd (synchronized_turn key segment g pp) \<in>
      {remove_flow key (put_flow key (tt_flow t1) pp), remove_flow key (put_flow key (tt_flow t4) ?pp), put_flow key (tt_flow t4) ?pp}"
    unfolding synchronized_turn_def Let_def t1_def [symmetric] t2_def [symmetric] d0_def [symmetric] d_def [symmetric]
      t3_def [symmetric] t4 by simp
  ultimately show ?thesis using engine_inv_remove by fastforce
qed

lemma process_existing_tcp_inv:
  assumes inv: "engine_inv pp" and f: "fmlookup (pp_flows pp) key = Some f"
  shows "engine_keeps (process_existing_tcp key segment now pp)"
proof -
  have ok: "flow_ok (pp_config pp) f" using engine_inv_flow [OF inv f] by simp
  have put: "engine_inv (put_flow key g pp)" if "same_flow f g" "flow_ok (pp_config pp) g" for g
    by (rule engine_inv_put [OF inv f that])
  have turn: "engine_inv (snd (synchronized_turn key segment g pp))" if "same_flow f g" "flow_ok (pp_config pp) g" for g
    by (rule synchronized_turn_inv [OF inv f that])
  show ?thesis
    unfolding process_existing_tcp_def f option.case Let_def
    by (auto simp: ok put turn)
qed

lemma process_tcp_inv:
  assumes "engine_inv pp" "pp_next_flow_id pp \<noteq> 0xffffffffffffffff"
  shows "engine_keeps (process_tcp segment input pp)"
proof -
  have reset: "engine_inv (snd (reset_by_key key pp))" for key
    using assms(1) by (auto simp: reset_by_key_def engine_inv_remove split: option.splits)
  show ?thesis
    using assms keeps_fail_flow [OF assms(1)] process_existing_tcp_inv [OF assms(1)]
      open_dns_tcp_inv [OF assms(1) _ assms(2)] open_tcp_flow_inv [OF assms(1) _ assms(2)] reset
    by (simp add: process_tcp_def endpoints_def Let_def split: option.splits)
qed

lemma process_inv:
  assumes "engine_inv pp" "pp_next_flow_id pp \<noteq> 0xffffffffffffffff"
  shows "engine_keeps (process input pp)"
  using assms process_tcp_inv [OF assms] process_udp_inv [OF assms(1)]
  by (auto simp: process_def split: sum.splits classified_packet.splits)

section \<open>Events keep the invariant\<close>

lemma protected_stream_opened_inv: "engine_inv pp \<Longrightarrow> engine_keeps (protected_stream_opened i now pp)"
  using engine_inv_ids [of pp i]
  by (auto simp: protected_stream_opened_def Let_def engine_inv_flow intro!: engine_inv_put split: option.splits)

lemma acknowledge_forwarded_inv:
  assumes "engine_inv pp"
  shows "engine_keeps (acknowledge_forwarded i n now pp)"
proof (cases "\<exists>key f. fmlookup (pp_ids pp) i = Some key \<and> fmlookup (pp_flows pp) key = Some f")
  case True
  then obtain key f where f: "fmlookup (pp_ids pp) i = Some key" "fmlookup (pp_flows pp) key = Some f" by blast
  let ?f = "touch now (f\<lparr>fl_snapshot := (fl_snapshot f)\<lparr>sn_queued_to_gateway := sn_queued_to_gateway (fl_snapshot f) - n\<rparr>\<rparr>)"
  have "engine_inv (put_flow key ?f pp)"
    by (rule engine_inv_put [OF assms f(2)])
      (use engine_inv_flow [OF assms f(2)] in \<open>auto simp: same_flow_def flow_ok_def touch_def\<close>)
  then show ?thesis using f by (simp add: acknowledge_forwarded_def Let_def engine_inv_remove)
qed (use assms in \<open>auto simp: acknowledge_forwarded_def split: option.splits\<close>)

lemma send_segment_ok:
  "same_flow f (snd (send_segment now window flags payload used g)) = same_flow f g"
  "flow_ok c g \<Longrightarrow> length payload \<le> bf_to_application_bytes (en_buffers c) \<Longrightarrow>
     flow_ok c (snd (send_segment now window flags payload used g))"
  by (auto simp: send_segment_def Let_def same_flow_def flow_ok_def)

lemma deliver_inv:
  assumes inv: "engine_inv pp"
  shows "engine_keeps (deliver key i payload now pp)"
proof (cases "\<exists>f. fmlookup (pp_flows pp) key = Some f \<and>
    length payload \<le> bf_to_application_bytes (sn_limits (fl_snapshot f)) \<and> may_deliver f")
  case True
  then obtain f where f: "fmlookup (pp_flows pp) key = Some f"
    "length payload \<le> bf_to_application_bytes (sn_limits (fl_snapshot f))" "may_deliver f" by blast
  let ?f = "(touch now f)\<lparr>fl_snapshot := (fl_snapshot (touch now f))\<lparr>sn_queued_to_application := length payload\<rparr>\<rparr>"
  let ?g = "snd (send_segment now (en_receive_window (pp_config pp)) (ack_flags\<lparr>tf_psh := True\<rparr>) payload (length payload) ?f)"
  have ok: "flow_ok (pp_config pp) f" using engine_inv_flow [OF inv f(1)] by simp
  then have len: "length payload \<le> bf_to_application_bytes (en_buffers (pp_config pp))" using f(2) by (simp add: flow_ok_def)
  have "flow_ok (pp_config pp) ?f" using ok len by (simp add: flow_ok_def touch_def)
  moreover have "same_flow f ?f" by (simp add: same_flow_def touch_def)
  ultimately have "engine_inv (put_flow key ?g pp)"
    by (intro engine_inv_put [OF inv f(1)]) (simp_all only: send_segment_ok len)
  then show ?thesis using f by (simp add: deliver_def Let_def case_prod_unfold)
next
  case False
  then show ?thesis
    using keeps_fail_flow [OF inv, of i Backpressure] by (auto simp: deliver_def Let_def split: option.splits)
qed

lemma protected_payload_inv: "engine_inv pp \<Longrightarrow> engine_keeps (protected_payload i payload now pp)"
  using deliver_inv by (auto simp: protected_payload_def split: option.splits)

lemma protected_stream_closed_inv:
  assumes inv: "engine_inv pp"
  shows "engine_keeps (protected_stream_closed i now pp)"
proof (cases "\<exists>key f. fmlookup (pp_ids pp) i = Some key \<and> fmlookup (pp_flows pp) key = Some f \<and> may_deliver f")
  case True
  then obtain key f where f: "fmlookup (pp_ids pp) i = Some key" "fmlookup (pp_flows pp) key = Some f" "may_deliver f" by blast
  have "flow_ok (pp_config pp) f" using engine_inv_flow [OF inv f(2)] by simp
  then have "engine_inv (put_flow key (snd (send_segment now w fin_ack [] 1 (set_state st (touch now f)))) pp)" for w st
    by (intro engine_inv_put [OF inv f(2)]) (simp_all add: send_segment_ok)
  then show ?thesis using f by (simp add: protected_stream_closed_def Let_def case_prod_unfold)
qed (use keeps_fail_flow [OF inv] inv in \<open>auto simp: protected_stream_closed_def split: option.splits\<close>)

lemma complete_dns_inv:
  assumes inv: "engine_inv pp"
  shows "engine_keeps (complete_dns query_id wire now pp)"
proof -
  have inv': "engine_inv (pp\<lparr>pp_pending_dns := fmdrop query_id (pp_pending_dns pp)\<rparr>)"
    using inv by (simp add: engine_inv_def tables_inv_pending_drop)
  show ?thesis
    using inv inv' keeps_fail_flow [OF inv'] deliver_inv [OF inv']
    by (auto simp: complete_dns_def Let_def split: option.splits dns_response_target.splits)
qed

section \<open>Timers keep the invariant\<close>

lemma keeps_extend [simp]:
  "engine_keeps (map_option (\<lambda>(actions, pp). (g actions, pp)) r) = engine_keeps r"
  "engine_keeps (case r of None \<Rightarrow> None | Some (actions, pp) \<Rightarrow> Some (g actions, pp)) = engine_keeps r"
  by (auto simp: engine_keeps_def split: option.splits)

lemma fail_each_inv: "engine_inv pp \<Longrightarrow> engine_keeps (fail_each xs pp)"
proof (induction xs arbitrary: pp)
  case (Cons x xs)
  from keeps_fail_flow [OF Cons.prems, of "fst x" "snd x"] obtain actions pp' where
    "fail_flow (fst x) (snd x) pp = Some (actions, pp')" "engine_inv pp'" by (auto simp: engine_keeps_def)
  with Cons.IH [of pp'] show ?case by (auto simp: engine_keeps_def)
qed simp

lemma tick_flow_ok:
  assumes "flow_ok c f"
  shows "same_flow f (fst (tick_flow c now f))" "flow_ok c (fst (tick_flow c now f))"
  using assms by (auto simp: tick_flow_def Let_def same_flow_def flow_ok_def split: option.splits)

lemma tick_flows_inv:
  "tables_inv c flows ids pending n \<Longrightarrow> tables_inv c (snd (snd (tick_flows c now keys flows))) ids pending n"
proof (induction keys arbitrary: flows)
  case (Cons key keys)
  show ?case
  proof (cases "fmlookup flows key")
    case (Some f)
    have "flow_ok c f" by (rule tables_invD(3) [OF Cons.prems Some])
    from tables_inv_put [OF Cons.prems Some tick_flow_ok [OF this]] have
      "tables_inv c (fmupd key (fst (tick_flow c now f)) flows) ids pending n" .
    from Cons.IH [OF this] show ?thesis using Some by (simp add: Let_def case_prod_unfold)
  qed (use Cons in simp)
qed simp

lemma tick_inv:
  assumes "engine_inv pp"
  shows "engine_keeps (tick order now pp)"
proof -
  let ?r = "tick_flows (pp_config pp) now order (pp_flows pp)"
  have "engine_inv (pp\<lparr>pp_flows := snd (snd ?r), pp_metrics := ms\<rparr>)" for ms
    using tick_flows_inv assms by (simp add: engine_inv_def)
  from fail_each_inv [OF this, of "fst (snd ?r)"] assms show ?thesis
    by (auto simp: tick_def Let_def split: prod.splits)
qed

lemma resume_flows_inv:
  assumes "engine_inv pp"
  shows "engine_keeps (resume_flows order now healthy pp)"
proof -
  let ?pp = "pp\<lparr>pp_suspended_at_ms := None\<rparr>"
  have inv: "engine_inv ?pp" using assms by (simp add: engine_inv_def)
  have "tables_inv (pp_config pp) (fmmap (shift_times slept) (pp_flows pp)) (pp_ids pp) (pp_pending_dns pp) (pp_next_flow_id pp)" for slept
  proof (rule tables_invI)
    note i = tables_invD [OF assms [unfolded engine_inv_def]]
    fix key f
    assume "fmlookup (fmmap (shift_times slept) (pp_flows pp)) key = Some f"
    then obtain g where "fmlookup (pp_flows pp) key = Some g" "f = shift_times slept g" by auto
    then show "fl_key f = key \<and> flow_ok (pp_config pp) f \<and> fmlookup (pp_ids pp) (id_of f) = Some key \<and> id_of f < pp_next_flow_id pp"
      using i(2-5) [of key g] by (simp add: shift_times_def flow_ok_def)
  next
    note i = tables_invD [OF assms [unfolded engine_inv_def]]
    fix j key
    assume "fmlookup (pp_ids pp) j = Some key"
    from i(6) [OF this] show "\<exists>f. fmlookup (fmmap (shift_times slept) (pp_flows pp)) key = Some f \<and> id_of f = j"
      by (auto simp: shift_times_def)
  qed (use tables_invD [OF assms [unfolded engine_inv_def]] in auto)
  then show ?thesis
    using assms inv fail_each_inv [OF inv]
    by (auto simp: resume_flows_def Let_def engine_inv_def split: option.splits)
qed

lemma fail_all_inv: "engine_inv pp \<Longrightarrow> engine_keeps (fail_all order reason pp)"
  unfolding fail_all_def
  by (rule fail_each_inv) (auto simp: engine_inv_def fcard_fempty elim!: tables_inv_pending)

lemma shutdown_inv:
  assumes "engine_inv pp"
  shows "engine_keeps (shutdown order pp)"
proof -
  have "engine_inv (pp\<lparr>pp_accepting := False, pp_pending_dns := fmempty\<rparr>)"
    using assms by (auto simp: engine_inv_def fcard_fempty elim!: tables_inv_pending)
  from fail_each_inv [OF this] show ?thesis by (simp add: shutdown_def)
qed

section \<open>The engine as a machine\<close>

datatype engine_op =
    Process packet_engine_input
  | StreamOpened flow_id u64
  | Forwarded flow_id nat u64
  | StreamPayload flow_id bytes u64
  | StreamClosed flow_id u64
  | Fail flow_id block_reason
  | CompleteDns u64 bytes u64
  | Tick "flow_key list" u64
  | Suspend u64
  | Resume "flow_id list" u64 bool
  | ShutDown "flow_id list"
  | FailAll "flow_id list" block_reason

fun engine_run :: "engine_op \<Rightarrow> packet_processor \<Rightarrow> engine_result" where
  "engine_run (Process input) pp = process input pp"
| "engine_run (StreamOpened i now) pp = protected_stream_opened i now pp"
| "engine_run (Forwarded i n now) pp = acknowledge_forwarded i n now pp"
| "engine_run (StreamPayload i payload now) pp = protected_payload i payload now pp"
| "engine_run (StreamClosed i now) pp = protected_stream_closed i now pp"
| "engine_run (Fail i reason) pp = fail_flow i reason pp"
| "engine_run (CompleteDns q wire now) pp = complete_dns q wire now pp"
| "engine_run (Tick order now) pp = tick order now pp"
| "engine_run (Suspend now) pp = Some ([], suspend now pp)"
| "engine_run (Resume order now healthy) pp = resume_flows order now healthy pp"
| "engine_run (ShutDown order) pp = shutdown order pp"
| "engine_run (FailAll order reason) pp = fail_all order reason pp"

text \<open>Flow identifiers do not wrap around: a step is taken while there is a next one.\<close>

definition engine_start :: "packet_processor \<Rightarrow> bool" where
  "engine_start pp \<longleftrightarrow> (\<exists>config. processor_new config = Some pp \<and> bf_to_gateway_bytes (en_buffers config) < usize_max)"

definition engine_step :: "packet_processor \<Rightarrow> packet_processor \<Rightarrow> bool" where
  "engine_step pp pp' \<longleftrightarrow>
     pp_next_flow_id pp \<noteq> 0xffffffffffffffff \<and> (\<exists>op actions. engine_run op pp = Some (actions, pp'))"

lemma engine_run_inv:
  assumes "engine_inv pp" "pp_next_flow_id pp \<noteq> 0xffffffffffffffff"
  shows "engine_keeps (engine_run op pp)"
proof (cases op)
  case (Suspend now)
  then show ?thesis using assms by (simp add: suspend_def engine_inv_def)
qed (use assms in \<open>simp_all add: process_inv protected_stream_opened_inv acknowledge_forwarded_inv protected_payload_inv
      protected_stream_closed_inv keeps_fail_flow complete_dns_inv tick_inv resume_flows_inv shutdown_inv fail_all_inv\<close>)

lemma engine_inv_start: "engine_start pp \<Longrightarrow> engine_inv pp"
  by (auto simp: engine_start_def processor_new_def engine_inv_def tables_inv_def config_sane_def fcard_fempty split: if_splits)

interpretation enginem: invariant_machine engine_start engine_step engine_inv
proof
  show "engine_inv pp'" if inv: "engine_inv pp" and step: "engine_step pp pp'" for pp pp'
  proof -
    from step obtain op actions where "pp_next_flow_id pp \<noteq> 0xffffffffffffffff" "engine_run op pp = Some (actions, pp')"
      by (auto simp: engine_step_def)
    with engine_run_inv [OF inv, of op] show ?thesis by (simp add: engine_keeps_def)
  qed
qed (rule engine_inv_start)

text \<open>
  C8. The packet engine never panics and its tables stay bounded and consistent. In every state
  reached by packets, stream events, DNS answers, timers, sleep, shutdown and failures in any
  order, every further operation returns; and then there are at most as many flows and pending
  DNS operations as configured, the identifiers and the flows describe the same flows, and no
  flow holds more than its buffers allow.
\<close>

theorem engine_never_panics:
  assumes "reach engine_start engine_step pp" "pp_next_flow_id pp \<noteq> 0xffffffffffffffff"
  shows "\<exists>actions pp'. engine_run op pp = Some (actions, pp') \<and>
    fcard (fmdom (pp_flows pp')) \<le> en_max_flows (pp_config pp') \<and>
    fcard (fmdom (pp_pending_dns pp')) \<le> en_max_pending_dns (pp_config pp') \<and>
    (\<forall>i key. fmlookup (pp_ids pp') i = Some key \<longleftrightarrow> (\<exists>f. fmlookup (pp_flows pp') key = Some f \<and> id_of f = i)) \<and>
    (\<forall>key f. fmlookup (pp_flows pp') key = Some f \<longrightarrow>
      sn_queued_to_gateway (fl_snapshot f) \<le> bf_to_gateway_bytes (en_buffers (pp_config pp')) \<and>
      length (fl_dns_buffer f) \<le> bf_to_gateway_bytes (en_buffers (pp_config pp')) \<and>
      sn_queued_to_application (fl_snapshot f) \<le> bf_to_application_bytes (en_buffers (pp_config pp')))"
proof -
  have "engine_inv pp" by (rule enginem.reach_inv [OF assms(1)])
  from engine_run_inv [OF this assms(2), of op] obtain actions pp' where
    run: "engine_run op pp = Some (actions, pp')" and inv: "engine_inv pp'" by (auto simp: engine_keeps_def)
  note i = tables_invD [OF inv [unfolded engine_inv_def]]
  have "fmlookup (pp_ids pp') j = Some key \<longleftrightarrow> (\<exists>f. fmlookup (pp_flows pp') key = Some f \<and> id_of f = j)" for j key
    using i(4) [of key] i(6) [of j key] by blast
  then show ?thesis using run i(7,8) i(3) unfolding flow_ok_def by blast
qed

section \<open>Nothing leaves without a protected path\<close>

text \<open>The actions that send something towards the network.\<close>

fun uses_path :: "engine_action \<Rightarrow> bool" where
  "uses_path (OpenProtectedStream _ _ _ _) = True"
| "uses_path (ForwardPayload _ _) = True"
| "uses_path (ResolveDns _ _) = True"
| "uses_path _ = False"

definition sends_nothing :: "engine_action list \<Rightarrow> bool" where
  "sends_nothing actions = list_all (\<lambda>a. \<not> uses_path a) actions"

lemma quiet_simps [simp]:
  "sends_nothing []" "sends_nothing (a # as) \<longleftrightarrow> \<not> uses_path a \<and> sends_nothing as" "sends_nothing (as @ bs) \<longleftrightarrow> sends_nothing as \<and> sends_nothing bs"
  by (simp_all add: sends_nothing_def)

lemma quiet_replies [simp]: "\<not> uses_path (ack_reply w f)" "\<not> uses_path (syn_ack_reply w f)"
  by (simp_all add: ack_reply_def syn_ack_reply_def)

lemma quiet_rejections:
  "block_flow i reason pp = (actions, pp') \<Longrightarrow> sends_nothing actions"
  "reject_syn segment reason pp = (actions, pp') \<Longrightarrow> sends_nothing actions"
  "reset_by_key key pp = (actions, pp') \<Longrightarrow> sends_nothing actions"
  by (auto simp: block_flow_def reject_syn_def reset_by_key_def split: option.splits)

lemma quiet_fail_flow: "fail_flow i reason pp = Some (actions, pp') \<Longrightarrow> sends_nothing actions"
  by (auto simp: fail_flow_def split: option.splits)

lemma quiet_fail_each: "fail_each xs pp = Some (actions, pp') \<Longrightarrow> sends_nothing actions"
proof (induction xs arbitrary: pp actions)
  case (Cons x xs)
  then obtain first last pp'' where
    "fail_flow (fst x) (snd x) pp = Some (first, pp'')" "fail_each xs pp'' = Some (last, pp')" "actions = first @ last"
    by (auto split: option.splits)
  then show ?case using Cons.IH quiet_fail_flow by simp
qed simp

lemma quiet_deliver: "deliver key i payload now pp = Some (actions, pp') \<Longrightarrow> sends_nothing actions"
  by (auto simp: deliver_def send_segment_def Let_def split: option.splits if_splits dest: quiet_fail_flow)

lemma quiet_events:
  assumes "engine_run op pp = Some (actions, pp')" "\<nexists>input. op = Process input"
  shows "sends_nothing actions"
proof -
  have sent: "sends_nothing (concat (map (\<lambda>x. [RecordDiagnostic c (g x), SendSyntheticResponse (h x)]) xs))" for xs c g h
    by (induction xs) simp_all
  show ?thesis
    using assms
    by (cases op)
      (auto simp: protected_stream_opened_def acknowledge_forwarded_def protected_payload_def protected_stream_closed_def
        complete_dns_def tick_def resume_flows_def shutdown_def fail_all_def send_segment_def Let_def sent
        split: option.splits if_splits prod.splits dns_response_target.splits
        dest: quiet_fail_flow quiet_fail_each quiet_deliver quiet_rejections)
qed

lemma quiet_without_path:
  assumes "process input pp = Some (actions, pp')" "\<not> protected_state (pi_connection_state input)"
  shows "sends_nothing actions"
proof -
  have udp: "process_udp datagram (pi_connection_state input) pp = (actions, pp') \<Longrightarrow> sends_nothing actions" for datagram
    using assms(2) by (auto simp: process_udp_def dest: quiet_rejections split: if_splits)
  have tcp: "process_tcp segment input pp = Some (actions, pp') \<Longrightarrow> sends_nothing actions" for segment
    using assms(2)
    by (auto simp: process_tcp_def open_dns_tcp_def open_tcp_flow_def Let_def endpoints_def
        split: if_splits option.splits dest: quiet_fail_flow quiet_rejections)
  show ?thesis
    using assms(1) by (auto simp: process_def split: sum.splits classified_packet.splits dest: udp tcp quiet_rejections)
qed

fun opens :: "engine_action \<Rightarrow> bool" where
  "opens (OpenProtectedStream _ _ _ _) = True"
| "opens _ = False"

lemma opens_nothing: "sends_nothing actions \<Longrightarrow> \<not> list_ex opens actions"
proof (induction actions)
  case (Cons a as)
  then show ?case by (cases a) simp_all
qed simp

lemma drain_dns_opens_nothing: "list_ex opens (dd_actions (drain_dns i m d)) = list_ex opens (dd_actions d)"
  by (induction i m d rule: drain_dns.induct, subst drain_dns.simps) (simp add: Let_def)

lemma turn_opens_nothing [simp]:
  "list_ex opens (tt_actions (refuse reason code t)) = list_ex opens (tt_actions t)"
  "list_ex opens (tt_actions (remark code w t)) = list_ex opens (tt_actions t)"
  by (simp_all add: refuse_def remark_def ack_reply_def Let_def)

lemma accept_opens_nothing:
  "list_ex opens (tt_actions (take_acknowledgement segment t)) = list_ex opens (tt_actions t)"
  "list_ex opens (tt_actions (accept_payload c segment t)) = list_ex opens (tt_actions t)"
  by (simp_all add: take_acknowledgement_def accept_payload_def accept_in_order_def Let_def ack_reply_def)

lemma take_fin_opens_nothing: "list_ex opens (tt_actions (fst (take_fin w segment t))) = list_ex opens (tt_actions t)"
  by (simp add: take_fin_def Let_def ack_reply_def)

lemma synchronized_turn_opens_nothing: "\<not> list_ex opens (fst (synchronized_turn key segment f pp))"
  by (simp add: synchronized_turn_def Let_def case_prod_unfold take_fin_opens_nothing drain_dns_opens_nothing
      accept_opens_nothing)

lemma process_existing_opens_nothing:
  "process_existing_tcp key segment now pp = Some (actions, pp') \<Longrightarrow> \<not> list_ex opens actions"
  using synchronized_turn_opens_nothing
  by (auto simp: process_existing_tcp_def Let_def ack_reply_def syn_ack_reply_def split: option.splits if_splits)
    (metis fst_conv)+

definition tunnelled :: "packet_engine_input \<Rightarrow> bool" where
  "tunnelled input = (case pi_route input of None \<Rightarrow> False | Some route \<Rightarrow> pd_action (pt_decision route) = Tunnel)"

lemma opens_only_tunnelled:
  assumes "process input pp = Some (actions, pp')" "list_ex opens actions"
  shows "pp_accepting pp \<and> tunnelled input"
proof -
  note no = opens_nothing process_existing_opens_nothing quiet_rejections quiet_fail_flow
  have udp: "process_udp datagram (pi_connection_state input) pp = (actions, pp') \<Longrightarrow> \<not> list_ex opens actions" for datagram
    by (auto simp: process_udp_def Let_def endpoints_def dest: quiet_rejections opens_nothing split: if_splits)
  have dns: "open_dns_tcp key segment platform state pp = (actions, pp') \<Longrightarrow> \<not> list_ex opens actions" for key segment platform state
    by (auto simp: open_dns_tcp_def Let_def dest: quiet_rejections opens_nothing split: if_splits)
  have tcp: "open_tcp_flow key segment input pp = (actions, pp') \<Longrightarrow> pp_accepting pp \<and> tunnelled input" for key segment
    using assms(2)
    by (auto simp: open_tcp_flow_def tunnelled_def Let_def dest: quiet_rejections opens_nothing
        split: if_splits option.splits policy_action.splits)
  have "process_tcp segment input pp = Some (actions, pp') \<Longrightarrow> pp_accepting pp \<and> tunnelled input" for segment
    using assms(2)
    by (auto simp: process_tcp_def Let_def endpoints_def
        split: if_splits option.splits dest: tcp dns no)
  then show ?thesis
    using assms by (auto simp: process_def split: sum.splits classified_packet.splits dest: udp no)
qed

lemma sends_nothing_iff: "sends_nothing actions \<longleftrightarrow> (\<forall>a \<in> set actions. \<not> uses_path a)"
  by (simp add: sends_nothing_def list_all_iff)

text \<open>
  C7. The engine fails closed. Only the handling of a packet can open a stream, forward payload
  or hand out a DNS query, and only in a connection state with a protected path; a stream is
  opened only while the engine accepts flows and for a packet whose policy decision is to tunnel.
\<close>

theorem nothing_leaves_without_protected_path:
  assumes "engine_run op pp = Some (actions, pp')" "a \<in> set actions" "uses_path a"
  shows "\<exists>input. op = Process input \<and> protected_state (pi_connection_state input) \<and>
    (opens a \<longrightarrow> pp_accepting pp \<and> tunnelled input)"
proof -
  have "\<not> sends_nothing actions" using assms(2,3) by (auto simp: sends_nothing_iff)
  with quiet_events [OF assms(1)] obtain input where op: "op = Process input" by blast
  then have run: "process input pp = Some (actions, pp')" using assms(1) by simp
  have "list_ex opens actions" if "opens a" using that assms(2) by (auto simp: list_ex_iff)
  then show ?thesis
    using op quiet_without_path [OF run] opens_only_tunnelled [OF run] \<open>\<not> sends_nothing actions\<close> by blast
qed

definition example_engine :: packet_processor where
  "example_engine = the (processor_new default_engine_config)"

definition example_syn :: bytes where
  "example_syn = build_tcp_packet (10, 0, 0, 2) (192, 0, 2, 7) 50000 443 100 0
     \<lparr>tf_fin = False, tf_syn = True, tf_rst = False, tf_psh = False, tf_ack = False\<rparr> 1024 []"

definition example_input :: packet_engine_input where
  "example_input = \<lparr>pi_packet = example_syn, pi_platform = \<lparr>pm_application = None, pm_monotonic_ms = 5\<rparr>,
     pi_route = Some \<lparr>pt_decision = \<lparr>pd_action = Tunnel, pd_rule_id = ''default''\<rparr>, pt_hostname = None,
       pt_isolation_key = [1], pt_anonymity_profile = StandardMode, pt_gateway_id = None\<rparr>,
     pi_connection_state = Connected\<rparr>"

lemma default_engine_valid: "engine_config_valid default_engine_config"
  by (simp add: engine_config_valid_def default_engine_config_def u16_max_def)

lemma example_engine_new: "processor_new default_engine_config = Some example_engine"
  using default_engine_valid by (simp add: example_engine_def processor_new_def)

lemma example_engine_fields:
  "pp_config example_engine = default_engine_config" "pp_flows example_engine = fmempty" "pp_ids example_engine = fmempty"
  "pp_pending_dns example_engine = fmempty" "pp_next_flow_id example_engine = 1" "pp_accepting example_engine"
  using default_engine_valid by (simp_all add: example_engine_def processor_new_def)

definition example_key :: flow_key where
  "example_key = \<lparr>fk_source = \<lparr>te_address = (10, 0, 0, 2), te_port = 50000\<rparr>,
     fk_destination = \<lparr>te_address = (192, 0, 2, 7), te_port = 443\<rparr>\<rparr>"

definition example_segment :: "u32 \<Rightarrow> u32 \<Rightarrow> tcp_flags \<Rightarrow> bytes \<Rightarrow> tcp_segment" where
  "example_segment seq ackn flags payload =
     \<lparr>ts_source = (10, 0, 0, 2), ts_destination = (192, 0, 2, 7), ts_source_port = 50000, ts_destination_port = 443,
      ts_sequence = seq, ts_acknowledgement = ackn, ts_window = 1024, ts_flags = flags, ts_payload = payload\<rparr>"

definition example_packet :: "u32 \<Rightarrow> u32 \<Rightarrow> tcp_flags \<Rightarrow> bytes \<Rightarrow> packet_engine_input" where
  "example_packet seq ackn flags payload =
     example_input\<lparr>pi_packet := build_tcp_packet (10, 0, 0, 2) (192, 0, 2, 7) 50000 443 seq ackn flags 1024 payload\<rparr>"

lemma classify_example:
  "40 + length payload \<le> 65535 \<Longrightarrow>
     classify (pi_packet (example_packet seq ackn flags payload)) = Inr (Tcp (example_segment seq ackn flags payload))"
  using classify_tcp_built [of 50000 443 payload "(10, 0, 0, 2)" "(192, 0, 2, 7)" seq ackn flags 1024]
  by (simp add: example_packet_def example_segment_def)

definition example_tcp_flow :: flow_record where
  "example_tcp_flow = new_flow 1 example_key (example_segment 100 0 \<lparr>tf_fin = False, tf_syn = True, tf_rst = False,
       tf_psh = False, tf_ack = False\<rparr> []) (pi_platform example_input) (en_buffers default_engine_config) (pi_route example_input)"

definition example_connected :: packet_processor where
  "example_connected = insert_flow example_tcp_flow (example_engine\<lparr>pp_next_flow_id := 2\<rparr>)"

lemma example_connecting: "process example_input example_engine =
     Some ([OpenProtectedStream \<lparr>fr_flow_id = 1, fr_host = HostIp (V4 (192, 0, 2, 7)), fr_port = 443, fr_application = None\<rparr>
       [1] StandardMode None], example_connected)"
proof -
  have "classify example_syn = Inr (Tcp (example_segment 100 0 \<lparr>tf_fin = False, tf_syn = True, tf_rst = False,
       tf_psh = False, tf_ack = False\<rparr> []))"
    unfolding example_syn_def example_segment_def by (rule classify_tcp_built) simp_all
  then show ?thesis
    by (simp add: process_def example_input_def process_tcp_def endpoints_def open_tcp_flow_def Let_def
        example_engine_fields protected_state_def default_engine_config_def fcard_fempty example_segment_def example_key_def
        example_connected_def example_tcp_flow_def succ_id_def)
qed

theorem nothing_leaves_without_protected_path_witness:
  "protected_state (pi_connection_state example_input) \<and> pp_accepting example_engine \<and> tunnelled example_input"
  using nothing_leaves_without_protected_path [of "Process example_input" example_engine, unfolded engine_run.simps,
      OF example_connecting]
  by simp

lemma example_engine_reachable: "reach engine_start engine_step example_engine"
proof (rule reach.intros(1))
  show "engine_start example_engine"
    unfolding engine_start_def using example_engine_new
    by (intro exI [of _ default_engine_config]) (simp add: default_engine_config_def)
qed

theorem engine_never_panics_witness:
  "\<exists>actions pp'. engine_run (Process example_input) example_engine = Some (actions, pp') \<and>
    fcard (fmdom (pp_flows pp')) \<le> en_max_flows (pp_config pp')"
  using engine_never_panics [OF example_engine_reachable, of "Process example_input"] example_engine_fields(5) by auto

section \<open>A shutdown is final\<close>

primrec engine_trace :: "engine_op list \<Rightarrow> packet_processor \<Rightarrow> engine_result" where
  "engine_trace [] pp = Some ([], pp)"
| "engine_trace (op # ops) pp =
     (case engine_run op pp of
        None \<Rightarrow> None
      | Some (actions, pp) \<Rightarrow> map_option (\<lambda>(rest, pp). (actions @ rest, pp)) (engine_trace ops pp))"

definition shut :: "packet_processor \<Rightarrow> bool" where
  "shut pp \<longleftrightarrow> \<not> pp_accepting pp \<and> pp_flows pp = fmempty \<and> pp_ids pp = fmempty \<and> pp_pending_dns pp = fmempty"

lemma fail_each_shut: "shut pp \<Longrightarrow> fail_each xs pp = Some ([], pp)"
  by (induction xs) (simp_all add: fail_flow_def shut_def)

lemma tick_flows_empty: "tick_flows c now order fmempty = ([], [], fmempty)"
  by (induction order) (simp_all add: Let_def)


lemma shut_rejections:
  "shut pp \<Longrightarrow> block_flow i reason pp = (actions, pp') \<Longrightarrow> shut pp'"
  "shut pp \<Longrightarrow> reject_syn segment reason pp = (actions, pp') \<Longrightarrow> shut pp'"
  by (auto simp: shut_def block_flow_def reject_syn_def record_metric_def)

lemma shut_process: "shut pp \<Longrightarrow> process input pp = Some (actions, pp') \<Longrightarrow> shut pp' \<and> sends_nothing actions"
proof (intro conjI)
  assume shut: "shut pp" and run: "process input pp = Some (actions, pp')"
  have empty: "\<not> pp_accepting pp" "pp_flows pp = fmempty" using shut by (simp_all add: shut_def)
  have udp: "process_udp datagram (pi_connection_state input) pp = (actions, pp') \<Longrightarrow> shut pp' \<and> sends_nothing actions" for datagram
    by (auto simp: process_udp_def empty split: if_splits dest: quiet_rejections shut_rejections(1) [OF shut])
  have tcp: "process_tcp segment input pp = Some (actions, pp') \<Longrightarrow> shut pp' \<and> sends_nothing actions" for segment
    using shut
    by (auto simp: process_tcp_def open_dns_tcp_def open_tcp_flow_def reset_by_key_def Let_def endpoints_def empty
        split: if_splits dest: quiet_rejections shut_rejections(2) [OF shut])
  show "shut pp'" "sends_nothing actions"
    using run shut
    by (auto simp: process_def record_metric_def shut_def split: sum.splits classified_packet.splits
        dest: udp tcp quiet_rejections shut_rejections(1) [OF shut])
qed

lemma shut_run:
  assumes "shut pp" "engine_run op pp = Some (actions, pp')"
  shows "shut pp' \<and> sends_nothing actions"
proof (cases op)
  case (Process input)
  then show ?thesis using assms shut_process by simp
qed (use assms in \<open>auto simp: shut_def protected_stream_opened_def acknowledge_forwarded_def protected_payload_def
      protected_stream_closed_def fail_flow_def complete_dns_def tick_def tick_flows_empty suspend_def resume_flows_def
      shutdown_def fail_all_def fail_each_shut [unfolded shut_def] Let_def split: if_splits option.splits\<close>)

lemma shut_trace: "shut pp \<Longrightarrow> engine_trace ops pp = Some (actions, pp') \<Longrightarrow> shut pp' \<and> sends_nothing actions"
proof (induction ops arbitrary: pp actions)
  case (Cons op ops)
  then obtain first last pp'' where run: "engine_run op pp = Some (first, pp'')"
    and rest: "engine_trace ops pp'' = Some (last, pp')" "actions = first @ last"
    by (auto split: option.splits)
  have "shut pp'' \<and> sends_nothing first" by (rule shut_run [OF Cons.prems(1) run])
  with Cons.IH [OF _ rest(1)] rest(2) show ?case by simp
qed simp

lemma fail_flow_ids:
  assumes inv: "engine_inv pp" and run: "fail_flow i reason pp = Some (actions, pp')"
  shows "fmdom (pp_ids pp') = fmdom (pp_ids pp) |-| {|i|}" "pp_accepting pp' = pp_accepting pp"
    "pp_pending_dns pp = fmempty \<Longrightarrow> pp_pending_dns pp' = fmempty"
proof -
  note ids = tables_invD(6) [OF inv [unfolded engine_inv_def]]
  show "fmdom (pp_ids pp') = fmdom (pp_ids pp) |-| {|i|}" "pp_accepting pp' = pp_accepting pp"
    "pp_pending_dns pp = fmempty \<Longrightarrow> pp_pending_dns pp' = fmempty"
    using run ids [of i]
    by (auto simp: fail_flow_def remove_flow_def record_metric_def Let_def fmdom_notI split: option.splits)
qed

lemma fail_each_ids:
  "engine_inv pp \<Longrightarrow> fail_each xs pp = Some (actions, pp') \<Longrightarrow>
     fmdom (pp_ids pp') = fmdom (pp_ids pp) |-| fset_of_list (map fst xs) \<and> pp_accepting pp' = pp_accepting pp \<and>
     (pp_pending_dns pp = fmempty \<longrightarrow> pp_pending_dns pp' = fmempty)"
proof (induction xs arbitrary: pp actions)
  case (Cons x xs)
  then obtain first last pp'' where run: "fail_flow (fst x) (snd x) pp = Some (first, pp'')"
    and rest: "fail_each xs pp'' = Some (last, pp')"
    by (auto split: option.splits)
  have "engine_inv pp''" using fail_flow_inv [OF Cons.prems(1), of "fst x" "snd x"] run by auto
  then show ?case using Cons.IH [OF _ rest] fail_flow_ids [OF Cons.prems(1) run] by auto
qed simp

lemma shutdown_shuts:
  assumes inv: "engine_inv pp" and all: "fset (fmdom (pp_ids pp)) \<subseteq> set order" and run: "shutdown order pp = Some (actions, pp')"
  shows "shut pp'"
proof -
  let ?pp = "pp\<lparr>pp_accepting := False, pp_pending_dns := fmempty\<rparr>"
  from run obtain rest where each: "fail_each (map (\<lambda>i. (i, ShutdownReason)) order) ?pp = Some (rest, pp')"
    by (auto simp: shutdown_def)
  have inv': "engine_inv ?pp"
    using tables_inv_pending [OF inv [unfolded engine_inv_def], of fmempty] by (simp add: engine_inv_def fcard_fempty)
  have "engine_inv pp'" using fail_each_inv [OF inv', of "map (\<lambda>i. (i, ShutdownReason)) order"] each by (auto simp: engine_keeps_def)
  note i = tables_invD [OF this [unfolded engine_inv_def]]
  have "fmdom (pp_ids pp') = {||}" "\<not> pp_accepting pp'" "pp_pending_dns pp' = fmempty"
    using fail_each_ids [OF inv' each] all by (auto simp: fset_of_list_elem comp_def fset_eq_iff less_eq_fset.rep_eq)
  moreover from this(1) have "pp_ids pp' = fmempty" by (intro fmap_ext) (metis fempty_iff fmdom_notD fmempty_lookup)
  moreover from this have "fmlookup (pp_flows pp') key = None" for key
    using i(4) [of key] by (cases "fmlookup (pp_flows pp') key") auto
  then have "pp_flows pp' = fmempty" by (intro fmap_ext) simp
  ultimately show ?thesis by (simp add: shut_def)
qed

text \<open>
  C9. A shutdown is final. Once the engine was shut down, in whatever state and whatever the
  order in which its flows were closed, no flow and no pending query is left, and whatever
  operations follow, no stream is opened, no payload forwarded and no query handed out again.
\<close>

theorem shutdown_is_final:
  assumes "reach engine_start engine_step pp" "set order = fset (fmdom (pp_ids pp))"
    and "shutdown order pp = Some (closing, pp1)" "engine_trace ops pp1 = Some (actions, pp2)"
  shows "pp_flows pp1 = fmempty \<and> pp_pending_dns pp1 = fmempty \<and> (\<forall>a \<in> set (closing @ actions). \<not> uses_path a) \<and>
    pp_flows pp2 = fmempty \<and> pp_pending_dns pp2 = fmempty"
proof -
  have "shut pp1" by (rule shutdown_shuts [OF enginem.reach_inv [OF assms(1)] _ assms(3)]) (simp add: assms(2))
  moreover from shut_trace [OF this assms(4)] have "shut pp2" "sends_nothing actions" by simp_all
  moreover have "sends_nothing closing" using quiet_events [of "ShutDown order" pp closing pp1] assms(3) by simp
  ultimately show ?thesis by (auto simp: shut_def sends_nothing_iff)
qed

theorem shutdown_is_final_witness:
  "\<exists>closing pp1 actions pp2. shutdown [] example_engine = Some (closing, pp1) \<and>
     engine_trace [Process example_input] pp1 = Some (actions, pp2) \<and> (\<forall>a \<in> set actions. \<not> uses_path a)"
proof -
  obtain closing pp1 where s: "shutdown [] example_engine = Some (closing, pp1)" by (simp add: shutdown_def)
  then have "pp_next_flow_id pp1 \<noteq> 0xffffffffffffffff" "engine_inv pp1"
    using shutdown_inv [OF enginem.reach_inv [OF example_engine_reachable], of "[]"]
    by (auto simp: shutdown_def example_engine_fields)
  from engine_run_inv [OF this(2,1), of "Process example_input"] obtain actions pp2 where
    t: "engine_trace [Process example_input] pp1 = Some (actions, pp2)" by (auto simp: engine_keeps_def)
  show ?thesis
    using shutdown_is_final [OF example_engine_reachable _ s t] s t by (auto simp: example_engine_fields)
qed

end
