(* ===== verification/Flow_Engine_Stream.thy ===== *)
theory Flow_Engine_Stream
  imports Flow_Engine_Laws
begin

text \<open>
  The packet processor as a TCP receiver: whatever the order, the cut and the repetition of the
  segments of a connection, and whatever happens to other connections in between, the bytes
  forwarded for its flow are a prefix of the bytes the application sent.
\<close>

section \<open>Payload is forwarded in sequence\<close>

text \<open>The bytes handed to the protected stream of a flow.\<close>

definition forwarded_by :: "flow_id \<Rightarrow> engine_action \<Rightarrow> bytes" where
  "forwarded_by i a = (case a of ForwardPayload j payload \<Rightarrow> if j = i then payload else [] | _ \<Rightarrow> [])"

definition forwarded :: "flow_id \<Rightarrow> engine_action list \<Rightarrow> bytes" where
  "forwarded i actions = concat (map (forwarded_by i) actions)"

lemma forwarded_simps [simp]:
  "forwarded i [] = []" "forwarded i (a # as) = forwarded_by i a @ forwarded i as"
  "forwarded i (as @ bs) = forwarded i as @ forwarded i bs"
  by (simp_all add: forwarded_def)

lemma forwarded_by_simps [simp]:
  "forwarded_by i (ForwardPayload j payload) = (if j = i then payload else [])"
  "forwarded_by i (SendSyntheticResponse p) = []" "forwarded_by i (RecordDiagnostic c x) = []"
  "forwarded_by i (BlockFlow x reason) = []" "forwarded_by i (CloseProtectedStream j d) = []"
  "forwarded_by i (ResolveDns q target) = []" "forwarded_by i (OpenProtectedStream r k m g) = []"
  "forwarded_by i (ack_reply w f) = []" "forwarded_by i (syn_ack_reply w f) = []"
  by (simp_all add: forwarded_by_def ack_reply_def syn_ack_reply_def)

lemma sends_nothing_forwards_nothing: "sends_nothing actions \<Longrightarrow> forwarded i actions = []"
proof (induction actions)
  case (Cons a as)
  then show ?case by (cases a) simp_all
qed simp

text \<open>A flow still takes payload; \<open>moved n f g\<close>: if \<open>g\<close> does, it is \<open>n\<close> bytes further than \<open>f\<close>.\<close>

definition receiving :: "flow_record \<Rightarrow> bool" where
  "receiving f \<longleftrightarrow> \<not> fl_dns_tcp f \<and> flow_state f \<noteq> HalfClosedLocal \<and> flow_state f \<noteq> Closing"

definition moved :: "nat \<Rightarrow> flow_record \<Rightarrow> flow_record \<Rightarrow> bool" where
  "moved n f g \<longleftrightarrow> id_of g = id_of f \<and> (receiving g \<longrightarrow> receiving f \<and> fl_client_next g = fl_client_next f + word_of_nat n)"

definition flows_moved :: "(flow_id \<Rightarrow> nat) \<Rightarrow> (flow_key, flow_record) fmap \<Rightarrow> (flow_key, flow_record) fmap \<Rightarrow> bool" where
  "flows_moved n flows flows' \<longleftrightarrow>
     (\<forall>key g. fmlookup flows' key = Some g \<longrightarrow> (\<exists>f. fmlookup flows key = Some f \<and> moved (n (id_of f)) f g))"

abbreviation flows_still :: "(flow_key, flow_record) fmap \<Rightarrow> (flow_key, flow_record) fmap \<Rightarrow> bool" where
  "flows_still \<equiv> flows_moved (\<lambda>_. 0)"

definition still :: "packet_processor \<Rightarrow> packet_processor \<Rightarrow> bool" where
  "still pp pp' \<longleftrightarrow> pp_next_flow_id pp' = pp_next_flow_id pp \<and> flows_still (pp_flows pp) (pp_flows pp')"

lemma moved_refl [simp]: "moved 0 f f"
  by (simp add: moved_def)

lemma moved_trans: "moved m f g \<Longrightarrow> moved n g h \<Longrightarrow> moved (m + n) f h"
  by (simp add: moved_def add.assoc)

lemma flows_still_refl [simp]: "flows_still flows flows"
  by (simp add: flows_moved_def)

lemma flows_still_trans: "flows_still a b \<Longrightarrow> flows_still b c \<Longrightarrow> flows_still a c"
  unfolding flows_moved_def using moved_trans [of 0 _ _ 0] by (metis add_0)

lemma flows_still_put: "fmlookup flows key = Some f \<Longrightarrow> moved 0 f g \<Longrightarrow> flows_still flows (fmupd key g flows)"
  by (auto simp: flows_moved_def)

lemma flows_still_drop [simp]: "flows_still flows (fmdrop key flows)"
  by (simp add: flows_moved_def)

lemma still_refl [simp]: "still pp pp"
  by (simp add: still_def)

lemma still_trans: "still a b \<Longrightarrow> still b c \<Longrightarrow> still a c"
  unfolding still_def using flows_still_trans by metis

lemma still_put: "fmlookup (pp_flows pp) key = Some f \<Longrightarrow> moved 0 f g \<Longrightarrow> still pp (put_flow key g pp)"
  by (simp add: still_def put_flow_def flows_still_put)

lemma still_remove [simp]: "still pp (remove_flow key pp)"
  by (cases "fmlookup (pp_flows pp) key") (simp_all add: still_def remove_flow_def record_metric_def Let_def)

lemma still_rejections:
  "still pp (snd (block_flow i reason pp))" "still pp (snd (reject_syn segment reason pp))" "still pp (snd (reset_by_key key pp))"
  by (auto simp: still_def block_flow_def reject_syn_def reset_by_key_def record_metric_def remove_flow_def Let_def split: option.splits)

lemma still_fail_flow: "fail_flow i reason pp = Some (actions, pp') \<Longrightarrow> still pp pp'"
  by (auto simp: fail_flow_def record_metric_def still_def remove_flow_def Let_def split: option.splits)

lemma still_fail_each: "fail_each xs pp = Some (actions, pp') \<Longrightarrow> still pp pp'"
proof (induction xs arbitrary: pp actions)
  case (Cons x xs)
  then obtain first last pp'' where
    "fail_flow (fst x) (snd x) pp = Some (first, pp'')" "fail_each xs pp'' = Some (last, pp')"
    by (auto split: option.splits)
  then show ?case using Cons.IH still_trans still_fail_flow by blast
qed simp

lemma moved_small [simp]:
  "moved n f (touch now g) = moved n f g" "moved n f (g\<lparr>fl_outstanding := x\<rparr>) = moved n f g"
  "moved n f (g\<lparr>fl_server_next := y\<rparr>) = moved n f g" "moved n f (g\<lparr>fl_dns_buffer := z\<rparr>) = moved n f g"
  "moved n f (shift_times slept g) = moved n f g"
  by (simp_all add: moved_def receiving_def touch_def shift_times_def)

lemma send_segment_moved: "moved n f (snd (send_segment now w fl payload used g)) = moved n f g"
  by (simp add: send_segment_def Let_def moved_def receiving_def)

lemma tick_flow_moved: "moved 0 f (fst (tick_flow c now f))"
  by (simp add: tick_flow_def Let_def split: option.split)

lemma tick_flows_still: "flows_still flows (snd (snd (tick_flows c now keys flows)))"
proof (induction keys arbitrary: flows)
  case (Cons key keys)
  show ?case
  proof (cases "fmlookup flows key")
    case (Some f)
    have "flows_still flows (fmupd key (fst (tick_flow c now f)) flows)"
      by (rule flows_still_put [OF Some tick_flow_moved])
    from flows_still_trans [OF this Cons.IH] show ?thesis using Some by (simp add: Let_def case_prod_unfold)
  qed (use Cons in simp)
qed simp

lemma deliver_still:
  assumes "deliver key i payload now pp = Some (actions, pp')"
  shows "still pp pp'"
proof (cases "fmlookup (pp_flows pp) key")
  case (Some f)
  have "moved 0 f (snd (send_segment now w fl payload used (touch now f\<lparr>fl_snapshot := s\<lparr>sn_queued_to_application := n\<rparr>\<rparr>)))"
    if "s = fl_snapshot (touch now f)" for w fl payload used n s
    unfolding send_segment_moved using that by (simp add: moved_def receiving_def touch_def)
  then show ?thesis
    using assms Some
    by (auto simp: deliver_def Let_def case_prod_unfold split: if_splits intro!: still_put intro: still_fail_flow)
qed (use assms in \<open>auto simp: deliver_def intro: still_fail_flow\<close>)

lemma flow_state_touch [simp]: "flow_state (touch now f) = flow_state f"
  by (simp add: touch_def)

lemma closing_moved:
  assumes "s = Closing \<or> s = HalfClosedRemote \<and> flow_state f \<noteq> HalfClosedLocal \<and> flow_state f \<noteq> Closing"
  shows "moved 0 f (snd (send_segment now w fl payload used (set_state s (touch now f))))"
  unfolding send_segment_moved using assms by (auto simp: moved_def receiving_def touch_def set_state_def)

lemma closed_still: "protected_stream_closed i now pp = Some (actions, pp') \<Longrightarrow> still pp pp'"
  by (auto simp: protected_stream_closed_def may_deliver_def Let_def case_prod_unfold split: option.splits if_splits
      intro!: still_put closing_moved intro: still_fail_flow)

lemma events_still:
  assumes "engine_run op pp = Some (actions, pp')" "\<nexists>input. op = Process input"
  shows "still pp pp'"
proof (cases op)
  case (StreamOpened i now)
  then show ?thesis
    using assms by (auto simp: protected_stream_opened_def Let_def moved_def receiving_def set_state_def touch_def
        split: option.splits if_splits intro!: still_put)
next
  case (Forwarded i n now)
  have "still pp (put_flow key (touch now (f\<lparr>fl_snapshot := (fl_snapshot f)\<lparr>sn_queued_to_gateway := m\<rparr>\<rparr>)) pp)"
    if "fmlookup (pp_flows pp) key = Some f" for key f m
    by (rule still_put [OF that]) (simp add: moved_def receiving_def touch_def)
  then show ?thesis
    using assms Forwarded still_trans [OF _ still_remove]
    by (auto simp: acknowledge_forwarded_def Let_def split: option.splits if_splits)
next
  case (StreamPayload i payload now)
  then show ?thesis using assms by (auto simp: protected_payload_def split: option.splits if_splits intro: deliver_still)
next
  case (StreamClosed i now)
  then show ?thesis using assms closed_still by simp
next
  case (CompleteDns q wire now)
  let ?pp = "pp\<lparr>pp_pending_dns := fmdrop q (pp_pending_dns pp)\<rparr>"
  have "still ?pp pp'"
    using assms CompleteDns still_rejections(1) [of ?pp]
    by (auto simp: complete_dns_def Let_def block_flow_def split: option.splits if_splits dns_response_target.splits
        intro: still_fail_flow deliver_still) (simp_all add: still_def)
  then show ?thesis by (simp add: still_def)
next
  case (Tick order now)
  let ?r = "tick_flows (pp_config pp) now order (pp_flows pp)"
  have "still pp (pp\<lparr>pp_flows := snd (snd ?r), pp_metrics := ms\<rparr>)" for ms
    by (simp add: still_def tick_flows_still)
  then show ?thesis
    using assms Tick still_trans
    by (fastforce simp: tick_def Let_def case_prod_unfold split: option.splits if_splits dest: still_fail_each)
next
  case (Resume order now healthy)
  let ?pp = "pp\<lparr>pp_suspended_at_ms := None\<rparr>"
  have "still ?pp (?pp\<lparr>pp_flows := fmmap (shift_times slept) (pp_flows ?pp)\<rparr>)" for slept
    by (auto simp: still_def flows_moved_def)
  moreover have "still pp pp' \<longleftrightarrow> still ?pp pp'" by (simp add: still_def)
  ultimately show ?thesis
    using assms Resume
    by (auto simp: resume_flows_def Let_def split: option.splits if_splits dest: still_fail_each)
qed (use assms in \<open>auto simp: shutdown_def fail_all_def suspend_def dest: still_fail_flow still_fail_each simp: still_def\<close>)

text \<open>What a turn forwards: nothing, or the payload of an in-order segment of a receiving flow.\<close>

definition fed :: "tcp_segment \<Rightarrow> flow_record \<Rightarrow> engine_action list \<Rightarrow> flow_record \<Rightarrow> bool" where
  "fed segment f actions g \<longleftrightarrow>
     (\<forall>j. j \<noteq> id_of f \<longrightarrow> forwarded j actions = []) \<and> moved (length (forwarded (id_of f) actions)) f g \<and>
     (forwarded (id_of f) actions \<noteq> [] \<longrightarrow>
        receiving f \<and> forwarded (id_of f) actions = ts_payload segment \<and> ts_sequence segment = fl_client_next f)"

definition silent :: "engine_action list \<Rightarrow> bool" where
  "silent actions \<longleftrightarrow> (\<forall>i. forwarded i actions = [])"

lemma silent_simps [simp]:
  "silent []" "silent (a # as) \<longleftrightarrow> (\<forall>i. forwarded_by i a = []) \<and> silent as" "silent (as @ bs) \<longleftrightarrow> silent as \<and> silent bs"
  by (auto simp: silent_def)

lemma fed_start: "moved 0 f g \<Longrightarrow> silent actions \<Longrightarrow> fed segment f actions g"
  by (simp add: fed_def silent_def)

lemma fed_more: "fed segment f actions g \<Longrightarrow> moved 0 g h \<Longrightarrow> silent rest \<Longrightarrow> fed segment f (actions @ rest) h"
  using moved_trans [of "length (forwarded (id_of f) actions)" f g 0 h] by (simp add: fed_def silent_def)

lemma fed_still: "fed segment f actions g \<Longrightarrow> moved 0 g h \<Longrightarrow> fed segment f actions h"
  using fed_more [of segment f actions g h "[]"] by simp

lemma fed_refuse: "fed segment f (tt_actions t) (tt_flow t) \<Longrightarrow> fed segment f (tt_actions (refuse reason code t)) (tt_flow (refuse reason code t))"
  by (simp add: refuse_def Let_def fed_more)

lemma fed_remark: "fed segment f (tt_actions t) (tt_flow t) \<Longrightarrow> fed segment f (tt_actions (remark code w t)) (tt_flow (remark code w t))"
  by (simp add: remark_def fed_more)

lemma fed_acknowledgement:
  assumes "fed segment f (tt_actions t) (tt_flow t)"
  shows "fed segment f (tt_actions (take_acknowledgement segment t)) (tt_flow (take_acknowledgement segment t))"
proof -
  have "moved 0 g (g\<lparr>fl_outstanding := None, fl_snapshot := fl_snapshot g\<lparr>sn_queued_to_application := 0\<rparr>\<rparr>)" for g
    by (simp add: moved_def receiving_def)
  from fed_still [OF assms this] show ?thesis
    using assms fed_refuse [OF assms] by (simp add: take_acknowledgement_def Let_def)
qed

lemma take_acknowledgement_silent: "silent (tt_actions t) \<Longrightarrow> silent (tt_actions (take_acknowledgement segment t))"
  by (simp add: take_acknowledgement_def refuse_def Let_def)

lemma fed_in_order:
  assumes fed: "fed segment f (tt_actions t) (tt_flow t)" and none: "silent (tt_actions t)"
    and state: "flow_state (tt_flow t) \<noteq> HalfClosedLocal" "flow_state (tt_flow t) \<noteq> Closing"
    and seq: "ts_sequence segment = fl_client_next (tt_flow t)"
  shows "fed segment f (tt_actions (accept_in_order c (ts_payload segment) t)) (tt_flow (accept_in_order c (ts_payload segment) t))"
proof (cases "fl_dns_tcp (tt_flow t)")
  case True
  then have "moved 0 (tt_flow t) (advance_client n ((tt_flow t)\<lparr>fl_dns_buffer := b\<rparr>))" for n b
    by (simp add: moved_def receiving_def advance_client_def)
  then show ?thesis
    using True fed fed_refuse fed_more by (simp add: accept_in_order_def Let_def)
next
  case False
  then have "receiving (tt_flow t)" using state by (simp add: receiving_def)
  with fed none have "receiving f" "fl_client_next f = fl_client_next (tt_flow t)" "id_of (tt_flow t) = id_of f"
    by (simp_all add: fed_def silent_def moved_def)
  then show ?thesis
    using False fed_refuse [OF fed] none seq \<open>receiving (tt_flow t)\<close>
    by (auto simp: accept_in_order_def Let_def fed_def silent_def moved_def receiving_def advance_client_def)
qed

lemma fed_accept_payload:
  assumes "fed segment f (tt_actions t) (tt_flow t)" "silent (tt_actions t)"
  shows "fed segment f (tt_actions (accept_payload c segment t)) (tt_flow (accept_payload c segment t))"
  using assms fed_refuse [OF assms(1)] fed_remark [OF assms(1)] fed_in_order [OF assms]
  by (simp add: accept_payload_def Let_def)

lemma fed_take_fin:
  assumes "fed segment f (tt_actions t) (tt_flow t)"
  shows "fed segment f (tt_actions (fst (take_fin w segment t))) (tt_flow (fst (take_fin w segment t)))"
proof -
  have "moved 0 g (set_state s (g\<lparr>fl_client_next := n\<rparr>))" if "s = HalfClosedLocal \<or> s = Closing" for g s n
    using that by (auto simp: moved_def receiving_def set_state_def)
  then show ?thesis
    using assms fed_remark [OF assms] by (auto simp: take_fin_def Let_def intro!: fed_more)
qed

lemma drain_dns_forwards_nothing: "forwarded j (dd_actions (drain_dns i m d)) = forwarded j (dd_actions d)"
  by (induction i m d rule: drain_dns.induct, subst drain_dns.simps) (simp add: Let_def)

lemma fed_same: "(\<And>j. forwarded j actions = forwarded j actions') \<Longrightarrow> fed segment f actions g = fed segment f actions' g"
  by (simp add: fed_def)

lemma synchronized_turn_fed:
  assumes "moved 0 f g"
  obtains h where "fed segment f (fst (synchronized_turn key segment g pp)) h"
    "pp_flows (snd (synchronized_turn key segment g pp)) = fmupd key h (pp_flows pp) \<or>
     pp_flows (snd (synchronized_turn key segment g pp)) = fmdrop key (pp_flows pp)"
    "pp_next_flow_id (snd (synchronized_turn key segment g pp)) = pp_next_flow_id pp"
proof -
  let ?c = "pp_config pp"
  let ?t0 = "\<lparr>tt_flow = g, tt_actions = [], tt_reset = False\<rparr>"
  define t1 where "t1 = take_acknowledgement segment ?t0"
  have t1: "fed segment f (tt_actions t1) (tt_flow t1)" "silent (tt_actions t1)"
    using fed_acknowledgement [of segment f ?t0] fed_start [OF assms, of "[]" segment] take_acknowledgement_silent [of ?t0 segment]
    by (simp_all add: t1_def)
  define t2 where "t2 = accept_payload ?c segment t1"
  have t2: "fed segment f (tt_actions t2) (tt_flow t2)" unfolding t2_def by (rule fed_accept_payload [OF t1])
  define d0 where "d0 = \<lparr>dd_buffer = fl_dns_buffer (tt_flow t2), dd_pending = pp_pending_dns pp,
    dd_next_id = pp_next_dns_id pp, dd_actions = tt_actions t2, dd_reset = tt_reset t2\<rparr>"
  define d where "d = (if fl_dns_tcp (tt_flow t2) \<and> \<not> tt_reset t2 then drain_dns (id_of g) (en_max_pending_dns ?c) d0 else d0)"
  define t3 where "t3 = t2\<lparr>tt_flow := (tt_flow t2)\<lparr>fl_dns_buffer := dd_buffer d\<rparr>, tt_actions := dd_actions d, tt_reset := dd_reset d\<rparr>"
  have "forwarded j (dd_actions d) = forwarded j (tt_actions t2)" for j
    by (simp add: d_def d0_def drain_dns_forwards_nothing)
  then have t3: "fed segment f (tt_actions t3) (tt_flow t3)"
    using t2 by (simp add: t3_def fed_same [of "dd_actions d" "tt_actions t2"]) (simp add: fed_def)
  obtain t4 graceful where t4: "take_fin (en_receive_window ?c) segment t3 = (t4, graceful)"
    by (cases "take_fin (en_receive_window ?c) segment t3") auto
  then have fed4: "fed segment f (tt_actions t4) (tt_flow t4)"
    using fed_take_fin [OF t3, of "en_receive_window ?c"] by simp
  have drop: "pp_flows (remove_flow key (put_flow key h qq)) = fmdrop key (pp_flows qq)" for h qq
    by (simp add: remove_flow_def put_flow_def record_metric_def Let_def fmap_ext)
  have ids: "pp_next_flow_id (remove_flow key (put_flow key h qq)) = pp_next_flow_id qq" for h qq
    by (simp add: remove_flow_def put_flow_def record_metric_def Let_def)
  show thesis
  proof (cases "last_acknowledgement segment (tt_flow t1)")
    case True
    then show thesis
      using fed_more [OF t1(1) moved_refl, of "[CloseProtectedStream (id_of g) CloseBoth]"]
      by (intro that [of "tt_flow t1"])
        (simp_all add: synchronized_turn_def Let_def t1_def [symmetric] drop ids)
  next
    case False
    show thesis
    proof (rule that [of "tt_flow t4"])
      show "fed segment f (fst (synchronized_turn key segment g pp)) (tt_flow t4)"
        using False fed4 unfolding synchronized_turn_def Let_def t1_def [symmetric] t2_def [symmetric] d0_def [symmetric]
          d_def [symmetric] t3_def [symmetric] t4 by (simp add: fed_more)
      show "pp_flows (snd (synchronized_turn key segment g pp)) = fmupd key (tt_flow t4) (pp_flows pp) \<or>
         pp_flows (snd (synchronized_turn key segment g pp)) = fmdrop key (pp_flows pp)"
        using False unfolding synchronized_turn_def Let_def t1_def [symmetric] t2_def [symmetric] d0_def [symmetric]
          d_def [symmetric] t3_def [symmetric] t4 by (simp add: drop)
      show "pp_next_flow_id (snd (synchronized_turn key segment g pp)) = pp_next_flow_id pp"
        using False unfolding synchronized_turn_def Let_def t1_def [symmetric] t2_def [symmetric] d0_def [symmetric]
          d_def [symmetric] t3_def [symmetric] t4 by (simp add: ids)
    qed
  qed
qed

definition segment_key :: "tcp_segment \<Rightarrow> flow_key" where
  "segment_key segment = (let (source, destination) = endpoints (ts_source segment) (ts_source_port segment)
     (ts_destination segment) (ts_destination_port segment) in \<lparr>fk_source = source, fk_destination = destination\<rparr>)"

definition run_moved :: "packet_processor \<Rightarrow> engine_action list \<Rightarrow> packet_processor \<Rightarrow> bool" where
  "run_moved pp actions pp' \<longleftrightarrow>
     (pp_next_flow_id pp' = pp_next_flow_id pp \<or> pp_next_flow_id pp' = pp_next_flow_id pp + 1) \<and>
     (\<forall>key g. fmlookup (pp_flows pp') key = Some g \<and> id_of g \<noteq> pp_next_flow_id pp \<longrightarrow>
        (\<exists>f. fmlookup (pp_flows pp) key = Some f \<and> moved (length (forwarded (id_of f) actions)) f g))"

definition forwards_in_order :: "tcp_segment \<Rightarrow> packet_processor \<Rightarrow> engine_action list \<Rightarrow> bool" where
  "forwards_in_order segment pp actions \<longleftrightarrow>
     (\<forall>i. forwarded i actions \<noteq> [] \<longrightarrow>
        (\<exists>f. fmlookup (pp_flows pp) (segment_key segment) = Some f \<and> id_of f = i \<and> receiving f \<and>
           forwarded i actions = ts_payload segment \<and> ts_sequence segment = fl_client_next f))"

lemma still_run_moved: "still pp pp' \<Longrightarrow> silent actions \<Longrightarrow> run_moved pp actions pp'"
  by (auto simp: still_def run_moved_def silent_def flows_moved_def)

lemma sends_nothing_silent: "sends_nothing actions \<Longrightarrow> silent actions"
  by (simp add: silent_def sends_nothing_forwards_nothing)

lemma silent_in_order: "silent actions \<Longrightarrow> forwards_in_order segment pp actions"
  by (simp add: silent_def forwards_in_order_def)

lemma fed_run:
  assumes inv: "engine_inv pp" and f: "fmlookup (pp_flows pp) (segment_key segment) = Some f" and fed: "fed segment f actions h"
    and flows: "pp_flows pp' = fmupd (segment_key segment) h (pp_flows pp) \<or> pp_flows pp' = fmdrop (segment_key segment) (pp_flows pp)"
    and next_id: "pp_next_flow_id pp' = pp_next_flow_id pp"
  shows "run_moved pp actions pp' \<and> forwards_in_order segment pp actions"
proof
  note i = tables_invD(4) [OF inv [unfolded engine_inv_def]]
  have "\<exists>f. fmlookup (pp_flows pp) key = Some f \<and> moved (length (forwarded (id_of f) actions)) f g"
    if g: "fmlookup (pp_flows pp') key = Some g" for key g
  proof (cases "key = segment_key segment")
    case True
    then show ?thesis using g flows f fed by (auto simp: fed_def)
  next
    case False
    then have k: "fmlookup (pp_flows pp) key = Some g" using g flows by auto
    then have "id_of g \<noteq> id_of f" using i [OF k] i [OF f] False by auto
    then show ?thesis using k fed by (auto simp: fed_def)
  qed
  then show "run_moved pp actions pp'" using next_id by (auto simp: run_moved_def)
  show "forwards_in_order segment pp actions"
    using f fed unfolding forwards_in_order_def fed_def by metis
qed

lemma put_run:
  assumes "fmlookup (pp_flows pp) key = Some f" "moved 0 f g" "silent actions"
  shows "run_moved pp actions (put_flow key g pp) \<and> forwards_in_order segment pp actions"
  using still_run_moved [OF still_put [OF assms(1,2)] assms(3)] silent_in_order [OF assms(3)] by simp

lemma process_existing_forwards:
  assumes inv: "engine_inv pp" and f: "fmlookup (pp_flows pp) (segment_key segment) = Some f"
    and run: "process_existing_tcp (segment_key segment) segment now pp = Some (actions, pp')"
  shows "run_moved pp actions pp' \<and> forwards_in_order segment pp actions"
proof -
  define g where "g = touch now f"
  have g: "moved 0 f g" by (simp add: g_def)
  have e: "moved 0 f (establish g)" if "flow_state g = SynAckSent"
    using that by (auto simp: g_def moved_def receiving_def establish_def touch_def)
  define h where "h = (if flow_state g = SynAckSent then establish g else g)"
  have h: "moved 0 f h" using g e by (simp add: h_def)
  have turn: "run_moved pp (fst (synchronized_turn (segment_key segment) segment h pp)) (snd (synchronized_turn (segment_key segment) segment h pp)) \<and>
      forwards_in_order segment pp (fst (synchronized_turn (segment_key segment) segment h pp))"
    by (rule synchronized_turn_fed [OF h, of segment "segment_key segment" pp]) (rule fed_run [OF inv f])
  have "silent actions \<and> (\<exists>k \<in> {g, h}. pp' = put_flow (segment_key segment) k pp \<or>
          (\<exists>m i. pp' = record_metric m i (put_flow (segment_key segment) k pp))) \<or>
        synchronized_turn (segment_key segment) segment h pp = (actions, pp')"
    using run f unfolding process_existing_tcp_def h_def g_def by (auto simp: Let_def split: if_splits)
  then consider (put) k where "silent actions" "k \<in> {g, h}" "pp' = put_flow (segment_key segment) k pp \<or>
        (\<exists>m i. pp' = record_metric m i (put_flow (segment_key segment) k pp))"
    | (turn) "synchronized_turn (segment_key segment) segment h pp = (actions, pp')" by blast
  then show ?thesis
  proof cases
    case put
    then have "run_moved pp actions (put_flow (segment_key segment) k pp) \<and> forwards_in_order segment pp actions"
      using put_run [OF f] g h by auto
    with put(3) show ?thesis by (auto simp: run_moved_def record_metric_def)
  qed (use turn in simp)
qed

lemma key_of_segment:
  "endpoints (ts_source segment) (ts_source_port segment) (ts_destination segment) (ts_destination_port segment) = (s, d) \<Longrightarrow>
     \<lparr>fk_source = s, fk_destination = d\<rparr> = segment_key segment"
  by (simp add: segment_key_def)

lemma insert_run:
  assumes "id_of f = pp_next_flow_id pp" "pp_next_flow_id pp \<noteq> 0xffffffffffffffff" "silent actions"
  shows "run_moved pp actions (insert_flow f (pp\<lparr>pp_next_flow_id := succ_id (pp_next_flow_id pp)\<rparr>))"
proof -
  have "succ_id n = n + 1" if "n \<noteq> 0xffffffffffffffff" for n :: u64
    using succ_id_less [OF that] by (simp add: succ_id_def max_def split: if_splits)
  then show ?thesis
    using assms by (auto simp: run_moved_def insert_flow_def record_metric_def Let_def silent_def split: if_splits)
qed

lemma new_flow_id: "id_of (new_flow i key segment platform limits route) = i"
  by (simp add: new_flow_def new_snapshot_def)

lemma quiet_run: "still pp pp' \<Longrightarrow> sends_nothing actions \<Longrightarrow> run_moved pp actions pp' \<and> silent actions"
  by (simp add: sends_nothing_silent still_run_moved)

lemma rejection_runs:
  "block_flow i reason pp = (actions, pp') \<Longrightarrow> run_moved pp actions pp' \<and> silent actions"
  "reject_syn segment reason pp = (actions, pp') \<Longrightarrow> run_moved pp actions pp' \<and> silent actions"
  "reset_by_key key pp = (actions, pp') \<Longrightarrow> run_moved pp actions pp' \<and> silent actions"
  "fail_flow flow reason pp = Some (actions, pp') \<Longrightarrow> run_moved pp actions pp' \<and> silent actions"
  using still_rejections(1) [of pp i reason] still_rejections(2) [of pp segment reason] still_rejections(3) [of pp key]
  by (auto intro!: quiet_run dest: quiet_rejections still_fail_flow quiet_fail_flow)

lemma process_udp_runs:
  "process_udp datagram state pp = (actions, pp') \<Longrightarrow> run_moved pp actions pp' \<and> silent actions"
  using still_run_moved [of pp "pp\<lparr>pp_next_dns_id := n, pp_pending_dns := pending\<rparr>" actions for n pending]
  by (auto simp: process_udp_def Let_def endpoints_def still_def split: if_splits dest: rejection_runs)

lemma open_runs:
  assumes "pp_next_flow_id pp \<noteq> 0xffffffffffffffff"
  shows "open_dns_tcp key segment platform state pp = (actions, pp') \<Longrightarrow> run_moved pp actions pp' \<and> silent actions"
    "open_tcp_flow key segment input pp = (actions, pp') \<Longrightarrow> run_moved pp actions pp' \<and> silent actions"
proof -
  have full: "run_moved pp (as @ [RecordDiagnostic c x]) pp'" if "reject_syn segment reason (record_metric m i pp) = (as, pp')"
    for m i as c x reason pp'
    using rejection_runs(2) [OF that] by (simp add: run_moved_def record_metric_def)
  show "open_dns_tcp key segment platform state pp = (actions, pp') \<Longrightarrow> run_moved pp actions pp' \<and> silent actions"
    using assms by (auto simp: open_dns_tcp_def Let_def new_flow_id split: if_splits dest: rejection_runs intro: insert_run)
  show "open_tcp_flow key segment input pp = (actions, pp') \<Longrightarrow> run_moved pp actions pp' \<and> silent actions"
    using assms
    by (auto simp: open_tcp_flow_def Let_def new_flow_id split: if_splits option.splits policy_action.splits prod.splits
        dest: rejection_runs intro: insert_run full)
qed

lemma process_tcp_forwards:
  assumes inv: "engine_inv pp" and ids: "pp_next_flow_id pp \<noteq> 0xffffffffffffffff"
    and run: "process_tcp segment input pp = Some (actions, pp')"
  shows "run_moved pp actions pp' \<and> forwards_in_order segment pp actions"
proof -
  obtain s d where e: "endpoints (ts_source segment) (ts_source_port segment) (ts_destination segment) (ts_destination_port segment) = (s, d)"
    by (cases "endpoints (ts_source segment) (ts_source_port segment) (ts_destination segment) (ts_destination_port segment)")
  have "run_moved pp actions pp' \<and> silent actions \<or>
      (\<exists>f now. fmlookup (pp_flows pp) (segment_key segment) = Some f \<and>
         process_existing_tcp (segment_key segment) segment now pp = Some (actions, pp'))"
    using run unfolding process_tcp_def e Let_def prod.case key_of_segment [OF e]
    by (auto simp: still_run_moved split: if_splits option.splits dest: rejection_runs open_runs [OF ids])
  then show ?thesis using process_existing_forwards [OF inv] silent_in_order by blast
qed

lemma run_forwards:
  assumes inv: "engine_inv pp" and ids: "pp_next_flow_id pp \<noteq> 0xffffffffffffffff"
    and run: "engine_run op pp = Some (actions, pp')"
  shows "run_moved pp actions pp' \<and> (silent actions \<or>
    (\<exists>input segment. op = Process input \<and> classify (pi_packet input) = Inr (Tcp segment) \<and> forwards_in_order segment pp actions))"
proof (cases "\<exists>input. op = Process input")
  case True
  then obtain input where op: "op = Process input" by blast
  have "run_moved pp actions pp' \<and> (silent actions \<or>
    (\<exists>segment. classify (pi_packet input) = Inr (Tcp segment) \<and> forwards_in_order segment pp actions))"
    using run op still_run_moved [of pp "record_metric m i pp" actions for m i]
    by (auto simp: process_def still_def record_metric_def split: sum.splits classified_packet.splits
        dest: rejection_runs process_udp_runs process_tcp_forwards [OF inv ids])
  then show ?thesis using op by blast
next
  case False
  then show ?thesis using quiet_run [OF events_still [OF run] quiet_events [OF run]] by simp
qed

text \<open>
  The application sends \<open>data\<close> on a connection with initial sequence number \<open>isn\<close>: every segment
  carries a piece of it at its place, in whatever order, cut and repeated in whatever way.
\<close>

definition carries :: "u32 \<Rightarrow> bytes \<Rightarrow> tcp_segment \<Rightarrow> bool" where
  "carries isn data segment \<longleftrightarrow>
     (\<exists>offset \<le> length data. ts_sequence segment = isn + 1 + word_of_nat offset \<and>
        ts_payload segment = take (length (ts_payload segment)) (drop offset data))"

definition sends_stream :: "flow_key \<Rightarrow> u32 \<Rightarrow> bytes \<Rightarrow> engine_op \<Rightarrow> bool" where
  "sends_stream key isn data op \<longleftrightarrow>
     (\<forall>input segment. op = Process input \<and> classify (pi_packet input) = Inr (Tcp segment) \<and> segment_key segment = key \<longrightarrow>
        carries isn data segment)"

text \<open>\<open>sent\<close> was forwarded for flow \<open>i\<close>.\<close>

definition in_sequence :: "flow_key \<Rightarrow> flow_id \<Rightarrow> u32 \<Rightarrow> bytes \<Rightarrow> bytes \<Rightarrow> packet_processor \<Rightarrow> bool" where
  "in_sequence key i isn data sent pp \<longleftrightarrow>
     sent = take (length sent) data \<and> i < pp_next_flow_id pp \<and>
     (\<forall>k f. fmlookup (pp_flows pp) k = Some f \<and> id_of f = i \<longrightarrow>
        k = key \<and> (receiving f \<longrightarrow> fl_client_next f = isn + 1 + word_of_nat (length sent)))"

lemma u32_offset_unique:
  assumes "(word_of_nat a :: u32) = word_of_nat b" "a < 2 ^ 32" "b < 2 ^ 32"
  shows "a = b"
proof -
  have "unat (word_of_nat a :: u32) = unat (word_of_nat b :: u32)" using assms(1) by simp
  then show ?thesis using assms(2,3) by (simp add: unat_of_nat)
qed

lemma carries_next:
  assumes "carries isn data segment" "length data < 2 ^ 32" "sent = take (length sent) data"
    "ts_sequence segment = isn + 1 + word_of_nat (length sent)"
  shows "sent @ ts_payload segment = take (length (sent @ ts_payload segment)) data"
proof -
  from assms(1) obtain offset where o: "offset \<le> length data" "ts_sequence segment = isn + 1 + word_of_nat offset"
    "ts_payload segment = take (length (ts_payload segment)) (drop offset data)" by (auto simp: carries_def)
  have "length sent \<le> length data" using arg_cong [OF assms(3), of length] by simp
  then have "offset = length sent" using o(1,2) assms(2,4) by (intro u32_offset_unique) simp_all
  then show ?thesis using o(3) assms(3) by (metis length_append take_add)
qed

lemma in_sequence_step:
  assumes inv: "engine_inv pp" and ids: "pp_next_flow_id pp \<noteq> 0xffffffffffffffff"
    and run: "engine_run op pp = Some (actions, pp')" and data: "length data < 2 ^ 32"
    and stream: "sends_stream key isn data op" and seq: "in_sequence key i isn data sent pp"
  shows "in_sequence key i isn data (sent @ forwarded i actions) pp'"
proof -
  note r = run_forwards [OF inv ids run]
  have sent: "sent @ forwarded i actions = take (length (sent @ forwarded i actions)) data"
  proof (cases "forwarded i actions = []")
    case True
    then show ?thesis using seq by (simp add: in_sequence_def)
  next
    case False
    with r obtain input segment f where op: "op = Process input" "classify (pi_packet input) = Inr (Tcp segment)"
      and f: "fmlookup (pp_flows pp) (segment_key segment) = Some f" "id_of f = i" "receiving f"
      and fw: "forwarded i actions = ts_payload segment" "ts_sequence segment = fl_client_next f"
      unfolding silent_def forwards_in_order_def by metis
    have k: "segment_key segment = key" "fl_client_next f = isn + 1 + word_of_nat (length sent)"
      using seq f by (auto simp: in_sequence_def)
    have c: "carries isn data segment" using stream op k(1) by (simp add: sends_stream_def)
    show ?thesis
      unfolding fw(1) by (rule carries_next [OF c data]) (use seq k fw(2) in \<open>simp_all add: in_sequence_def\<close>)
  qed
  have n: "pp_next_flow_id pp \<le> pp_next_flow_id pp'"
    using r succ_id_less [OF ids] by (auto simp: run_moved_def succ_id_def max_def split: if_splits)
  have "k = key \<and> (receiving g \<longrightarrow> fl_client_next g = isn + 1 + word_of_nat (length (sent @ forwarded i actions)))"
    if g: "fmlookup (pp_flows pp') k = Some g" "id_of g = i" for k g
  proof -
    have "id_of g \<noteq> pp_next_flow_id pp" using seq g(2) by (auto simp: in_sequence_def)
    with r g obtain f where "fmlookup (pp_flows pp) k = Some f" "moved (length (forwarded (id_of f) actions)) f g"
      unfolding run_moved_def by blast
    then show ?thesis using seq g(2) by (auto simp: in_sequence_def moved_def)
  qed
  moreover have "i < pp_next_flow_id pp'" using n seq by (auto simp: in_sequence_def)
  ultimately show ?thesis unfolding in_sequence_def using sent by blast
qed


lemma in_sequence_trace:
  assumes "engine_inv pp" "unat (pp_next_flow_id pp) + length ops < 2 ^ 64 - 1" "engine_trace ops pp = Some (actions, pp')"
    and data: "length data < 2 ^ 32" and "\<forall>op \<in> set ops. sends_stream key isn data op" "in_sequence key i isn data sent pp"
  shows "in_sequence key i isn data (sent @ forwarded i actions) pp'"
  using assms(1-3,5-6)
proof (induction ops arbitrary: pp actions sent)
  case (Cons op ops)
  then obtain first last pp'' where run: "engine_run op pp = Some (first, pp'')"
    and rest: "engine_trace ops pp'' = Some (last, pp')" "actions = first @ last"
    by (auto split: option.splits)
  have ids: "pp_next_flow_id pp \<noteq> 0xffffffffffffffff" using Cons.prems(2) by auto
  have inv: "engine_inv pp''" using engine_run_inv [OF Cons.prems(1) ids, of op] run by (simp add: engine_keeps_def)
  have "unat (pp_next_flow_id pp'') \<le> unat (pp_next_flow_id pp) + 1"
    using run_forwards [OF Cons.prems(1) ids run] unat_word_ariths(1) [of "pp_next_flow_id pp" 1]
    by (auto simp: run_moved_def)
  then have "unat (pp_next_flow_id pp'') + length ops < 2 ^ 64 - 1" using Cons.prems(2) by simp
  moreover have "in_sequence key i isn data (sent @ forwarded i first) pp''"
    using in_sequence_step [OF Cons.prems(1) ids run data] Cons.prems(4,5) by simp
  ultimately show ?case using Cons.IH [OF inv _ rest(1), of "sent @ forwarded i first"] Cons.prems(4) rest(2) by simp
qed simp

text \<open>
  C6. Payload is forwarded in sequence. Take a flow that waits for the first byte of a stream of
  data, and any further operations in which the segments of this connection carry pieces of
  that stream at their places, however they are cut, reordered, duplicated or interleaved with
  other connections and events. The bytes forwarded for the flow are, put together, the first
  bytes of the stream: nothing is lost in between, doubled or swapped.
\<close>

theorem payload_forwarded_in_sequence:
  assumes "reach engine_start engine_step pp" "unat (pp_next_flow_id pp) + length ops < 2 ^ 64 - 1"
    and "fmlookup (pp_flows pp) key = Some f" "fl_client_next f = isn + 1" "length data < 2 ^ 32"
    and "\<forall>op \<in> set ops. sends_stream key isn data op" "engine_trace ops pp = Some (actions, pp')"
  shows "forwarded (id_of f) actions = take (length (forwarded (id_of f) actions)) data"
proof -
  have inv: "engine_inv pp" by (rule enginem.reach_inv [OF assms(1)])
  note i = tables_invD [OF inv [unfolded engine_inv_def]]
  have "k = key \<and> g = f" if "fmlookup (pp_flows pp) k = Some g" "id_of g = id_of f" for k g
    using i(4) [OF that(1)] i(4) [OF assms(3)] that assms(3) by simp
  then have "in_sequence key (id_of f) isn data [] pp"
    using i(5) [OF assms(3)] assms(4) by (auto simp: in_sequence_def)
  from in_sequence_trace [OF inv assms(2,7,5,6) this] show ?thesis by (simp add: in_sequence_def)
qed

lemma example_connected_reachable: "reach engine_start engine_step example_connected"
proof (rule reach.intros(2) [OF example_engine_reachable])
  have "engine_run (Process example_input) example_engine \<noteq> None" by (simp add: example_connecting)
  then show "engine_step example_engine example_connected"
    unfolding engine_step_def using example_connecting example_engine_fields(5)
    by (intro conjI exI [of _ "Process example_input"]) auto
qed

lemma example_connected_fields:
  "pp_config example_connected = default_engine_config" "pp_next_flow_id example_connected = 2"
  "fmlookup (pp_flows example_connected) example_key = Some example_tcp_flow" "fmlookup (pp_ids example_connected) 1 = Some example_key"
  by (simp_all add: example_connected_def insert_flow_def record_metric_def Let_def example_tcp_flow_def new_flow_def new_snapshot_def
      example_engine_fields)

lemma example_tcp_flow_fields:
  "id_of example_tcp_flow = 1" "flow_state example_tcp_flow = Connecting" "fl_client_next example_tcp_flow = 101"
  "fl_server_next example_tcp_flow = initial_sequence 1 + 1" "\<not> fl_dns_tcp example_tcp_flow" "fl_outstanding example_tcp_flow = None"
  "sn_queued_to_gateway (fl_snapshot example_tcp_flow) = 0"
  by (simp_all add: example_tcp_flow_def new_flow_def new_snapshot_def example_input_def example_segment_def)

definition example_ops :: "engine_op list" where
  "example_ops = [StreamOpened 1 6, Process (example_packet 101 (initial_sequence 1 + 1) ack_flags [1, 2, 3])]"

lemma example_trace:
  "\<exists>actions pp'. engine_trace example_ops example_connected = Some (actions, pp') \<and> forwarded 1 actions = [1, 2, 3]"
proof -
  let ?f = "touch 6 (set_state SynAckSent example_tcp_flow)"
  let ?pp = "put_flow example_key ?f example_connected"
  let ?input = "example_packet 101 (initial_sequence 1 + 1) ack_flags [1, 2, 3]"
  have opened: "engine_run (StreamOpened 1 6) example_connected = Some ([syn_ack_reply 32768 ?f], ?pp)"
    by (simp add: protected_stream_opened_def example_connected_fields example_tcp_flow_fields default_engine_config_def Let_def)
  let ?s = "example_segment 101 (initial_sequence 1 + 1) ack_flags [1, 2, 3]"
  let ?g = "establish (touch 5 ?f)"
  have g: "id_of ?g = 1" "flow_state ?g = Established" "fl_client_next ?g = 101" "fl_server_next ?g = initial_sequence 1 + 1"
    "\<not> fl_dns_tcp ?g" "fl_outstanding ?g = None" "sn_queued_to_gateway (fl_snapshot ?g) = 0"
    by (simp_all add: establish_def touch_def set_state_def example_tcp_flow_fields)
  have existing: "process_existing_tcp example_key ?s 5 ?pp = Some (synchronized_turn example_key ?s ?g ?pp)"
    by (simp add: process_existing_tcp_def put_flow_def Let_def example_segment_def ack_flags_def touch_def set_state_def
        example_tcp_flow_fields)
  have key: "segment_key ?s = example_key" by (simp add: segment_key_def example_segment_def endpoints_def example_key_def)
  have "take_acknowledgement ?s \<lparr>tt_flow = ?g, tt_actions = [], tt_reset = False\<rparr> = \<lparr>tt_flow = ?g, tt_actions = [], tt_reset = False\<rparr>"
    by (simp add: take_acknowledgement_def g example_segment_def ack_flags_def sequence_before_def)
  moreover have "\<not> last_acknowledgement ?s ?g" by (simp add: last_acknowledgement_def g)
  moreover have "\<exists>h. accept_payload (pp_config ?pp) ?s \<lparr>tt_flow = ?g, tt_actions = [], tt_reset = False\<rparr> =
      \<lparr>tt_flow = h, tt_actions = [ForwardPayload 1 [1, 2, 3]], tt_reset = False\<rparr> \<and> \<not> fl_dns_tcp h"
    by (simp add: accept_payload_def accept_in_order_def g example_segment_def ack_flags_def put_flow_def Let_def
        example_connected_fields default_engine_config_def saturating_add_usize_def advance_client_def)
  ultimately have "forwarded 1 (fst (synchronized_turn example_key ?s ?g ?pp)) = [1, 2, 3]"
    by (auto simp: synchronized_turn_def Let_def take_fin_def example_segment_def ack_flags_def)
  moreover have "process ?input ?pp = Some (synchronized_turn example_key ?s ?g ?pp)"
  proof -
    have "classify (pi_packet ?input) = Inr (Tcp ?s)" by (rule classify_example) simp
    moreover have "endpoints (ts_source ?s) (ts_source_port ?s) (ts_destination ?s) (ts_destination_port ?s) =
      (fk_source example_key, fk_destination example_key)" by (simp add: example_segment_def example_key_def endpoints_def)
    moreover have "ts_flags ?s = ack_flags" "pi_connection_state ?input = Connected" "pm_monotonic_ms (pi_platform ?input) = 5"
      by (simp_all add: example_segment_def example_packet_def example_input_def)
    moreover have "fmlookup (pp_flows ?pp) example_key = Some ?f" by (simp add: put_flow_def)
    moreover have same: "\<lparr>fk_source = fk_source example_key, fk_destination = fk_destination example_key\<rparr> = example_key" by simp
    ultimately show ?thesis
      using existing by (simp add: process_def process_tcp_def Let_def protected_state_def ack_flags_def same del: flow_key.surjective)
  qed
  ultimately show ?thesis
    using opened by (cases "synchronized_turn example_key ?s ?g ?pp") (auto simp: example_ops_def)
qed


theorem payload_forwarded_in_sequence_witness:
  "\<exists>actions pp'. engine_trace example_ops example_connected = Some (actions, pp') \<and>
     forwarded 1 actions = [1, 2, 3] \<and> forwarded 1 actions = take (length (forwarded 1 actions)) [1, 2, 3, 4]"
proof -
  obtain actions pp' where run: "engine_trace example_ops example_connected = Some (actions, pp')" "forwarded 1 actions = [1, 2, 3]"
    using example_trace by blast
  have "carries 100 [1, 2, 3, 4] (example_segment 101 n ack_flags [1, 2, 3])" for n
    unfolding carries_def by (rule exI [of _ 0]) (simp add: example_segment_def)
  then have "\<forall>op \<in> set example_ops. sends_stream example_key 100 [1, 2, 3, 4] op"
    by (auto simp: example_ops_def sends_stream_def classify_example)
  then show ?thesis
    using payload_forwarded_in_sequence [OF example_connected_reachable, of example_ops example_key example_tcp_flow 100 "[1, 2, 3, 4]" actions pp']
      run by (simp add: example_connected_fields example_tcp_flow_fields example_ops_def)
qed

text \<open>
  A segment with payload and FIN that arrives again while it is not yet acknowledged (the
  acknowledgement waits for the protected write) is not taken for a retransmission: the flow is
  reset. The branch that answers a repeated FIN is only reached by a FIN without payload.
\<close>

lemma repeated_fin_segment_resets:
  assumes f: "fmlookup (pp_flows pp) key = Some f" "flow_state f = HalfClosedLocal"
    and s: "\<not> tf_syn (ts_flags s)" "tf_ack (ts_flags s)" "ts_acknowledgement s = fl_server_next f" "ts_payload s \<noteq> []"
  shows "\<exists>actions pp'. process_existing_tcp key s now pp = Some (actions, pp') \<and>
    BlockFlow (Some (id_of f)) MalformedPacket \<in> set actions \<and> fmlookup (pp_flows pp') key = None"
proof -
  have touched: "id_of (touch now f) = id_of f" "fl_server_next (touch now f) = fl_server_next f" by (simp_all add: touch_def)
  have "process_existing_tcp key s now pp = Some (synchronized_turn key s (touch now f) pp)"
    using f s by (simp add: process_existing_tcp_def Let_def)
  moreover have "flow_state (tt_flow (take_acknowledgement s \<lparr>tt_flow = touch now f, tt_actions = [], tt_reset = False\<rparr>)) = HalfClosedLocal"
    "id_of (tt_flow (take_acknowledgement s \<lparr>tt_flow = touch now f, tt_actions = [], tt_reset = False\<rparr>)) = id_of f"
    "\<not> tt_reset (take_acknowledgement s \<lparr>tt_flow = touch now f, tt_actions = [], tt_reset = False\<rparr>)"
    using f s by (simp_all add: take_acknowledgement_def Let_def touched sequence_before_def)
  then have "BlockFlow (Some (id_of f)) MalformedPacket \<in> set (fst (synchronized_turn key s (touch now f) pp)) \<and>
      fmlookup (pp_flows (snd (synchronized_turn key s (touch now f) pp))) key = None"
    using s by (simp add: synchronized_turn_def Let_def last_acknowledgement_def accept_payload_def refuse_def take_fin_def
        remove_flow_def put_flow_def record_metric_def)
  ultimately show ?thesis by (intro exI conjI) auto
qed

end
