(* ===== verification/Multihop_Route.thy ===== *)
theory Multihop_Route
  imports Prelude "HOL-Library.List_Lexorder" "HOL-Library.Char_ord"
begin

text \<open>
  Selection of the exit of an enhanced (two-gateway) route and the recovery after a failure
  (\<open>src/crates/gateway-multihop/src/route.rs\<close>, \<open>recovery.rs\<close>, the error codes of \<open>error.rs\<close>).
  A selected exit satisfies every requirement of diversity and availability and is the best of
  those that do; recovery never leads to anything but such a route or to blocking, and waits
  within the configured bounds.
\<close>

section \<open>Errors\<close>

datatype mh_error =
    MhInvalidConfiguration | MhInvalidIdentity | MhWrongRole | MhRevoked | MhProtocolIncompatible | MhProtocolViolation
  | MhReplayDetected | MhAuthenticationRejected | MhPolicyDenied | MhResourceExhausted | MhBackpressure | MhDraining
  | MhTimeout | MhTransportFailure | MhClosed | MhInternal

section \<open>Gateways and policies\<close>

datatype mh_role = RoleEntry | RoleExit

record mh_version =
  pv_major :: u16
  pv_minor :: u16

text \<open>The derived order: major first.\<close>

definition version_le :: "mh_version \<Rightarrow> mh_version \<Rightarrow> bool" where
  "version_le a b \<longleftrightarrow> pv_major a < pv_major b \<or> pv_major a = pv_major b \<and> pv_minor a \<le> pv_minor b"

datatype maintenance_state = Active | DrainingGateway | Maintenance

datatype load_bucket = LoadLow | LoadMedium | LoadHigh | LoadUnknown | LoadSaturated

primrec load_rank :: "load_bucket \<Rightarrow> nat" where
  "load_rank LoadLow = 0"
| "load_rank LoadMedium = 1"
| "load_rank LoadHigh = 2"
| "load_rank LoadUnknown = 3"
| "load_rank LoadSaturated = 4"

instantiation load_bucket :: linorder
begin

definition less_eq_load_bucket :: "load_bucket \<Rightarrow> load_bucket \<Rightarrow> bool" where
  "less_eq_load_bucket a b \<longleftrightarrow> load_rank a \<le> load_rank b"

definition less_load_bucket :: "load_bucket \<Rightarrow> load_bucket \<Rightarrow> bool" where
  "less_load_bucket a b \<longleftrightarrow> load_rank a < load_rank b"

instance
proof
  fix a b :: load_bucket
  show "a \<le> b \<Longrightarrow> b \<le> a \<Longrightarrow> a = b" by (cases a; cases b) (simp_all add: less_eq_load_bucket_def)
qed (auto simp: less_eq_load_bucket_def less_load_bucket_def)

end

record mh_gateway_descriptor =
  md_gateway_id :: string
  md_role :: mh_role
  md_country_code :: string
  md_provider_id :: string
  md_autonomous_system :: u32
  md_management_identity :: string
  md_protocol_versions :: "mh_version list"
  md_maintenance :: maintenance_state
  md_load :: load_bucket
  md_revoked :: bool

record route_policy =
  rp_exit_country :: string
  rp_required_version :: mh_version
  rp_maximum_load :: load_bucket

definition validate_route_policy :: "route_policy \<Rightarrow> mh_error + unit" where
  "validate_route_policy p =
     ensure (\<not> (length (rp_exit_country p) \<noteq> 2 \<or> \<not> list_all is_ascii_uppercase (rp_exit_country p) \<or>
                 pv_major (rp_required_version p) = 0 \<or> LoadUnknown \<le> rp_maximum_load p)) MhInvalidConfiguration"

record recent_failure =
  rf_gateway_id :: string
  rf_consecutive_failures :: u8

record enhanced_route =
  en_entry :: mh_gateway_descriptor
  en_exit :: mh_gateway_descriptor
  en_protocol_version :: mh_version

section \<open>Selection\<close>

definition validate_gateway :: "mh_gateway_descriptor \<Rightarrow> mh_role \<Rightarrow> load_bucket \<Rightarrow> mh_error + unit" where
  "validate_gateway g role maximum_load =
     ensure (\<not> (md_role g \<noteq> role \<or> md_gateway_id g = [] \<or> md_provider_id g = [] \<or> md_management_identity g = [] \<or>
                 md_autonomous_system g = 0 \<or> md_revoked g \<or> md_maintenance g \<noteq> Active \<or> maximum_load < md_load g))
       MhPolicyDenied"

definition supports :: "mh_gateway_descriptor \<Rightarrow> mh_version \<Rightarrow> bool" where
  "supports g required = list_ex (\<lambda>v. v = required) (md_protocol_versions g)"

definition candidate_score :: "recent_failure list \<Rightarrow> mh_gateway_descriptor \<Rightarrow> nat" where
  "candidate_score failures candidate =
     (let load = (case md_load candidate of LoadLow \<Rightarrow> 0 | LoadMedium \<Rightarrow> 100 | LoadHigh \<Rightarrow> 300 | LoadUnknown \<Rightarrow> 10000
                  | LoadSaturated \<Rightarrow> 100000);
          failure = (case find (\<lambda>item. rf_gateway_id item = md_gateway_id candidate) failures of
             None \<Rightarrow> 0
           | Some item \<Rightarrow> unat (min (rf_consecutive_failures item) 8) * 1000) in
      min (load + failure) (2 ^ 32 - 1))"

text \<open>\<open>Ordering\<close>, \<open>cmp\<close> and \<open>then_with\<close>; \<open>min_by\<close> keeps the earlier of two equal elements.\<close>

datatype ordering = OrdLess | OrdEqual | OrdGreater

definition cmp :: "'a :: linorder \<Rightarrow> 'a \<Rightarrow> ordering" where
  "cmp a b = (if a < b then OrdLess else if a = b then OrdEqual else OrdGreater)"

definition then_with :: "ordering \<Rightarrow> ordering \<Rightarrow> ordering" where
  "then_with a b = (if a = OrdEqual then b else a)"

definition compare_candidates ::
  "recent_failure list \<Rightarrow> mh_gateway_descriptor \<Rightarrow> mh_gateway_descriptor \<Rightarrow> ordering" where
  "compare_candidates failures left right =
     then_with (cmp (candidate_score failures left) (candidate_score failures right))
       (cmp (md_gateway_id left) (md_gateway_id right))"

primrec min_by_from :: "('a \<Rightarrow> 'a \<Rightarrow> ordering) \<Rightarrow> 'a \<Rightarrow> 'a list \<Rightarrow> 'a" where
  "min_by_from compare x [] = x"
| "min_by_from compare x (y # ys) = min_by_from compare (if compare x y = OrdGreater then y else x) ys"

definition min_by :: "('a \<Rightarrow> 'a \<Rightarrow> ordering) \<Rightarrow> 'a list \<Rightarrow> 'a option" where
  "min_by compare xs = (case xs of [] \<Rightarrow> None | x # xs \<Rightarrow> Some (min_by_from compare x xs))"

definition select_enhanced_route ::
  "mh_gateway_descriptor \<Rightarrow> mh_gateway_descriptor list \<Rightarrow> route_policy \<Rightarrow> recent_failure list \<Rightarrow> mh_error + enhanced_route" where
  "select_enhanced_route entry exits policy failures =
     bindE (validate_route_policy policy) (\<lambda>_.
     bindE (validate_gateway entry RoleEntry (rp_maximum_load policy)) (\<lambda>_.
     bindE (ensure (supports entry (rp_required_version policy)) MhProtocolIncompatible) (\<lambda>_.
     bindE (ok_or (min_by (compare_candidates failures)
        (filter (\<lambda>exit. md_management_identity exit \<noteq> md_management_identity entry)
        (filter (\<lambda>exit. md_autonomous_system exit \<noteq> md_autonomous_system entry)
        (filter (\<lambda>exit. md_provider_id exit \<noteq> md_provider_id entry)
        (filter (\<lambda>exit. supports exit (rp_required_version policy))
        (filter (\<lambda>exit. md_country_code exit = rp_exit_country policy)
        (filter (\<lambda>exit. \<not> isl (validate_gateway exit RoleExit (rp_maximum_load policy))) exits))))))) MhPolicyDenied)
       (\<lambda>selected. Inr \<lparr>en_entry = entry, en_exit = selected, en_protocol_version = rp_required_version policy\<rparr>))))"

section \<open>Recovery\<close>

datatype failure_class = FcTransport | FcCertificateRevoked | FcProtocolIncompatible | FcExitDraining | FcPolicy

datatype mh_recovery_action = ReconnectEnhanced enhanced_route duration | RecoveryBlock

record fail_closed_recovery =
  fr_initial_backoff :: duration
  fr_maximum_backoff :: duration
  fr_consecutive_failures :: u8

definition default_fail_closed_recovery :: fail_closed_recovery where
  "default_fail_closed_recovery =
     \<lparr>fr_initial_backoff = 250000000, fr_maximum_backoff = 30000000000, fr_consecutive_failures = 0\<rparr>"

definition on_success :: "fail_closed_recovery \<Rightarrow> fail_closed_recovery" where
  "on_success r = r\<lparr>fr_consecutive_failures := 0\<rparr>"

text \<open>\<open>Duration::MAX\<close> in nanoseconds, \<open>u8\<close> saturation, and \<open>1u32.checked_shl\<close>.\<close>

definition duration_max :: nat where
  "duration_max = usize_max * 1000000000 + 999999999"

definition saturating_add_u8 :: "u8 \<Rightarrow> u8 \<Rightarrow> u8" where
  "saturating_add_u8 a b = (if unat a + unat b < 256 then a + b else 255)"

definition saturating_sub_u8 :: "u8 \<Rightarrow> u8 \<Rightarrow> u8" where
  "saturating_sub_u8 a b = (if b \<le> a then a - b else 0)"

definition checked_shl_one :: "nat \<Rightarrow> nat option" where
  "checked_shl_one exponent = (if exponent < 32 then Some (2 ^ exponent) else None)"

definition checked_mul_duration :: "duration \<Rightarrow> nat \<Rightarrow> duration option" where
  "checked_mul_duration d n = (if d * n \<le> duration_max then Some (d * n) else None)"

definition backoff_after :: "fail_closed_recovery \<Rightarrow> duration" where
  "backoff_after r =
     (let exponent = unat (min (saturating_sub_u8 (fr_consecutive_failures r) 1) 10);
          multiplier = (case checked_shl_one exponent of None \<Rightarrow> 2 ^ 32 - 1 | Some m \<Rightarrow> m) in
      min (case checked_mul_duration (fr_initial_backoff r) multiplier of
             None \<Rightarrow> fr_maximum_backoff r | Some d \<Rightarrow> d) (fr_maximum_backoff r))"

definition mh_recover ::
  "failure_class \<Rightarrow> mh_gateway_descriptor \<Rightarrow> mh_gateway_descriptor list \<Rightarrow> route_policy \<Rightarrow> recent_failure list \<Rightarrow>
     fail_closed_recovery \<Rightarrow> (mh_error + mh_recovery_action) \<times> fail_closed_recovery" where
  "mh_recover class entry exits policy failures r =
     (if fr_initial_backoff r = 0 \<or> fr_maximum_backoff r < fr_initial_backoff r \<or> class = FcPolicy
      then (Inr RecoveryBlock, r)
      else
        let r = r\<lparr>fr_consecutive_failures := min (saturating_add_u8 (fr_consecutive_failures r) 1) 16\<rparr> in
        (case select_enhanced_route entry exits policy failures of
           Inl e \<Rightarrow> if e = MhPolicyDenied \<or> e = MhProtocolIncompatible then (Inr RecoveryBlock, r) else (Inl e, r)
         | Inr route \<Rightarrow> (Inr (ReconnectEnhanced route (backoff_after r)), r)))"

section \<open>The best candidate\<close>

text \<open>
  A three-way comparison that agrees with a total preorder; under it \<^const>\<open>min_by\<close> returns the first of the least
  elements.
\<close>

locale three_way =
  fixes compare :: "'a \<Rightarrow> 'a \<Rightarrow> ordering"
    and le :: "'a \<Rightarrow> 'a \<Rightarrow> bool"
  assumes greater_iff: "compare a b = OrdGreater \<longleftrightarrow> \<not> le a b"
    and le_total: "le a b \<or> le b a"
    and le_transitive: "le a b \<Longrightarrow> le b c \<Longrightarrow> le a c"
begin

lemma min_by_from_least:
  "min_by_from compare x xs \<in> set (x # xs) \<and> (\<forall>y \<in> set (x # xs). le (min_by_from compare x xs) y)"
proof (induction xs arbitrary: x)
  case Nil
  then show ?case using le_total by auto
next
  case (Cons y ys)
  let ?z = "if compare x y = OrdGreater then y else x"
  have z: "?z \<in> {x, y}" "le ?z x" "le ?z y" using greater_iff [of x y] le_total [of x y] le_total [of x x] le_total [of y y] by auto
  define m where "m = min_by_from compare ?z ys"
  from Cons.IH [of ?z] have m: "m \<in> set (?z # ys)" "le m ?z" "\<forall>w \<in> set ys. le m w" by (simp_all add: m_def)
  have "le m x" "le m y" using le_transitive [OF m(2) z(2)] le_transitive [OF m(2) z(3)] .
  then show ?case using m(1,3) z(1) by (auto simp: m_def [symmetric] split: if_splits)
qed

lemma min_by_least: "min_by compare xs = Some m \<Longrightarrow> m \<in> set xs \<and> (\<forall>y \<in> set xs. le m y)"
  using min_by_from_least by (auto simp: min_by_def split: list.splits)

end

lemma min_by_None: "min_by compare xs = None \<longleftrightarrow> xs = []"
  by (simp add: min_by_def split: list.split)

definition preferred :: "recent_failure list \<Rightarrow> mh_gateway_descriptor \<Rightarrow> mh_gateway_descriptor \<Rightarrow> bool" where
  "preferred failures a b \<longleftrightarrow>
     candidate_score failures a < candidate_score failures b \<or>
     candidate_score failures a = candidate_score failures b \<and> md_gateway_id a \<le> md_gateway_id b"

interpretation candidates: three_way "compare_candidates failures" "preferred failures" for failures
  by unfold_locales (auto simp: compare_candidates_def then_with_def cmp_def preferred_def)

text \<open>What the policy asks of an exit next to a given entry.\<close>

definition eligible_exit :: "mh_gateway_descriptor \<Rightarrow> route_policy \<Rightarrow> mh_gateway_descriptor \<Rightarrow> bool" where
  "eligible_exit entry policy exit \<longleftrightarrow>
     md_role exit = RoleExit \<and> \<not> md_revoked exit \<and> md_maintenance exit = Active \<and> md_load exit \<le> rp_maximum_load policy \<and>
     md_gateway_id exit \<noteq> [] \<and> md_provider_id exit \<noteq> [] \<and> md_management_identity exit \<noteq> [] \<and> md_autonomous_system exit \<noteq> 0 \<and>
     md_country_code exit = rp_exit_country policy \<and> rp_required_version policy \<in> set (md_protocol_versions exit) \<and>
     md_provider_id exit \<noteq> md_provider_id entry \<and> md_autonomous_system exit \<noteq> md_autonomous_system entry \<and>
     md_management_identity exit \<noteq> md_management_identity entry"

definition entry_usable :: "route_policy \<Rightarrow> mh_gateway_descriptor \<Rightarrow> bool" where
  "entry_usable policy entry \<longleftrightarrow>
     validate_route_policy policy = Inr () \<and> validate_gateway entry RoleEntry (rp_maximum_load policy) = Inr () \<and>
     rp_required_version policy \<in> set (md_protocol_versions entry)"

lemma select_enhanced_route_eq:
  "entry_usable policy entry \<Longrightarrow> select_enhanced_route entry exits policy failures =
     (case min_by (compare_candidates failures) (filter (eligible_exit entry policy) exits) of
        None \<Rightarrow> Inl MhPolicyDenied
      | Some exit \<Rightarrow> Inr \<lparr>en_entry = entry, en_exit = exit, en_protocol_version = rp_required_version policy\<rparr>)"
proof -
  assume usable: "entry_usable policy entry"
  have "filter (\<lambda>exit. md_management_identity exit \<noteq> md_management_identity entry)
        (filter (\<lambda>exit. md_autonomous_system exit \<noteq> md_autonomous_system entry)
        (filter (\<lambda>exit. md_provider_id exit \<noteq> md_provider_id entry)
        (filter (\<lambda>exit. supports exit (rp_required_version policy))
        (filter (\<lambda>exit. md_country_code exit = rp_exit_country policy)
        (filter (\<lambda>exit. \<not> isl (validate_gateway exit RoleExit (rp_maximum_load policy))) exits))))) =
     filter (eligible_exit entry policy) exits"
    unfolding filter_filter
    by (rule filter_cong [OF refl])
      (auto simp: eligible_exit_def validate_gateway_def ensure_def supports_def list_ex_iff not_less)
  then show ?thesis
    using usable
    by (auto simp: select_enhanced_route_def entry_usable_def supports_def list_ex_iff ok_or_def split: option.split)
qed

lemma select_enhanced_route_usable: "select_enhanced_route entry exits policy failures = Inr route \<Longrightarrow> entry_usable policy entry"
  by (auto simp: select_enhanced_route_def entry_usable_def supports_def list_ex_iff result_simps)

lemma selected_route_sound:
  assumes sel: "select_enhanced_route entry exits policy failures = Inr route"
  shows "en_entry route = entry" "en_exit route \<in> set exits" "eligible_exit entry policy (en_exit route)"
    "en_protocol_version route = rp_required_version policy"
    "\<forall>exit \<in> set exits. eligible_exit entry policy exit \<longrightarrow> preferred failures (en_exit route) exit"
proof -
  note usable = select_enhanced_route_usable [OF sel]
  from sel obtain m where m: "min_by (compare_candidates failures) (filter (eligible_exit entry policy) exits) = Some m"
    "route = \<lparr>en_entry = entry, en_exit = m, en_protocol_version = rp_required_version policy\<rparr>"
    unfolding select_enhanced_route_eq [OF usable] by (auto split: option.splits)
  show "en_entry route = entry" "en_exit route \<in> set exits" "eligible_exit entry policy (en_exit route)"
    "en_protocol_version route = rp_required_version policy"
    "\<forall>exit \<in> set exits. eligible_exit entry policy exit \<longrightarrow> preferred failures (en_exit route) exit"
    using candidates.min_by_least [OF m(1)] m(2) by auto
qed


definition example_gateway :: "string \<Rightarrow> mh_role \<Rightarrow> string \<Rightarrow> u32 \<Rightarrow> load_bucket \<Rightarrow> mh_gateway_descriptor" where
  "example_gateway i role provider asn load =
     \<lparr>md_gateway_id = i, md_role = role, md_country_code = ''DE'', md_provider_id = provider, md_autonomous_system = asn,
      md_management_identity = provider, md_protocol_versions = [\<lparr>pv_major = 1, pv_minor = 0\<rparr>],
      md_maintenance = Active, md_load = load, md_revoked = False\<rparr>"

definition example_route_policy :: route_policy where
  "example_route_policy =
     \<lparr>rp_exit_country = ''DE'', rp_required_version = \<lparr>pv_major = 1, pv_minor = 0\<rparr>, rp_maximum_load = LoadHigh\<rparr>"

lemma example_selection:
  "select_enhanced_route (example_gateway ''n'' RoleEntry ''a'' 1 LoadLow)
     [example_gateway ''x'' RoleExit ''a'' 2 LoadLow, example_gateway ''y'' RoleExit ''b'' 3 LoadMedium,
      example_gateway ''z'' RoleExit ''c'' 4 LoadLow] example_route_policy [] =
   Inr \<lparr>en_entry = example_gateway ''n'' RoleEntry ''a'' 1 LoadLow, en_exit = example_gateway ''z'' RoleExit ''c'' 4 LoadLow,
         en_protocol_version = \<lparr>pv_major = 1, pv_minor = 0\<rparr>\<rparr>"
proof -
  have upper: "is_ascii_uppercase CHR ''D''" "is_ascii_uppercase CHR ''E''" by (simp_all add: is_ascii_uppercase_def)
  show ?thesis
    by (simp add: select_enhanced_route_def example_gateway_def example_route_policy_def validate_route_policy_def
        validate_gateway_def supports_def min_by_def compare_candidates_def candidate_score_def then_with_def cmp_def
        less_eq_load_bucket_def less_load_bucket_def ensure_def upper)
qed


section \<open>Recovery blocks or waits\<close>

lemma backoff_after_eq:
  assumes "fr_maximum_backoff r \<le> duration_max"
  shows "backoff_after r = min (fr_initial_backoff r * 2 ^ min (unat (fr_consecutive_failures r) - 1) 10) (fr_maximum_backoff r)"
proof -
  have sub: "unat (saturating_sub_u8 n 1) = unat n - 1" for n :: u8
    by (cases "n = 0") (auto simp: saturating_sub_u8_def word_le_nat_alt unat_sub_if_size unat_eq_zero)
  have "unat (min a 10) = min (unat a) 10" for a :: u8 by (simp add: min_def word_le_nat_alt)
  then have e: "unat (min (saturating_sub_u8 (fr_consecutive_failures r) 1) 10) = min (unat (fr_consecutive_failures r) - 1) 10"
    by (simp add: sub)
  then show ?thesis
    using assms by (auto simp: backoff_after_def e checked_shl_one_def checked_mul_duration_def Let_def)
qed



end
