(* ===== verification/Multihop_Queue.thy ===== *)
theory Multihop_Queue
  imports Multihop_Route Scheduler
begin

text \<open>
  The bounded queue of the relay multiplexer (\<open>src/crates/gateway-multihop/src/mux.rs\<close>). The queue
  turns out to be the scheduler of the gateway protocol in other clothes: a simulation carries
  the results of theory \<open>Scheduler\<close> over.
\<close>

section \<open>The queue of the multiplexer\<close>

definition CONTROL_BURST :: nat where "CONTROL_BURST = 8"

definition ACCOUNTING_OVERHEAD :: nat where "ACCOUNTING_OVERHEAD = 128"

datatype outbound_command = CmdOpen u64 bytes | CmdData u64 bytes | CmdControl bytes

fun command_session_id :: "outbound_command \<Rightarrow> u64 option" where
  "command_session_id (CmdOpen session_id _) = Some session_id"
| "command_session_id (CmdData session_id _) = Some session_id"
| "command_session_id (CmdControl _) = None"

fun command_payload :: "outbound_command \<Rightarrow> bytes" where
  "command_payload (CmdOpen _ encoded) = encoded"
| "command_payload (CmdData _ payload) = payload"
| "command_payload (CmdControl encoded) = encoded"

definition accounted_bytes :: "outbound_command \<Rightarrow> mh_error + nat" where
  "accounted_bytes command =
     ok_or (checked_add_usize (length (command_payload command)) ACCOUNTING_OVERHEAD) MhResourceExhausted"

text \<open>\<open>accounted_bytes().unwrap_or(0)\<close>\<close>

definition accounted_or_zero :: "outbound_command \<Rightarrow> nat" where
  "accounted_or_zero command = (case accounted_bytes command of Inl _ \<Rightarrow> 0 | Inr n \<Rightarrow> n)"

record fair_mux_queue =
  mq_control :: "outbound_command list"
  mq_sessions :: "(u64, outbound_command list) fmap"
  mq_active :: "u64 list"
  mq_per_session_bytes :: "(u64, nat) fmap"
  mq_queued_bytes :: nat
  mq_maximum_bytes :: nat
  mq_maximum_per_session_bytes :: nat
  mq_maximum_control_frames :: nat
  mq_control_burst :: nat

definition mux_new :: "nat \<Rightarrow> nat \<Rightarrow> nat \<Rightarrow> mh_error + fair_mux_queue" where
  "mux_new maximum_bytes maximum_per_session_bytes maximum_control_frames =
     (if maximum_bytes = 0 \<or> maximum_per_session_bytes = 0 \<or> maximum_bytes < maximum_per_session_bytes \<or>
         maximum_control_frames = 0
      then Inl MhInvalidConfiguration
      else Inr \<lparr>mq_control = [], mq_sessions = fmempty, mq_active = [], mq_per_session_bytes = fmempty,
                mq_queued_bytes = 0, mq_maximum_bytes = maximum_bytes,
                mq_maximum_per_session_bytes = maximum_per_session_bytes,
                mq_maximum_control_frames = maximum_control_frames, mq_control_burst = 0\<rparr>)"

definition mux_try_push :: "outbound_command \<Rightarrow> fair_mux_queue \<Rightarrow> (mh_error + unit) \<times> fair_mux_queue" where
  "mux_try_push command q =
     tryE (accounted_bytes command) q (\<lambda>bytes.
     tryE (ok_or (checked_add_usize (mq_queued_bytes q) bytes) MhResourceExhausted) q (\<lambda>total.
     if mq_maximum_bytes q < total then (Inl MhBackpressure, q)
     else
       (case command_session_id command of
          None \<Rightarrow>
            if mq_maximum_control_frames q \<le> length (mq_control q) then (Inl MhBackpressure, q)
            else (Inr (), q\<lparr>mq_control := mq_control q @ [command], mq_queued_bytes := total\<rparr>)
        | Some session_id \<Rightarrow>
            if session_id = 0 \<or> session_id AND 1 = 0 then (Inl MhProtocolViolation, q)
            else
              let current = fm_get_or 0 (mq_per_session_bytes q) session_id in
              tryE (ok_or (checked_add_usize current bytes) MhResourceExhausted) q (\<lambda>updated.
              if mq_maximum_per_session_bytes q < updated then (Inl MhBackpressure, q)
              else
                let queue = fm_get_or [] (mq_sessions q) session_id in
                (Inr (), q\<lparr>mq_active := (if queue = [] then mq_active q @ [session_id] else mq_active q),
                           mq_sessions := fmupd session_id (queue @ [command]) (mq_sessions q),
                           mq_per_session_bytes := fmupd session_id updated (mq_per_session_bytes q),
                           mq_queued_bytes := total\<rparr>)))))"

definition mux_pop_control :: "fair_mux_queue \<Rightarrow> outbound_command option \<times> fair_mux_queue" where
  "mux_pop_control q =
     (case mq_control q of
        [] \<Rightarrow> (None, q)
      | command # rest \<Rightarrow>
          (Some command, q\<lparr>mq_control := rest, mq_queued_bytes := mq_queued_bytes q - accounted_or_zero command\<rparr>))"

definition mux_pop_session :: "u64 \<Rightarrow> u64 list \<Rightarrow> fair_mux_queue \<Rightarrow> outbound_command option \<times> fair_mux_queue" where
  "mux_pop_session session_id active q =
     (let q = q\<lparr>mq_active := active\<rparr> in
      case fmlookup (mq_sessions q) session_id of
        None \<Rightarrow> (None, q)
      | Some [] \<Rightarrow> (None, q)
      | Some (command # queue) \<Rightarrow>
          let bytes = accounted_or_zero command;
              q = q\<lparr>mq_queued_bytes := mq_queued_bytes q - bytes\<rparr>;
              updated = fm_get_or 0 (mq_per_session_bytes q) session_id - bytes;
              q = (if queue \<noteq> []
                   then q\<lparr>mq_sessions := fmupd session_id queue (mq_sessions q), mq_active := active @ [session_id],
                          mq_per_session_bytes := fmupd session_id updated (mq_per_session_bytes q)\<rparr>
                   else q\<lparr>mq_sessions := fmdrop session_id (mq_sessions q),
                          mq_per_session_bytes := fmdrop session_id (mq_per_session_bytes q)\<rparr>) in
          (Some command, q\<lparr>mq_control_burst := 0\<rparr>))"

definition mux_pop_next :: "fair_mux_queue \<Rightarrow> outbound_command option \<times> fair_mux_queue" where
  "mux_pop_next q =
     (if mq_control q \<noteq> [] \<and> (mq_control_burst q < CONTROL_BURST \<or> mq_active q = [])
      then mux_pop_control (q\<lparr>mq_control_burst := mq_control_burst q + 1\<rparr>)
      else
        (case mq_active q of
           session_id # active \<Rightarrow> mux_pop_session session_id active q
         | [] \<Rightarrow> mux_pop_control q))"

definition mux_cancel_session :: "u64 \<Rightarrow> fair_mux_queue \<Rightarrow> fair_mux_queue" where
  "mux_cancel_session session_id q =
     (let q = (case fmlookup (mq_sessions q) session_id of
                 None \<Rightarrow> q
               | Some queue \<Rightarrow>
                   q\<lparr>mq_sessions := fmdrop session_id (mq_sessions q),
                     mq_queued_bytes := mq_queued_bytes q -
                       fold (\<lambda>command total. saturating_add_usize total (accounted_or_zero command)) queue 0\<rparr>) in
      q\<lparr>mq_per_session_bytes := fmdrop session_id (mq_per_session_bytes q),
        mq_active := filter (\<lambda>candidate. candidate \<noteq> session_id) (mq_active q)\<rparr>)"

section \<open>The multiplexer as a scheduler\<close>

text \<open>
  A command as a frame of the scheduler. The tag keeps the two kinds of session commands apart,
  so that no two commands become the same frame.
\<close>

fun command_body :: "outbound_command \<Rightarrow> body" where
  "command_body (CmdOpen session_id encoded) = Data \<lparr>da_stream_id = session_id, da_payload = 0 # encoded\<rparr>"
| "command_body (CmdData session_id payload) = Data \<lparr>da_stream_id = session_id, da_payload = 1 # payload\<rparr>"
| "command_body (CmdControl encoded) = Ping encoded"

definition item_of :: "outbound_command \<Rightarrow> outbound_item" where
  "item_of c = \<lparr>oi_body = command_body c, oi_accounted_bytes = length (command_payload c) + ACCOUNTING_OVERHEAD\<rparr>"

definition scheduler_of :: "fair_mux_queue \<Rightarrow> fair_scheduler" where
  "scheduler_of q = \<lparr>fs_control = map item_of (mq_control q), fs_streams = fmmap (map item_of) (mq_sessions q),
     fs_per_stream_bytes = mq_per_session_bytes q, fs_active = mq_active q, fs_queued_bytes = mq_queued_bytes q,
     fs_maximum_queued_bytes = mq_maximum_bytes q, fs_maximum_queued_bytes_per_stream = mq_maximum_per_session_bytes q,
     fs_maximum_control_frames = mq_maximum_control_frames q, fs_control_burst = mq_control_burst q\<rparr>"

lemma item_of_inj: "item_of c = item_of d \<longleftrightarrow> c = d"
  by (cases c; cases d) (auto simp: item_of_def)

lemma scheduler_of_fields [simp]:
  "fs_control (scheduler_of q) = map item_of (mq_control q)" "fs_streams (scheduler_of q) = fmmap (map item_of) (mq_sessions q)"
  "fs_per_stream_bytes (scheduler_of q) = mq_per_session_bytes q" "fs_active (scheduler_of q) = mq_active q"
  "fs_queued_bytes (scheduler_of q) = mq_queued_bytes q" "fs_maximum_queued_bytes (scheduler_of q) = mq_maximum_bytes q"
  "fs_maximum_queued_bytes_per_stream (scheduler_of q) = mq_maximum_per_session_bytes q"
  "fs_maximum_control_frames (scheduler_of q) = mq_maximum_control_frames q" "fs_control_burst (scheduler_of q) = mq_control_burst q"
  by (simp_all add: scheduler_of_def)

lemma fmmap_upd: "fmmap f (fmupd k v m) = fmupd k (f v) (fmmap f m)"
  by (rule fmap_ext) simp

lemma mux_stream_queue: "stream_queue (scheduler_of q) i = map item_of (fm_get_or [] (mq_sessions q) i)"
  by (simp add: stream_queue_def fm_get_or_def split: option.split)

lemma accounted_bytes_Inr: "accounted_bytes c = Inr n \<longleftrightarrow> n = oi_accounted_bytes (item_of c) \<and> n \<le> usize_max"
  by (auto simp: accounted_bytes_def item_of_def ACCOUNTING_OVERHEAD_def)

lemma accounted_or_zero_eq: "oi_accounted_bytes (item_of c) \<le> usize_max \<Longrightarrow> accounted_or_zero c = oi_accounted_bytes (item_of c)"
  by (auto simp: accounted_or_zero_def accounted_bytes_def item_of_def ACCOUNTING_OVERHEAD_def ok_or_def split: option.splits sum.splits)

lemma mux_push_simulates:
  assumes "mux_try_push c q = (Inr (), q')"
  shows "case command_session_id c of
      None \<Rightarrow> enqueue_control (scheduler_of q) (item_of c) = (Inr (), scheduler_of q')
    | Some i \<Rightarrow> enqueue_stream (scheduler_of q) i (item_of c) = (Inr (), scheduler_of q')"
proof (cases "command_session_id c")
  case None
  then show ?thesis
    using assms
    by (auto simp: mux_try_push_def accounted_bytes_Inr result_simps enqueue_control_Inr can_enqueue_control_Inr scheduler_of_def
        split: if_splits)
next
  case (Some i)
  then show ?thesis
    using assms
    by (auto simp: mux_try_push_def accounted_bytes_Inr result_simps enqueue_stream_Inr can_enqueue_stream_Inr mux_stream_queue
        stream_bytes_def Let_def fmmap_upd split: if_splits)
qed

lemma mux_push_refused:
  assumes "mux_try_push c q = (Inl e, q')"
  shows "q' = q \<and> (case command_session_id c of
      None \<Rightarrow> fst (enqueue_control (scheduler_of q) (item_of c)) \<noteq> Inr ()
    | Some i \<Rightarrow> i = 0 \<or> i AND 1 = 0 \<or> fst (enqueue_stream (scheduler_of q) i (item_of c)) \<noteq> Inr ())"
proof -
  have c: "fst (enqueue_control (scheduler_of q) (item_of c)) = Inr () \<longleftrightarrow>
      can_enqueue_control (scheduler_of q) (oi_accounted_bytes (item_of c)) = Inr ()"
    by (cases "can_enqueue_control (scheduler_of q) (oi_accounted_bytes (item_of c))") (simp_all add: enqueue_control_def)
  have s: "fst (enqueue_stream (scheduler_of q) i (item_of c)) = Inr () \<longleftrightarrow>
      can_enqueue_stream (scheduler_of q) i (oi_accounted_bytes (item_of c)) = Inr ()" for i
    using stream_queues.honoured [of "scheduler_of q" i "item_of c"] stream_queues.refused [of "scheduler_of q" i "item_of c"]
    by (cases "can_enqueue_stream (scheduler_of q) i (oi_accounted_bytes (item_of c))") auto
  have a: "accounted_bytes c = (if oi_accounted_bytes (item_of c) \<le> usize_max then Inr (oi_accounted_bytes (item_of c))
      else Inl MhResourceExhausted)"
    by (simp add: accounted_bytes_def item_of_def ACCOUNTING_OVERHEAD_def ok_or_def checked_add_usize_def)
  show ?thesis
    using assms
    by (auto simp: mux_try_push_def a c s result_simps can_enqueue_control_Inr can_enqueue_stream_Inr stream_bytes_def Let_def
        split: if_splits option.splits)
qed

lemma queued_item_bounded:
  assumes "fs_inv f" "x \<in> set (fs_control f) \<or> x \<in> set (stream_queue f i)"
  shows "oi_accounted_bytes x \<le> usize_max"
proof -
  have "oi_accounted_bytes x \<le> queue_bytes r" if "x \<in> set r" for r
    using that by (induction r) auto
  moreover have "queue_bytes (stream_queue f i) \<le> ring_bytes f"
  proof (cases "i \<in> set (fs_active f)")
    case True
    then show ?thesis unfolding ring_bytes_def by (intro member_le_sum) auto
  qed (simp add: fs_inv_inactive [OF assms(1)])
  ultimately show ?thesis using assms by (fastforce simp: fs_inv_def)
qed

lemma mux_pop_control_simulates:
  assumes "fs_inv (scheduler_of q)" "mux_pop_control q = (y, q')"
  shows "pop_control (scheduler_of q) = (map_option item_of y, scheduler_of q')"
proof (cases "mq_control q")
  case (Cons c cs)
  then have "accounted_or_zero c = oi_accounted_bytes (item_of c)"
    using queued_item_bounded [OF assms(1), of "item_of c"] by (intro accounted_or_zero_eq) simp
  then show ?thesis using Cons assms(2) by (auto simp: pop_control_def mux_pop_control_def scheduler_of_def)
qed (use assms(2) in \<open>simp add: pop_control_def mux_pop_control_def\<close>)

lemma mux_pop_session_simulates:
  assumes inv: "fs_inv (scheduler_of q)" and run: "mux_pop_session i active q = (y, q')"
  shows "pop_stream (scheduler_of q) i active = (map_option item_of y, scheduler_of q')"
proof (cases "fmlookup (mq_sessions q) i")
  case (Some r)
  show ?thesis
  proof (cases r)
    case (Cons c cs)
    then have "stream_queue (scheduler_of q) i = map item_of (c # cs)" using Some by (simp add: mux_stream_queue fm_get_or_def)
    then have "accounted_or_zero c = oi_accounted_bytes (item_of c)"
      using queued_item_bounded [OF inv, of "item_of c" i] by (intro accounted_or_zero_eq) simp
    note c = this
    have pop: "mux_pop_session i active q = (Some c,
       if cs = [] then q\<lparr>mq_active := active, mq_queued_bytes := mq_queued_bytes q - oi_accounted_bytes (item_of c),
         mq_sessions := fmdrop i (mq_sessions q), mq_per_session_bytes := fmdrop i (mq_per_session_bytes q), mq_control_burst := 0\<rparr>
       else q\<lparr>mq_active := active @ [i], mq_queued_bytes := mq_queued_bytes q - oi_accounted_bytes (item_of c),
         mq_sessions := fmupd i cs (mq_sessions q),
         mq_per_session_bytes := fmupd i (fm_get_or 0 (mq_per_session_bytes q) i - oi_accounted_bytes (item_of c)) (mq_per_session_bytes q),
         mq_control_burst := 0\<rparr>)"
      unfolding mux_pop_session_def Let_def using Some Cons by (simp add: c)
    have y: "y = Some c" using arg_cong [OF run, of fst] unfolding pop by simp
    have q': "q' = snd (mux_pop_session i active q)" by (simp add: run)
    show ?thesis
      unfolding y q' pop
      by (cases "cs = []") (simp_all add: pop_stream_def Some Cons stream_bytes_def fmmap_upd scheduler_of_def)
  qed (use Some run in \<open>auto simp: pop_stream_def mux_pop_session_def Let_def scheduler_of_def\<close>)
qed (use run in \<open>auto simp: pop_stream_def mux_pop_session_def Let_def scheduler_of_def\<close>)

lemma mux_pop_simulates:
  assumes "fs_inv (scheduler_of q)" "mux_pop_next q = (y, q')"
  shows "pop_next (scheduler_of q) = (map_option item_of y, scheduler_of q')"
proof -
  have burst: "scheduler_of (q\<lparr>mq_control_burst := n\<rparr>) = scheduler_of q\<lparr>fs_control_burst := n\<rparr>" for n
    by (simp add: scheduler_of_def)
  have "pop_control (scheduler_of (q\<lparr>mq_control_burst := n\<rparr>)) = (map_option item_of y, scheduler_of q')"
    if "mux_pop_control (q\<lparr>mq_control_burst := n\<rparr>) = (y, q')" for n
    using mux_pop_control_simulates [OF _ that] fs_inv_burst [OF assms(1)] by (simp add: burst)
  then show ?thesis
    using assms mux_pop_control_simulates [OF assms(1)] mux_pop_session_simulates [OF assms(1)]
    by (auto simp: pop_next_def mux_pop_next_def CONTROL_BURST_def MAX_CONTROL_BURST_def burst split: if_splits list.splits)
qed

lemma mux_cancel_simulates:
  assumes inv: "fs_inv (scheduler_of q)"
  shows "scheduler_of (mux_cancel_session i q) = cancel_stream (scheduler_of q) i"
proof (cases "fmlookup (mq_sessions q) i")
  case (Some r)
  then have "stream_queue (scheduler_of q) i = map item_of r" by (simp add: mux_stream_queue fm_get_or_def)
  then have eq: "accounted_or_zero c = oi_accounted_bytes (item_of c)" if "c \<in> set r" for c
    using that queued_item_bounded [OF inv, of "item_of c" i] by (intro accounted_or_zero_eq) auto
  have "fold (\<lambda>c total. saturating_add_usize total (accounted_or_zero c)) r a =
      fold (\<lambda>x total. saturating_add_usize total (oi_accounted_bytes x)) (map item_of r) a" for a
    using eq by (induction r arbitrary: a) simp_all
  then show ?thesis
    using Some by (simp add: mux_cancel_session_def cancel_stream_def Let_def scheduler_of_def)
qed (simp add: mux_cancel_session_def cancel_stream_def Let_def scheduler_of_def)

datatype mux_op = MuxPush outbound_command | MuxPop | MuxCancel u64

fun mux_apply :: "mux_op \<Rightarrow> fair_mux_queue \<Rightarrow> outbound_command option \<times> fair_mux_queue" where
  "mux_apply (MuxPush c) q = (None, snd (mux_try_push c q))"
| "mux_apply MuxPop q = mux_pop_next q"
| "mux_apply (MuxCancel i) q = (None, mux_cancel_session i q)"

fun mux_run :: "mux_op list \<Rightarrow> fair_mux_queue \<Rightarrow> outbound_command list \<times> fair_mux_queue" where
  "mux_run [] q = ([], q)"
| "mux_run (op # ops) q =
     (let (y, q') = mux_apply op q; (ys, q'') = mux_run ops q' in
      ((case y of None \<Rightarrow> ys | Some c \<Rightarrow> c # ys), q''))"

text \<open>The same operations of the scheduler. A push for an invalid session has none.\<close>

fun sched_ops_of :: "mux_op \<Rightarrow> sched_op list" where
  "sched_ops_of (MuxPush c) =
     (case command_session_id c of
        None \<Rightarrow> [EnqueueControl (item_of c)]
      | Some i \<Rightarrow> if i = 0 \<or> i AND 1 = 0 then [] else [EnqueueStream i (item_of c)])"
| "sched_ops_of MuxPop = [PopNext]"
| "sched_ops_of (MuxCancel i) = [CancelStream i]"

lemma mux_push_invalid:
  assumes "command_session_id c = Some i" "i = 0 \<or> i AND 1 = 0"
  shows "snd (mux_try_push c q) = q"
proof -
  obtain r p where run: "mux_try_push c q = (r, p)" by (cases "mux_try_push c q")
  show ?thesis
  proof (cases r)
    case (Inl e)
    then show ?thesis using run mux_push_refused by fastforce
  next
    case (Inr u)
    then show ?thesis using run assms by (auto simp: mux_try_push_def result_simps split: if_splits)
  qed
qed

lemma mux_apply_simulates:
  assumes inv: "fs_inv (scheduler_of q)" and app: "mux_apply op q = (y, q')"
  shows "sched_run (sched_ops_of op) (scheduler_of q) = (case y of None \<Rightarrow> [] | Some c \<Rightarrow> [item_of c], scheduler_of q')"
proof (cases op)
  case (MuxPush c)
  then have y: "y = None" "q' = snd (mux_try_push c q)" using app by simp_all
  obtain r p where run: "mux_try_push c q = (r, p)" by (cases "mux_try_push c q")
  show ?thesis
  proof (cases r)
    case (Inl e)
    note no = mux_push_refused [OF run [unfolded Inl]]
    have "fst (enqueue_control f x) \<noteq> Inr () \<Longrightarrow> snd (enqueue_control f x) = f" for f x
      by (cases "fst (enqueue_control f x)") (simp_all add: control_queue.enqueue_error_unchanged)
    moreover have "fst (enqueue_stream f i x) \<noteq> Inr () \<Longrightarrow> snd (enqueue_stream f i x) = f" for f x i
      by (cases "fst (enqueue_stream f i x)") (simp_all add: stream_queues.enqueue_error_unchanged)
    ultimately show ?thesis using no MuxPush y run Inl by (auto split: option.splits)
  next
    case (Inr u)
    then have ok: "mux_try_push c q = (Inr (), p)" using run by simp
    show ?thesis
      using mux_push_simulates [OF ok] mux_push_invalid [of c _ q] MuxPush y run by (auto split: option.splits)
  qed
next
  case MuxPop
  then show ?thesis using mux_pop_simulates [OF inv, of y q'] app by (cases y) simp_all
next
  case (MuxCancel i)
  then show ?thesis using mux_cancel_simulates [OF inv] app by auto
qed

lemma sched_run_append:
  "sched_run (xs @ ys) f = (let (out1, g) = sched_run xs f; (out2, h) = sched_run ys g in (out1 @ out2, h))"
  by (induction xs arbitrary: f) (auto simp: Let_def split: prod.splits option.splits)

lemma sched_ops_of_cancel:
  "CancelStream i \<in> set (concat (map sched_ops_of ops)) \<longleftrightarrow> MuxCancel i \<in> set ops"
proof (induction ops)
  case (Cons op ops)
  then show ?case by (cases op) (auto split: option.splits)
qed simp

lemma sched_ops_of_pops:
  "count_list (concat (map sched_ops_of ops)) PopNext = count_list ops MuxPop"
proof (induction ops)
  case (Cons op ops)
  then show ?case by (cases op) (auto split: option.splits)
qed simp

definition mux_start :: "fair_mux_queue \<Rightarrow> bool" where
  "mux_start q \<longleftrightarrow> (\<exists>a b c. mux_new a b c = Inr q)"

definition mux_step :: "fair_mux_queue \<Rightarrow> fair_mux_queue \<Rightarrow> bool" where
  "mux_step q q' \<longleftrightarrow> (\<exists>op y. mux_apply op q = (y, q'))"

lemma fs_inv_sched_run: "fs_inv f \<Longrightarrow> sched_run ops f = (ys, g) \<Longrightarrow> fs_inv g"
proof (induction ops arbitrary: f ys)
  case (Cons op ops)
  then show ?case by (auto simp: Let_def split: prod.splits dest: fs_inv_sched_apply)
qed simp

lemma mux_inv_apply: "fs_inv (scheduler_of q) \<Longrightarrow> mux_apply op q = (y, q') \<Longrightarrow> fs_inv (scheduler_of q')"
  using mux_apply_simulates fs_inv_sched_run by metis

interpretation muxm: invariant_machine mux_start mux_step "\<lambda>q. fs_inv (scheduler_of q)"
proof
  fix q
  assume "mux_start q"
  then obtain a b c where "mux_new a b c = Inr q" by (auto simp: mux_start_def)
  then have "scheduler_new a b c = Inr (scheduler_of q)"
    by (auto simp: mux_new_def scheduler_new_def scheduler_of_def split: if_splits)
  then show "fs_inv (scheduler_of q)" by (rule fs_inv_new)
qed (auto simp: mux_step_def intro: mux_inv_apply)

lemma mux_run_simulates:
  assumes "fs_inv (scheduler_of q)" "mux_run ops q = (ys, q')"
  shows "sched_run (concat (map sched_ops_of ops)) (scheduler_of q) = (map item_of ys, scheduler_of q')"
  using assms
proof (induction ops arbitrary: q ys)
  case (Cons op ops)
  obtain y p where app: "mux_apply op q = (y, p)" by (cases "mux_apply op q")
  obtain zs where run: "mux_run ops p = (zs, q')" and ys: "ys = (case y of None \<Rightarrow> zs | Some c \<Rightarrow> c # zs)"
    using Cons.prems(2) app by (auto split: prod.splits)
  from Cons.IH [OF mux_inv_apply [OF Cons.prems(1) app] run] show ?case
    using mux_apply_simulates [OF Cons.prems(1) app] ys by (auto simp: sched_run_append split: option.splits)
qed simp

text \<open>
  C40. The multiplexer of the relay is the scheduler of the gateway protocol. Whatever is pushed,
  popped and cancelled on a queue of the multiplexer, the scheduler with the same limits and the
  same operations sends the same commands in the same order and ends in the corresponding state,
  whose counters are exact; no two commands correspond to the same frame. In particular a command
  at the head of its session is sent within nine pops per session ahead of it, unless its session
  is cancelled.
\<close>

theorem mux_behaves_as_scheduler:
  assumes "reach mux_start mux_step q" "mux_run ops q = (sent, q')"
  shows "sched_run (concat (map sched_ops_of ops)) (scheduler_of q) = (map item_of sent, scheduler_of q') \<and>
    fs_inv (scheduler_of q') \<and> inj item_of \<and>
    (\<forall>i c rest. fmlookup (mq_sessions q) i = Some (c # rest) \<and> MuxCancel i \<notin> set ops \<and>
       9 * (length (takeWhile (\<lambda>j. j \<noteq> i) (mq_active q)) + 1) \<le> count_list ops MuxPop \<longrightarrow> c \<in> set sent)"
proof (intro conjI allI impI)
  have inv: "fs_inv (scheduler_of q)" by (rule muxm.reach_inv [OF assms(1)])
  note sim = mux_run_simulates [OF inv assms(2)]
  show "sched_run (concat (map sched_ops_of ops)) (scheduler_of q) = (map item_of sent, scheduler_of q')"
    by (rule sim)
  show "fs_inv (scheduler_of q')" by (rule fs_inv_sched_run [OF inv sim])
  show inj: "inj item_of" by (rule injI) (simp add: item_of_inj)
  fix i c rest
  assume a: "fmlookup (mq_sessions q) i = Some (c # rest) \<and> MuxCancel i \<notin> set ops \<and>
       9 * (length (takeWhile (\<lambda>j. j \<noteq> i) (mq_active q)) + 1) \<le> count_list ops MuxPop"
  have "waits_with (scheduler_of q) i (item_of c)"
    using a inv by (simp add: waits_with_def mux_stream_queue fm_get_or_def)
  then have "item_of c \<in> set (fst (sched_run (concat (map sched_ops_of ops)) (scheduler_of q)))"
    using a by (intro served_within_wait)
      (auto simp: stream_wait_def stream_position_def sched_ops_of_pops sched_ops_of_cancel simp del: set_concat)
  then show "c \<in> set sent" using sim inj by (auto simp: inj_def)
qed

definition example_mux :: fair_mux_queue where
  "example_mux = \<lparr>mq_control = [], mq_sessions = fmempty, mq_active = [], mq_per_session_bytes = fmempty, mq_queued_bytes = 0,
     mq_maximum_bytes = 4096, mq_maximum_per_session_bytes = 2048, mq_maximum_control_frames = 16, mq_control_burst = 0\<rparr>"

lemma example_mux_start: "mux_start example_mux"
  unfolding mux_start_def by (intro exI [of _ 4096] exI [of _ 2048] exI [of _ 16]) (simp add: mux_new_def example_mux_def)

theorem mux_behaves_as_scheduler_witness:
  "let q = snd (mux_apply (MuxPush (CmdData 1 [7])) example_mux); ops = MuxPush (CmdControl [9]) # replicate 9 MuxPop in
   reach mux_start mux_step q \<and> CmdData 1 [7] \<in> set (fst (mux_run ops q)) \<and>
   sched_run (concat (map sched_ops_of ops)) (scheduler_of q) = (map item_of (fst (mux_run ops q)), scheduler_of (snd (mux_run ops q)))"
proof -
  define q where "q = snd (mux_apply (MuxPush (CmdData 1 [7])) example_mux)"
  define ops where "ops = MuxPush (CmdControl [9]) # replicate 9 MuxPop"
  have reach: "reach mux_start mux_step q"
    unfolding q_def by (rule reach_step [OF reach_start [of mux_start, OF example_mux_start]])
      (simp add: mux_step_def prod_eq_iff, metis mux_apply.simps(1) snd_conv)
  have q: "fmlookup (mq_sessions q) 1 = Some [CmdData 1 [7]]" "mq_active q = [1]"
    by (simp_all add: q_def example_mux_def mux_try_push_def accounted_bytes_def ACCOUNTING_OVERHEAD_def checked_add_usize_def
        ok_or_def fm_get_or_def Let_def)
  have "MuxCancel 1 \<notin> set ops" "count_list ops MuxPop = 9" by (simp_all add: ops_def eval_nat_numeral)
  then have fair: "fmlookup (mq_sessions q) 1 = Some (CmdData 1 [7] # []) \<and> MuxCancel 1 \<notin> set ops \<and>
      9 * (length (takeWhile (\<lambda>j. j \<noteq> 1) (mq_active q)) + 1) \<le> count_list ops MuxPop"
    using q by simp
  note * = mux_behaves_as_scheduler [OF reach prod.collapse [symmetric], of ops]
  from * fair have "CmdData 1 [7] \<in> set (fst (mux_run ops q))" by blast
  with conjunct1 [OF *] have "CmdData 1 [7] \<in> set (fst (mux_run ops q)) \<and>
      sched_run (concat (map sched_ops_of ops)) (scheduler_of q) = (map item_of (fst (mux_run ops q)), scheduler_of (snd (mux_run ops q)))"
    by blast
  then show ?thesis unfolding Let_def q_def [symmetric] ops_def [symmetric] using reach by simp
qed

end
