(* ===== verification/Multihop_Quota.thy ===== *)
theory Multihop_Quota
  imports Multihop_Route
begin

text \<open>
  The pool of connections to exits (\<open>src/crates/gateway-multihop/src/mux.rs\<close>) and the quotas an
  exit keeps per entry (\<open>quota.rs\<close>). A permit is a value whose destructor gives it back; a state
  of the pool or of the quotas keeps the permits that are alive, and every counter equals the
  number of them. The bytes of an entry are bounded by a token bucket.
\<close>

section \<open>The pool of connections\<close>

text \<open>The semaphore is the number of permits left; \<open>pl_live\<close> are the exits of the permits that are alive.\<close>

record pool_limits =
  pm_maximum_total_connections :: nat
  pm_maximum_connections_per_exit :: nat

record connection_pool =
  pl_limits :: pool_limits
  pl_total_left :: nat
  pl_per_exit :: "(string, nat) fmap"
  pl_live :: "string list"

definition pool_new :: "pool_limits \<Rightarrow> mh_error + connection_pool" where
  "pool_new limits =
     (if pm_maximum_total_connections limits = 0 \<or> pm_maximum_connections_per_exit limits = 0 \<or>
         pm_maximum_total_connections limits < pm_maximum_connections_per_exit limits
      then Inl MhInvalidConfiguration
      else Inr \<lparr>pl_limits = limits, pl_total_left = pm_maximum_total_connections limits, pl_per_exit = fmempty, pl_live = []\<rparr>)"

definition pool_try_acquire :: "string \<Rightarrow> connection_pool \<Rightarrow> (mh_error + unit) \<times> connection_pool" where
  "pool_try_acquire exit_id p =
     (if exit_id = [] \<or> 128 < length exit_id then (Inl MhInvalidConfiguration, p)
      else if pl_total_left p = 0 then (Inl MhResourceExhausted, p)
      else
        let current = fm_get_or 0 (pl_per_exit p) exit_id in
        if pm_maximum_connections_per_exit (pl_limits p) \<le> current then (Inl MhResourceExhausted, p)
        else (Inr (), p\<lparr>pl_total_left := pl_total_left p - 1,
                        pl_per_exit := fmupd exit_id (current + 1) (pl_per_exit p), pl_live := exit_id # pl_live p\<rparr>))"

definition pool_release :: "string \<Rightarrow> connection_pool \<Rightarrow> connection_pool" where
  "pool_release exit_id p =
     (let p = (case fmlookup (pl_per_exit p) exit_id of
                 None \<Rightarrow> p
               | Some current \<Rightarrow>
                   p\<lparr>pl_per_exit := (if current - 1 = 0 then fmdrop exit_id (pl_per_exit p)
                                     else fmupd exit_id (current - 1) (pl_per_exit p))\<rparr>) in
      p\<lparr>pl_total_left := pl_total_left p + 1, pl_live := remove1 exit_id (pl_live p)\<rparr>)"

section \<open>Quotas per entry\<close>

record entry_quota_limits =
  ql_maximum_entries :: nat
  ql_maximum_connections_per_entry :: nat
  ql_maximum_sessions_per_entry :: nat
  ql_bytes_per_second :: nat
  ql_burst_bytes :: nat

definition default_entry_quota_limits :: entry_quota_limits where
  "default_entry_quota_limits =
     \<lparr>ql_maximum_entries = 1024, ql_maximum_connections_per_entry = 8, ql_maximum_sessions_per_entry = 2048,
      ql_bytes_per_second = 100 * 1024 * 1024, ql_burst_bytes = 20 * 1024 * 1024\<rparr>"

record entry_state =
  es_connections :: nat
  es_sessions :: nat
  es_available_bytes :: nat
  es_last_refill :: instant

record entry_quotas =
  eq_limits :: entry_quota_limits
  eq_entries :: "(string, entry_state) fmap"
  eq_draining :: bool
  eq_live_connections :: "string list"
  eq_live_sessions :: "string list"

definition quotas_new :: "entry_quota_limits \<Rightarrow> mh_error + entry_quotas" where
  "quotas_new limits =
     (if ql_maximum_entries limits = 0 \<or> ql_maximum_connections_per_entry limits = 0 \<or>
         ql_maximum_sessions_per_entry limits = 0 \<or> ql_bytes_per_second limits = 0 \<or> ql_burst_bytes limits = 0
      then Inl MhInvalidConfiguration
      else Inr \<lparr>eq_limits = limits, eq_entries = fmempty, eq_draining = False, eq_live_connections = [],
                eq_live_sessions = []\<rparr>)"

definition quotas_set_draining :: "bool \<Rightarrow> entry_quotas \<Rightarrow> entry_quotas" where
  "quotas_set_draining draining q = q\<lparr>eq_draining := draining\<rparr>"

definition put_entry :: "string \<Rightarrow> entry_state \<Rightarrow> entry_quotas \<Rightarrow> entry_quotas" where
  "put_entry service_id s q = q\<lparr>eq_entries := fmupd service_id s (eq_entries q)\<rparr>"

definition acquire_connection :: "string \<Rightarrow> instant \<Rightarrow> entry_quotas \<Rightarrow> (mh_error + unit) \<times> entry_quotas" where
  "acquire_connection service_id now q =
     (if eq_draining q then (Inl MhDraining, q)
      else if service_id |\<notin>| fmdom (eq_entries q) \<and> ql_maximum_entries (eq_limits q) \<le> fcard (fmdom (eq_entries q))
      then (Inl MhResourceExhausted, q)
      else
        let s = fm_get_or \<lparr>es_connections = 0, es_sessions = 0, es_available_bytes = ql_burst_bytes (eq_limits q),
              es_last_refill = now\<rparr> (eq_entries q) service_id;
            q = put_entry service_id s q in
        if ql_maximum_connections_per_entry (eq_limits q) \<le> es_connections s then (Inl MhResourceExhausted, q)
        else (Inr (), (put_entry service_id (s\<lparr>es_connections := es_connections s + 1\<rparr>) q)
                \<lparr>eq_live_connections := service_id # eq_live_connections q\<rparr>))"

definition acquire_session :: "string \<Rightarrow> entry_quotas \<Rightarrow> (mh_error + unit) \<times> entry_quotas" where
  "acquire_session service_id q =
     (if eq_draining q then (Inl MhDraining, q)
      else
        tryE (ok_or (fmlookup (eq_entries q) service_id) MhAuthenticationRejected) q (\<lambda>s.
        if ql_maximum_sessions_per_entry (eq_limits q) \<le> es_sessions s then (Inl MhResourceExhausted, q)
        else (Inr (), (put_entry service_id (s\<lparr>es_sessions := es_sessions s + 1\<rparr>) q)
                \<lparr>eq_live_sessions := service_id # eq_live_sessions q\<rparr>)))"

text \<open>\<open>later\<close> is the second reading of the clock, after the elapsed time was taken at \<open>now\<close>.\<close>

definition u64_limit :: nat where "u64_limit = 18446744073709551615"

definition refill :: "entry_quota_limits \<Rightarrow> instant \<Rightarrow> instant \<Rightarrow> entry_state \<Rightarrow> entry_state" where
  "refill limits now later s =
     (let elapsed = now - es_last_refill s in
      if elapsed < 10000000 then s
      else
        let added = min (ql_bytes_per_second limits * elapsed div 1000000000) u64_limit in
        s\<lparr>es_available_bytes := min (min (es_available_bytes s + added) u64_limit) (ql_burst_bytes limits),
          es_last_refill := later\<rparr>)"

definition charge_bytes ::
  "string \<Rightarrow> nat \<Rightarrow> instant \<Rightarrow> instant \<Rightarrow> entry_quotas \<Rightarrow> (mh_error + unit) \<times> entry_quotas" where
  "charge_bytes service_id requested now later q =
     tryE (ok_or (fmlookup (eq_entries q) service_id) MhAuthenticationRejected) q (\<lambda>s.
     let s = refill (eq_limits q) now later s; q = put_entry service_id s q in
     if es_available_bytes s < requested then (Inl MhBackpressure, q)
     else (Inr (), put_entry service_id (s\<lparr>es_available_bytes := es_available_bytes s - requested\<rparr>) q))"

definition quotas_release :: "string \<Rightarrow> bool \<Rightarrow> entry_quotas \<Rightarrow> entry_quotas" where
  "quotas_release service_id connection q =
     (case fmlookup (eq_entries q) service_id of
        None \<Rightarrow> q
      | Some s \<Rightarrow>
          let s = (if connection then s\<lparr>es_connections := es_connections s - 1\<rparr> else s\<lparr>es_sessions := es_sessions s - 1\<rparr>) in
          if es_connections s = 0 \<and> es_sessions s = 0 then q\<lparr>eq_entries := fmdrop service_id (eq_entries q)\<rparr>
          else put_entry service_id s q)"

definition drop_connection_permit :: "string \<Rightarrow> entry_quotas \<Rightarrow> entry_quotas" where
  "drop_connection_permit service_id q =
     (quotas_release service_id True q)\<lparr>eq_live_connections := remove1 service_id (eq_live_connections q)\<rparr>"

definition drop_session_permit :: "string \<Rightarrow> entry_quotas \<Rightarrow> entry_quotas" where
  "drop_session_permit service_id q =
     (quotas_release service_id False q)\<lparr>eq_live_sessions := remove1 service_id (eq_live_sessions q)\<rparr>"

section \<open>Permits and counters\<close>

text \<open>The counters of the pool are the permits that are alive, and stay within the limits.\<close>

definition exit_ok :: "connection_pool \<Rightarrow> string \<Rightarrow> bool" where
  "exit_ok p e \<longleftrightarrow>
     fmlookup (pl_per_exit p) e = (if e \<in> set (pl_live p) then Some (count_list (pl_live p) e) else None) \<and>
     count_list (pl_live p) e \<le> pm_maximum_connections_per_exit (pl_limits p)"

definition pool_inv :: "connection_pool \<Rightarrow> bool" where
  "pool_inv p \<longleftrightarrow>
     pl_total_left p + length (pl_live p) = pm_maximum_total_connections (pl_limits p) \<and> (\<forall>e. exit_ok p e)"

definition pool_start :: "connection_pool \<Rightarrow> bool" where
  "pool_start p \<longleftrightarrow> (\<exists>l. pool_new l = Inr p)"

definition pool_step :: "connection_pool \<Rightarrow> connection_pool \<Rightarrow> bool" where
  "pool_step p p' \<longleftrightarrow> (\<exists>e. p' = snd (pool_try_acquire e p)) \<or> (\<exists>e \<in> set (pl_live p). p' = pool_release e p)"

lemma pool_inv_acquire:
  assumes "pool_inv p"
  shows "pool_inv (snd (pool_try_acquire e p))"
proof -
  have ok: "exit_ok p e" for e using assms by (simp add: pool_inv_def)
  have "exit_ok (snd (pool_try_acquire e p)) d" for d
    using ok [of d] ok [of e] by (auto simp: exit_ok_def pool_try_acquire_def Let_def fm_get_or_def count_list_0_iff split: if_splits)
  then show ?thesis using assms by (auto simp: pool_inv_def pool_try_acquire_def Let_def)
qed

lemma pool_inv_release:
  assumes inv: "pool_inv p" and live: "e \<in> set (pl_live p)"
  shows "pool_inv (pool_release e p)"
proof -
  have ok: "exit_ok p e" for e using inv by (simp add: pool_inv_def)
  have "length (pl_live p) = Suc (length (pl_live p) - Suc 0)" "0 < count_list (pl_live p) e"
    using live by (auto simp: count_list_0_iff intro: gr0I dest: length_pos_if_in_set)
  moreover have "exit_ok (pool_release e p) d" for d
    using ok [of d] ok [of e] live calculation(2)
    by (auto simp: exit_ok_def pool_release_def Let_def count_list_remove1 in_remove1_iff split: if_splits)
  ultimately show ?thesis
    using inv live by (auto simp: pool_inv_def pool_release_def Let_def length_remove1 simp del: Suc_pred split: option.splits)
qed

interpretation poolm: invariant_machine pool_start pool_step pool_inv
proof
  fix p
  assume "pool_start p"
  then show "pool_inv p"
    by (auto simp: pool_start_def pool_new_def pool_inv_def exit_ok_def split: if_splits)
qed (auto simp: pool_step_def intro: pool_inv_acquire pool_inv_release)

text \<open>A released permit can be taken again: no sequence of acquisitions and releases loses capacity.\<close>

lemma pool_capacity_returns:
  assumes "reach pool_start pool_step p" "pl_live p = []" "e \<noteq> []" "length e \<le> 128"
  shows "\<exists>p'. pool_try_acquire e p = (Inr (), p') \<and> pl_live p' = [e]"
proof -
  have inv: "pool_inv p" by (rule poolm.reach_inv [OF assms(1)])
  have "0 < pm_maximum_total_connections (pl_limits p) \<and> 0 < pm_maximum_connections_per_exit (pl_limits p)"
    using assms(1)
    by (induction rule: reach.induct)
      (auto simp: pool_start_def pool_step_def pool_new_def pool_try_acquire_def pool_release_def Let_def split: if_splits option.splits)
  then show ?thesis using inv assms(2-) by (auto simp: pool_inv_def exit_ok_def pool_try_acquire_def Let_def fm_get_or_def)
qed

text \<open>
  The counters of the quotas are the permits that are alive, every entry is there for one of
  them, and the limits are kept.
\<close>

definition entry_ok :: "entry_quotas \<Rightarrow> string \<Rightarrow> bool" where
  "entry_ok q e \<longleftrightarrow>
     (case fmlookup (eq_entries q) e of
        None \<Rightarrow> e \<notin> set (eq_live_connections q) \<and> e \<notin> set (eq_live_sessions q)
      | Some s \<Rightarrow>
          es_connections s = count_list (eq_live_connections q) e \<and> es_sessions s = count_list (eq_live_sessions q) e \<and>
          0 < es_connections s + es_sessions s \<and>
          es_connections s \<le> ql_maximum_connections_per_entry (eq_limits q) \<and>
          es_sessions s \<le> ql_maximum_sessions_per_entry (eq_limits q) \<and>
          es_available_bytes s \<le> ql_burst_bytes (eq_limits q))"

definition quotas_inv :: "entry_quotas \<Rightarrow> bool" where
  "quotas_inv q \<longleftrightarrow>
     (\<forall>e. entry_ok q e) \<and> fcard (fmdom (eq_entries q)) \<le> ql_maximum_entries (eq_limits q) \<and>
     0 < ql_maximum_connections_per_entry (eq_limits q)"

datatype quota_op =
    AcquireConnection string instant
  | AcquireSession string
  | ChargeBytes string nat instant instant
  | DropConnection string
  | DropSession string
  | SetDraining bool

text \<open>Only a permit that is alive is dropped.\<close>

fun quota_apply :: "quota_op \<Rightarrow> entry_quotas \<Rightarrow> (mh_error + unit) \<times> entry_quotas" where
  "quota_apply (AcquireConnection e now) q = acquire_connection e now q"
| "quota_apply (AcquireSession e) q = acquire_session e q"
| "quota_apply (ChargeBytes e n now later) q = charge_bytes e n now later q"
| "quota_apply (DropConnection e) q = (Inr (), if e \<in> set (eq_live_connections q) then drop_connection_permit e q else q)"
| "quota_apply (DropSession e) q = (Inr (), if e \<in> set (eq_live_sessions q) then drop_session_permit e q else q)"
| "quota_apply (SetDraining d) q = (Inr (), quotas_set_draining d q)"

lemma refill_fields [simp]:
  "es_connections (refill l now later s) = es_connections s" "es_sessions (refill l now later s) = es_sessions s"
  by (simp_all add: refill_def Let_def)

lemma refill_bounded: "es_available_bytes s \<le> ql_burst_bytes l \<Longrightarrow> es_available_bytes (refill l now later s) \<le> ql_burst_bytes l"
  by (simp add: refill_def Let_def)

lemma quota_limits_unchanged [simp]:
  "eq_limits (put_entry e s q) = eq_limits q" "eq_limits (snd (acquire_connection e now q)) = eq_limits q"
  "eq_limits (snd (acquire_session e q)) = eq_limits q" "eq_limits (snd (charge_bytes e n now later q)) = eq_limits q"
  "eq_limits (quotas_release e c q) = eq_limits q" "eq_limits (drop_connection_permit e q) = eq_limits q"
  "eq_limits (drop_session_permit e q) = eq_limits q"
  by (simp_all add: put_entry_def acquire_connection_def acquire_session_def charge_bytes_def quotas_release_def
      drop_connection_permit_def drop_session_permit_def tryE_def Let_def split: sum.split option.split)

lemma quotas_inv_acquire_connection:
  assumes "quotas_inv q"
  shows "quotas_inv (snd (acquire_connection e now q))"
proof -
  have ok: "entry_ok q e" for e using assms by (simp add: quotas_inv_def)
  have pos: "0 < ql_maximum_connections_per_entry (eq_limits q)" using assms by (simp add: quotas_inv_def)
  have "entry_ok (snd (acquire_connection e now q)) d" for d
    using ok [of d] ok [of e] pos
    by (auto simp: entry_ok_def acquire_connection_def put_entry_def Let_def fm_get_or_def count_list_0_iff
        split: option.splits if_splits)
  moreover have "fcard (fmdom (eq_entries (snd (acquire_connection e now q)))) \<le> ql_maximum_entries (eq_limits q)"
    using assms by (auto simp: quotas_inv_def acquire_connection_def put_entry_def Let_def fcard_finsert_if)
  ultimately show ?thesis using assms by (simp add: quotas_inv_def)
qed

lemma quotas_inv_acquire_session:
  assumes "quotas_inv q"
  shows "quotas_inv (snd (acquire_session e q))"
proof -
  have ok: "entry_ok q e" for e using assms by (simp add: quotas_inv_def)
  have dom: "fmlookup (eq_entries q) e = Some s \<Longrightarrow> e |\<in>| fmdom (eq_entries q)" for s by (rule fmdomI)
  have "entry_ok (snd (acquire_session e q)) d" for d
    using ok [of d] ok [of e]
    by (auto simp: entry_ok_def acquire_session_def put_entry_def tryE_def ok_or_def split: option.splits if_splits)
  moreover have "fmdom (eq_entries (snd (acquire_session e q))) = fmdom (eq_entries q)"
    using dom by (auto simp: acquire_session_def put_entry_def tryE_def ok_or_def split: option.splits)
  ultimately show ?thesis using assms by (simp add: quotas_inv_def)
qed

lemma charge_bytes_None: "fmlookup (eq_entries q) e = None \<Longrightarrow> charge_bytes e n now later q = (Inl MhAuthenticationRejected, q)"
  by (simp add: charge_bytes_def)

lemma charge_bytes_Some:
  assumes "fmlookup (eq_entries q) e = Some s"
  shows "charge_bytes e n now later q =
    (if es_available_bytes (refill (eq_limits q) now later s) < n
     then (Inl MhBackpressure, put_entry e (refill (eq_limits q) now later s) q)
     else (Inr (), put_entry e (refill (eq_limits q) now later s
            \<lparr>es_available_bytes := es_available_bytes (refill (eq_limits q) now later s) - n\<rparr>) q))"
  using assms by (simp add: charge_bytes_def Let_def put_entry_def)

lemma quotas_inv_put:
  assumes "quotas_inv q" "fmlookup (eq_entries q) e = Some s" "es_connections s' = es_connections s"
    "es_sessions s' = es_sessions s" "es_available_bytes s' \<le> ql_burst_bytes (eq_limits q)"
  shows "quotas_inv (put_entry e s' q)"
proof -
  have ok: "entry_ok q d" for d using assms(1) by (simp add: quotas_inv_def)
  have "entry_ok (put_entry e s' q) d" for d
    using ok [of d] assms(2-) by (cases "d = e") (auto simp: entry_ok_def put_entry_def split: option.splits)
  then show ?thesis using assms(1) fmdomI [OF assms(2)] by (simp add: quotas_inv_def put_entry_def finsert_absorb)
qed

lemma quotas_inv_charge_bytes:
  assumes "quotas_inv q"
  shows "quotas_inv (snd (charge_bytes e n now later q))"
proof (cases "fmlookup (eq_entries q) e")
  case (Some s)
  define s1 where "s1 = refill (eq_limits q) now later s"
  have "entry_ok q e" using assms by (simp add: quotas_inv_def)
  then have "es_available_bytes s1 \<le> ql_burst_bytes (eq_limits q)"
    unfolding s1_def using Some by (intro refill_bounded) (simp add: entry_ok_def)
  then show ?thesis
    using quotas_inv_put [OF assms Some, of s1] quotas_inv_put [OF assms Some, of "s1\<lparr>es_available_bytes := es_available_bytes s1 - n\<rparr>"]
    unfolding charge_bytes_Some [OF Some] by (simp add: s1_def)
qed (use assms in \<open>simp add: charge_bytes_None\<close>)

lemma quotas_inv_drop:
  assumes "quotas_inv q"
  shows "e \<in> set (eq_live_connections q) \<Longrightarrow> quotas_inv (drop_connection_permit e q)"
    and "e \<in> set (eq_live_sessions q) \<Longrightarrow> quotas_inv (drop_session_permit e q)"
proof -
  have ok: "entry_ok q e" for e using assms by (simp add: quotas_inv_def)
  have dom: "fmlookup (eq_entries q) e = Some s \<Longrightarrow> e |\<in>| fmdom (eq_entries q)" for s by (rule fmdomI)
  have card: "fcard (fmdom (eq_entries (quotas_release e c q))) \<le> fcard (fmdom (eq_entries q))" for c
    using dom by (auto simp: quotas_release_def put_entry_def Let_def fcard_finsert_if fcard_fminus1_le split: option.splits)
  show "quotas_inv (drop_connection_permit e q)" if live: "e \<in> set (eq_live_connections q)"
  proof -
    have "entry_ok (drop_connection_permit e q) d" for d
      using ok [of d] ok [of e] live
      by (auto simp: entry_ok_def drop_connection_permit_def quotas_release_def put_entry_def Let_def count_list_remove1
          in_remove1_iff count_list_0_iff split: option.splits if_splits)
    moreover have "eq_entries (drop_connection_permit e q) = eq_entries (quotas_release e True q)" by (simp add: drop_connection_permit_def)
    ultimately show ?thesis using assms le_trans [OF card] by (simp add: quotas_inv_def)
  qed
  show "quotas_inv (drop_session_permit e q)" if live: "e \<in> set (eq_live_sessions q)"
  proof -
    have "entry_ok (drop_session_permit e q) d" for d
      using ok [of d] ok [of e] live
      by (auto simp: entry_ok_def drop_session_permit_def quotas_release_def put_entry_def Let_def count_list_remove1
          in_remove1_iff count_list_0_iff split: option.splits if_splits)
    moreover have "eq_entries (drop_session_permit e q) = eq_entries (quotas_release e False q)" by (simp add: drop_session_permit_def)
    ultimately show ?thesis using assms le_trans [OF card] by (simp add: quotas_inv_def)
  qed
qed

lemma quotas_inv_set_draining: "quotas_inv (quotas_set_draining d q) = quotas_inv q"
  by (simp add: quotas_inv_def entry_ok_def quotas_set_draining_def cong: option.case_cong)

lemma quotas_inv_apply: "quotas_inv q \<Longrightarrow> quotas_inv (snd (quota_apply op q))"
  by (cases op)
    (simp_all add: quotas_inv_acquire_connection quotas_inv_acquire_session quotas_inv_charge_bytes quotas_inv_drop
      quotas_inv_set_draining)

definition quota_start :: "entry_quotas \<Rightarrow> bool" where
  "quota_start q \<longleftrightarrow> (\<exists>l. quotas_new l = Inr q)"

definition quota_step :: "entry_quotas \<Rightarrow> entry_quotas \<Rightarrow> bool" where
  "quota_step q q' \<longleftrightarrow> (\<exists>op. q' = snd (quota_apply op q))"

interpretation quotam: invariant_machine quota_start quota_step quotas_inv
proof
  fix q
  assume "quota_start q"
  then show "quotas_inv q"
    by (auto simp: quota_start_def quotas_new_def quotas_inv_def entry_ok_def fcard.rep_eq split: if_splits)
qed (auto simp: quota_step_def quotas_inv_apply)

section \<open>The rate of an entry\<close>

fun charged_by :: "string \<Rightarrow> quota_op \<Rightarrow> entry_quotas \<Rightarrow> nat" where
  "charged_by e (ChargeBytes d n now later) q = (if d = e \<and> fst (charge_bytes d n now later q) = Inr () then n else 0)"
| "charged_by e _ q = 0"

fun charged_bytes :: "string \<Rightarrow> quota_op list \<Rightarrow> entry_quotas \<Rightarrow> nat" where
  "charged_bytes e [] q = 0"
| "charged_bytes e (op # ops) q = charged_by e op q + charged_bytes e ops (snd (quota_apply op q))"

fun entry_kept :: "string \<Rightarrow> quota_op list \<Rightarrow> entry_quotas \<Rightarrow> bool" where
  "entry_kept e [] q = (e |\<in>| fmdom (eq_entries q))"
| "entry_kept e (op # ops) q = (e |\<in>| fmdom (eq_entries q) \<and> entry_kept e ops (snd (quota_apply op q)))"

fun clock_readings :: "quota_op \<Rightarrow> instant list" where
  "clock_readings (AcquireConnection _ now) = [now]"
| "clock_readings (ChargeBytes _ _ now later) = [now, later]"
| "clock_readings _ = []"

lemma entry_kept_now: "entry_kept e ops q \<Longrightarrow> \<exists>s. fmlookup (eq_entries q) e = Some s"
  by (cases ops) auto

lemma other_ops_keep_bucket:
  assumes "fmlookup (eq_entries q) e = Some s" "fmlookup (eq_entries (snd (quota_apply op q))) e = Some s'"
    "\<And>n now later. op \<noteq> ChargeBytes e n now later"
  shows "es_available_bytes s' = es_available_bytes s \<and> es_last_refill s' = es_last_refill s"
proof (cases op)
  case (AcquireConnection d now)
  then show ?thesis using assms(1,2) by (auto simp: acquire_connection_def put_entry_def Let_def fm_get_or_def split: if_splits)
next
  case (AcquireSession d)
  then show ?thesis
    using assms(1,2) by (auto simp: acquire_session_def put_entry_def tryE_def ok_or_def split: if_splits option.splits)
next
  case (ChargeBytes d n now later)
  then have "d \<noteq> e" using assms(3) by blast
  then show ?thesis
    using ChargeBytes assms(1,2) by (cases "fmlookup (eq_entries q) d") (auto simp: charge_bytes_Some charge_bytes_None put_entry_def split: if_splits)
next
  case (DropConnection d)
  then show ?thesis
    using assms(1,2) by (auto simp: drop_connection_permit_def quotas_release_def put_entry_def Let_def split: if_splits option.splits)
next
  case (DropSession d)
  then show ?thesis
    using assms(1,2) by (auto simp: drop_session_permit_def quotas_release_def put_entry_def Let_def split: if_splits option.splits)
next
  case (SetDraining b)
  then show ?thesis using assms(1,2) by (simp add: quotas_set_draining_def)
qed

lemma refill_within_rate:
  assumes "es_last_refill s \<le> now" "now \<le> later"
  shows "es_last_refill s \<le> es_last_refill (refill l now later s) \<and> es_last_refill (refill l now later s) \<le> later \<and>
    es_available_bytes (refill l now later s) * 1000000000 \<le>
      es_available_bytes s * 1000000000 + ql_bytes_per_second l * (es_last_refill (refill l now later s) - es_last_refill s)"
proof (cases "now - es_last_refill s < 10000000")
  case False
  define a where "a = ql_bytes_per_second l * (now - es_last_refill s) div 1000000000"
  have "a * 1000000000 \<le> ql_bytes_per_second l * (now - es_last_refill s)" unfolding a_def by (rule div_times_less_eq_dividend)
  also have "\<dots> \<le> ql_bytes_per_second l * (later - es_last_refill s)" using assms by (intro mult_le_mono2) simp
  finally have "(es_available_bytes s + a) * 1000000000 \<le> es_available_bytes s * 1000000000 + ql_bytes_per_second l * (later - es_last_refill s)"
    by (simp add: algebra_simps)
  note bound = this
  have last: "es_last_refill (refill l now later s) = later" using False by (simp add: refill_def Let_def)
  have "es_available_bytes (refill l now later s) \<le> es_available_bytes s + a"
    using False by (simp add: refill_def Let_def a_def min_def)
  from le_trans [OF mult_le_mono1 [OF this] bound] show ?thesis unfolding last using assms by simp
qed (use assms in \<open>simp add: refill_def Let_def\<close>)

lemma charge_within_rate:
  assumes look: "fmlookup (eq_entries q) e = Some s" and look': "fmlookup (eq_entries (snd (quota_apply op q))) e = Some s'"
    and clock: "sorted (es_last_refill s # clock_readings op)"
  shows "es_last_refill s \<le> es_last_refill s' \<and> es_last_refill s' \<le> last (es_last_refill s # clock_readings op) \<and>
    (charged_by e op q + es_available_bytes s') * 1000000000 \<le>
      es_available_bytes s * 1000000000 + ql_bytes_per_second (eq_limits q) * (es_last_refill s' - es_last_refill s)"
proof (cases "\<exists>n now later. op = ChargeBytes e n now later")
  case True
  then obtain n now later where op: "op = ChargeBytes e n now later" by blast
  have order: "es_last_refill s \<le> now" "now \<le> later" using clock op by simp_all
  show ?thesis
    using refill_within_rate [OF order, of "eq_limits q"] look' op
    by (auto simp: charge_bytes_Some [OF look] put_entry_def split: if_splits)
next
  case False
  then have "charged_by e op q = 0" by (cases op) auto
  moreover have "es_last_refill s \<le> last (es_last_refill s # clock_readings op)" using clock by (cases op) auto
  ultimately show ?thesis using other_ops_keep_bucket [OF look look'] False by auto
qed

lemma charged_bytes_bound:
  assumes "fmlookup (eq_entries q) e = Some s" "entry_kept e ops q"
    "sorted (es_last_refill s # concat (map clock_readings ops) @ [t])"
  shows "charged_bytes e ops q * 1000000000 \<le>
    es_available_bytes s * 1000000000 + ql_bytes_per_second (eq_limits q) * (t - es_last_refill s)"
  using assms
proof (induction ops arbitrary: q s)
  case (Cons op ops)
  obtain s' where look': "fmlookup (eq_entries (snd (quota_apply op q))) e = Some s'"
    using Cons.prems(2) entry_kept_now by fastforce
  have clock: "sorted (es_last_refill s # clock_readings op)" using Cons.prems(3) by (auto simp: sorted_append)
  note step = charge_within_rate [OF Cons.prems(1) look' clock]
  have limits: "eq_limits (snd (quota_apply op q)) = eq_limits q" by (cases op) (simp_all add: quotas_set_draining_def)
  have clock': "sorted (es_last_refill s' # concat (map clock_readings ops) @ [t])"
  proof (rule sorted_from_last)
    show "sorted (es_last_refill s # clock_readings op @ concat (map clock_readings ops) @ [t])" using Cons.prems(3) by simp
  qed (use step in blast)
  then have "es_last_refill s' \<le> t" by (simp add: sorted_append)
  then have split: "t - es_last_refill s = (es_last_refill s' - es_last_refill s) + (t - es_last_refill s')" using step by arith
  have "entry_kept e ops (snd (quota_apply op q))" using Cons.prems(2) by simp
  from Cons.IH [OF look' this clock'] show ?case
    using conjunct2 [OF conjunct2 [OF step]] by (simp add: limits split add_mult_distrib add_mult_distrib2)
qed simp

text \<open>
  C37. Whatever connections, sessions and charges an exit has seen, its counters per entry are the
  permits that are alive: an entry is known exactly while it holds a permit, holds at most the
  configured numbers of connections and sessions, and there are at most the configured number of
  entries. While the entry stays known, the bytes charged to it up to the time \<open>t\<close> are at most one burst and the
  configured rate times the time since its bucket was last filled.
\<close>

theorem quotas_enforce_limits:
  assumes "reach quota_start quota_step q"
  shows "(fmlookup (eq_entries q) e = None \<longleftrightarrow> e \<notin> set (eq_live_connections q) \<and> e \<notin> set (eq_live_sessions q)) \<and>
    count_list (eq_live_connections q) e \<le> ql_maximum_connections_per_entry (eq_limits q) \<and>
    count_list (eq_live_sessions q) e \<le> ql_maximum_sessions_per_entry (eq_limits q) \<and>
    fcard (fmdom (eq_entries q)) \<le> ql_maximum_entries (eq_limits q) \<and>
    (\<forall>s ops t. fmlookup (eq_entries q) e = Some s \<and> entry_kept e ops q \<and>
       sorted (es_last_refill s # concat (map clock_readings ops) @ [t]) \<longrightarrow>
       charged_bytes e ops q * 1000000000 \<le>
         ql_burst_bytes (eq_limits q) * 1000000000 + ql_bytes_per_second (eq_limits q) * (t - es_last_refill s))"
proof -
  have inv: "quotas_inv q" by (rule quotam.reach_inv [OF assms])
  then have ok: "entry_ok q e" by (simp add: quotas_inv_def)
  have "charged_bytes e ops q * 1000000000 \<le>
      ql_burst_bytes (eq_limits q) * 1000000000 + ql_bytes_per_second (eq_limits q) * (t - es_last_refill s)"
    if "fmlookup (eq_entries q) e = Some s" "entry_kept e ops q"
      "sorted (es_last_refill s # concat (map clock_readings ops) @ [t])" for s ops t
  proof -
    have "es_available_bytes s \<le> ql_burst_bytes (eq_limits q)" using ok that(1) by (simp add: entry_ok_def)
    then show ?thesis using charged_bytes_bound [OF that] by simp
  qed
  moreover have "fcard (fmdom (eq_entries q)) \<le> ql_maximum_entries (eq_limits q)" using inv by (simp add: quotas_inv_def)
  moreover have "fmlookup (eq_entries q) e = None \<longleftrightarrow> e \<notin> set (eq_live_connections q) \<and> e \<notin> set (eq_live_sessions q)"
    "count_list (eq_live_connections q) e \<le> ql_maximum_connections_per_entry (eq_limits q) \<and>
     count_list (eq_live_sessions q) e \<le> ql_maximum_sessions_per_entry (eq_limits q)"
    using ok count_list_0_iff [of "eq_live_connections q" e] count_list_0_iff [of "eq_live_sessions q" e]
    by (auto simp: entry_ok_def split: option.splits)
  ultimately show ?thesis by blast
qed

definition example_quotas :: entry_quotas where
  "example_quotas = \<lparr>eq_limits = \<lparr>ql_maximum_entries = 1, ql_maximum_connections_per_entry = 1, ql_maximum_sessions_per_entry = 1,
     ql_bytes_per_second = 1000, ql_burst_bytes = 100\<rparr>, eq_entries = fmempty, eq_draining = False, eq_live_connections = [],
     eq_live_sessions = []\<rparr>"

lemma example_quotas_start: "quota_start example_quotas"
  unfolding quota_start_def
  by (rule exI [of _ "eq_limits example_quotas"]) (simp add: quotas_new_def example_quotas_def)

lemma example_quotas_connected:
  "snd (quota_apply (AcquireConnection ''e'' 0) example_quotas) = example_quotas\<lparr>
     eq_entries := fmupd ''e'' \<lparr>es_connections = 1, es_sessions = 0, es_available_bytes = 100, es_last_refill = 0\<rparr> fmempty,
     eq_live_connections := [''e'']\<rparr>"
  by (simp add: example_quotas_def acquire_connection_def put_entry_def fm_get_or_def Let_def fcard.rep_eq)

theorem quotas_enforce_limits_witness:
  "let q = snd (quota_apply (AcquireConnection ''e'' 0) example_quotas);
       ops = [ChargeBytes ''e'' 100 5 6, ChargeBytes ''e'' 1 7 8, ChargeBytes ''e'' 20 20000000 20000001] in
   reach quota_start quota_step q \<and> entry_kept ''e'' ops q \<and> charged_bytes ''e'' ops q = 120 \<and>
   charged_bytes ''e'' ops q * 1000000000 \<le> 100 * 1000000000 + 1000 * 20000001"
proof -
  define q where "q = snd (quota_apply (AcquireConnection ''e'' 0) example_quotas)"
  define ops where "ops = [ChargeBytes ''e'' 100 5 6, ChargeBytes ''e'' 1 7 8, ChargeBytes ''e'' 20 20000000 20000001]"
  have reach: "reach quota_start quota_step q"
    unfolding q_def
    by (rule reach_step [OF reach_start [of quota_start, OF example_quotas_start]]) (unfold quota_step_def, rule exI, rule refl)
  have look: "fmlookup (eq_entries q) ''e'' = Some \<lparr>es_connections = 1, es_sessions = 0, es_available_bytes = 100, es_last_refill = 0\<rparr>"
    and limits: "ql_burst_bytes (eq_limits q) = 100" "ql_bytes_per_second (eq_limits q) = 1000"
    unfolding q_def example_quotas_connected by (simp_all add: example_quotas_def)
  have kept: "entry_kept ''e'' ops q" and charged: "charged_bytes ''e'' ops q = 120"
    unfolding q_def example_quotas_connected ops_def
    by (simp_all add: example_quotas_def charge_bytes_def put_entry_def refill_def u64_limit_def Let_def)
  have clock: "sorted (0 # concat (map clock_readings ops) @ [20000001])" by (simp add: ops_def)
  from quotas_enforce_limits [OF reach, of "''e''"] have "\<forall>s ops t. fmlookup (eq_entries q) ''e'' = Some s \<and> entry_kept ''e'' ops q \<and>
       sorted (es_last_refill s # concat (map clock_readings ops) @ [t]) \<longrightarrow>
       charged_bytes ''e'' ops q * 1000000000 \<le> 100 * 1000000000 + 1000 * (t - es_last_refill s)"
    unfolding limits by blast
  from this [rule_format, OF conjI [OF look conjI [OF kept]], of 20000001]
  have "charged_bytes ''e'' ops q * 1000000000 \<le> 100 * 1000000000 + 1000 * 20000001" using clock by simp
  then show ?thesis unfolding Let_def q_def [symmetric] ops_def [symmetric] using reach kept charged by simp
qed

text \<open>
  The bound needs the entry to stay known. An entry that drops its only connection and connects
  again has a full bucket at once: here it is charged two bursts within two nanoseconds.
\<close>

lemma quota_reset_by_reconnecting:
  "charged_bytes ''e''
     [AcquireConnection ''e'' 0, ChargeBytes ''e'' 100 0 0, DropConnection ''e'', AcquireConnection ''e'' 1,
      ChargeBytes ''e'' 100 1 1] example_quotas = 200"
  by (simp add: example_quotas_def acquire_connection_def charge_bytes_def drop_connection_permit_def quotas_release_def
      put_entry_def refill_def fm_get_or_def Let_def fcard.rep_eq)

end
