(* ===== verification/Spec2Isabelle.thy ===== *)
theory Spec2Isabelle
  imports Client_State Handshake Token_Verifier Gateway_Egress Flow_Engine_Stream Multihop_Queue Multihop_Quota
begin

text \<open>
  OnionRoute: a VPN client and gateways that carry TCP flows over Tor. A client holds an
  anonymous capability token, chooses a route of verified gateways, connects to a gateway,
  negotiates a session of the gateway protocol with it, and multiplexes its flows over the
  session; the gateway checks the token, checks every destination and connects to it.

  \<^bold>\<open>Theories and parts of the code.\<close>

  \<^item> \<open>Prelude\<close>: machine types, results with the early return (\<open>'e + 'a\<close>, the error on the left;
    an operation on a state returns the result and the state it leaves behind), strings, finite
    maps, and the locale of a state machine with an invariant, which every stateful component
    interprets.
  \<^item> \<open>Client_State\<close> (\<open>src/crates/common-types/src/state.rs\<close>, \<open>error.rs\<close>, \<open>version.rs\<close>): the
    connection state of the client, the classification of errors and the recovery decision.
    No traffic before the kill switch was applied; protected states fail closed.
  \<^item> \<open>Gateway_Messages\<close> (\<open>src/proto\<close>), \<open>Negotiation\<close>, \<open>Validation\<close>, \<open>Flow_Control\<close>, \<open>Scheduler\<close>,
    \<open>Framing\<close>, \<open>Session\<close>, \<open>Session_Laws\<close>, \<open>Handshake\<close> (\<open>src/crates/gateway-protocol/src\<close>): the
    gateway protocol. Messages are datatypes, a session is a record of ledger, scheduler, sequence
    numbers and phase, and each public function of the crate is one definition. Shown: the
    length prefix and the envelope scan accept exactly the canonical encodings, a frame is read
    back as it was written, by the incremental decoder and by the reader alike; the ledger is
    bounded and two conforming peers never run into a violation; the scheduler refines a ring of
    queues, is fair and exact; the session keeps its invariant, an operation that fails changes
    nothing, and what is flushed is delivered; both ends of a handshake agree, honest ends
    complete it, the server never skips authentication and the client cannot be downgraded.
  \<^item> \<open>Packet\<close> (\<open>src/crates/packet-engine/src/packet.rs\<close>): classification and construction of packets
    with the Internet checksum; what the engine builds is classified as what was given.
  \<^item> \<open>Flow_Engine\<close>, \<open>Flow_Engine_Laws\<close>, \<open>Flow_Engine_Stream\<close> (\<open>src/crates/packet-engine/src\<close>:
    \<open>engine.rs\<close>, \<open>flow.rs\<close>, \<open>action.rs\<close>, \<open>metrics.rs\<close>): the user-space TCP endpoint with its flow
    table and timers. A panic of the code is the value \<open>None\<close>, and no reachable state panics; the
    bytes of a connection are handed on in sequence, once each; nothing is opened or resolved
    without a protected path; a shutdown is final.
  \<^item> \<open>Token_Claims\<close>, \<open>Token_Store\<close>, \<open>Token_Verifier\<close> (\<open>src/crates/auth-tokens/src\<close>): policies, claims
    and their wire format, the store of leases behind a locale, issuer and verifier. An issued
    token verifies; an accepted one was signed by a known key over exactly the accepted claims;
    a redemption is not replayed and sessions per token are bounded.
  \<^item> \<open>Client_Policy\<close> (\<open>src/crates/policy-engine/src/lib.rs\<close> and the route types of
    \<open>src/crates/common-types/src/types.rs\<close>): decisions on flows and the choice of a route.
  \<^item> \<open>Gateway_Acl\<close>, \<open>Gateway_Config\<close>, \<open>Gateway_Sessions\<close>, \<open>Gateway_Dns\<close>, \<open>Gateway_Egress\<close>
    (\<open>src/crates/gateway-daemon/src\<close>: \<open>acl.rs\<close>, \<open>error.rs\<close>, \<open>config.rs\<close>, \<open>session.rs\<close>, \<open>auth.rs\<close>,
    \<open>rate_limit.rs\<close>, \<open>dns.rs\<close>, \<open>egress.rs\<close>, \<open>health.rs\<close>): the daemon behind the protocol. Counters
    of sessions and streams are exact and bounded; the filter refuses whatever the client's
    policy blocks; the resolver lets no refused address through and sends a bounded number of
    queries; only allowed addresses are ever dialled, and an open neither leaks nor forgets a
    stream. The interface between resolver and connector is the locale \<open>checking_resolver\<close>.
  \<^item> \<open>Multihop_Route\<close>, \<open>Multihop_Queue\<close>, \<open>Multihop_Quota\<close> (\<open>src/crates/gateway-multihop/src\<close>:
    \<open>route.rs\<close>, \<open>recovery.rs\<close>, \<open>mux.rs\<close>, \<open>quota.rs\<close>): two-gateway routes. A selected exit is diverse
    and the best available, recovery fails closed, the multiplexer simulates the scheduler of
    the gateway protocol, and the quotas per entry count permits exactly and bound the rate.

  \<^bold>\<open>Correspondence.\<close> Structures are records, enumerations are datatypes, integers that travel on
  the wire or can wrap are words, lengths (\<open>usize\<close>) are natural numbers with the bound of the
  type written out where the code checks it, a hash map is a finite map. A method is a
  function of the same name (with a suffix where the name is taken) that returns its result and
  the new state on every path. Loops are recursive functions: structural on a list or on a
  counter that the code has too (the turns of \<open>read_name\<close>, the steps left in a record loop), or
  with a termination measure (the varint encoder, the alias chase, the lookup loop). There is
  no fuel that the code does not have.

  \<^bold>\<open>Parameters.\<close> Code that is not in the repository is an argument with named hypotheses where a
  theorem needs them: the generated protobuf codec (a decoder that inverts the encoder), SHA-256,
  HMAC, Ed25519, randomness, clocks, sockets, and membership of an address in a network. The level
  of a token bucket is a floating-point number, so that its verdict is an argument as well.

  \<^bold>\<open>Not modelled.\<close> Asynchronous plumbing and I/O: TLS, sockets, tasks and channels, process start,
  the connection handler of the daemon (\<open>protocol.rs\<close>, \<open>wire.rs\<close>, \<open>server.rs\<close>), \<open>client-core\<close>,
  \<open>tor-backend\<close>, \<open>mobile-ffi\<close>, the desktop and mobile applications and the HTTP services;
  \<open>circuit-manager\<close>, \<open>directory-client\<close>, \<open>dns-engine\<close> and the protocol and certificates of
  \<open>gateway-multihop\<close>; trait declarations, formatting, mocks and tests. A lock that is poisoned by a
  panic is not modelled: the error branch for it is never taken.
\<close>

end
